(* ===== verification/Go_Prelude.thy ===== *)
theory Go_Prelude
  imports Main "HOL-Library.Word" "HOL-Library.Finite_Map" "HOL-Library.Multiset"
begin

text \<open>
  The shared vocabulary of the development: Go's clock values, Go maps, slice surgery,
  byte streams and the reachability argument every component uses.

  \<^item> A \<open>time.Time\<close> is an \<open>int\<close>, the nanoseconds since Go's zero time; so
    \<open>IsZero\<close> is \<open>t = 0\<close>, \<open>Before\<close> is \<open><\<close>, \<open>Add\<close> is \<open>+\<close> and
    \<open>Sub\<close> saturates at the range of an int64 \<open>time.Duration\<close>.
  \<^item> A Go map is an \<open>fmap\<close>: finite by type, and reading an absent counter gives 0.
  \<^item> Identifiers (user ids, session ids, auth key ids as int64) and counters that only
    move by one per live connection are \<open>int\<close>; unsigned values whose
    wrap-around the code itself handles are words.
\<close>

named_theorems go_defs \<open>definitions of the model that proofs unfold together\<close>

section \<open>Time\<close>

type_synonym gtime = int
type_synonym gduration = int
type_synonym byte = "8 word"

abbreviation second :: gduration where
  "second \<equiv> 1000000000"

abbreviation millisecond :: gduration where
  "millisecond \<equiv> 1000000"

definition is_zero_time :: "gtime \<Rightarrow> bool" where
  "is_zero_time t \<longleftrightarrow> t = 0"

definition time_sub :: "gtime \<Rightarrow> gtime \<Rightarrow> gduration" where
  "time_sub t u = max (- (2 ^ 63)) (min (2 ^ 63 - 1) (t - u))"

lemma time_sub_ge_iff:
  assumes "0 < d" and "d < 2 ^ 63"
  shows "time_sub t u \<ge> d \<longleftrightarrow> t - u \<ge> d"
  using assms by (auto simp: time_sub_def)

section \<open>Go maps of counters\<close>

definition mget :: "('k, int) fmap \<Rightarrow> 'k \<Rightarrow> int" where
  "mget m k = (case fmlookup m k of None \<Rightarrow> 0 | Some n \<Rightarrow> n)"

definition msize :: "('k, 'v) fmap \<Rightarrow> nat" where
  "msize m = fcard (fmdom m)"

lemma mget_empty [simp]: "mget fmempty k = 0"
  by (simp add: mget_def)

lemma mget_upd [simp]: "mget (fmupd k n m) k' = (if k' = k then n else mget m k')"
  by (simp add: mget_def)

lemma mget_drop [simp]: "mget (fmdrop k m) k' = (if k' = k then 0 else mget m k')"
  by (simp add: mget_def)

lemma msize_empty [simp]: "msize fmempty = 0"
  by (simp add: msize_def)

lemma msize_upd: "msize (fmupd k v m) = (if fmlookup m k = None then Suc (msize m) else msize m)"
proof (cases "fmlookup m k")
  case None
  then have "k |\<notin>| fmdom m" by (simp add: fmdom_notI)
  with None show ?thesis by (simp add: msize_def fcard_finsert_disjoint)
next
  case (Some w)
  then have "finsert k (fmdom m) = fmdom m"
    by (metis finsert_absorb fmdomI)
  with Some show ?thesis by (simp add: msize_def)
qed

lemma msize_filter_le: "msize (fmfilter P m) \<le> msize m"
  by (auto simp: msize_def intro: fcard_mono)

text \<open>
  The counter discipline of the connection limiters: \<open>m[k]++\<close> on the way in and, on the way
  out, \<open>if n := m[k] - 1; n > 0 { m[k] = n } else { delete(m, k) }\<close>.
\<close>

definition minc :: "'k \<Rightarrow> ('k, int) fmap \<Rightarrow> ('k, int) fmap" where
  "minc k m = fmupd k (mget m k + 1) m"

definition mdec :: "'k \<Rightarrow> ('k, int) fmap \<Rightarrow> ('k, int) fmap" where
  "mdec k m = (let n = mget m k - 1 in if n > 0 then fmupd k n m else fmdrop k m)"

lemma mget_minc [simp]: "mget (minc k m) k' = mget m k' + (if k' = k then 1 else 0)"
  by (simp add: minc_def)

lemma mget_mdec:
  "mget (mdec k m) k' = (if k' = k then max 0 (mget m k - 1) else mget m k')"
  by (auto simp: mdec_def Let_def)

text \<open>The map holds an entry only while the count is positive.\<close>

definition counts_positive :: "('k, int) fmap \<Rightarrow> bool" where
  "counts_positive m \<longleftrightarrow> fmpred (\<lambda>_ n. 0 < n) m"

lemma counts_positive_empty [simp]: "counts_positive fmempty"
  by (simp add: counts_positive_def)

lemma counts_positive_nonneg: "counts_positive m \<Longrightarrow> 0 \<le> mget m k"
  by (force simp: counts_positive_def mget_def fmpred_iff split: option.split)

lemma counts_positive_minc: "counts_positive m \<Longrightarrow> counts_positive (minc k m)"
  using counts_positive_nonneg [of m k]
  by (auto simp: counts_positive_def minc_def fmpred_iff)

lemma counts_positive_mdec: "counts_positive m \<Longrightarrow> counts_positive (mdec k m)"
  by (auto simp: counts_positive_def mdec_def Let_def fmpred_iff)

lemma counts_positive_dom: "counts_positive m \<Longrightarrow> k |\<in>| fmdom m \<longleftrightarrow> 0 < mget m k"
  by (auto simp: counts_positive_def mget_def fmpred_iff fmlookup_dom_iff split: option.split)

lemma mdec_minc: "counts_positive m \<Longrightarrow> mdec k (minc k m) = m"
proof (rule fmap_ext)
  fix k' assume "counts_positive m"
  then show "fmlookup (mdec k (minc k m)) k' = fmlookup m k'"
    by (cases "fmlookup m k")
       (auto simp: mdec_def minc_def Let_def mget_def counts_positive_def fmpred_iff)
qed

section \<open>Slices\<close>

text \<open>\<open>append(xs[:i], xs[i+1:]...)\<close>.\<close>

definition remove_at :: "nat \<Rightarrow> 'a list \<Rightarrow> 'a list" where
  "remove_at i xs = take i xs @ drop (Suc i) xs"

lemma length_remove_at [simp]: "i < length xs \<Longrightarrow> length (remove_at i xs) = length xs - 1"
  by (simp add: remove_at_def)

lemma remove_at_0 [simp]: "remove_at 0 xs = tl xs"
  by (simp add: remove_at_def drop_Suc)

lemma mset_remove_at: "i < length xs \<Longrightarrow> mset (remove_at i xs) = mset xs - {# xs ! i #}"
proof -
  assume i: "i < length xs"
  have "mset xs = mset (take i xs @ xs ! i # drop (Suc i) xs)"
    using id_take_nth_drop [OF i] by simp
  then show ?thesis by (simp add: remove_at_def)
qed

lemma set_remove_at: "set (remove_at i xs) \<subseteq> set xs"
  by (auto simp: remove_at_def dest: in_set_takeD in_set_dropD)

lemma distinct_remove_at: "distinct xs \<Longrightarrow> distinct (remove_at i xs)"
  by (auto simp: remove_at_def set_take_disj_set_drop_if_distinct)

lemma map_remove_at: "map f (remove_at i xs) = remove_at i (map f xs)"
  by (simp add: remove_at_def take_map drop_map)

lemma nth_remove_at:
  "i < length xs \<Longrightarrow> j < length xs - 1 \<Longrightarrow>
    remove_at i xs ! j = (if j < i then xs ! j else xs ! Suc j)"
  by (auto simp: remove_at_def nth_append min_def)

text \<open>The first and the last index a loop over a slice finds.\<close>

fun find_index :: "('a \<Rightarrow> bool) \<Rightarrow> 'a list \<Rightarrow> nat option" where
  "find_index P [] = None"
| "find_index P (x # xs) = (if P x then Some 0 else map_option Suc (find_index P xs))"

definition find_last_index :: "('a \<Rightarrow> bool) \<Rightarrow> 'a list \<Rightarrow> nat option" where
  "find_last_index P xs = map_option (\<lambda>i. length xs - 1 - i) (find_index P (rev xs))"

lemma find_index_SomeD:
  "find_index P xs = Some i \<Longrightarrow> i < length xs \<and> P (xs ! i) \<and> (\<forall>j < i. \<not> P (xs ! j))"
proof (induction xs arbitrary: i)
  case (Cons x xs)
  show ?case
  proof (cases "P x")
    case False
    with Cons.prems obtain k where k: "find_index P xs = Some k" "i = Suc k" by auto
    from Cons.IH [OF k(1)] k(2) False show ?thesis
      by (auto simp: less_Suc_eq_0_disj)
  qed (use Cons.prems in auto)
qed simp

lemma find_index_None_iff: "find_index P xs = None \<longleftrightarrow> (\<forall>x \<in> set xs. \<not> P x)"
  by (induction xs) auto

lemma find_index_Some_nth:
  "find_index P xs = Some i \<Longrightarrow> P (xs ! i)"
  "find_index P xs = Some i \<Longrightarrow> i < length xs"
  by (auto dest: find_index_SomeD)

lemma find_last_index_SomeD:
  assumes "find_last_index P xs = Some i"
  shows "i < length xs \<and> P (xs ! i)"
proof -
  from assms obtain k where k: "find_index P (rev xs) = Some k" "i = length xs - 1 - k"
    by (auto simp: find_last_index_def)
  from find_index_SomeD [OF k(1)] have "k < length xs" "P (rev xs ! k)" by auto
  with k(2) show ?thesis by (auto simp: rev_nth)
qed

lemma find_last_index_None_iff: "find_last_index P xs = None \<longleftrightarrow> (\<forall>x \<in> set xs. \<not> P x)"
  by (simp add: find_last_index_def find_index_None_iff)

section \<open>Byte streams\<close>

text \<open>
  What a peer has written before it closed or stalled, as the bytes still unread.
  \<open>io.ReadFull\<close> either takes exactly \<open>n\<close> bytes or fails with all the remaining ones consumed.
\<close>

type_synonym stream = "byte list"

definition read_full :: "nat \<Rightarrow> stream \<Rightarrow> (byte list \<times> stream) option" where
  "read_full n s = (if length s < n then None else Some (take n s, drop n s))"

lemma read_full_Some_iff:
  "read_full n s = Some (a, b) \<longleftrightarrow> s = a @ b \<and> length a = n"
  by (auto simp: read_full_def)

lemma read_full_append: "length a = n \<Longrightarrow> read_full n (a @ b) = Some (a, b)"
  by (simp add: read_full_Some_iff)

section \<open>Reachable states\<close>

text \<open>
  A component is an initial state and a step relation. \<open>invariant_machine\<close> is the contract a
  component offers when it names an invariant: it holds at the start and every step keeps it.
\<close>

inductive reach :: "('s \<Rightarrow> 's \<Rightarrow> bool) \<Rightarrow> 's \<Rightarrow> 's \<Rightarrow> bool" for step :: "'s \<Rightarrow> 's \<Rightarrow> bool" where
  reach_refl: "reach step s s"
| reach_step: "reach step s t \<Longrightarrow> step t u \<Longrightarrow> reach step s u"

locale invariant_machine =
  fixes start :: "'s \<Rightarrow> bool"
    and step :: "'s \<Rightarrow> 's \<Rightarrow> bool"
    and inv :: "'s \<Rightarrow> bool"
  assumes start_inv: "start s \<Longrightarrow> inv s"
    and step_inv: "step s t \<Longrightarrow> inv s \<Longrightarrow> inv t"
begin

lemma reach_keeps: "reach step s t \<Longrightarrow> inv s \<Longrightarrow> inv t"
  by (induction rule: reach.induct) (auto intro: step_inv)

lemma reachable_inv: "start s \<Longrightarrow> reach step s t \<Longrightarrow> inv t"
  by (blast intro: reach_keeps start_inv)

end

lemma reach_trans: "reach step s t \<Longrightarrow> reach step t u \<Longrightarrow> reach step s u"
  by (rotate_tac 1, induction rule: reach.induct) (auto intro: reach.intros)

lemma reach_one: "step s t \<Longrightarrow> reach step s t"
  by (blast intro: reach.intros)

end
