(* ===== verification/Store_Db.thy ===== *)
theory Store_Db
  imports Go_Prelude
begin

text \<open>
  The tables behind messaging and the statements on them (internal/store/db/updatestate.sql.go,
  messages.sql.go, dialogs.sql.go, chats.sql.go). A table is the list of its rows in insertion
  order, or a finite map when it is only ever read by its key. A \<open>tx\<close> is what runs inside a
  transaction: it reads and writes the tables and ends with a value or with an error, and
  \<open>transact\<close> commits or rolls it back. \<open>fault\<close> stands for a failing statement, a violated foreign
  key or a failed commit, each of which rolls the transaction back; \<open>now()\<close> is constant in a
  transaction and is the argument \<open>now\<close>.
\<close>

named_theorems tx_wp \<open>what a transaction's parts establish\<close>

section \<open>Rows\<close>

text \<open>\<open>Time.Unix\<close>; a stored time counts from the year 1.\<close>

definition unixSeconds :: "gtime \<Rightarrow> int" where
  "unixSeconds t = t div second - 62135596800"

type_synonym user_id = int
type_synonym local_id = int

datatype peer_type = PeerTypeUser | PeerTypeChat | PeerTypeChannel

datatype event_type = EventNewMessage | EventEdit | EventDelete | EventReadIn | EventReadOut

datatype chat_action = ChatActionNone | ChatActionCreate | ChatActionAddUser | ChatActionDeleteUser | ChatActionEditTitle

record message_row =
  m_owner :: user_id
  m_local :: local_id
  m_peerType :: peer_type
  m_peer :: int
  m_from :: user_id
  m_date :: gtime
  m_text :: string
  m_out :: bool
  m_editDate :: "gtime option"
  m_deleted :: bool
  m_random :: int
  m_peerLocal :: local_id
  m_fanout :: int
  m_action :: chat_action
  m_actionUser :: user_id
  m_file :: int
  m_replyTo :: "int option"
  m_fwdFrom :: "user_id option"
  m_fwdDate :: "gtime option"
  m_fwdChannel :: "int option"
  m_fwdPost :: "int option"

record update_state =
  us_pts :: int
  us_seq :: int
  us_date :: gtime
  us_nextLocal :: local_id
  us_qts :: int

record message_event =
  ev_owner :: user_id
  ev_pts :: int
  ev_type :: event_type
  ev_local :: local_id

record dialog_row =
  dg_top :: local_id
  dg_unread :: int
  dg_readInbox :: local_id
  dg_readOutbox :: local_id

record chat_row =
  ch_title :: string
  ch_creator :: user_id
  ch_version :: int
  ch_date :: gtime
  ch_pinned :: "local_id option"
  ch_banned :: "string list"

record participant =
  pt_chat :: int
  pt_user :: user_id
  pt_inviter :: user_id
  pt_date :: gtime
  pt_admin :: bool

record file_row =
  fl_stored :: bool
  fl_rights :: "string list option"

datatype secret_chat_state = SecretChatRequested | SecretChatActive | SecretChatDiscarded

record secret_chat =
  sc_id :: int
  sc_admin :: user_id
  sc_participant :: user_id
  sc_state :: secret_chat_state
  sc_gAHash :: "byte list"
  sc_gA :: "byte list"
  sc_gAOrB :: "byte list option"
  sc_fingerprint :: "int option"
  sc_random :: int
  sc_date :: gtime

record encrypted_event =
  ee_owner :: user_id
  ee_qts :: int
  ee_chat :: int
  ee_random :: int
  ee_bytes :: "byte list"
  ee_date :: gtime

record database =
  d_state :: "(user_id, update_state) fmap"
  d_messages :: "message_row list"
  d_events :: "message_event list"
  d_dialogs :: "(user_id \<times> peer_type \<times> int, dialog_row) fmap"
  d_chats :: "(int, chat_row) fmap"
  d_chatSeq :: int
  d_participants :: "participant list"
  d_fanoutSeq :: int
  d_files :: "(int, file_row) fmap"
  d_blocked :: "(user_id \<times> user_id) list"
  d_secretChats :: "secret_chat list"
  d_secretSeq :: int
  d_encrypted :: "encrypted_event list"

text \<open>The database after the migrations, with the files and blocks other components keep.\<close>

definition empty_db :: "(int, file_row) fmap \<Rightarrow> (user_id \<times> user_id) list \<Rightarrow> database" where
  "empty_db files blocked =
     \<lparr>d_state = fmempty, d_messages = [], d_events = [], d_dialogs = fmempty, d_chats = fmempty, d_chatSeq = 0,
      d_participants = [], d_fanoutSeq = 0, d_files = files, d_blocked = blocked, d_secretChats = [],
      d_secretSeq = 0, d_encrypted = []\<rparr>"

section \<open>Transactions\<close>

datatype store_error = ErrStorage | ErrMessageInvalid | ErrNotMember | ErrChatFull | ErrFileMissing | ErrPtsUnknown
  | ErrChatWriteForbidden | ErrSecretChatsTooMany | ErrSecretChatNotFound | ErrSecretChatStale

type_synonym 'a tx = "database \<Rightarrow> store_error + ('a \<times> database)"

definition ret :: "'a \<Rightarrow> 'a tx" where
  "ret x = (\<lambda>d. Inr (x, d))"

definition fail :: "store_error \<Rightarrow> 'a tx" where
  "fail e = (\<lambda>d. Inl e)"

definition andThen :: "'a tx \<Rightarrow> ('a \<Rightarrow> 'b tx) \<Rightarrow> 'b tx" where
  "andThen m f = (\<lambda>d. case m d of Inl e \<Rightarrow> Inl e | Inr (x, d') \<Rightarrow> f x d')"

definition query :: "(database \<Rightarrow> 'a) \<Rightarrow> 'a tx" where
  "query f = (\<lambda>d. Inr (f d, d))"

definition exec :: "(database \<Rightarrow> database) \<Rightarrow> unit tx" where
  "exec f = (\<lambda>d. Inr ((), f d))"

text \<open>A \<open>:one\<close> query whose missing row is an error.\<close>

definition the_row :: "store_error \<Rightarrow> 'a option \<Rightarrow> 'a tx" where
  "the_row e r = (case r of None \<Rightarrow> fail e | Some x \<Rightarrow> ret x)"

definition guard :: "bool \<Rightarrow> store_error \<Rightarrow> unit tx" where
  "guard b e = (if b then ret () else fail e)"

text \<open>A loop over a slice that carries local variables.\<close>

fun foreach :: "('x \<Rightarrow> 's \<Rightarrow> 's tx) \<Rightarrow> 'x list \<Rightarrow> 's \<Rightarrow> 's tx" where
  "foreach f [] s = ret s"
| "foreach f (x # xs) s = andThen (f x s) (foreach f xs)"

definition transact :: "bool \<Rightarrow> 'a tx \<Rightarrow> database \<Rightarrow> (store_error + 'a) \<times> database" where
  "transact fault m d =
     (if fault then (Inl ErrStorage, d)
      else case m d of Inl e \<Rightarrow> (Inl e, d) | Inr (x, d') \<Rightarrow> (Inr x, d'))"

text \<open>What a transaction establishes: \<open>E\<close> of the error it ends with, or \<open>Q\<close> of its result.\<close>

definition wp :: "'a tx \<Rightarrow> (store_error \<Rightarrow> bool) \<Rightarrow> ('a \<Rightarrow> database \<Rightarrow> bool) \<Rightarrow> database \<Rightarrow> bool" where
  "wp m E Q d = (case m d of Inl e \<Rightarrow> E e | Inr (x, d') \<Rightarrow> Q x d')"

lemma wp_ret [tx_wp]: "wp (ret x) E Q = Q x"
  by (simp add: wp_def ret_def fun_eq_iff)

lemma wp_fail [tx_wp]: "wp (fail e) E Q = (\<lambda>d. E e)"
  by (simp add: wp_def fail_def fun_eq_iff)

lemma wp_andThen [tx_wp]: "wp (andThen m f) E Q = wp m E (\<lambda>x. wp (f x) E Q)"
  by (simp add: wp_def andThen_def fun_eq_iff split: sum.split)

lemma wp_query [tx_wp]: "wp (query f) E Q = (\<lambda>d. Q (f d) d)"
  by (simp add: wp_def query_def fun_eq_iff)

lemma wp_exec [tx_wp]: "wp (exec f) E Q = (\<lambda>d. Q () (f d))"
  by (simp add: wp_def exec_def fun_eq_iff)

lemma wp_the_row [tx_wp]: "wp (the_row e r) E Q d = (case r of None \<Rightarrow> E e | Some x \<Rightarrow> Q x d)"
  by (simp add: the_row_def wp_ret wp_fail split: option.split)

lemma wp_guard [tx_wp]: "wp (guard b e) E Q d = (if b then Q () d else E e)"
  by (simp add: guard_def wp_ret wp_fail)

lemma wp_if [tx_wp]: "wp (if b then m else n) E Q d = (if b then wp m E Q d else wp n E Q d)"
  by simp

lemma wp_Let [tx_wp]: "wp (let x = a in m x) E Q d = (let x = a in wp (m x) E Q d)"
  by simp

lemma wp_option [tx_wp]:
  "wp (case r of None \<Rightarrow> m | Some x \<Rightarrow> f x) E Q d = (case r of None \<Rightarrow> wp m E Q d | Some x \<Rightarrow> wp (f x) E Q d)"
  by (simp split: option.split)

lemma wp_prod [tx_wp]: "wp (case p of (a, b) \<Rightarrow> f a b) E Q d = (case p of (a, b) \<Rightarrow> wp (f a b) E Q d)"
  by (simp split: prod.split)

lemma wp_mono: "wp m E Q d \<Longrightarrow> (\<And>e. E e \<Longrightarrow> E' e) \<Longrightarrow> (\<And>x d'. Q x d' \<Longrightarrow> Q' x d') \<Longrightarrow> wp m E' Q' d"
  by (auto simp: wp_def split: sum.splits)

lemma wp_conj: "wp m E Q d \<Longrightarrow> wp m E' Q' d \<Longrightarrow> wp m (\<lambda>e. E e \<and> E' e) (\<lambda>x d'. Q x d' \<and> Q' x d') d"
  by (auto simp: wp_def split: sum.splits)

lemma wp_foreach:
  assumes "\<And>x s d. x \<in> set xs \<Longrightarrow> I s d \<Longrightarrow> wp (f x s) E I d" and "I s d"
  shows "wp (foreach f xs s) E I d"
  using assms
proof (induction xs arbitrary: s d)
  case (Cons x xs)
  have "wp (f x s) E I d" using Cons.prems by simp
  then show ?case unfolding foreach.simps wp_andThen
    by (rule wp_mono) (use Cons in \<open>auto simp del: foreach.simps\<close>)
qed (simp add: wp_ret)

text \<open>A transaction that keeps what every commit must keep leaves it kept, faults included.\<close>

lemma transact_keeps:
  assumes "wp m (\<lambda>_. True) (\<lambda>_. P) d" and "P d"
  shows "P (snd (transact fault m d))"
  using assms by (auto simp: transact_def wp_def split: sum.splits)

lemma transact_result:
  assumes "wp m E Q d"
  shows "case transact False m d of (Inl e, d') \<Rightarrow> E e \<and> d' = d | (Inr x, d') \<Rightarrow> Q x d'"
  using assms by (auto simp: transact_def wp_def split: sum.splits)

section \<open>Update state and event log\<close>

definition GetState :: "user_id \<Rightarrow> update_state option tx" where
  "GetState u = query (\<lambda>d. fmlookup (d_state d) u)"

definition EnsureUpdateState :: "gtime \<Rightarrow> user_id \<Rightarrow> unit tx" where
  "EnsureUpdateState now u = exec (\<lambda>d.
     case fmlookup (d_state d) u of
       None \<Rightarrow> d\<lparr>d_state := fmupd u \<lparr>us_pts = 0, us_seq = 0, us_date = now, us_nextLocal = 1, us_qts = 0\<rparr> (d_state d)\<rparr>
     | Some _ \<Rightarrow> d)"

text \<open>The new pts and the local id just consumed; no row is an error.\<close>

definition BumpState :: "gtime \<Rightarrow> user_id \<Rightarrow> (int \<times> local_id) tx" where
  "BumpState now u =
     andThen (GetState u) (\<lambda>r.
     andThen (the_row ErrStorage r) (\<lambda>s.
     andThen (exec (\<lambda>d. d\<lparr>d_state := fmupd u (s\<lparr>us_pts := us_pts s + 1, us_nextLocal := us_nextLocal s + 1, us_date := now\<rparr>) (d_state d)\<rparr>)) (\<lambda>_.
     ret (us_pts s + 1, us_nextLocal s))))"

definition BumpPtsOnly :: "gtime \<Rightarrow> user_id \<Rightarrow> int tx" where
  "BumpPtsOnly now u =
     andThen (GetState u) (\<lambda>r.
     andThen (the_row ErrStorage r) (\<lambda>s.
     andThen (exec (\<lambda>d. d\<lparr>d_state := fmupd u (s\<lparr>us_pts := us_pts s + 1, us_date := now\<rparr>) (d_state d)\<rparr>)) (\<lambda>_.
     ret (us_pts s + 1))))"

definition BumpQts :: "gtime \<Rightarrow> user_id \<Rightarrow> int tx" where
  "BumpQts now u =
     andThen (GetState u) (\<lambda>r.
     andThen (the_row ErrStorage r) (\<lambda>s.
     andThen (exec (\<lambda>d. d\<lparr>d_state := fmupd u (s\<lparr>us_qts := us_qts s + 1, us_date := now\<rparr>) (d_state d)\<rparr>)) (\<lambda>_.
     ret (us_qts s + 1))))"

definition InsertEvent :: "user_id \<Rightarrow> int \<Rightarrow> event_type \<Rightarrow> local_id \<Rightarrow> unit tx" where
  "InsertEvent u pts typ l =
     andThen (query (\<lambda>d. list_ex (\<lambda>e. ev_owner e = u \<and> ev_pts e = pts) (d_events d))) (\<lambda>taken.
     andThen (guard (\<not> taken) ErrStorage) (\<lambda>_.
     exec (\<lambda>d. d\<lparr>d_events := d_events d @ [\<lparr>ev_owner = u, ev_pts = pts, ev_type = typ, ev_local = l\<rparr>]\<rparr>)))"

definition NewMessagePts :: "user_id \<Rightarrow> local_id \<Rightarrow> int option tx" where
  "NewMessagePts u l = query (\<lambda>d.
     map_option ev_pts (find (\<lambda>e. ev_owner e = u \<and> ev_local e = l \<and> ev_type e = EventNewMessage) (d_events d)))"

definition newMessagePts :: "user_id \<Rightarrow> local_id \<Rightarrow> int tx" where
  "newMessagePts u l = andThen (NewMessagePts u l) (the_row ErrPtsUnknown)"

text \<open>The window is ordered by pts; the log of one owner is a primary key on it.\<close>

definition EventsWindow :: "user_id \<Rightarrow> int \<Rightarrow> int \<Rightarrow> nat \<Rightarrow> database \<Rightarrow> message_event list" where
  "EventsWindow u from to lim d =
     take lim (sort_key ev_pts (filter (\<lambda>e. ev_owner e = u \<and> from < ev_pts e \<and> ev_pts e \<le> to) (d_events d)))"

definition EventsSince :: "user_id \<Rightarrow> int \<Rightarrow> database \<Rightarrow> message_event list" where
  "EventsSince u from d = sort_key ev_pts (filter (\<lambda>e. ev_owner e = u \<and> from < ev_pts e) (d_events d))"

section \<open>Messages\<close>

definition row_at :: "user_id \<Rightarrow> local_id \<Rightarrow> message_row \<Rightarrow> bool" where
  "row_at u l m \<longleftrightarrow> m_owner m = u \<and> m_local m = l"

definition MessageByOwnerLocal :: "user_id \<Rightarrow> local_id \<Rightarrow> database \<Rightarrow> message_row option" where
  "MessageByOwnerLocal u l d = find (row_at u l) (d_messages d)"

definition MessageByRandomID :: "user_id \<Rightarrow> int \<Rightarrow> database \<Rightarrow> message_row option" where
  "MessageByRandomID u r d = find (\<lambda>m. m_owner m = u \<and> m_random m = r \<and> m_random m \<noteq> 0) (d_messages d)"

definition MessagesByFanout :: "int \<Rightarrow> database \<Rightarrow> message_row list" where
  "MessagesByFanout f d = sort_key m_owner (filter (\<lambda>m. m_fanout m = f \<and> m_fanout m \<noteq> 0) (d_messages d))"

definition NextFanoutID :: "int tx" where
  "NextFanoutID = (\<lambda>d. Inr (d_fanoutSeq d + 1, d\<lparr>d_fanoutSeq := d_fanoutSeq d + 1\<rparr>))"

text \<open>The primary key and the partial unique index on the dedup token refuse a second row.\<close>

definition message_clash :: "message_row \<Rightarrow> database \<Rightarrow> bool" where
  "message_clash m d \<longleftrightarrow>
     list_ex (\<lambda>r. m_owner r = m_owner m \<and> (m_local r = m_local m \<or> m_random m \<noteq> 0 \<and> m_random r = m_random m)) (d_messages d)"

definition InsertMessage :: "message_row \<Rightarrow> unit tx" where
  "InsertMessage m =
     andThen (query (message_clash m)) (\<lambda>clash.
     andThen (guard (\<not> clash) ErrStorage) (\<lambda>_.
     exec (\<lambda>d. d\<lparr>d_messages := d_messages d @ [m]\<rparr>)))"

definition update_message :: "user_id \<Rightarrow> local_id \<Rightarrow> (message_row \<Rightarrow> message_row) \<Rightarrow> database \<Rightarrow> database" where
  "update_message u l f d = d\<lparr>d_messages := map (\<lambda>m. if row_at u l m then f m else m) (d_messages d)\<rparr>"

definition SetEditedText :: "gtime \<Rightarrow> user_id \<Rightarrow> local_id \<Rightarrow> string \<Rightarrow> unit tx" where
  "SetEditedText now u l text = exec (update_message u l (\<lambda>m. m\<lparr>m_text := text, m_editDate := Some now\<rparr>))"

text \<open>True when a row changed.\<close>

definition SetDeleted :: "user_id \<Rightarrow> local_id \<Rightarrow> bool tx" where
  "SetDeleted u l =
     andThen (query (\<lambda>d. list_ex (\<lambda>m. row_at u l m \<and> \<not> m_deleted m) (d_messages d))) (\<lambda>changed.
     andThen (exec (update_message u l (\<lambda>m. m\<lparr>m_deleted := True\<rparr>))) (\<lambda>_.
     ret changed))"

section \<open>Dialogs\<close>

definition UpsertDialog :: "user_id \<Rightarrow> peer_type \<Rightarrow> int \<Rightarrow> local_id \<Rightarrow> int \<Rightarrow> unit tx" where
  "UpsertDialog u pt p topMessage unread = exec (\<lambda>d. d\<lparr>d_dialogs := fmupd (u, pt, p)
     (case fmlookup (d_dialogs d) (u, pt, p) of
        None \<Rightarrow> \<lparr>dg_top = topMessage, dg_unread = unread, dg_readInbox = 0, dg_readOutbox = 0\<rparr>
      | Some g \<Rightarrow> g\<lparr>dg_top := topMessage, dg_unread := dg_unread g + unread\<rparr>) (d_dialogs d)\<rparr>)"

definition unread_above :: "user_id \<Rightarrow> peer_type \<Rightarrow> int \<Rightarrow> local_id \<Rightarrow> database \<Rightarrow> int" where
  "unread_above u pt p l d =
     int (length (filter (\<lambda>m. m_owner m = u \<and> m_peerType m = pt \<and> m_peer m = p \<and> \<not> m_out m \<and> \<not> m_deleted m \<and> l < m_local m)
       (d_messages d)))"

text \<open>The inbox marker after the update; None when there is no such dialog.\<close>

definition AdvanceReadInbox :: "local_id \<Rightarrow> user_id \<Rightarrow> peer_type \<Rightarrow> int \<Rightarrow> local_id option tx" where
  "AdvanceReadInbox maxID u pt p =
     andThen (query (\<lambda>d. fmlookup (d_dialogs d) (u, pt, p))) (\<lambda>r.
     case r of
       None \<Rightarrow> ret None
     | Some g \<Rightarrow>
         let m = max (dg_readInbox g) maxID in
         andThen (exec (\<lambda>d. d\<lparr>d_dialogs := fmupd (u, pt, p)
           (g\<lparr>dg_readInbox := m, dg_readOutbox := (if u = p then max (dg_readOutbox g) maxID else dg_readOutbox g),
              dg_unread := unread_above u pt p m d\<rparr>) (d_dialogs d)\<rparr>)) (\<lambda>_.
         ret (Some m)))"

definition AdvanceChatReadInbox :: "local_id \<Rightarrow> user_id \<Rightarrow> peer_type \<Rightarrow> int \<Rightarrow> local_id option tx" where
  "AdvanceChatReadInbox maxID u pt p =
     andThen (query (\<lambda>d. fmlookup (d_dialogs d) (u, pt, p))) (\<lambda>r.
     case r of
       None \<Rightarrow> ret None
     | Some g \<Rightarrow>
         let m = max (dg_readInbox g) maxID in
         andThen (exec (\<lambda>d. d\<lparr>d_dialogs := fmupd (u, pt, p)
           (g\<lparr>dg_readInbox := m, dg_unread := unread_above u pt p m d\<rparr>) (d_dialogs d)\<rparr>)) (\<lambda>_.
         ret (Some m)))"

text \<open>The number of rows changed.\<close>

definition AdvanceReadOutbox :: "user_id \<Rightarrow> peer_type \<Rightarrow> int \<Rightarrow> local_id \<Rightarrow> nat tx" where
  "AdvanceReadOutbox u pt p l =
     andThen (query (\<lambda>d. fmlookup (d_dialogs d) (u, pt, p))) (\<lambda>r.
     case r of
       None \<Rightarrow> ret 0
     | Some g \<Rightarrow>
         andThen (exec (\<lambda>d. d\<lparr>d_dialogs := fmupd (u, pt, p) (g\<lparr>dg_readOutbox := max (dg_readOutbox g) l\<rparr>) (d_dialogs d)\<rparr>)) (\<lambda>_.
         ret 1))"

definition ReadMarkers :: "user_id \<Rightarrow> peer_type \<Rightarrow> int \<Rightarrow> database \<Rightarrow> (local_id \<times> local_id) option" where
  "ReadMarkers u pt p d = map_option (\<lambda>g. (dg_readInbox g, dg_readOutbox g)) (fmlookup (d_dialogs d) (u, pt, p))"

section \<open>Chats\<close>

definition IsChatMember :: "int \<Rightarrow> user_id \<Rightarrow> database \<Rightarrow> bool" where
  "IsChatMember c u d \<longleftrightarrow> list_ex (\<lambda>p. pt_chat p = c \<and> pt_user p = u) (d_participants d)"

definition ChatParticipants :: "int \<Rightarrow> database \<Rightarrow> participant list" where
  "ChatParticipants c d = sort_key pt_user (filter (\<lambda>p. pt_chat p = c) (d_participants d))"

definition InsertChat :: "gtime \<Rightarrow> string \<Rightarrow> user_id \<Rightarrow> (int \<times> chat_row) tx" where
  "InsertChat now title creator = (\<lambda>d.
     let c = d_chatSeq d + 1;
         r = \<lparr>ch_title = title, ch_creator = creator, ch_version = 1, ch_date = now, ch_pinned = None, ch_banned = []\<rparr>
     in Inr ((c, r), d\<lparr>d_chatSeq := c, d_chats := fmupd c r (d_chats d)\<rparr>))"

definition InsertChatParticipant :: "gtime \<Rightarrow> int \<Rightarrow> user_id \<Rightarrow> user_id \<Rightarrow> unit tx" where
  "InsertChatParticipant now c u inviter =
     andThen (query (IsChatMember c u)) (\<lambda>taken.
     andThen (guard (\<not> taken) ErrStorage) (\<lambda>_.
     exec (\<lambda>d. d\<lparr>d_participants := d_participants d @
       [\<lparr>pt_chat = c, pt_user = u, pt_inviter = inviter, pt_date = now, pt_admin = False\<rparr>]\<rparr>)))"

definition InsertChatParticipantIfAbsent :: "gtime \<Rightarrow> int \<Rightarrow> user_id \<Rightarrow> user_id \<Rightarrow> bool tx" where
  "InsertChatParticipantIfAbsent now c u inviter =
     andThen (query (IsChatMember c u)) (\<lambda>taken.
     if taken then ret False
     else andThen (exec (\<lambda>d. d\<lparr>d_participants := d_participants d @
       [\<lparr>pt_chat = c, pt_user = u, pt_inviter = inviter, pt_date = now, pt_admin = False\<rparr>]\<rparr>)) (\<lambda>_. ret True))"

definition DeleteChatParticipant :: "int \<Rightarrow> user_id \<Rightarrow> bool tx" where
  "DeleteChatParticipant c u =
     andThen (query (IsChatMember c u)) (\<lambda>present.
     andThen (exec (\<lambda>d. d\<lparr>d_participants := filter (\<lambda>p. \<not> (pt_chat p = c \<and> pt_user p = u)) (d_participants d)\<rparr>)) (\<lambda>_.
     ret present))"

text \<open>\<open>UPDATE chats SET ..., version = version + 1 WHERE id = ... RETURNING\<close>; no row is an error.\<close>

definition update_chat :: "int \<Rightarrow> (chat_row \<Rightarrow> chat_row) \<Rightarrow> chat_row tx" where
  "update_chat c f =
     andThen (query (\<lambda>d. fmlookup (d_chats d) c)) (\<lambda>r.
     andThen (the_row ErrStorage r) (\<lambda>ch.
     let ch' = (f ch)\<lparr>ch_version := ch_version ch + 1\<rparr> in
     andThen (exec (\<lambda>d. d\<lparr>d_chats := fmupd c ch' (d_chats d)\<rparr>)) (\<lambda>_. ret ch')))"

definition BumpChatVersion :: "int \<Rightarrow> chat_row tx" where
  "BumpChatVersion c = update_chat c (\<lambda>ch. ch)"

definition SetChatTitle_stmt :: "int \<Rightarrow> string \<Rightarrow> chat_row tx" where
  "SetChatTitle_stmt c title = update_chat c (\<lambda>ch. ch\<lparr>ch_title := title\<rparr>)"

definition SetChatPinnedMessage_stmt :: "int \<Rightarrow> local_id option \<Rightarrow> chat_row tx" where
  "SetChatPinnedMessage_stmt c l = update_chat c (\<lambda>ch. ch\<lparr>ch_pinned := l\<rparr>)"

definition SetChatDefaultBannedRights_stmt :: "int \<Rightarrow> string list \<Rightarrow> chat_row tx" where
  "SetChatDefaultBannedRights_stmt c rights = update_chat c (\<lambda>ch. ch\<lparr>ch_banned := rights\<rparr>)"

definition IsBlocked :: "user_id \<Rightarrow> user_id \<Rightarrow> database \<Rightarrow> bool" where
  "IsBlocked blocker blocked d \<longleftrightarrow> (blocker, blocked) \<in> set (d_blocked d)"

end
