(* ===== verification/Fan_Out.thy ===== *)
theory Fan_Out
  imports Store_Db
begin

text \<open>
  Group chats: the fan-out of one chat message to every member (internal/store/fanout.go), the
  membership mutations that announce themselves through it (chats.go) and the default restrictions
  they respect (chat_permissions.go). The chats row lock serializes a chat's member set and the
  owners' advisory locks serialize their rows, so a transaction is one step from the moment it holds
  them; what it reads before, it reads from an earlier database, the argument \<open>d0\<close>.
\<close>

section \<open>Shared helpers\<close>

definition to_int32 :: "int \<Rightarrow> int" where
  "to_int32 x = sint (word_of_int x :: 32 word)"

definition ascendingUnique :: "int list \<Rightarrow> int list" where
  "ascendingUnique ids = remdups_adj (sort ids)"

definition LockFileForReference :: "int \<Rightarrow> unit tx" where
  "LockFileForReference f =
     andThen (query (\<lambda>d. fmlookup (d_files d) f)) (\<lambda>r. andThen (the_row ErrFileMissing r) (\<lambda>_. ret ()))"

definition lockFileRefs :: "int list \<Rightarrow> unit tx" where
  "lockFileRefs ids = foreach (\<lambda>f _. LockFileForReference f) (ascendingUnique (filter (\<lambda>i. i \<noteq> 0) ids)) ()"

record message_struct =
  OwnerID :: user_id
  LocalID :: local_id
  PeerType :: peer_type
  PeerID :: int
  FromID :: user_id
  Date :: gtime
  Text :: string
  Out :: bool
  EditDate :: "gtime option"
  Deleted :: bool
  RandomID :: int
  PeerLocalID :: local_id
  FanoutID :: int
  FileID :: int
  Action :: chat_action
  ActionUserID :: user_id
  ReplyToMsgID :: int
  FwdFromID :: user_id
  FwdDate :: gtime
  FwdChannelID :: int
  FwdChannelPost :: int

definition or_zero :: "int option \<Rightarrow> int" where
  "or_zero r = (case r of None \<Rightarrow> 0 | Some x \<Rightarrow> x)"

definition messageFromRow :: "message_row \<Rightarrow> message_struct" where
  "messageFromRow r =
     \<lparr>OwnerID = m_owner r, LocalID = m_local r, PeerType = m_peerType r, PeerID = m_peer r, FromID = m_from r,
      Date = m_date r, Text = m_text r, Out = m_out r, EditDate = m_editDate r, Deleted = m_deleted r,
      RandomID = m_random r, PeerLocalID = m_peerLocal r, FanoutID = m_fanout r, FileID = m_file r,
      Action = m_action r, ActionUserID = m_actionUser r, ReplyToMsgID = or_zero (m_replyTo r),
      FwdFromID = or_zero (m_fwdFrom r), FwdDate = or_zero (m_fwdDate r), FwdChannelID = or_zero (m_fwdChannel r),
      FwdChannelPost = or_zero (m_fwdPost r)\<rparr>"

text \<open>\<open>replyTo\<close> of a client's message id: absent at 0, else the id in the wire's 32 bits.\<close>

definition reply_ref :: "int \<Rightarrow> int option" where
  "reply_ref l = (if l > 0 then Some (to_int32 l) else None)"

section \<open>Default restrictions\<close>

definition chatMediaSubtypeRights :: "string list" where
  "chatMediaSubtypeRights = [''send_stickers'', ''send_gifs'', ''send_videos'', ''send_roundvideos'', ''send_audios'', ''send_voices'']"

definition hasChatRight :: "string list \<Rightarrow> string \<Rightarrow> bool" where
  "hasChatRight rights right \<longleftrightarrow> right \<in> set rights"

text \<open>The nil slice and the empty slice differ: nil means the subtypes are unknown.\<close>

definition checkDefaultMessageRestriction :: "string list \<Rightarrow> bool \<Rightarrow> bool \<Rightarrow> string list option \<Rightarrow> store_error option" where
  "checkDefaultMessageRestriction rights exempt media mediaRights =
     (if exempt then None
      else if hasChatRight rights ''send_messages'' then Some ErrChatWriteForbidden
      else if media
      then if hasChatRight rights ''send_media'' \<or> hasChatRight rights ''send_docs'' then Some ErrChatWriteForbidden
           else if list_ex (hasChatRight rights) (case mediaRights of None \<Rightarrow> chatMediaSubtypeRights | Some rs \<Rightarrow> rs)
           then Some ErrChatWriteForbidden
           else None
      else if hasChatRight rights ''send_plain'' then Some ErrChatWriteForbidden
      else None)"

definition check :: "store_error option \<Rightarrow> unit tx" where
  "check r = (case r of None \<Rightarrow> ret () | Some e \<Rightarrow> fail e)"

lemma wp_check [tx_wp]: "wp (check r) E Q d = (case r of None \<Rightarrow> Q () d | Some e \<Rightarrow> E e)"
  by (simp add: check_def wp_ret wp_fail split: option.split)

section \<open>The fan-out\<close>

abbreviation maxChatParticipants :: nat where
  "maxChatParticipants \<equiv> 200"

record fan_out =
  f_chat :: int
  f_from :: user_id
  f_text :: string
  f_action :: chat_action
  f_actionUser :: user_id
  f_random :: int
  f_file :: int
  f_mediaRights :: "string list option"
  f_replyTo :: local_id
  f_extra :: "user_id list"
  f_fwdFrom :: "user_id option"
  f_fwdDate :: "gtime option"
  f_fwdChannel :: "int option"
  f_fwdPost :: "int option"

text \<open>The members, then each of \<open>Extra\<close> that is not 0 and not there yet.\<close>

fun merge_extra :: "user_id list \<Rightarrow> user_id list \<Rightarrow> user_id list" where
  "merge_extra owners [] = owners"
| "merge_extra owners (x # xs) = (if x = 0 \<or> x \<in> set owners then merge_extra owners xs else merge_extra (owners @ [x]) xs)"

definition ptsFor :: "user_id list \<Rightarrow> (user_id, int) fmap tx" where
  "ptsFor owners = foreach (\<lambda>u acc.
     andThen (GetState u) (\<lambda>r. andThen (the_row ErrStorage r) (\<lambda>s. ret (fmupd u (us_pts s) acc)))) owners fmempty"

definition fanoutPts :: "message_row \<Rightarrow> user_id list \<Rightarrow> (user_id, int) fmap tx" where
  "fanoutPts existing owners =
     (if m_fanout existing = 0 then ptsFor owners
      else andThen (query (MessagesByFanout (m_fanout existing))) (\<lambda>copies.
        foreach (\<lambda>c acc. andThen (newMessagePts (m_owner c) (m_local c)) (\<lambda>pts. ret (fmupd (m_owner c) pts acc))) copies fmempty))"

definition fan_row :: "gtime \<Rightarrow> fan_out \<Rightarrow> int \<Rightarrow> user_id \<Rightarrow> local_id \<Rightarrow> message_row" where
  "fan_row now f fanoutID u l =
     \<lparr>m_owner = u, m_local = l, m_peerType = PeerTypeChat, m_peer = f_chat f, m_from = f_from f, m_date = now,
      m_text = f_text f, m_out = (u = f_from f), m_editDate = None, m_deleted = False,
      m_random = (if u = f_from f then f_random f else 0), m_peerLocal = 0, m_fanout = fanoutID,
      m_action = f_action f, m_actionUser = f_actionUser f, m_file = f_file f, m_replyTo = reply_ref (f_replyTo f),
      m_fwdFrom = f_fwdFrom f, m_fwdDate = f_fwdDate f, m_fwdChannel = f_fwdChannel f, m_fwdPost = f_fwdPost f\<rparr>"

text \<open>The body of the loop over the owners; it carries their pts and the sender's local id.\<close>

definition fan_copy :: "gtime \<Rightarrow> fan_out \<Rightarrow> int \<Rightarrow> user_id \<Rightarrow> (user_id, int) fmap \<times> local_id \<Rightarrow> ((user_id, int) fmap \<times> local_id) tx" where
  "fan_copy now f fanoutID u acc =
     andThen (EnsureUpdateState now u) (\<lambda>_.
     andThen (BumpState now u) (\<lambda>b.
     andThen (InsertMessage (fan_row now f fanoutID u (snd b))) (\<lambda>_.
     andThen (InsertEvent u (fst b) EventNewMessage (snd b)) (\<lambda>_.
     andThen (UpsertDialog u PeerTypeChat (f_chat f) (snd b) (if u = f_from f then 0 else 1)) (\<lambda>_.
     ret (fmupd u (fst b) (fst acc), if u = f_from f then snd b else snd acc))))))"

definition fan_write :: "gtime \<Rightarrow> fan_out \<Rightarrow> user_id list \<Rightarrow> (message_struct option \<times> (user_id, int) fmap \<times> bool) tx" where
  "fan_write now f owners =
     andThen NextFanoutID (\<lambda>fanoutID.
     andThen (foreach (fan_copy now f fanoutID) owners (fmempty, 0)) (\<lambda>acc.
     if snd acc \<noteq> 0
     then andThen (query (MessageByOwnerLocal (f_from f) (snd acc))) (\<lambda>r.
          andThen (the_row ErrStorage r) (\<lambda>m. ret (Some (messageFromRow m), fst acc, False)))
     else ret (None, fst acc, False)))"

text \<open>The sender's copy (None for the zero \<open>Message\<close>), the pts of every owner, and whether it was a resend.\<close>

definition fanOut :: "gtime \<Rightarrow> database \<Rightarrow> fan_out \<Rightarrow> (message_struct option \<times> (user_id, int) fmap \<times> bool) tx" where
  "fanOut now d0 f =
     andThen (guard (f_chat f \<noteq> 0 \<and> f_from f \<noteq> 0) ErrMessageInvalid) (\<lambda>_.
     andThen (guard (f_action f = ChatActionNone \<longrightarrow> IsChatMember (f_chat f) (f_from f) d0) ErrNotMember) (\<lambda>_.
     andThen (query (\<lambda>d. fmlookup (d_chats d) (f_chat f))) (\<lambda>r.
     andThen (the_row ErrNotMember r) (\<lambda>chat.
     andThen (query (\<lambda>d. map pt_user (ChatParticipants (f_chat f) d))) (\<lambda>members.
     andThen (guard (f_action f = ChatActionNone \<longrightarrow> f_from f \<in> set members) ErrNotMember) (\<lambda>_.
     let owners = merge_extra members (f_extra f) in
     andThen (guard (owners \<noteq> []) ErrNotMember) (\<lambda>_.
     andThen (guard (length owners \<le> maxChatParticipants) ErrChatFull) (\<lambda>_.
     andThen (lockFileRefs [f_file f]) (\<lambda>_.
     andThen (query (MessageByRandomID (f_from f) (f_random f))) (\<lambda>dup.
     case (if f_random f \<noteq> 0 then dup else None) of
       Some existing \<Rightarrow>
         andThen (fanoutPts existing owners) (\<lambda>pts. ret (Some (messageFromRow existing), pts, True))
     | None \<Rightarrow>
         andThen (check (if f_action f = ChatActionNone
             then checkDefaultMessageRestriction (ch_banned chat) (f_from f = ch_creator chat) (f_file f \<noteq> 0) (f_mediaRights f)
             else None)) (\<lambda>_.
         fan_write now f owners)))))))))))"

definition SendChatMessage :: "bool \<Rightarrow> gtime \<Rightarrow> database \<Rightarrow> fan_out \<Rightarrow> database \<Rightarrow>
    (store_error + message_struct option \<times> (user_id, int) fmap \<times> bool) \<times> database" where
  "SendChatMessage fault now d0 f = transact fault (fanOut now d0 f)"

section \<open>Membership\<close>

text \<open>The creator and each distinct invitee, in order; None past the cap.\<close>

fun collect_members :: "user_id list \<Rightarrow> user_id list \<Rightarrow> user_id list option" where
  "collect_members members [] = Some members"
| "collect_members members (x # xs) =
     (if x \<in> set members then collect_members members xs
      else if length members + 1 > maxChatParticipants then None
      else collect_members (members @ [x]) xs)"

definition CreateChat :: "bool \<Rightarrow> gtime \<Rightarrow> user_id \<Rightarrow> string \<Rightarrow> user_id list \<Rightarrow> database \<Rightarrow>
    (store_error + int \<times> chat_row) \<times> database" where
  "CreateChat fault now creator title invitees d =
     (case collect_members [creator] invitees of
        None \<Rightarrow> (Inl ErrChatFull, d)
      | Some members \<Rightarrow>
          transact fault
            (andThen (query (\<lambda>d. filter (\<lambda>u. u = creator \<or> \<not> IsBlocked u creator d) members)) (\<lambda>members.
             andThen (InsertChat now title creator) (\<lambda>row.
             andThen (foreach (\<lambda>u _. InsertChatParticipant now (fst row) u creator) members ()) (\<lambda>_.
             ret row)))) d)"

record chat_mutation =
  cm_creator :: user_id
  cm_banned :: "string list"
  cm_members :: "user_id list"

definition beginChatMutation :: "database \<Rightarrow> int \<Rightarrow> user_id \<Rightarrow> chat_mutation tx" where
  "beginChatMutation d0 c caller =
     andThen (guard (IsChatMember c caller d0) ErrNotMember) (\<lambda>_.
     andThen (query (\<lambda>d. fmlookup (d_chats d) c)) (\<lambda>r.
     andThen (the_row ErrNotMember r) (\<lambda>chat.
     andThen (query (\<lambda>d. map pt_user (ChatParticipants c d))) (\<lambda>members.
     andThen (guard (caller \<in> set members) ErrNotMember) (\<lambda>_.
     ret \<lparr>cm_creator = ch_creator chat, cm_banned = ch_banned chat, cm_members = members\<rparr>)))))"

definition removeParticipant :: "int \<Rightarrow> user_id \<Rightarrow> bool tx" where
  "removeParticipant c u = DeleteChatParticipant c u"

definition service_message :: "int \<Rightarrow> user_id \<Rightarrow> string \<Rightarrow> chat_action \<Rightarrow> user_id \<Rightarrow> user_id list \<Rightarrow> fan_out" where
  "service_message c caller text action subject extra =
     \<lparr>f_chat = c, f_from = caller, f_text = text, f_action = action, f_actionUser = subject, f_random = 0, f_file = 0,
      f_mediaRights = None, f_replyTo = 0, f_extra = extra, f_fwdFrom = None, f_fwdDate = None, f_fwdChannel = None,
      f_fwdPost = None\<rparr>"

text \<open>A block seen before the owner locks (in \<open>d0\<close>) refuses as one seen under them does.\<close>

definition AddChatUser :: "bool \<Rightarrow> gtime \<Rightarrow> database \<Rightarrow> int \<Rightarrow> user_id \<Rightarrow> user_id \<Rightarrow> database \<Rightarrow>
    (store_error + (message_struct option \<times> (user_id, int) fmap) option) \<times> database" where
  "AddChatUser fault now d0 c target caller = transact fault (
     andThen (beginChatMutation d0 c caller) (\<lambda>m.
     let fresh = target \<notin> set (cm_members m) in
     andThen (guard (\<not> (fresh \<and> caller \<noteq> cm_creator m \<and> hasChatRight (cm_banned m) ''invite_users'')) ErrChatWriteForbidden) (\<lambda>_.
     andThen (guard (\<not> (fresh \<and> IsBlocked target caller d0)) ErrNotMember) (\<lambda>_.
     andThen (query (IsBlocked target caller)) (\<lambda>blocked.
     andThen (guard (\<not> (fresh \<and> blocked)) ErrNotMember) (\<lambda>_.
     andThen (guard (\<not> (fresh \<and> length (cm_members m) \<ge> maxChatParticipants)) ErrChatFull) (\<lambda>_.
     andThen (InsertChatParticipantIfAbsent now c target caller) (\<lambda>added.
     if \<not> added then ret None
     else andThen (BumpChatVersion c) (\<lambda>_.
          andThen (fanOut now d0 (service_message c caller [] ChatActionAddUser target [])) (\<lambda>r.
          ret (Some (fst r, fst (snd r)))))))))))))"

definition RemoveChatUser :: "bool \<Rightarrow> gtime \<Rightarrow> database \<Rightarrow> int \<Rightarrow> user_id \<Rightarrow> user_id \<Rightarrow> database \<Rightarrow>
    (store_error + (message_struct option \<times> (user_id, int) fmap) option) \<times> database" where
  "RemoveChatUser fault now d0 c target caller = transact fault (
     andThen (beginChatMutation d0 c caller) (\<lambda>m.
     andThen (guard (\<not> (target = cm_creator m \<or> caller \<noteq> cm_creator m \<and> target \<noteq> caller)) ErrNotMember) (\<lambda>_.
     andThen (removeParticipant c target) (\<lambda>removed.
     if \<not> removed then ret None
     else andThen (BumpChatVersion c) (\<lambda>_.
          andThen (fanOut now d0 (service_message c caller [] ChatActionDeleteUser target [target])) (\<lambda>r.
          ret (Some (fst r, fst (snd r)))))))))"

definition SetChatTitle :: "bool \<Rightarrow> gtime \<Rightarrow> database \<Rightarrow> int \<Rightarrow> user_id \<Rightarrow> string \<Rightarrow> database \<Rightarrow>
    (store_error + chat_row \<times> message_struct option \<times> (user_id, int) fmap) \<times> database" where
  "SetChatTitle fault now d0 c caller title = transact fault (
     andThen (beginChatMutation d0 c caller) (\<lambda>m.
     andThen (guard (caller = cm_creator m) ErrNotMember) (\<lambda>_.
     andThen (SetChatTitle_stmt c title) (\<lambda>row.
     andThen (fanOut now d0 (service_message c caller title ChatActionEditTitle 0 [])) (\<lambda>r.
     ret (row, fst r, fst (snd r)))))))"

text \<open>Sorted and compacted, two slices are equal when they hold the same rights.\<close>

definition sameDefaultBannedRights :: "string list \<Rightarrow> string list \<Rightarrow> bool" where
  "sameDefaultBannedRights a b \<longleftrightarrow> set a = set b"

text \<open>None when the stored set already equals the requested one.\<close>

definition SetChatDefaultBannedRights :: "bool \<Rightarrow> database \<Rightarrow> int \<Rightarrow> user_id \<Rightarrow> string list \<Rightarrow> database \<Rightarrow>
    (store_error + chat_row option) \<times> database" where
  "SetChatDefaultBannedRights fault d0 c caller rights = transact fault (
     andThen (beginChatMutation d0 c caller) (\<lambda>m.
     andThen (guard (caller = cm_creator m) ErrNotMember) (\<lambda>_.
     if sameDefaultBannedRights (cm_banned m) rights then ret None
     else andThen (SetChatDefaultBannedRights_stmt c rights) (\<lambda>row. ret (Some row)))))"

definition SetChatPinnedMessage :: "bool \<Rightarrow> database \<Rightarrow> int \<Rightarrow> user_id \<Rightarrow> local_id option \<Rightarrow> database \<Rightarrow>
    (store_error + chat_row \<times> user_id list) \<times> database" where
  "SetChatPinnedMessage fault d0 c caller pinned = transact fault (
     andThen (beginChatMutation d0 c caller) (\<lambda>m.
     andThen (case pinned of
         None \<Rightarrow> ret ()
       | Some l \<Rightarrow>
           andThen (query (MessageByOwnerLocal caller l)) (\<lambda>r.
           andThen (the_row ErrMessageInvalid r) (\<lambda>msg.
           guard (\<not> (m_deleted msg \<or> m_peerType msg \<noteq> PeerTypeChat \<or> m_peer msg \<noteq> c)) ErrMessageInvalid))) (\<lambda>_.
     andThen (SetChatPinnedMessage_stmt c pinned) (\<lambda>row.
     ret (row, cm_members m)))))"

definition CheckChatWritePermission :: "database \<Rightarrow> int \<Rightarrow> user_id \<Rightarrow> int \<Rightarrow> string list option \<Rightarrow> bool tx" where
  "CheckChatWritePermission d0 c caller random mediaRights =
     andThen (beginChatMutation d0 c caller) (\<lambda>m.
     andThen (query (MessageByRandomID caller random)) (\<lambda>dup.
     if random \<noteq> 0 \<and> dup \<noteq> None then ret True
     else andThen (check (checkDefaultMessageRestriction (cm_banned m) (caller = cm_creator m) True mediaRights)) (\<lambda>_.
          ret False)))"

end
