(* ===== verification/Peer_Hash.thy ===== *)
theory Peer_Hash
  imports Store_Db
begin

text \<open>
  Peer access hashes: \<open>peerhash.go\<close> and the peer resolution of \<open>api/peers.go\<close>. HMAC-SHA256 and HKDF
  are the arguments \<open>hmac\<close> and \<open>hkdf\<close>; an int64 is an \<open>int\<close> that \<open>putInt64\<close> reads modulo \<open>2 ^ 64\<close>.
\<close>

section \<open>The derivation\<close>

datatype kind = KindUser | KindChat | KindChannel | KindSecret

fun kind_value :: "kind \<Rightarrow> 32 word" where
  "kind_value KindUser = 1"
| "kind_value KindChat = 2"
| "kind_value KindChannel = 3"
| "kind_value KindSecret = 4"

text \<open>\<open>binary.BigEndian.PutUint64\<close>, \<open>PutUint32\<close> and \<open>Uint64\<close>.\<close>

definition PutUint64 :: "64 word \<Rightarrow> byte list" where
  "PutUint64 w = map (\<lambda>i. ucast (drop_bit (8 * i) w)) [7, 6, 5, 4, 3, 2, 1, 0]"

definition PutUint32 :: "32 word \<Rightarrow> byte list" where
  "PutUint32 w = map (\<lambda>i. ucast (drop_bit (8 * i) w)) [3, 2, 1, 0]"

definition Uint64 :: "byte list \<Rightarrow> 64 word" where
  "Uint64 bs = foldl (\<lambda>acc b. push_bit 8 acc + ucast b) 0 bs"

definition putInt64 :: "int \<Rightarrow> byte list" where
  "putInt64 v = PutUint64 (word_of_int v)"

definition subkey_len :: nat where
  "subkey_len = 32"

definition ascii_bytes :: "string \<Rightarrow> byte list" where
  "ascii_bytes s = map of_char s"

definition subkeyInfo :: "byte list" where
  "subkeyInfo = ascii_bytes ''telegram-server/peer-access-hash/subkey/v1''"

definition label :: "byte list" where
  "label = ascii_bytes ''tg-peer-access-hash-v1''"

definition Subkey :: "(byte list \<Rightarrow> byte list \<Rightarrow> nat \<Rightarrow> byte list option) \<Rightarrow> byte list \<Rightarrow> byte list option" where
  "Subkey hkdf master = (if length master \<noteq> subkey_len then None else hkdf master subkeyInfo subkey_len)"

record deriver =
  dv_key :: "byte list"

definition NewDeriver :: "byte list \<Rightarrow> deriver option" where
  "NewDeriver subkey = (if length subkey \<noteq> subkey_len then None else Some \<lparr>dv_key = subkey\<rparr>)"

definition mac_input :: "user_id \<Rightarrow> kind \<Rightarrow> int \<Rightarrow> byte list" where
  "mac_input viewer k peer = label @ putInt64 viewer @ PutUint32 (kind_value k) @ putInt64 peer"

definition Derive :: "(byte list \<Rightarrow> byte list \<Rightarrow> byte list) \<Rightarrow> deriver \<Rightarrow> user_id \<Rightarrow> kind \<Rightarrow> int \<Rightarrow> int" where
  "Derive hmac d viewer k peer = sint (Uint64 (take 8 (hmac (dv_key d) (mac_input viewer k peer))))"

section \<open>Peers on the wire\<close>

datatype input_peer = InputPeerEmpty | InputPeerSelf | InputPeerUser user_id int | InputPeerChat int | InputPeerChannel int int
  | InputPeerUserFromMessage | InputPeerChannelFromMessage

datatype input_user = InputUserEmpty | InputUserSelf | InputUser user_id int | InputUserFromMessage

datatype peer_tl = PeerUser user_id | PeerChat int | PeerChannel int

text \<open>None is \<open>PEER_ID_INVALID\<close>; \<open>derive\<close> is the deriver's method.\<close>

definition peerUserID :: "(user_id \<Rightarrow> kind \<Rightarrow> int \<Rightarrow> int) \<Rightarrow> input_peer \<Rightarrow> user_id \<Rightarrow> user_id option" where
  "peerUserID derive peer viewer =
     (case peer of
        InputPeerSelf \<Rightarrow> if viewer = 0 then None else Some viewer
      | InputPeerUser u hash \<Rightarrow> if u = 0 then None else if hash \<noteq> derive viewer KindUser u then None else Some u
      | _ \<Rightarrow> None)"

fun peerToTL :: "peer_type \<Rightarrow> int \<Rightarrow> peer_tl" where
  "peerToTL PeerTypeChat p = PeerChat p"
| "peerToTL PeerTypeChannel p = PeerChannel p"
| "peerToTL PeerTypeUser p = PeerUser p"

definition inputPeer :: "(user_id \<Rightarrow> kind \<Rightarrow> int \<Rightarrow> int) \<Rightarrow> input_peer \<Rightarrow> user_id \<Rightarrow> (peer_type \<times> int) option" where
  "inputPeer derive peer viewer =
     (case peer of
        InputPeerChat c \<Rightarrow> if c = 0 then None else Some (PeerTypeChat, c)
      | InputPeerChannel c hash \<Rightarrow>
          if c = 0 then None else if hash \<noteq> derive viewer KindChannel c then None else Some (PeerTypeChannel, c)
      | p \<Rightarrow> (case peerUserID derive p viewer of None \<Rightarrow> None | Some u \<Rightarrow> Some (PeerTypeUser, u)))"

fun replyPeerIsDest :: "input_peer \<Rightarrow> peer_type \<Rightarrow> int \<Rightarrow> user_id \<Rightarrow> bool" where
  "replyPeerIsDest InputPeerEmpty destType dest self = True"
| "replyPeerIsDest InputPeerSelf destType dest self = (destType = PeerTypeUser \<and> dest = self)"
| "replyPeerIsDest (InputPeerUser u _) destType dest self = (destType = PeerTypeUser \<and> dest = u)"
| "replyPeerIsDest (InputPeerChat c) destType dest self = (destType = PeerTypeChat \<and> dest = c)"
| "replyPeerIsDest (InputPeerChannel c _) destType dest self = (destType = PeerTypeChannel \<and> dest = c)"
| "replyPeerIsDest _ destType dest self = False"

definition inputUserID :: "(user_id \<Rightarrow> kind \<Rightarrow> int \<Rightarrow> int) \<Rightarrow> input_user \<Rightarrow> user_id \<Rightarrow> user_id option" where
  "inputUserID derive u viewer =
     (case u of
        InputUserSelf \<Rightarrow> if viewer = 0 then None else Some viewer
      | InputUser v hash \<Rightarrow> peerUserID derive (InputPeerUser v hash) viewer
      | _ \<Rightarrow> None)"

section \<open>Injectivity\<close>

lemma bit_byte: "bit (ucast (drop_bit (8 * i) w) :: byte) n \<longleftrightarrow> n < 8 \<and> bit w (8 * i + n)" for w :: "'a::len word"
  by (auto simp: bit_simps)

lemma byte_bits:
  fixes w v :: "'a::len word"
  assumes "\<And>i. i < k \<Longrightarrow> (ucast (drop_bit (8 * i) w) :: byte) = ucast (drop_bit (8 * i) v)" and "LENGTH('a) = 8 * k"
  shows "w = v"
proof (rule bit_word_eqI)
  fix n assume "n < LENGTH('a)"
  then have i: "n div 8 < k" using assms(2) by auto
  have "bit (ucast (drop_bit (8 * (n div 8)) w) :: byte) (n mod 8) = bit (ucast (drop_bit (8 * (n div 8)) v) :: byte) (n mod 8)"
    by (simp only: assms(1) [OF i])
  then show "bit w n = bit v n" unfolding bit_byte by simp
qed

lemma nat_below: "i < 8 \<longleftrightarrow> i \<in> {0, 1, 2, 3, 4, 5, 6, 7}" "i < 4 \<longleftrightarrow> i \<in> {0, 1, 2, 3}" for i :: nat
  by auto

lemma PutUint64_inj: "PutUint64 w = PutUint64 v \<Longrightarrow> w = v"
  by (rule byte_bits [where k = 8]) (auto simp: PutUint64_def nat_below)

lemma PutUint32_inj: "PutUint32 w = PutUint32 v \<Longrightarrow> w = v"
  by (rule byte_bits [where k = 4]) (auto simp: PutUint32_def nat_below)

lemma kind_value_inj: "kind_value k = kind_value k' \<Longrightarrow> k = k'"
  by (cases k; cases k') simp_all

definition int64 :: "int \<Rightarrow> bool" where
  "int64 x \<longleftrightarrow> - (2 ^ 63) \<le> x \<and> x < 2 ^ 63"

lemma word_of_int64: "int64 x \<Longrightarrow> sint (word_of_int x :: 64 word) = x"
  unfolding int64_def by (subst sint_sbintrunc') (simp add: signed_take_bit_int_eq_self_iff)

lemma putInt64_inj:
  assumes "int64 x" and "int64 y" and "putInt64 x = putInt64 y"
  shows "x = y"
proof -
  have "(word_of_int x :: 64 word) = word_of_int y" by (rule PutUint64_inj) (use assms(3) in \<open>simp only: putInt64_def\<close>)
  then have "sint (word_of_int x :: 64 word) = sint (word_of_int y :: 64 word)" by (simp only:)
  then show ?thesis by (simp only: word_of_int64 [OF assms(1)] word_of_int64 [OF assms(2)])
qed

lemma put_lengths: "length (putInt64 v) = 8" "length (PutUint32 w) = 4"
  by (simp_all add: putInt64_def PutUint64_def PutUint32_def)

text \<open>
  C40. No two references share a MAC input: over int64 ids, the bytes the access hash is computed
  from determine the viewer, the kind of peer and the peer, although the fields are laid out without
  a length prefix and the id spaces of the kinds overlap.
\<close>

theorem mac_input_determines:
  assumes "int64 viewer" "int64 viewer'" "int64 peer" "int64 peer'"
  shows "mac_input viewer k peer = mac_input viewer' k' peer' \<longleftrightarrow> viewer = viewer' \<and> k = k' \<and> peer = peer'"
  using putInt64_inj [OF assms(1,2)] putInt64_inj [OF assms(3,4)]
  by (auto simp: mac_input_def put_lengths dest!: PutUint32_inj kind_value_inj)

theorem mac_input_determines_witness:
  "mac_input 7 KindUser (- 1) \<noteq> mac_input 7 KindSecret (- 1) \<and> mac_input 7 KindUser 9 \<noteq> mac_input 9 KindUser 7"
  using mac_input_determines [of 7 7 "- 1" "- 1" KindUser KindSecret] mac_input_determines [of 7 9 9 7 KindUser KindUser]
  by (simp add: int64_def)

end
