(* ===== verification/Wire_Messages.thy ===== *)
theory Wire_Messages
  imports Fan_Out Peer_Hash
begin

text \<open>
  Stored messages on the wire: the mappers of \<open>api/updates.go\<close>. A string is a list of bytes as
  characters; \<open>utf8.DecodeRuneInString\<close> and \<open>DecodeLastRuneInString\<close> are the functions below.
\<close>

section \<open>Reply snippets\<close>

definition runeError :: int where
  "runeError = 0xFFFD"

definition byte_at :: "string \<Rightarrow> nat \<Rightarrow> int" where
  "byte_at s i = (if i < length s then of_char (s ! i) else - 1)"

definition cont :: "int \<Rightarrow> bool" where
  "cont b \<longleftrightarrow> 0x80 \<le> b \<and> b \<le> 0xBF"

definition decodeRune :: "string \<Rightarrow> int \<times> nat" where
  "decodeRune s =
     (let b0 = byte_at s 0; b1 = byte_at s 1; b2 = byte_at s 2; b3 = byte_at s 3 in
      if s = [] then (runeError, 0)
      else if b0 < 0x80 then (b0, 1)
      else if 0xC2 \<le> b0 \<and> b0 \<le> 0xDF \<and> cont b1 then ((b0 - 0xC0) * 64 + (b1 - 0x80), 2)
      else if 0xE0 \<le> b0 \<and> b0 \<le> 0xEF \<and> cont b1 \<and> (b0 = 0xE0 \<longrightarrow> 0xA0 \<le> b1) \<and> (b0 = 0xED \<longrightarrow> b1 \<le> 0x9F) \<and> cont b2
      then ((b0 - 0xE0) * 4096 + (b1 - 0x80) * 64 + (b2 - 0x80), 3)
      else if 0xF0 \<le> b0 \<and> b0 \<le> 0xF4 \<and> cont b1 \<and> (b0 = 0xF0 \<longrightarrow> 0x90 \<le> b1) \<and> (b0 = 0xF4 \<longrightarrow> b1 \<le> 0x8F) \<and> cont b2 \<and> cont b3
      then ((b0 - 0xF0) * 262144 + (b1 - 0x80) * 4096 + (b2 - 0x80) * 64 + (b3 - 0x80), 4)
      else (runeError, 1))"

text \<open>The last start byte among the three before the final one, or the first byte looked at.\<close>

definition lastStart :: "string \<Rightarrow> nat" where
  "lastStart s =
     (let e = length s; lim = e - 4 in
      case find (\<lambda>i. \<not> cont (byte_at s i)) (rev [lim..<e - 1]) of
        Some i \<Rightarrow> i
      | None \<Rightarrow> lim - 1)"

definition decodeLastRune :: "string \<Rightarrow> int \<times> nat" where
  "decodeLastRune s =
     (if s = [] then (runeError, 0)
      else if byte_at s (length s - 1) < 0x80 then (byte_at s (length s - 1), 1)
      else let st = lastStart s; (r, n) = decodeRune (drop st s) in
        if st + n \<noteq> length s then (runeError, 1) else (r, n))"

definition replySnippet :: "string \<Rightarrow> string" where
  "replySnippet s =
     (if length s \<le> 25 then s
      else let trunc = take 25 s; (r, n) = decodeLastRune trunc in
        if r = runeError \<and> n = 1 then take (length trunc - 1) trunc
        else if r = runeError then take (length trunc - n) trunc
        else trunc)"

section \<open>Messages\<close>

datatype action_tl = MessageActionChatCreate string "user_id list" | MessageActionChatAddUser "user_id list"
  | MessageActionChatDeleteUser user_id | MessageActionChatEditTitle string | MessageActionEmpty

record reply_header =
  rh_msg :: int
  rh_peer :: peer_tl
  rh_quote :: "string option"

record fwd_header =
  fh_date :: int
  fh_from :: "peer_tl option"
  fh_post :: "int option"

record wire_message =
  wm_id :: int
  wm_out :: bool
  wm_peer :: peer_tl
  wm_from :: user_id
  wm_text :: string
  wm_date :: int
  wm_edit :: "int option"
  wm_reply :: "reply_header option"
  wm_media :: "int option"
  wm_fwd :: "fwd_header option"
  wm_reactions :: "string list"

datatype message_tl = MessageService int bool peer_tl user_id int action_tl | MessageTL wire_message

fun actionToTL :: "message_struct \<Rightarrow> user_id list \<Rightarrow> action_tl" where
  "actionToTL m createUsers =
     (case Action m of
        ChatActionCreate \<Rightarrow> MessageActionChatCreate (Text m) createUsers
      | ChatActionAddUser \<Rightarrow> MessageActionChatAddUser [ActionUserID m]
      | ChatActionDeleteUser \<Rightarrow> MessageActionChatDeleteUser (ActionUserID m)
      | ChatActionEditTitle \<Rightarrow> MessageActionChatEditTitle (Text m)
      | _ \<Rightarrow> MessageActionEmpty)"

text \<open>\<open>files\<close> says which file ids were hydrated, and each reaction is rendered by its emoji with count 1.\<close>

definition messageToTL :: "message_struct \<Rightarrow> user_id list \<Rightarrow> (int \<Rightarrow> bool) \<Rightarrow> (int \<Rightarrow> string) \<Rightarrow> string list \<Rightarrow> message_tl" where
  "messageToTL m createUsers files replyTexts reactions =
     (if Action m \<noteq> ChatActionNone
      then MessageService (LocalID m) (Out m) (peerToTL (PeerType m) (PeerID m)) (FromID m) (unixSeconds (Date m)) (actionToTL m createUsers)
      else MessageTL
        \<lparr>wm_id = LocalID m, wm_out = Out m, wm_peer = peerToTL (PeerType m) (PeerID m), wm_from = FromID m, wm_text = Text m,
         wm_date = unixSeconds (Date m), wm_edit = map_option unixSeconds (EditDate m),
         wm_reply =
           (if ReplyToMsgID m > 0
            then Some \<lparr>rh_msg = ReplyToMsgID m, rh_peer = peerToTL (PeerType m) (PeerID m),
                       rh_quote = (if replyTexts (ReplyToMsgID m) \<noteq> [] then Some (replySnippet (replyTexts (ReplyToMsgID m))) else None)\<rparr>
            else None),
         wm_media = (if files (FileID m) \<and> FileID m \<noteq> 0 then Some (FileID m) else None),
         wm_fwd =
           (if FwdFromID m \<noteq> 0 \<or> FwdDate m \<noteq> 0
            then Some \<lparr>fh_date = unixSeconds (FwdDate m),
                       fh_from = (if FwdChannelID m \<noteq> 0 then Some (PeerChannel (FwdChannelID m))
                                  else if FwdFromID m \<noteq> 0 then Some (PeerUser (FwdFromID m)) else None),
                       fh_post = (if FwdChannelID m \<noteq> 0 then Some (FwdChannelPost m) else None)\<rparr>
            else None),
         wm_reactions = reactions\<rparr>)"

text \<open>
  The truncation drops one byte of a rune the cut has split, so two or three leading bytes of a longer
  one stay and the snippet is not valid UTF-8.
\<close>

lemma replySnippet_splits_rune:
  "replySnippet (replicate 23 CHR ''a'' @ [CHR 0xF0, CHR 0x9F, CHR 0x98, CHR 0x80]) = replicate 23 CHR ''a'' @ [CHR 0xF0]"
  by code_simp

end
