(* ===== verification/Messages.thy ===== *)
theory Messages
  imports Fan_Out
begin

text \<open>
  One-to-one messages and everything that rewrites stored copies: sending, editing, deleting,
  forwarding and reading (internal/store/messages.go, dialogs.go, chat_read_history.go). A
  transaction is one step from the moment it holds its owners' advisory locks; what it reads before,
  it reads from earlier databases, the arguments \<open>d0\<close>, \<open>d1\<close> and \<open>snap\<close>. The row locks on polls
  that a delete takes change no table of this model and are left out.
\<close>

section \<open>Sending\<close>

record forward_info =
  fw_from :: "user_id option"
  fw_date :: "gtime option"
  fw_channel :: "int option"
  fw_post :: "int option"

definition not_forwarded :: forward_info where
  "not_forwarded = \<lparr>fw_from = None, fw_date = None, fw_channel = None, fw_post = None\<rparr>"

definition user_row :: "gtime \<Rightarrow> user_id \<Rightarrow> local_id \<Rightarrow> user_id \<Rightarrow> user_id \<Rightarrow> string \<Rightarrow> bool \<Rightarrow> int \<Rightarrow> local_id \<Rightarrow> int \<Rightarrow>
    int option \<Rightarrow> forward_info \<Rightarrow> message_row" where
  "user_row now u l peer from text out random peerLocal file reply fw =
     \<lparr>m_owner = u, m_local = l, m_peerType = PeerTypeUser, m_peer = peer, m_from = from, m_date = now, m_text = text,
      m_out = out, m_editDate = None, m_deleted = False, m_random = random, m_peerLocal = peerLocal, m_fanout = 0,
      m_action = ChatActionNone, m_actionUser = 0, m_file = file, m_replyTo = reply, m_fwdFrom = fw_from fw,
      m_fwdDate = fw_date fw, m_fwdChannel = fw_channel fw, m_fwdPost = fw_post fw\<rparr>"

text \<open>The recipient's pts of a resend: of its own copy when the stored row is this pair, else its current pts.\<close>

definition mirrorPts :: "message_row \<Rightarrow> user_id \<Rightarrow> int tx" where
  "mirrorPts existing to =
     (if m_peerType existing = PeerTypeUser \<and> m_owner existing = to \<and> m_peer existing = to
      then newMessagePts (m_owner existing) (m_local existing)
      else if m_peerType existing \<noteq> PeerTypeUser \<or> m_peer existing \<noteq> to \<or> m_peerLocal existing = 0
      then andThen (GetState to) (\<lambda>r. andThen (the_row ErrStorage r) (\<lambda>s. ret (us_pts s)))
      else newMessagePts to (m_peerLocal existing))"

definition send_self :: "gtime \<Rightarrow> user_id \<Rightarrow> string \<Rightarrow> int \<Rightarrow> int \<Rightarrow> local_id \<Rightarrow> (message_struct \<times> int \<times> int \<times> bool) tx" where
  "send_self now u text random file reply =
     andThen (BumpState now u) (\<lambda>b.
     andThen (InsertMessage (user_row now u (snd b) u u text True random 0 file (reply_ref reply) not_forwarded)) (\<lambda>_.
     andThen (InsertEvent u (fst b) EventNewMessage (snd b)) (\<lambda>_.
     andThen (UpsertDialog u PeerTypeUser u (snd b) 0) (\<lambda>_.
     andThen (query (MessageByOwnerLocal u (snd b))) (\<lambda>r.
     andThen (the_row ErrStorage r) (\<lambda>m.
     ret (messageFromRow m, fst b, fst b, False)))))))"

text \<open>
  Both sides of a message: \<open>peerReply\<close> resolves the recipient's reply target once the sender's row
  is in.
\<close>

definition send_pair :: "gtime \<Rightarrow> user_id \<Rightarrow> user_id \<Rightarrow> string \<Rightarrow> int \<Rightarrow> int \<Rightarrow> int option \<Rightarrow> (database \<Rightarrow> int option) \<Rightarrow>
    forward_info \<Rightarrow> (message_struct \<times> int \<times> int) tx" where
  "send_pair now from to text random file reply peerReply fw =
     andThen (BumpState now from) (\<lambda>sb.
     andThen (BumpState now to) (\<lambda>rb.
     andThen (InsertMessage (user_row now from (snd sb) to from text True random (snd rb) file reply fw)) (\<lambda>_.
     andThen (query peerReply) (\<lambda>pr.
     andThen (InsertMessage (user_row now to (snd rb) from from text False 0 (snd sb) file pr fw)) (\<lambda>_.
     andThen (InsertEvent from (fst sb) EventNewMessage (snd sb)) (\<lambda>_.
     andThen (InsertEvent to (fst rb) EventNewMessage (snd rb)) (\<lambda>_.
     andThen (UpsertDialog from PeerTypeUser to (snd sb) 0) (\<lambda>_.
     andThen (UpsertDialog to PeerTypeUser from (snd rb) 1) (\<lambda>_.
     andThen (query (MessageByOwnerLocal from (snd sb))) (\<lambda>r.
     andThen (the_row ErrStorage r) (\<lambda>m.
     ret (messageFromRow m, fst sb, fst rb))))))))))))"

definition peer_reply :: "user_id \<Rightarrow> local_id \<Rightarrow> database \<Rightarrow> int option" where
  "peer_reply from reply d =
     (if reply > 0 then map_option (\<lambda>ref. to_int32 (m_peerLocal ref)) (MessageByOwnerLocal from reply d) else None)"

definition send_locked :: "gtime \<Rightarrow> user_id \<Rightarrow> user_id \<Rightarrow> string \<Rightarrow> int \<Rightarrow> int \<Rightarrow> local_id \<Rightarrow> (message_struct \<times> int \<times> int \<times> bool) tx" where
  "send_locked now from to text random file reply =
     andThen (query (MessageByRandomID from random)) (\<lambda>dup.
     case (if random \<noteq> 0 then dup else None) of
       Some existing \<Rightarrow>
         andThen (newMessagePts from (m_local existing)) (\<lambda>sPts.
         andThen (mirrorPts existing to) (\<lambda>rPts.
         ret (messageFromRow existing, sPts, rPts, True)))
     | None \<Rightarrow>
         if from = to then send_self now from text random file reply
         else andThen (send_pair now from to text random file (reply_ref reply) (peer_reply from reply) not_forwarded) (\<lambda>r.
              ret (fst r, fst (snd r), snd (snd r), False)))"

definition send_tx :: "gtime \<Rightarrow> user_id \<Rightarrow> user_id \<Rightarrow> string \<Rightarrow> int \<Rightarrow> int \<Rightarrow> local_id \<Rightarrow> (message_struct \<times> int \<times> int \<times> bool) tx" where
  "send_tx now from to text random file reply =
     andThen (lockFileRefs [file]) (\<lambda>_.
     andThen (EnsureUpdateState now from) (\<lambda>_.
     andThen (EnsureUpdateState now to) (\<lambda>_.
     send_locked now from to text random file reply)))"

text \<open>A resend returns without committing, so not even the provisioned states stay.\<close>

definition SendMessage :: "bool \<Rightarrow> gtime \<Rightarrow> user_id \<Rightarrow> user_id \<Rightarrow> string \<Rightarrow> int \<Rightarrow> int \<Rightarrow> local_id \<Rightarrow> database \<Rightarrow>
    (store_error + message_struct \<times> int \<times> int \<times> bool) \<times> database" where
  "SendMessage fault now from to text random file reply d =
     (case transact fault (send_tx now from to text random file reply) d of
        (Inr (m, sPts, rPts, True), _) \<Rightarrow> (Inr (m, sPts, rPts, True), d)
      | r \<Rightarrow> r)"

section \<open>Editing\<close>

definition log_edit :: "gtime \<Rightarrow> user_id \<Rightarrow> local_id \<Rightarrow> int tx" where
  "log_edit now u l =
     andThen (BumpPtsOnly now u) (\<lambda>pts. andThen (InsertEvent u pts EventEdit l) (\<lambda>_. ret pts))"

definition chatCopies :: "database \<Rightarrow> message_row \<Rightarrow> message_row list tx" where
  "chatCopies d1 pre =
     andThen (guard (m_fanout pre \<noteq> 0) ErrMessageInvalid) (\<lambda>_.
     let copies = MessagesByFanout (m_fanout pre) d1 in
     andThen (guard (copies \<noteq> []) ErrMessageInvalid) (\<lambda>_. ret copies))"

definition chatMembers :: "int \<Rightarrow> database \<Rightarrow> user_id list" where
  "chatMembers c d = map pt_user (ChatParticipants c d)"

definition edit_copy :: "gtime \<Rightarrow> message_row \<Rightarrow> string \<Rightarrow> user_id list \<Rightarrow> message_row \<Rightarrow> int \<Rightarrow> int tx" where
  "edit_copy now pre text members c authorPts =
     (if m_owner c \<notin> set members then ret authorPts
      else andThen (SetEditedText now (m_owner c) (m_local c) text) (\<lambda>_.
           andThen (log_edit now (m_owner c) (m_local c)) (\<lambda>pts.
           ret (if m_owner c = m_owner pre then pts else authorPts))))"

definition editChatMessage :: "gtime \<Rightarrow> database \<Rightarrow> message_row \<Rightarrow> string \<Rightarrow> int tx" where
  "editChatMessage now d1 pre text =
     andThen (chatCopies d1 pre) (\<lambda>copies.
     andThen (guard (m_action pre = ChatActionNone) ErrMessageInvalid) (\<lambda>_.
     andThen (query (MessageByOwnerLocal (m_owner pre) (m_local pre))) (\<lambda>r.
     andThen (the_row ErrMessageInvalid r) (\<lambda>msg.
     andThen (guard (m_out msg \<and> \<not> m_deleted msg) ErrMessageInvalid) (\<lambda>_.
     andThen (query (chatMembers (m_peer pre))) (\<lambda>members.
     andThen (guard (m_owner pre \<in> set members) ErrMessageInvalid) (\<lambda>_.
     foreach (edit_copy now pre text members) copies 0)))))))"

definition edit_pair :: "gtime \<Rightarrow> user_id \<Rightarrow> local_id \<Rightarrow> user_id \<Rightarrow> string \<Rightarrow> int tx" where
  "edit_pair now u l peer text =
     andThen (query (MessageByOwnerLocal u l)) (\<lambda>r.
     andThen (the_row ErrMessageInvalid r) (\<lambda>msg.
     andThen (guard (m_out msg \<and> \<not> m_deleted msg) ErrMessageInvalid) (\<lambda>_.
     andThen (SetEditedText now u l text) (\<lambda>_.
     andThen (if u \<noteq> peer then SetEditedText now peer (m_peerLocal msg) text else ret ()) (\<lambda>_.
     andThen (log_edit now u l) (\<lambda>pts.
     if u = peer then ret pts
     else andThen (log_edit now peer (m_peerLocal msg)) (\<lambda>_. ret pts)))))))"

definition EditMessage :: "bool \<Rightarrow> gtime \<Rightarrow> database \<Rightarrow> database \<Rightarrow> user_id \<Rightarrow> local_id \<Rightarrow> string \<Rightarrow> database \<Rightarrow>
    (store_error + int \<times> int) \<times> database" where
  "EditMessage fault now d0 d1 u l text = transact fault (
     andThen (the_row ErrMessageInvalid (MessageByOwnerLocal u l d0)) (\<lambda>pre.
     andThen (if m_peerType pre = PeerTypeChat then editChatMessage now d1 pre text else edit_pair now u l (m_peer pre) text) (\<lambda>pts.
     ret (m_peer pre, pts))))"

section \<open>Deleting\<close>

text \<open>What one named id contributes before the locks: its row and, for a revoke in a chat, every copy.\<close>

definition load_target :: "(nat \<Rightarrow> database) \<Rightarrow> user_id \<Rightarrow> bool \<Rightarrow> nat \<times> local_id \<Rightarrow> (message_row \<times> message_row list) tx" where
  "load_target snap u revoke il =
     andThen (the_row ErrMessageInvalid (MessageByOwnerLocal u (snd il) (snap (3 * fst il)))) (\<lambda>m.
     if m_peerType m \<noteq> PeerTypeChat then ret (m, [])
     else andThen (guard (m_action m = ChatActionNone) ErrMessageInvalid) (\<lambda>_.
          if \<not> revoke then ret (m, [])
          else andThen (if m_out m then ret ()
                        else andThen (the_row ErrMessageInvalid (fmlookup (d_chats (snap (3 * fst il + 1))) (m_peer m))) (\<lambda>chat.
                             guard (ch_creator chat = u) ErrMessageInvalid)) (\<lambda>_.
               andThen (chatCopies (snap (3 * fst il + 2)) m) (\<lambda>copies. ret (m, copies)))))"

definition log_delete :: "gtime \<Rightarrow> user_id \<Rightarrow> local_id \<Rightarrow> int tx" where
  "log_delete now u l =
     andThen (BumpPtsOnly now u) (\<lambda>pts. andThen (InsertEvent u pts EventDelete l) (\<lambda>_. ret pts))"

text \<open>The caller's own row must change; a copy of somebody else is skipped when it is gone already.\<close>

definition delete_named :: "gtime \<Rightarrow> user_id \<Rightarrow> local_id \<Rightarrow> (user_id, int) fmap \<Rightarrow> (user_id, int) fmap tx" where
  "delete_named now u l perOwner =
     andThen (SetDeleted u l) (\<lambda>changed.
     andThen (guard changed ErrMessageInvalid) (\<lambda>_.
     andThen (log_delete now u l) (\<lambda>pts. ret (fmupd u pts perOwner))))"

definition delete_copy :: "gtime \<Rightarrow> user_id \<Rightarrow> local_id \<Rightarrow> (user_id, int) fmap \<Rightarrow> (user_id, int) fmap tx" where
  "delete_copy now u l perOwner =
     andThen (SetDeleted u l) (\<lambda>changed.
     if \<not> changed then ret perOwner
     else andThen (log_delete now u l) (\<lambda>pts. ret (fmupd u pts perOwner)))"

definition delete_target :: "gtime \<Rightarrow> user_id \<Rightarrow> bool \<Rightarrow> (int \<Rightarrow> user_id list) \<Rightarrow> message_row \<times> message_row list \<Rightarrow>
    (user_id, int) fmap \<Rightarrow> (user_id, int) fmap tx" where
  "delete_target now u revoke members t perOwner =
     (let m = fst t in
      if m_peerType m = PeerTypeChat
      then if snd t = [] then delete_named now u (m_local m) perOwner
           else foreach (\<lambda>c acc. if m_owner c \<notin> set (members (m_peer m)) then ret acc
                                  else delete_copy now (m_owner c) (m_local c) acc) (snd t) perOwner
      else andThen (delete_named now u (m_local m) perOwner) (\<lambda>acc.
           if \<not> revoke \<or> m_peer m = u then ret acc
           else delete_copy now (m_peer m) (m_peerLocal m) acc))"

definition delete_tx :: "gtime \<Rightarrow> (nat \<Rightarrow> database) \<Rightarrow> user_id \<Rightarrow> local_id list \<Rightarrow> bool \<Rightarrow> (user_id, int) fmap tx" where
  "delete_tx now snap u ids revoke =
     andThen (foreach (\<lambda>il acc. andThen (load_target snap u revoke il) (\<lambda>t. ret (acc @ [t]))) (enumerate 0 ids) []) (\<lambda>targets.
     andThen (query (\<lambda>d c. chatMembers c d)) (\<lambda>members.
     andThen (guard (list_all (\<lambda>t. snd t \<noteq> [] \<longrightarrow> u \<in> set (members (m_peer (fst t)))) targets) ErrMessageInvalid) (\<lambda>_.
     foreach (delete_target now u revoke members) targets fmempty)))"

definition DeleteMessages :: "bool \<Rightarrow> gtime \<Rightarrow> (nat \<Rightarrow> database) \<Rightarrow> user_id \<Rightarrow> local_id list \<Rightarrow> bool \<Rightarrow> database \<Rightarrow>
    (store_error + (user_id, int) fmap) \<times> database" where
  "DeleteMessages fault now snap u ids revoke d =
     (if ids = [] then (Inr fmempty, d) else transact fault (delete_tx now snap u ids revoke) d)"

section \<open>Forwarding\<close>

record forward_source =
  fs_from :: user_id
  fs_date :: gtime
  fs_text :: string
  fs_channel :: int
  fs_post :: int
  fs_file :: int

definition forward_fields :: "forward_source \<Rightarrow> forward_info" where
  "forward_fields src =
     \<lparr>fw_from = Some (fs_from src), fw_date = Some (fs_date src),
      fw_channel = (if fs_channel src \<noteq> 0 then Some (fs_channel src) else None),
      fw_post = (if fs_channel src \<noteq> 0 then Some (fs_post src) else None)\<rparr>"

definition forward_fan :: "user_id \<Rightarrow> int \<Rightarrow> forward_source \<Rightarrow> int \<Rightarrow> fan_out" where
  "forward_fan from chat src random =
     \<lparr>f_chat = chat, f_from = from, f_text = fs_text src, f_action = ChatActionNone, f_actionUser = 0, f_random = random,
      f_file = fs_file src, f_mediaRights = None, f_replyTo = 0, f_extra = [], f_fwdFrom = fw_from (forward_fields src),
      f_fwdDate = fw_date (forward_fields src), f_fwdChannel = fw_channel (forward_fields src),
      f_fwdPost = fw_post (forward_fields src)\<rparr>"

text \<open>One member's copy of a forwarded message; the states were provisioned before the loop.\<close>

definition forward_copy :: "gtime \<Rightarrow> fan_out \<Rightarrow> int \<Rightarrow> user_id \<Rightarrow> (user_id, int) fmap \<times> (local_id \<times> int) \<Rightarrow>
    ((user_id, int) fmap \<times> (local_id \<times> int)) tx" where
  "forward_copy now f fanoutID u acc =
     andThen (BumpState now u) (\<lambda>b.
     andThen (InsertMessage (fan_row now f fanoutID u (snd b))) (\<lambda>_.
     andThen (InsertEvent u (fst b) EventNewMessage (snd b)) (\<lambda>_.
     andThen (UpsertDialog u PeerTypeChat (f_chat f) (snd b) (if u = f_from f then 0 else 1)) (\<lambda>_.
     ret (fmupd u (fst b) (fst acc), if u = f_from f then (snd b, fst b) else snd acc)))))"

type_synonym forward_result = "(user_id, int) fmap \<times> (message_struct \<times> int) list"

definition forward_user :: "gtime \<Rightarrow> user_id \<Rightarrow> user_id \<Rightarrow> forward_source \<Rightarrow> int \<Rightarrow> forward_result \<Rightarrow> forward_result tx" where
  "forward_user now from dest src random acc =
     andThen (send_pair now from dest (fs_text src) random (fs_file src) None (\<lambda>_. None) (forward_fields src)) (\<lambda>r.
     ret (fmupd dest (snd (snd r)) (fmupd from (fst (snd r)) (fst acc)), snd acc @ [(fst r, fst (snd r))]))"

definition forward_chat :: "gtime \<Rightarrow> user_id \<Rightarrow> int \<Rightarrow> forward_source \<Rightarrow> int \<Rightarrow> user_id list \<Rightarrow> forward_result \<Rightarrow> forward_result tx" where
  "forward_chat now from chat src random members acc =
     andThen NextFanoutID (\<lambda>fanoutID.
     andThen (foreach (forward_copy now (forward_fan from chat src random) fanoutID) members (fst acc, (0, 0))) (\<lambda>a.
     if fst (snd a) \<noteq> 0
     then andThen (query (MessageByOwnerLocal from (fst (snd a)))) (\<lambda>r.
          andThen (the_row ErrStorage r) (\<lambda>m. ret (fst a, snd acc @ [(messageFromRow m, snd (snd a))])))
     else ret (fst a, snd acc)))"

text \<open>One source: a token already used answers with the stored message and writes nothing.\<close>

definition forward_one :: "gtime \<Rightarrow> user_id \<Rightarrow> peer_type \<Rightarrow> int \<Rightarrow> (forward_source \<Rightarrow> store_error option) \<Rightarrow>
    (nat \<Rightarrow> user_id list) \<Rightarrow> nat \<times> forward_source \<times> int \<Rightarrow> forward_result \<Rightarrow> forward_result tx" where
  "forward_one now from destType dest allowed order isr acc =
     (let i = fst isr; src = fst (snd isr); random = snd (snd isr) in
      andThen (query (MessageByRandomID from random)) (\<lambda>dup.
      case (if random \<noteq> 0 then dup else None) of
        Some existing \<Rightarrow>
          andThen (newMessagePts from (m_local existing)) (\<lambda>pts.
          ret (fst acc, snd acc @ [(messageFromRow existing, pts)]))
      | None \<Rightarrow>
          andThen (check (allowed src)) (\<lambda>_.
          if destType = PeerTypeUser then forward_user now from dest src random acc
          else forward_chat now from dest src random (order i) acc)))"

text \<open>
  The member set of a chat destination is a Go map: \<open>order i\<close> is the order in which the loop for
  source \<open>i\<close> visits it. A destination that is neither a user nor a chat has no members.
\<close>

definition forward_tx :: "gtime \<Rightarrow> (nat \<Rightarrow> user_id list \<Rightarrow> user_id list) \<Rightarrow> user_id \<Rightarrow> peer_type \<Rightarrow> int \<Rightarrow>
    forward_source list \<Rightarrow> int list \<Rightarrow> forward_result tx" where
  "forward_tx now order from destType dest sources randoms =
     andThen (if destType = PeerTypeChat
              then andThen (query (\<lambda>d. fmlookup (d_chats d) dest)) (\<lambda>r.
                   andThen (the_row ErrNotMember r) (\<lambda>chat.
                   andThen (query (IsChatMember dest from)) (\<lambda>member.
                   andThen (guard member ErrNotMember) (\<lambda>_.
                   andThen (query (chatMembers dest)) (\<lambda>members. ret (Some chat, members))))))
              else ret (None, [])) (\<lambda>cm.
     andThen (lockFileRefs (map fs_file sources)) (\<lambda>_.
     andThen (query (\<lambda>d f. case fmlookup (d_files d) f of
         Some r \<Rightarrow> if fl_stored r then fl_rights r else None
       | None \<Rightarrow> None)) (\<lambda>rights.
     andThen (foreach (\<lambda>u _. EnsureUpdateState now u) (if destType = PeerTypeUser then [from, dest] else order 0 (snd cm)) ()) (\<lambda>_.
     foreach (forward_one now from destType dest
       (\<lambda>src. case fst cm of
          Some chat \<Rightarrow> checkDefaultMessageRestriction (ch_banned chat) (from = ch_creator chat) (fs_file src \<noteq> 0) (rights (fs_file src))
        | None \<Rightarrow> None)
       (\<lambda>i. order (Suc i) (snd cm))) (enumerate 0 (zip sources randoms)) (fmempty, [])))))"

definition ForwardMessages :: "bool \<Rightarrow> gtime \<Rightarrow> (nat \<Rightarrow> user_id list \<Rightarrow> user_id list) \<Rightarrow> user_id \<Rightarrow> peer_type \<Rightarrow> int \<Rightarrow>
    forward_source list \<Rightarrow> int list \<Rightarrow> database \<Rightarrow> (store_error + forward_result) \<times> database" where
  "ForwardMessages fault now order from destType dest sources randoms d =
     (if sources = [] \<or> length randoms \<noteq> length sources then (Inl ErrMessageInvalid, d)
      else if destType = PeerTypeUser \<and> dest = from then (Inl ErrMessageInvalid, d)
      else transact fault (forward_tx now order from destType dest sources randoms) d)"

section \<open>Reading\<close>

definition log_read :: "gtime \<Rightarrow> user_id \<Rightarrow> event_type \<Rightarrow> local_id \<Rightarrow> int tx" where
  "log_read now u typ l =
     andThen (BumpPtsOnly now u) (\<lambda>pts. andThen (InsertEvent u pts typ l) (\<lambda>_. ret pts))"

definition currentPts :: "user_id \<Rightarrow> user_id \<Rightarrow> (int \<times> int) tx" where
  "currentPts a b =
     andThen (GetState a) (\<lambda>ra. andThen (the_row ErrStorage ra) (\<lambda>sa.
     andThen (GetState b) (\<lambda>rb. andThen (the_row ErrStorage rb) (\<lambda>sb.
     ret (us_pts sa, us_pts sb)))))"

text \<open>\<open>COALESCE(MAX(peer_local_id), 0)\<close> of the dialog's rows up to \<open>maxID\<close>.\<close>

definition max_peer_local :: "user_id \<Rightarrow> user_id \<Rightarrow> local_id \<Rightarrow> database \<Rightarrow> local_id" where
  "max_peer_local u peer maxID d =
     (case map m_peerLocal (filter (\<lambda>m. m_owner m = u \<and> m_peerType m = PeerTypeUser \<and> m_peer m = peer \<and> m_local m \<le> maxID) (d_messages d)) of
        [] \<Rightarrow> 0
      | l # ls \<Rightarrow> fold max ls l)"

definition ReadHistory :: "bool \<Rightarrow> gtime \<Rightarrow> user_id \<Rightarrow> user_id \<Rightarrow> local_id \<Rightarrow> database \<Rightarrow> (store_error + int \<times> int) \<times> database" where
  "ReadHistory fault now u peer maxID = transact fault (
     andThen (AdvanceReadInbox maxID u PeerTypeUser peer) (\<lambda>inbox.
     case inbox of
       None \<Rightarrow> currentPts u peer
     | Some m \<Rightarrow>
         if u = peer then andThen (log_read now u EventReadIn m) (\<lambda>pts. ret (pts, pts))
         else andThen (query (max_peer_local u peer maxID)) (\<lambda>peerMax.
              andThen (AdvanceReadOutbox peer PeerTypeUser u peerMax) (\<lambda>_.
              andThen (log_read now u EventReadIn m) (\<lambda>rPts.
              andThen (log_read now peer EventReadOut peerMax) (\<lambda>pPts.
              ret (rPts, pPts)))))))"

definition MaxChatReadMessageID :: "user_id \<Rightarrow> int \<Rightarrow> local_id \<Rightarrow> database \<Rightarrow> local_id" where
  "MaxChatReadMessageID u chat maxID d =
     (case map m_local (filter (\<lambda>m. m_owner m = u \<and> m_peerType m = PeerTypeChat \<and> m_peer m = chat \<and> \<not> m_deleted m \<and> m_local m \<le> maxID) (d_messages d)) of
        [] \<Rightarrow> 0
      | l # ls \<Rightarrow> fold max ls l)"

text \<open>The authors of the messages covered by the read, each with its newest covered message in its own ids.\<close>

definition ChatReadReceiptTargets :: "user_id \<Rightarrow> int \<Rightarrow> local_id \<Rightarrow> local_id \<Rightarrow> user_id list \<Rightarrow> database \<Rightarrow> (user_id \<times> local_id) list" where
  "ChatReadReceiptTargets u chat after maxID members d =
     (let covered = remdups (map (\<lambda>m. (m_from m, m_fanout m)) (filter (\<lambda>m. m_owner m = u \<and> m_peerType m = PeerTypeChat \<and>
            m_peer m = chat \<and> \<not> m_out m \<and> \<not> m_deleted m \<and> m_fanout m \<noteq> 0 \<and> after < m_local m \<and> m_local m \<le> maxID \<and>
            m_from m \<in> set members) (d_messages d)));
          joined = concat (map (\<lambda>c. map (\<lambda>r. (fst c, m_local r)) (filter (\<lambda>r. m_owner r = fst c \<and> m_fanout r = snd c \<and>
            m_fanout r \<noteq> 0 \<and> m_out r \<and> m_peerType r = PeerTypeChat \<and> m_peer r = chat) (d_messages d))) covered)
      in map (\<lambda>s. (s, foldr max (map snd (filter (\<lambda>j. fst j = s) joined)) 0)) (sort (remdups (map fst joined))))"

record chat_read_result =
  cr_pts :: int
  cr_ptsCount :: int
  cr_notify :: "user_id list"

definition read_target :: "gtime \<Rightarrow> int \<Rightarrow> user_id \<times> local_id \<Rightarrow> chat_read_result \<Rightarrow> chat_read_result tx" where
  "read_target now chat t acc =
     andThen (query (ReadMarkers (fst t) PeerTypeChat chat)) (\<lambda>r.
     andThen (the_row ErrStorage r) (\<lambda>markers.
     if snd t \<le> snd markers then ret acc
     else andThen (AdvanceReadOutbox (fst t) PeerTypeChat chat (snd t)) (\<lambda>rows.
          andThen (guard (rows = 1) ErrStorage) (\<lambda>_.
          andThen (log_read now (fst t) EventReadOut (snd t)) (\<lambda>_.
          ret (acc\<lparr>cr_notify := cr_notify acc @ [fst t]\<rparr>))))))"

definition advanceChatReadHistory :: "gtime \<Rightarrow> user_id \<Rightarrow> int \<Rightarrow> local_id \<Rightarrow> user_id list \<Rightarrow> chat_read_result tx" where
  "advanceChatReadHistory now u chat bound members =
     andThen (query (ReadMarkers u PeerTypeChat chat)) (\<lambda>r.
     case (case r of None \<Rightarrow> None | Some markers \<Rightarrow> if bound \<le> fst markers then None else Some (fst markers)) of
       None \<Rightarrow>
         andThen (GetState u) (\<lambda>s.
         ret \<lparr>cr_pts = (case s of None \<Rightarrow> 0 | Some st \<Rightarrow> us_pts st), cr_ptsCount = 0, cr_notify = []\<rparr>)
     | Some after \<Rightarrow>
         andThen (query (ChatReadReceiptTargets u chat after bound members)) (\<lambda>targets.
         andThen (AdvanceChatReadInbox bound u PeerTypeChat chat) (\<lambda>inbox.
         andThen (the_row ErrStorage inbox) (\<lambda>m.
         andThen (log_read now u EventReadIn m) (\<lambda>pts.
         foreach (read_target now chat) targets \<lparr>cr_pts = pts, cr_ptsCount = 1, cr_notify = [u]\<rparr>)))))"

text \<open>One attempt; None asks for another one with the owners it found unlocked.\<close>

definition readChatHistoryAttempt :: "gtime \<Rightarrow> user_id \<Rightarrow> int \<Rightarrow> local_id \<Rightarrow> user_id list \<Rightarrow> chat_read_result option tx" where
  "readChatHistoryAttempt now u chat bound locked =
     andThen (query (chatMembers chat)) (\<lambda>members.
     andThen (guard (length members \<le> maxChatParticipants) ErrStorage) (\<lambda>_.
     if \<not> list_all (\<lambda>p. p \<in> set locked) members then ret None
     else andThen (guard (u \<in> set members) ErrNotMember) (\<lambda>_.
          andThen (advanceChatReadHistory now u chat bound members) (\<lambda>r. ret (Some r)))))"

text \<open>
  One round of the loop: membership from \<open>d0\<close>, the bound from \<open>d1\<close> and the member set to lock from
  \<open>d2\<close>, all read before the locks. A round that answers None has written nothing and is repeated.
\<close>

definition ReadChatHistory :: "bool \<Rightarrow> gtime \<Rightarrow> database \<Rightarrow> database \<Rightarrow> database \<Rightarrow> user_id \<Rightarrow> int \<Rightarrow> local_id \<Rightarrow> database \<Rightarrow>
    (store_error + chat_read_result option) \<times> database" where
  "ReadChatHistory fault now d0 d1 d2 u chat maxID d =
     (if \<not> IsChatMember chat u d0 then (Inl ErrNotMember, d)
      else let locked = chatMembers chat d2 in
        if length locked > maxChatParticipants then (Inl ErrStorage, d)
        else if u \<notin> set locked then (Inl ErrNotMember, d)
        else transact fault (readChatHistoryAttempt now u chat (MaxChatReadMessageID u chat maxID d1) locked) d)"

section \<open>History pages\<close>

definition dialog_messages :: "user_id \<Rightarrow> peer_type \<Rightarrow> int \<Rightarrow> database \<Rightarrow> message_row list" where
  "dialog_messages u pt p d =
     rev (sort_key m_local (filter (\<lambda>m. m_owner m = u \<and> m_peerType m = pt \<and> m_peer m = p \<and> \<not> m_deleted m) (d_messages d)))"

definition HistoryPage :: "user_id \<Rightarrow> peer_type \<Rightarrow> int \<Rightarrow> local_id \<Rightarrow> int \<Rightarrow> nat \<Rightarrow> database \<Rightarrow> message_row list" where
  "HistoryPage u pt p offsetID addOffset lim d =
     take lim (drop (nat (max 0 addOffset)) (filter (\<lambda>m. offsetID = 0 \<or> m_local m < offsetID) (dialog_messages u pt p d)))"

definition HistoryPageAround :: "user_id \<Rightarrow> peer_type \<Rightarrow> int \<Rightarrow> local_id \<Rightarrow> int \<Rightarrow> nat \<Rightarrow> database \<Rightarrow> message_row list" where
  "HistoryPageAround u pt p offsetID addOffset lim d =
     (let skip = max 0 (int (length (filter (\<lambda>m. m_local m \<ge> offsetID) (dialog_messages u pt p d))) + addOffset)
      in take lim (drop (nat skip) (dialog_messages u pt p d)))"

definition historyPage :: "user_id \<Rightarrow> peer_type \<Rightarrow> int \<Rightarrow> local_id \<Rightarrow> int \<Rightarrow> nat \<Rightarrow> database \<Rightarrow> message_row list" where
  "historyPage u pt p offsetID addOffset lim d =
     (if offsetID < 0 then []
      else if offsetID > 0 \<and> addOffset < 0 then HistoryPageAround u pt p offsetID addOffset lim d
      else HistoryPage u pt p offsetID addOffset lim d)"

end
