(* ===== verification/Secret_Chats.thy ===== *)
theory Secret_Chats
  imports Peer_Hash
begin

text \<open>
  Secret chats: the key exchange rows and the encrypted event queue (\<open>store/secretchats.go\<close>,
  \<open>store/encrypted.go\<close> and their SQL), and the handlers over them (\<open>api/encryption.go\<close>,
  \<open>api/encrypted.go\<close>). A handler that reads a row before it writes takes the database of the read as
  an argument of its own; what it pushes is the list of the accounts and chats it notifies.
\<close>

section \<open>Key exchange rows\<close>

definition MaxOutstandingSecretChats :: nat where
  "MaxOutstandingSecretChats = 10"

definition maxInt32 :: int where
  "maxInt32 = 2 ^ 31 - 1"

definition Party :: "secret_chat \<Rightarrow> user_id \<Rightarrow> bool" where
  "Party c u \<longleftrightarrow> u = sc_admin c \<or> u = sc_participant c"

definition Other :: "secret_chat \<Rightarrow> user_id \<Rightarrow> user_id" where
  "Other c u = (if u = sc_admin c then sc_participant c else sc_admin c)"

definition GetSecretChatByAdminRandomID :: "user_id \<Rightarrow> int \<Rightarrow> database \<Rightarrow> secret_chat option" where
  "GetSecretChatByAdminRandomID admin random d =
     find (\<lambda>c. sc_admin c = admin \<and> sc_random c = random \<and> random \<noteq> 0 \<and> sc_state c = SecretChatRequested) (d_secretChats d)"

definition CountRequestedSecretChats :: "user_id \<Rightarrow> database \<Rightarrow> nat" where
  "CountRequestedSecretChats admin d = length (filter (\<lambda>c. sc_admin c = admin \<and> sc_state c = SecretChatRequested) (d_secretChats d))"

definition NextSecretChatID :: "int tx" where
  "NextSecretChatID = (\<lambda>d. Inr (d_secretSeq d + 1, d\<lparr>d_secretSeq := d_secretSeq d + 1\<rparr>))"

text \<open>The primary key and the partial unique index over the outstanding tokens refuse a duplicate.\<close>

definition secret_clash :: "secret_chat \<Rightarrow> database \<Rightarrow> bool" where
  "secret_clash c d \<longleftrightarrow>
     list_ex (\<lambda>c'. sc_id c' = sc_id c \<or>
       (sc_random c \<noteq> 0 \<and> sc_state c' = SecretChatRequested \<and> sc_admin c' = sc_admin c \<and> sc_random c' = sc_random c)) (d_secretChats d)"

definition InsertSecretChat :: "gtime \<Rightarrow> int \<Rightarrow> user_id \<Rightarrow> user_id \<Rightarrow> byte list \<Rightarrow> byte list \<Rightarrow> int \<Rightarrow> secret_chat tx" where
  "InsertSecretChat now i admin participant gAHash gA random =
     (let c = \<lparr>sc_id = i, sc_admin = admin, sc_participant = participant, sc_state = SecretChatRequested, sc_gAHash = gAHash,
               sc_gA = gA, sc_gAOrB = None, sc_fingerprint = None, sc_random = random, sc_date = now\<rparr> in
      andThen (query (secret_clash c)) (\<lambda>taken.
      andThen (guard (\<not> taken) ErrStorage) (\<lambda>_.
      andThen (exec (\<lambda>d. d\<lparr>d_secretChats := d_secretChats d @ [c]\<rparr>)) (\<lambda>_. ret c))))"

definition CreateSecretChatRequest :: "bool \<Rightarrow> gtime \<Rightarrow> user_id \<Rightarrow> user_id \<Rightarrow> byte list \<Rightarrow> byte list \<Rightarrow> int \<Rightarrow> database \<Rightarrow>
    (store_error + secret_chat \<times> bool) \<times> database" where
  "CreateSecretChatRequest fault now admin participant gA gAHash random = transact fault (
     andThen (query (GetSecretChatByAdminRandomID admin random)) (\<lambda>dup.
     case (if random \<noteq> 0 then dup else None) of
       Some existing \<Rightarrow> ret (existing, True)
     | None \<Rightarrow>
         andThen (query (CountRequestedSecretChats admin)) (\<lambda>outstanding.
         andThen (guard (outstanding < MaxOutstandingSecretChats) ErrSecretChatsTooMany) (\<lambda>_.
         andThen NextSecretChatID (\<lambda>i.
         andThen (guard (i \<le> maxInt32) ErrStorage) (\<lambda>_.
         andThen (InsertSecretChat now i admin participant gAHash gA random) (\<lambda>row.
         ret (row, False))))))))"

definition SecretChatByID :: "int \<Rightarrow> database \<Rightarrow> secret_chat option" where
  "SecretChatByID i d = find (\<lambda>c. sc_id c = i) (d_secretChats d)"

text \<open>A guarded \<open>UPDATE ... RETURNING\<close>: no row matched is \<open>ErrSecretChatStale\<close>.\<close>

definition update_secret :: "(secret_chat \<Rightarrow> bool) \<Rightarrow> (secret_chat \<Rightarrow> secret_chat) \<Rightarrow> secret_chat tx" where
  "update_secret P f =
     andThen (query (\<lambda>d. find P (d_secretChats d))) (\<lambda>r.
     andThen (the_row ErrSecretChatStale r) (\<lambda>c.
     andThen (exec (\<lambda>d. d\<lparr>d_secretChats := map (\<lambda>c. if P c then f c else c) (d_secretChats d)\<rparr>)) (\<lambda>_.
     ret (f c))))"

definition AcceptSecretChat :: "bool \<Rightarrow> gtime \<Rightarrow> int \<Rightarrow> user_id \<Rightarrow> byte list \<Rightarrow> int \<Rightarrow> database \<Rightarrow> (store_error + secret_chat) \<times> database" where
  "AcceptSecretChat fault now i participant gB fingerprint = transact fault
     (update_secret (\<lambda>c. sc_id c = i \<and> sc_participant c = participant \<and> sc_state c = SecretChatRequested)
        (\<lambda>c. c\<lparr>sc_state := SecretChatActive, sc_gAOrB := Some gB, sc_fingerprint := Some fingerprint, sc_date := now\<rparr>))"

definition DiscardSecretChat :: "bool \<Rightarrow> gtime \<Rightarrow> int \<Rightarrow> database \<Rightarrow> (store_error + secret_chat) \<times> database" where
  "DiscardSecretChat fault now i = transact fault
     (update_secret (\<lambda>c. sc_id c = i \<and> (sc_state c = SecretChatRequested \<or> sc_state c = SecretChatActive))
        (\<lambda>c. c\<lparr>sc_state := SecretChatDiscarded, sc_date := now\<rparr>))"

definition SecretChatsAfterDate :: "user_id \<Rightarrow> gtime \<Rightarrow> database \<Rightarrow> secret_chat list" where
  "SecretChatsAfterDate u after d =
     filter (\<lambda>c. (sc_admin c = u \<or> sc_participant c = u) \<and> sc_date c > after) (d_secretChats d)"

section \<open>The encrypted queue\<close>

definition GetEncryptedEventByRandomID :: "user_id \<Rightarrow> int \<Rightarrow> database \<Rightarrow> encrypted_event option" where
  "GetEncryptedEventByRandomID owner random d = find (\<lambda>e. ee_owner e = owner \<and> ee_random e = random) (d_encrypted d)"

text \<open>
  \<open>INSERT ... SELECT qts + 1 ... ON CONFLICT (owner_id, random_id) DO NOTHING RETURNING\<close>: None when
  the recipient has no state row or the token is taken; a taken primary key or an unknown chat fails.
\<close>

definition InsertEncryptedEvent :: "gtime \<Rightarrow> user_id \<Rightarrow> int \<Rightarrow> int \<Rightarrow> byte list \<Rightarrow> encrypted_event option tx" where
  "InsertEncryptedEvent now owner chat random bytes =
     andThen (GetState owner) (\<lambda>r.
     andThen (query (GetEncryptedEventByRandomID owner random)) (\<lambda>dup.
     case r of
       None \<Rightarrow> ret None
     | Some s \<Rightarrow>
         if dup \<noteq> None then ret None
         else andThen (query (\<lambda>d. list_ex (\<lambda>e. ee_owner e = owner \<and> ee_qts e = us_qts s + 1) (d_encrypted d) \<or> SecretChatByID chat d = None)) (\<lambda>bad.
              andThen (guard (\<not> bad) ErrStorage) (\<lambda>_.
              let e = \<lparr>ee_owner = owner, ee_qts = us_qts s + 1, ee_chat = chat, ee_random = random, ee_bytes = bytes, ee_date = now\<rparr> in
              andThen (exec (\<lambda>d. d\<lparr>d_encrypted := d_encrypted d @ [e]\<rparr>)) (\<lambda>_. ret (Some e))))))"

text \<open>
  None of the transaction is a duplicate, which is rolled back and then looked up in \<open>d'\<close>, the
  database of that later read.
\<close>

definition SendEncryptedMessage :: "bool \<Rightarrow> gtime \<Rightarrow> database \<Rightarrow> user_id \<Rightarrow> int \<Rightarrow> int \<Rightarrow> byte list \<Rightarrow> database \<Rightarrow>
    (store_error + encrypted_event \<times> bool) \<times> database" where
  "SendEncryptedMessage fault now d' recipient chat random bytes d =
     (case transact fault (
          andThen (InsertEncryptedEvent now recipient chat random bytes) (\<lambda>row.
          case row of
            None \<Rightarrow> ret None
          | Some e \<Rightarrow> andThen (BumpQts now recipient) (\<lambda>_. ret (Some e)))) d of
        (Inl e, _) \<Rightarrow> (Inl e, d)
      | (Inr None, _) \<Rightarrow>
          (case GetEncryptedEventByRandomID recipient random d' of
             None \<Rightarrow> (Inl ErrStorage, d)
           | Some existing \<Rightarrow> (Inr (existing, True), d))
      | (Inr (Some e), d1) \<Rightarrow> (Inr (e, False), d1))"

definition EncryptedMessageByRandomID :: "user_id \<Rightarrow> int \<Rightarrow> database \<Rightarrow> encrypted_event option" where
  "EncryptedMessageByRandomID recipient random d =
     (if random = 0 then None else GetEncryptedEventByRandomID recipient random d)"

definition GetEncryptedEvent :: "user_id \<Rightarrow> int \<Rightarrow> database \<Rightarrow> encrypted_event option" where
  "GetEncryptedEvent owner qts d = find (\<lambda>e. ee_owner e = owner \<and> ee_qts e = qts) (d_encrypted d)"

definition AcknowledgeEncryptedEvents :: "user_id \<Rightarrow> int \<Rightarrow> database \<Rightarrow> int list \<times> database" where
  "AcknowledgeEncryptedEvents owner maxQts d =
     (map ee_random (filter (\<lambda>e. ee_owner e = owner \<and> ee_qts e \<le> maxQts) (d_encrypted d)),
      d\<lparr>d_encrypted := filter (\<lambda>e. \<not> (ee_owner e = owner \<and> ee_qts e \<le> maxQts)) (d_encrypted d)\<rparr>)"

definition GetQts :: "user_id \<Rightarrow> database \<Rightarrow> int" where
  "GetQts u d = (case fmlookup (d_state d) u of None \<Rightarrow> 0 | Some s \<Rightarrow> us_qts s)"

definition EncryptedEventsWindow :: "user_id \<Rightarrow> int \<Rightarrow> int \<Rightarrow> nat \<Rightarrow> database \<Rightarrow> encrypted_event list" where
  "EncryptedEventsWindow owner fromQts toQts limit d =
     take limit (sort_key ee_qts (filter (\<lambda>e. ee_owner e = owner \<and> ee_qts e > fromQts \<and> ee_qts e \<le> toQts) (d_encrypted d)))"

section \<open>Handlers\<close>

datatype enc_error = RandomLengthInvalid | DHValueInvalid | PeerIDInvalid | UserIDInvalid | PeerFlood | EncryptionIDInvalid
  | EncryptionAlreadyAccepted | EncryptionAlreadyDeclined | EncryptionDeclined | ChatForbidden | MessageTooLong | FloodWait int
  | AuthKeyUnreg | Internal

datatype encrypted_chat =
    EncryptedChatWaiting int int int user_id user_id
  | EncryptedChatRequested int int int user_id user_id "byte list"
  | EncryptedChat int int int user_id user_id "byte list" int
  | EncryptedChatDiscarded int

type_synonym derive = "user_id \<Rightarrow> kind \<Rightarrow> int \<Rightarrow> int"

definition dhVersion :: int where
  "dhVersion = 1"

definition maxDhRandomLength :: int where
  "maxDhRandomLength = 256"

definition dhValueLen :: nat where
  "dhValueLen = 256"

definition dhGenerator :: int where
  "dhGenerator = 3"

definition SetBytes :: "byte list \<Rightarrow> int" where
  "SetBytes bs = foldl (\<lambda>acc b. acc * 256 + uint b) 0 bs"

text \<open>\<open>check\<close> is gotd's \<open>CheckDHParams\<close>, and \<open>prime\<close> the modulus \<open>dhPrime\<close> is read from.\<close>

definition validateDHValue :: "(int \<Rightarrow> int \<Rightarrow> int \<Rightarrow> int \<Rightarrow> bool) \<Rightarrow> byte list \<Rightarrow> byte list \<Rightarrow> bool" where
  "validateDHValue check prime v \<longleftrightarrow>
     length v = dhValueLen \<and> check (SetBytes prime) dhGenerator (SetBytes v) (SetBytes v)"

definition secretChatHash :: "derive \<Rightarrow> user_id \<Rightarrow> int \<Rightarrow> int" where
  "secretChatHash derive viewer chat = derive viewer KindSecret chat"

datatype dh_config = DhConfigNotModified "byte list" | DhConfig int "byte list" int "byte list"

text \<open>\<open>entropy n\<close> is what \<open>rand.Read\<close> fills a buffer of \<open>n\<close> bytes with; None is its failure.\<close>

definition handleGetDhConfig :: "(nat \<Rightarrow> byte list option) \<Rightarrow> byte list \<Rightarrow> int \<Rightarrow> int \<Rightarrow> enc_error + dh_config" where
  "handleGetDhConfig entropy prime version randomLength =
     (if randomLength < 0 \<or> randomLength > maxDhRandomLength then Inl RandomLengthInvalid
      else case entropy (nat randomLength) of
        None \<Rightarrow> Inl Internal
      | Some random \<Rightarrow>
          if version = dhVersion then Inr (DhConfigNotModified random)
          else Inr (DhConfig dhGenerator prime dhVersion random))"

definition waiting :: "derive \<Rightarrow> user_id \<Rightarrow> secret_chat \<Rightarrow> encrypted_chat" where
  "waiting derive viewer c =
     EncryptedChatWaiting (sc_id c) (secretChatHash derive viewer (sc_id c)) (unixSeconds (sc_date c)) (sc_admin c) (sc_participant c)"

fun store_err :: "store_error \<Rightarrow> enc_error" where
  "store_err ErrSecretChatsTooMany = PeerFlood"
| "store_err _ = Internal"

definition handleRequestEncryption :: "bool \<Rightarrow> gtime \<Rightarrow> derive \<Rightarrow> (int \<Rightarrow> int \<Rightarrow> int \<Rightarrow> int \<Rightarrow> bool) \<Rightarrow> byte list \<Rightarrow>
    (byte list \<Rightarrow> byte list) \<Rightarrow> (user_id \<Rightarrow> bool) \<Rightarrow> user_id \<Rightarrow> input_user \<Rightarrow> byte list \<Rightarrow> int \<Rightarrow> database \<Rightarrow>
    (enc_error + encrypted_chat) \<times> (user_id \<times> int) list \<times> database" where
  "handleRequestEncryption fault now derive check prime sha256 known caller user gA random d =
     (case inputUserID derive user caller of
        None \<Rightarrow> (Inl PeerIDInvalid, [], d)
      | Some participant \<Rightarrow>
          if participant = caller then (Inl UserIDInvalid, [], d)
          else if \<not> validateDHValue check prime gA then (Inl DHValueInvalid, [], d)
          else if \<not> known participant then (Inl UserIDInvalid, [], d)
          else case CreateSecretChatRequest fault now caller participant gA (sha256 gA) random d of
            (Inl e, d') \<Rightarrow> (Inl (store_err e), [], d')
          | (Inr (c, dedup), d') \<Rightarrow>
              (Inr (waiting derive caller c), if dedup then [] else [(participant, sc_id c)], d'))"

definition secretChatID :: "derive \<Rightarrow> int \<Rightarrow> int \<Rightarrow> user_id \<Rightarrow> int option" where
  "secretChatID derive chatID accessHash viewer =
     (if chatID = 0 then None else if accessHash \<noteq> secretChatHash derive viewer chatID then None else Some chatID)"

definition staleAcceptError :: "int \<Rightarrow> database \<Rightarrow> enc_error" where
  "staleAcceptError chatID d =
     (case SecretChatByID chatID d of
        None \<Rightarrow> EncryptionIDInvalid
      | Some c \<Rightarrow> if sc_state c = SecretChatDiscarded then EncryptionAlreadyDeclined else EncryptionAlreadyAccepted)"

definition handleAcceptEncryption :: "bool \<Rightarrow> gtime \<Rightarrow> derive \<Rightarrow> (int \<Rightarrow> int \<Rightarrow> int \<Rightarrow> int \<Rightarrow> bool) \<Rightarrow> byte list \<Rightarrow>
    database \<Rightarrow> database \<Rightarrow> user_id \<Rightarrow> int \<Rightarrow> int \<Rightarrow> byte list \<Rightarrow> int \<Rightarrow> database \<Rightarrow>
    (enc_error + encrypted_chat) \<times> (user_id \<times> int) list \<times> database" where
  "handleAcceptEncryption fault now derive check prime d0 d2 caller peer hash gB fingerprint d =
     (case secretChatID derive peer hash caller of
        None \<Rightarrow> (Inl EncryptionIDInvalid, [], d)
      | Some chatID \<Rightarrow>
          if \<not> validateDHValue check prime gB then (Inl DHValueInvalid, [], d)
          else case SecretChatByID chatID d0 of
            None \<Rightarrow> (Inl EncryptionIDInvalid, [], d)
          | Some existing \<Rightarrow>
              if caller \<noteq> sc_participant existing then (Inl EncryptionIDInvalid, [], d)
              else if sc_state existing = SecretChatDiscarded then (Inl EncryptionAlreadyDeclined, [], d)
              else case AcceptSecretChat fault now chatID caller gB fingerprint d of
                (Inl ErrSecretChatStale, d') \<Rightarrow> (Inl (staleAcceptError chatID d2), [], d')
              | (Inl _, d') \<Rightarrow> (Inl Internal, [], d')
              | (Inr c, d') \<Rightarrow>
                  (Inr (EncryptedChat (sc_id c) (secretChatHash derive caller (sc_id c)) (unixSeconds (sc_date c)) (sc_admin c) (sc_participant c)
                     (case sc_gAOrB c of None \<Rightarrow> [] | Some b \<Rightarrow> b) (case sc_fingerprint c of None \<Rightarrow> 0 | Some f \<Rightarrow> f)),
                   [(sc_admin c, sc_id c)], d'))"

definition handleDiscardEncryption :: "bool \<Rightarrow> gtime \<Rightarrow> database \<Rightarrow> user_id \<Rightarrow> int \<Rightarrow> database \<Rightarrow>
    (enc_error + encrypted_chat) \<times> (user_id \<times> int) list \<times> database" where
  "handleDiscardEncryption fault now d0 caller chatID d =
     (case SecretChatByID chatID d0 of
        None \<Rightarrow> (Inl EncryptionIDInvalid, [], d)
      | Some existing \<Rightarrow>
          if \<not> Party existing caller then (Inl EncryptionIDInvalid, [], d)
          else case DiscardSecretChat fault now (sc_id existing) d of
            (Inl ErrSecretChatStale, d') \<Rightarrow> (Inr (EncryptedChatDiscarded (sc_id existing)), [], d')
          | (Inl _, d') \<Rightarrow> (Inl Internal, [], d')
          | (Inr c, d') \<Rightarrow> (Inr (EncryptedChatDiscarded (sc_id existing)), [(Other c caller, sc_id c)], d'))"

definition maxEncryptedData :: nat where
  "maxEncryptedData = 512 * 1024"

text \<open>
  \<open>d0\<close> is the database of the chat lookup, \<open>d1\<close> of the retry lookup and \<open>d2\<close> of the lookup after a
  conflict; \<open>limited\<close> is the wait \<open>checkRateLimit\<close> answers with. A success carries the date, and the
  push names the recipient and the qts.
\<close>

definition handleSendEncryptedMessage :: "bool \<Rightarrow> gtime \<Rightarrow> derive \<Rightarrow> database \<Rightarrow> database \<Rightarrow> database \<Rightarrow> int option \<Rightarrow>
    user_id \<Rightarrow> int \<Rightarrow> int \<Rightarrow> int \<Rightarrow> byte list \<Rightarrow> database \<Rightarrow> (enc_error + int) \<times> (user_id \<times> int) list \<times> database" where
  "handleSendEncryptedMessage fault now derive d0 d1 d2 limited caller chatID hash random data d =
     (if length data > maxEncryptedData then (Inl MessageTooLong, [], d)
      else case SecretChatByID chatID d0 of
        None \<Rightarrow> (Inl EncryptionIDInvalid, [], d)
      | Some c \<Rightarrow>
          if sc_state c \<noteq> SecretChatActive then (Inl EncryptionDeclined, [], d)
          else if \<not> Party c caller then (Inl ChatForbidden, [], d)
          else if hash \<noteq> secretChatHash derive caller chatID then (Inl EncryptionIDInvalid, [], d)
          else case EncryptedMessageByRandomID (Other c caller) random d1 of
            Some existing \<Rightarrow> (Inr (unixSeconds (ee_date existing)), [], d)
          | None \<Rightarrow>
              (case limited of
                 Some wait \<Rightarrow> (Inl (FloodWait wait), [], d)
               | None \<Rightarrow>
                   (case SendEncryptedMessage fault now d2 (Other c caller) chatID random data d of
                      (Inl e, d') \<Rightarrow> (Inl Internal, [], d')
                    | (Inr (event, dup), d') \<Rightarrow>
                        (Inr (unixSeconds (ee_date event)), if dup then [] else [(Other c caller, ee_qts event)], d'))))"

definition encryptedChatFor :: "derive \<Rightarrow> secret_chat \<Rightarrow> user_id \<Rightarrow> encrypted_chat" where
  "encryptedChatFor derive c viewer =
     (case sc_state c of
        SecretChatRequested \<Rightarrow>
          if viewer \<noteq> sc_participant c then waiting derive viewer c
          else EncryptedChatRequested (sc_id c) (secretChatHash derive viewer (sc_id c)) (unixSeconds (sc_date c)) (sc_admin c) (sc_participant c) (sc_gA c)
      | SecretChatActive \<Rightarrow>
          EncryptedChat (sc_id c) (secretChatHash derive viewer (sc_id c)) (unixSeconds (sc_date c)) (sc_admin c) (sc_participant c)
            (case sc_gAOrB c of None \<Rightarrow> [] | Some b \<Rightarrow> b) (case sc_fingerprint c of None \<Rightarrow> 0 | Some f \<Rightarrow> f)
      | SecretChatDiscarded \<Rightarrow> EncryptedChatDiscarded (sc_id c))"

text \<open>\<open>d0\<close> is the database of the qts read.\<close>

definition handleReceivedQueue :: "database \<Rightarrow> user_id \<Rightarrow> int \<Rightarrow> database \<Rightarrow> (enc_error + int list) \<times> database" where
  "handleReceivedQueue d0 caller maxQts d =
     (if caller = 0 then (Inl AuthKeyUnreg, d)
      else let (ids, d') = AcknowledgeEncryptedEvents caller (min maxQts (GetQts caller d0)) d in (Inr ids, d'))"

end
