(* ===== verification/Difference.thy ===== *)
theory Difference
  imports Wire_Messages Messages Secret_Chats
begin

text \<open>
  \<open>updates.getDifference\<close> and the batch it shares with the push path (\<open>api/updates.go\<close>). The statements
  of one request see databases of their own: the state \<open>d0\<close>, the event window \<open>d1\<close>, the message of the
  i-th event \<open>snap i\<close>, the files and members \<open>d3\<close>. The users and chats a reply carries are given by
  the ids it references.
\<close>

definition maxDiffEvents :: nat where
  "maxDiffEvents = 500"

record state_struct =
  st_Pts :: int
  st_Qts :: int
  st_Seq :: int
  st_Date :: int

definition readState :: "user_id \<Rightarrow> database \<Rightarrow> state_struct" where
  "readState u d =
     (case fmlookup (d_state d) u of
        None \<Rightarrow> \<lparr>st_Pts = 0, st_Qts = 0, st_Seq = 0, st_Date = 0\<rparr>
      | Some s \<Rightarrow> \<lparr>st_Pts = us_pts s, st_Qts = us_qts s, st_Seq = us_seq s, st_Date = unixSeconds (us_date s)\<rparr>)"

section \<open>One event\<close>

datatype update_tl = UpdateNewMessage message_tl int | UpdateEditMessage message_tl int | UpdateDeleteMessages "local_id list" int
  | UpdateReadHistoryOutbox peer_tl local_id int | UpdateReadHistoryInbox peer_tl local_id int

record refs =
  rf_users :: "user_id list"
  rf_chats :: "int list"
  rf_channels :: "int list"

definition no_refs :: refs where
  "no_refs = \<lparr>rf_users = [], rf_chats = [], rf_channels = []\<rparr>"

definition message_refs :: "user_id \<Rightarrow> message_struct \<Rightarrow> user_id list \<Rightarrow> refs" where
  "message_refs u m createUsers =
     \<lparr>rf_users = [FromID m] @
        (if PeerType m = PeerTypeChat
         then [u] @ (case Action m of
              ChatActionAddUser \<Rightarrow> [ActionUserID m]
            | ChatActionDeleteUser \<Rightarrow> [ActionUserID m]
            | ChatActionCreate \<Rightarrow> createUsers
            | _ \<Rightarrow> [])
         else [PeerID m]) @
        (if FwdFromID m \<noteq> 0 \<and> FwdChannelID m = 0 then [FwdFromID m] else []),
      rf_chats = (if PeerType m = PeerTypeChat then [PeerID m] else []),
      rf_channels = (if FwdChannelID m \<noteq> 0 then [FwdChannelID m] else [])\<rparr>"

definition create_users :: "database \<Rightarrow> user_id \<Rightarrow> message_struct \<Rightarrow> user_id list" where
  "create_users d u m =
     (if Action m = ChatActionCreate \<and> IsChatMember (PeerID m) u d then map pt_user (ChatParticipants (PeerID m) d) else [])"

definition file_stored :: "database \<Rightarrow> int \<Rightarrow> bool" where
  "file_stored d f = (case fmlookup (d_files d) f of None \<Rightarrow> False | Some r \<Rightarrow> fl_stored r)"

text \<open>None is the nil update the caller skips.\<close>

definition eventToUpdate :: "database \<Rightarrow> user_id \<Rightarrow> message_event \<Rightarrow> (local_id, message_struct) fmap \<Rightarrow> (update_tl \<times> refs) option" where
  "eventToUpdate d u ev msgs =
     (case ev_type ev of
        EventDelete \<Rightarrow> Some (UpdateDeleteMessages [ev_local ev] (ev_pts ev), no_refs)
      | EventReadIn \<Rightarrow>
          (if ev_local ev = 0 then None
           else case fmlookup msgs (ev_local ev) of
             None \<Rightarrow> None
           | Some m \<Rightarrow> Some (UpdateReadHistoryInbox (peerToTL (PeerType m) (PeerID m)) (ev_local ev) (ev_pts ev),
               if PeerType m = PeerTypeChat then no_refs\<lparr>rf_chats := [PeerID m]\<rparr> else no_refs\<lparr>rf_users := [PeerID m]\<rparr>))
      | EventReadOut \<Rightarrow>
          (if ev_local ev = 0 then None
           else case fmlookup msgs (ev_local ev) of
             None \<Rightarrow> None
           | Some m \<Rightarrow> Some (UpdateReadHistoryOutbox (peerToTL (PeerType m) (PeerID m)) (ev_local ev) (ev_pts ev),
               if PeerType m = PeerTypeChat then no_refs\<lparr>rf_chats := [PeerID m]\<rparr> else no_refs\<lparr>rf_users := [PeerID m]\<rparr>))
      | t \<Rightarrow>
          (case fmlookup msgs (ev_local ev) of
             None \<Rightarrow> None
           | Some m \<Rightarrow>
               let createUsers = create_users d u m; tl = messageToTL m createUsers (file_stored d) (\<lambda>_. []) [] in
               Some (if t = EventEdit then UpdateEditMessage tl (ev_pts ev) else UpdateNewMessage tl (ev_pts ev), message_refs u m createUsers)))"

text \<open>The rows the events name, loaded once per distinct local id; a delete needs none.\<close>

fun batch_row :: "(nat \<Rightarrow> database) \<Rightarrow> user_id \<Rightarrow> nat \<times> message_event \<Rightarrow> (local_id, message_struct) fmap \<Rightarrow> (local_id, message_struct) fmap" where
  "batch_row snap u (i, ev) msgs =
     (if ev_type ev = EventDelete \<or> ev_local ev = 0 \<or> fmlookup msgs (ev_local ev) \<noteq> None then msgs
      else case MessageByOwnerLocal u (ev_local ev) (snap i) of
        None \<Rightarrow> msgs
      | Some r \<Rightarrow> fmupd (ev_local ev) (messageFromRow r) msgs)"

definition batchMessages :: "(nat \<Rightarrow> database) \<Rightarrow> user_id \<Rightarrow> message_event list \<Rightarrow> (local_id, message_struct) fmap" where
  "batchMessages snap u events = fold (batch_row snap u) (enumerate 0 events) fmempty"

section \<open>A batch\<close>

record update_batch =
  ub_ups :: "update_tl list"
  ub_pts :: "int list"
  ub_refs :: "refs list"
  ub_state :: state_struct
  ub_head :: int
  ub_more :: bool

definition above :: "update_batch \<Rightarrow> int \<Rightarrow> update_tl list" where
  "above b fromPts = drop (length (takeWhile (\<lambda>p. p < fromPts + 1) (ub_pts b))) (ub_ups b)"

definition batch_events :: "database \<Rightarrow> database \<Rightarrow> user_id \<Rightarrow> int \<Rightarrow> message_event list" where
  "batch_events d0 d1 u fromPts = EventsWindow u fromPts (st_Pts (readState u d0)) (maxDiffEvents + 1) d1"

definition buildUpdates :: "database \<Rightarrow> database \<Rightarrow> (nat \<Rightarrow> database) \<Rightarrow> database \<Rightarrow> user_id \<Rightarrow> int \<Rightarrow> update_batch" where
  "buildUpdates d0 d1 snap d3 u fromPts =
     (let state = readState u d0;
          window = batch_events d0 d1 u fromPts;
          more = length window > maxDiffEvents;
          events = (if more then take maxDiffEvents window else window);
          msgs = batchMessages snap u events;
          rendered = List.map_filter (\<lambda>ev. map_option (\<lambda>r. (ev_pts ev, r)) (eventToUpdate d3 u ev msgs)) events
      in \<lparr>ub_ups = map (fst \<circ> snd) rendered, ub_pts = map fst rendered, ub_refs = map (snd \<circ> snd) rendered,
          ub_state = (if more \<and> events \<noteq> [] then state\<lparr>st_Pts := ev_pts (last events)\<rparr> else state),
          ub_head = st_Pts state, ub_more = more\<rparr>)"

section \<open>The difference\<close>

record encrypted_window =
  ew_events :: "encrypted_event list"
  ew_more :: bool
  ew_qts :: int

text \<open>The encrypted events in the gap between the client's qts and the state's.\<close>

definition encrypted_gap :: "database \<Rightarrow> user_id \<Rightarrow> int \<Rightarrow> state_struct \<Rightarrow> encrypted_window" where
  "encrypted_gap d u qts st =
     (if qts < st_Qts st
      then let window = EncryptedEventsWindow u qts (st_Qts st) (maxDiffEvents + 1) d;
               more = length window > maxDiffEvents;
               events = (if more then take maxDiffEvents window else window)
           in \<lparr>ew_events = events, ew_more = more, ew_qts = (if more \<and> events \<noteq> [] then ee_qts (last events) else st_Qts st)\<rparr>
      else \<lparr>ew_events = [], ew_more = False, ew_qts = st_Qts st\<rparr>)"

definition dialogFilterMarkerGuard :: gduration where
  "dialogFilterMarkerGuard = 60 * second"

definition dialogFilterMarkerWithinGuard :: "gtime option \<Rightarrow> gtime \<Rightarrow> gtime \<Rightarrow> bool" where
  "dialogFilterMarkerWithinGuard marker requestDate serverNow =
     (case marker of
        None \<Rightarrow> False
      | Some at \<Rightarrow> let cutoff = (if serverNow < requestDate then serverNow else requestDate) in \<not> at < cutoff - dialogFilterMarkerGuard)"

datatype 'a difference = DifferenceEmpty int int
  | DifferenceSlice "message_tl list" "encrypted_event list" "update_tl list" "(encrypted_chat \<times> int) list" 'a bool state_struct
  | DifferenceFull "message_tl list" "encrypted_event list" "update_tl list" "(encrypted_chat \<times> int) list" 'a bool state_struct

fun new_messages :: "update_tl list \<Rightarrow> message_tl list" where
  "new_messages [] = []"
| "new_messages (UpdateNewMessage m p # us) = m # new_messages us"
| "new_messages (_ # us) = new_messages us"

fun other_updates :: "update_tl list \<Rightarrow> update_tl list" where
  "other_updates [] = []"
| "other_updates (UpdateNewMessage m p # us) = other_updates us"
| "other_updates (u # us) = u # other_updates us"

text \<open>
  The reply from what was read: the batch, the encrypted window, the secret chats changed after the
  client's date with the date of the change, the admin snapshots (\<open>admins\<close>, with \<open>adminMore\<close> when they were cut) and whether the
  dialog filters must be refreshed.
\<close>

definition differenceReply :: "update_batch \<Rightarrow> encrypted_window \<Rightarrow> (encrypted_chat \<times> int) list \<Rightarrow> 'a list \<Rightarrow> bool \<Rightarrow> bool \<Rightarrow> 'a list difference" where
  "differenceReply b enc secretChats admins adminMore filterRefresh =
     (let include = filterRefresh \<and> \<not> ub_more b \<and> \<not> ew_more enc; st = (ub_state b)\<lparr>st_Qts := ew_qts enc\<rparr> in
      if \<not> ub_more b \<and> \<not> ew_more enc \<and> \<not> adminMore \<and> ub_ups b = [] \<and> admins = [] \<and> ew_events enc = [] \<and> secretChats = [] \<and> \<not> include
      then DifferenceEmpty (st_Date (ub_state b)) (st_Seq (ub_state b))
      else if ub_more b \<or> ew_more enc \<or> adminMore
      then DifferenceSlice (new_messages (ub_ups b)) (ew_events enc) (other_updates (ub_ups b)) secretChats admins include st
      else DifferenceFull (new_messages (ub_ups b)) (ew_events enc) (other_updates (ub_ups b)) secretChats admins include st)"

text \<open>
  The request: the client's pts, qts and date (in seconds). After the databases of the batch come the
  ones the encrypted window and the secret chats are read from; \<open>snapshots\<close> are the admin snapshots read,
  one more than a reply carries at most, \<open>filterPending\<close> says whether the connection still owes a refresh of
  the folders, \<open>marker\<close> when they last changed and \<open>now\<close> is the server's clock. None is the error for a
  connection nobody is signed in on.
\<close>

definition handleGetDifference ::
  "derive \<Rightarrow> database \<Rightarrow> database \<Rightarrow> (nat \<Rightarrow> database) \<Rightarrow> database \<Rightarrow> database \<Rightarrow> database \<Rightarrow> 'a list \<Rightarrow> bool \<Rightarrow> gtime option \<Rightarrow> gtime \<Rightarrow>
     user_id \<Rightarrow> int \<Rightarrow> int \<Rightarrow> int \<Rightarrow> 'a list difference option" where
  "handleGetDifference derive d0 d1 snap d3 d4 d5 snapshots filterPending marker now u pts qts date =
     (if u = 0 then None
      else let b = buildUpdates d0 d1 snap d3 u pts;
               adminMore = length snapshots > maxDiffEvents;
               admins = (if adminMore then take maxDiffEvents snapshots else snapshots);
               enc = encrypted_gap d4 u qts (ub_state b);
               secretChats = map (\<lambda>c. (encryptedChatFor derive c u, unixSeconds (sc_date c))) (SecretChatsAfterDate u (date * second) d5);
               filterRefresh = filterPending \<or> dialogFilterMarkerWithinGuard marker (date * second) now
           in Some (differenceReply b enc secretChats admins adminMore filterRefresh))"

end
