(* ===== verification/Update_Log.thy ===== *)
theory Update_Log
  imports Messages
begin

text \<open>
  What the messaging tables always satisfy: every owner's event log has one event per pts, every
  message entered the log once, dedup tokens are unique, and rows are only ever added or rewritten
  in their text and deletion columns. \<open>db_ok\<close> collects it, \<open>evolves\<close> says how a database may change,
  and both hold of every transaction of \<open>Fan_Out\<close> and \<open>Messages\<close>.
\<close>

named_theorems steady_intros \<open>transactions that only let the database evolve\<close>

section \<open>Generic facts\<close>

lemma find_append: "find P (xs @ ys) = (case find P xs of None \<Rightarrow> find P ys | Some x \<Rightarrow> Some x)"
  by (induction xs) auto

lemma find_None_list_ex: "find P xs = None \<longleftrightarrow> \<not> list_ex P xs"
  by (induction xs) auto

lemma find_hit: "find P xs = Some x \<Longrightarrow> x \<in> set xs \<and> P x"
  by (induction xs) (auto split: if_splits)

lemma wp_foreach_prefix:
  assumes "\<And>ys x zs s d. xs = ys @ x # zs \<Longrightarrow> I ys s d \<Longrightarrow> wp (f x s) E (I (ys @ [x])) d"
    and "I [] s d"
  shows "wp (foreach f xs s) E (I xs) d"
proof -
  have "wp (foreach f zs s) E (I xs) d" if "xs = ys @ zs" "I ys s d" for ys zs s d
    using that
  proof (induction zs arbitrary: ys s d)
    case (Cons z zs)
    have "wp (f z s) E (I (ys @ [z])) d" using assms(1) Cons.prems by blast
    then show ?case unfolding foreach.simps wp_andThen
      by (rule wp_mono) (use Cons.IH [of "ys @ [z]"] Cons.prems(1) in \<open>simp_all del: foreach.simps\<close>)
  qed (simp add: wp_ret)
  from this [of "[]"] assms(2) show ?thesis by simp
qed

section \<open>How a database evolves\<close>

definition same_row :: "message_row \<Rightarrow> message_row \<Rightarrow> bool" where
  "same_row m m' \<longleftrightarrow>
     m' = m\<lparr>m_text := m_text m', m_editDate := m_editDate m', m_deleted := m_deleted m'\<rparr> \<and> (m_deleted m \<longrightarrow> m_deleted m')"

definition pts_of :: "user_id \<Rightarrow> database \<Rightarrow> int" where
  "pts_of u d = (case fmlookup (d_state d) u of None \<Rightarrow> 0 | Some s \<Rightarrow> us_pts s)"

definition next_of :: "user_id \<Rightarrow> database \<Rightarrow> local_id" where
  "next_of u d = (case fmlookup (d_state d) u of None \<Rightarrow> 1 | Some s \<Rightarrow> us_nextLocal s)"

text \<open>Rows are added at the end, and the ones there keep their place and their identity.\<close>

definition rows_evolve :: "message_row list \<Rightarrow> message_row list \<Rightarrow> bool" where
  "rows_evolve xs ys \<longleftrightarrow> (\<exists>rows new. ys = rows @ new \<and> list_all2 same_row xs rows)"

definition evolves :: "database \<Rightarrow> database \<Rightarrow> bool" where
  "evolves d d' \<longleftrightarrow>
     rows_evolve (d_messages d) (d_messages d') \<and>
     (\<exists>new. d_events d' = d_events d @ new) \<and>
     d_fanoutSeq d \<le> d_fanoutSeq d' \<and>
     (\<forall>u. fmlookup (d_state d) u \<noteq> None \<longrightarrow> fmlookup (d_state d') u \<noteq> None)"

lemma same_row_refl [simp]: "same_row m m"
  by (simp add: same_row_def)

lemma same_row_trans: "same_row a b \<Longrightarrow> same_row b c \<Longrightarrow> same_row a c"
  by (cases a; cases b; cases c) (auto simp: same_row_def)

lemma rows_evolve_append [simp]: "rows_evolve xs (xs @ ys)"
  unfolding rows_evolve_def by (intro exI conjI) (rule refl, simp add: list.rel_refl)

lemma rows_evolve_refl [simp]: "rows_evolve xs xs"
  using rows_evolve_append [of xs "[]"] by simp

lemma rows_evolve_map: "(\<And>m. same_row m (f m)) \<Longrightarrow> rows_evolve xs (map f xs)"
  unfolding rows_evolve_def
  by (intro exI [of _ "map f xs"] exI [of _ "[]"]) (simp add: list.rel_map list.rel_refl)

lemma rows_evolve_trans: "rows_evolve xs ys \<Longrightarrow> rows_evolve ys zs \<Longrightarrow> rows_evolve xs zs"
proof -
  assume "rows_evolve xs ys" and "rows_evolve ys zs"
  then obtain r1 n1 r2 n2 where 1: "ys = r1 @ n1" "list_all2 same_row xs r1" "zs = r2 @ n2" "list_all2 same_row ys r2"
    by (auto simp: rows_evolve_def)
  from 1(4) [unfolded 1(1)] obtain r3 r4 where 3: "r2 = r3 @ r4" "list_all2 same_row r1 r3"
    by (auto simp: list_all2_append1)
  have "list_all2 same_row xs r3" by (rule list_all2_trans [OF same_row_trans 1(2) 3(2)])
  with 1(3) 3(1) show ?thesis unfolding rows_evolve_def by auto
qed

lemma evolves_refl [simp]: "evolves d d"
  by (auto simp: evolves_def)

lemma evolves_trans: "evolves a b \<Longrightarrow> evolves b c \<Longrightarrow> evolves a c"
  unfolding evolves_def by (elim conjE, intro conjI) (blast intro: rows_evolve_trans, force, simp, blast)

text \<open>What the message transactions leave alone: the secret chats, their queue and every qts.\<close>

definition qts_of :: "user_id \<Rightarrow> database \<Rightarrow> int" where
  "qts_of u d = (case fmlookup (d_state d) u of None \<Rightarrow> 0 | Some s \<Rightarrow> us_qts s)"

definition quiet :: "database \<Rightarrow> database \<Rightarrow> bool" where
  "quiet d d' \<longleftrightarrow>
     d_secretChats d' = d_secretChats d \<and> d_secretSeq d' = d_secretSeq d \<and> d_encrypted d' = d_encrypted d \<and>
     (\<forall>u. qts_of u d' = qts_of u d)"

definition advances :: "database \<Rightarrow> database \<Rightarrow> bool" where
  "advances d d' \<longleftrightarrow> evolves d d' \<and> quiet d d'"

lemma quiet_refl [simp]: "quiet d d"
  by (simp add: quiet_def)

lemma advances_refl [simp]: "advances d d"
  by (simp add: advances_def)

lemma advances_trans: "advances a b \<Longrightarrow> advances b c \<Longrightarrow> advances a c"
  by (auto simp: advances_def quiet_def intro: evolves_trans)

lemmas advances_defs = advances_def quiet_def evolves_def qts_of_def

definition steady :: "'a tx \<Rightarrow> bool" where
  "steady m \<longleftrightarrow> (\<forall>d. wp m (\<lambda>_. True) (\<lambda>_. advances d) d)"

lemma steady_ret [steady_intros]: "steady (ret x)"
  by (simp add: steady_def wp_ret)

lemma steady_fail [steady_intros]: "steady (fail e)"
  by (simp add: steady_def wp_fail)

lemma steady_query [steady_intros]: "steady (query f)"
  by (simp add: steady_def wp_query)

lemma steady_the_row [steady_intros]: "steady (the_row e r)"
  by (simp add: steady_def wp_the_row split: option.split)

lemma steady_guard [steady_intros]: "steady (guard b e)"
  by (simp add: steady_def wp_guard)

lemma steady_check [steady_intros]: "steady (check r)"
  by (simp add: steady_def wp_check split: option.split)

lemma steady_GetState [steady_intros]: "steady (GetState u)"
  by (simp add: GetState_def steady_intros)

lemma steady_exec: "(\<And>d. advances d (f d)) \<Longrightarrow> steady (exec f)"
  by (simp add: steady_def wp_exec)

lemma steady_andThen [steady_intros]: "steady m \<Longrightarrow> (\<And>x. steady (f x)) \<Longrightarrow> steady (andThen m f)"
  unfolding steady_def wp_andThen by (blast intro: wp_mono advances_trans)

lemma steady_if [steady_intros]: "steady m \<Longrightarrow> steady n \<Longrightarrow> steady (if b then m else n)"
  by simp

lemma steady_option [steady_intros]: "steady m \<Longrightarrow> (\<And>x. steady (f x)) \<Longrightarrow> steady (case r of None \<Rightarrow> m | Some x \<Rightarrow> f x)"
  by (simp split: option.split)

lemma steady_foreach [steady_intros]: "(\<And>x s. steady (f x s)) \<Longrightarrow> steady (foreach f xs s)"
  by (induction xs arbitrary: s) (auto intro!: steady_intros)

lemma steady_advances: "steady m \<Longrightarrow> advances d (snd (transact fault m d))"
  unfolding steady_def by (rule transact_keeps) simp_all

subsection \<open>Statements\<close>

lemma advances_dialogs [simp]: "advances d (d\<lparr>d_dialogs := x\<rparr>)"
  by (auto simp: advances_defs)

lemma advances_participants [simp]: "advances d (d\<lparr>d_participants := x\<rparr>)"
  by (auto simp: advances_defs)

lemma advances_update_message: "(\<And>m. same_row m (f m)) \<Longrightarrow> advances d (update_message u l f d)"
  by (auto simp: advances_defs update_message_def rows_evolve_map)

lemma steady_EnsureUpdateState [steady_intros]: "steady (EnsureUpdateState now u)"
  unfolding EnsureUpdateState_def by (rule steady_exec) (auto simp: advances_defs split: option.split)

lemma steady_Bump [steady_intros]: "steady (BumpState now u)" "steady (BumpPtsOnly now u)"
  by (auto simp: steady_def BumpState_def BumpPtsOnly_def GetState_def tx_wp advances_defs split: option.split)

lemma steady_InsertEvent [steady_intros]: "steady (InsertEvent u p t l)"
  unfolding InsertEvent_def by (intro steady_intros steady_exec) (auto simp: advances_defs)

lemma steady_newMessagePts [steady_intros]: "steady (newMessagePts u l)"
  unfolding newMessagePts_def NewMessagePts_def by (intro steady_intros)

lemma steady_InsertMessage [steady_intros]: "steady (InsertMessage m)"
  unfolding InsertMessage_def by (intro steady_intros steady_exec) (auto simp: advances_defs)

lemma steady_SetEditedText [steady_intros]: "steady (SetEditedText now u l text)"
  unfolding SetEditedText_def by (intro steady_exec advances_update_message) (simp add: same_row_def)

lemma steady_SetDeleted [steady_intros]: "steady (SetDeleted u l)"
  unfolding SetDeleted_def by (intro steady_intros steady_exec advances_update_message) (simp add: same_row_def)

lemma steady_NextFanoutID [steady_intros]: "steady NextFanoutID"
  by (auto simp: steady_def wp_def NextFanoutID_def advances_defs)

lemma steady_dialogs [steady_intros]: "steady (UpsertDialog u pt p t n)" "steady (AdvanceReadInbox l u pt p)"
  "steady (AdvanceChatReadInbox l u pt p)" "steady (AdvanceReadOutbox u pt p l)"
  unfolding UpsertDialog_def AdvanceReadInbox_def AdvanceChatReadInbox_def AdvanceReadOutbox_def Let_def
  by (intro steady_intros steady_exec advances_dialogs)+

lemma steady_participants [steady_intros]: "steady (InsertChatParticipant now c u i)" "steady (InsertChatParticipantIfAbsent now c u i)"
  "steady (DeleteChatParticipant c u)"
  unfolding InsertChatParticipant_def InsertChatParticipantIfAbsent_def DeleteChatParticipant_def
  by (intro steady_intros steady_exec advances_participants)+

lemma steady_update_chat: "steady (update_chat c f)"
  by (auto simp: steady_def update_chat_def tx_wp advances_defs Let_def split: option.split)

lemma steady_chats [steady_intros]: "steady (BumpChatVersion c)" "steady (SetChatTitle_stmt c t)" "steady (SetChatPinnedMessage_stmt c l)"
  "steady (SetChatDefaultBannedRights_stmt c r)"
  unfolding BumpChatVersion_def SetChatTitle_stmt_def SetChatPinnedMessage_stmt_def SetChatDefaultBannedRights_stmt_def
  by (rule steady_update_chat)+

lemma steady_InsertChat [steady_intros]: "steady (InsertChat now title creator)"
  by (auto simp: steady_def wp_def InsertChat_def Let_def advances_defs)

lemma steady_lockFileRefs [steady_intros]: "steady (lockFileRefs ids)"
  unfolding lockFileRefs_def LockFileForReference_def by (intro steady_intros)

subsection \<open>Operations\<close>

lemma steady_fanOut [steady_intros]: "steady (fanOut now d0 f)"
  unfolding fanOut_def fan_write_def fan_copy_def fanoutPts_def ptsFor_def Let_def by (intro steady_intros)

lemma steady_beginChatMutation [steady_intros]: "steady (beginChatMutation d0 c u)"
  unfolding beginChatMutation_def by (intro steady_intros)

lemma steady_logs [steady_intros]: "steady (log_edit now u l)" "steady (log_delete now u l)" "steady (log_read now u t l)"
  unfolding log_edit_def log_delete_def log_read_def by (intro steady_intros)+

lemma steady_send_pair [steady_intros]: "steady (send_pair now from to text r f rep pr fw)"
  unfolding send_pair_def by (intro steady_intros)

lemma steady_send [steady_intros]: "steady (send_tx now from to text r f rep)"
  unfolding send_tx_def send_locked_def send_self_def mirrorPts_def by (intro steady_intros)

lemma steady_edit: "steady (editChatMessage now d1 pre text)" "steady (edit_pair now u l p text)"
  unfolding editChatMessage_def edit_pair_def chatCopies_def edit_copy_def Let_def by (intro steady_intros)+

lemma steady_delete: "steady (delete_tx now snap u ids revoke)"
  unfolding delete_tx_def load_target_def chatCopies_def delete_target_def delete_named_def delete_copy_def Let_def
  by (intro steady_intros)

lemma steady_forward: "steady (forward_tx now order from dt dest srcs rs)"
  unfolding forward_tx_def forward_one_def forward_user_def forward_chat_def forward_copy_def Let_def by (intro steady_intros)

lemma steady_readChat: "steady (readChatHistoryAttempt now u chat bound locked)"
  unfolding readChatHistoryAttempt_def advanceChatReadHistory_def read_target_def by (intro steady_intros)

end
