(* ===== verification/Log_Inv.thy ===== *)
theory Log_Inv
  imports Update_Log
begin

text \<open>
  The invariant of the messaging tables. \<open>log_ok\<close> ties one owner's events, messages and counters
  together, \<open>core_ok\<close> adds the dedup tokens, the fan-outs and the member sets, and every transaction
  of \<open>Fan_Out\<close> and \<open>Messages\<close> keeps it. The transactions are sequences of three writes: a new
  message with its event, an event alone, and a rewrite of a row in place.
\<close>

section \<open>The invariant\<close>

definition rows_of :: "user_id \<Rightarrow> database \<Rightarrow> message_row list" where
  "rows_of u d = filter (\<lambda>m. m_owner m = u) (d_messages d)"

definition events_of :: "user_id \<Rightarrow> database \<Rightarrow> message_event list" where
  "events_of u d = filter (\<lambda>e. ev_owner e = u) (d_events d)"

definition deletions :: "local_id \<Rightarrow> message_event list \<Rightarrow> nat" where
  "deletions l es = length (filter (\<lambda>e. ev_type e = EventDelete \<and> ev_local e = l) es)"

definition log_ok :: "user_id \<Rightarrow> database \<Rightarrow> bool" where
  "log_ok u d \<longleftrightarrow>
     0 \<le> pts_of u d \<and> 1 \<le> next_of u d \<and>
     map ev_pts (events_of u d) = [1..pts_of u d] \<and>
     map m_local (rows_of u d) = [1..next_of u d - 1] \<and>
     map ev_local (filter (\<lambda>e. ev_type e = EventNewMessage) (events_of u d)) = [1..next_of u d - 1] \<and>
     list_all (\<lambda>e. ev_type e = EventEdit \<or> ev_type e = EventDelete \<longrightarrow> 1 \<le> ev_local e \<and> ev_local e < next_of u d) (events_of u d) \<and>
     list_all (\<lambda>m. deletions (m_local m) (events_of u d) = (if m_deleted m then 1 else 0)) (rows_of u d)"

definition tokens_ok :: "database \<Rightarrow> bool" where
  "tokens_ok d \<longleftrightarrow> distinct (map (\<lambda>m. (m_owner m, m_random m)) (filter (\<lambda>m. m_random m \<noteq> 0) (d_messages d)))"

definition fanout_fits :: "int \<Rightarrow> message_row \<Rightarrow> bool" where
  "fanout_fits n m \<longleftrightarrow>
     (m_peerType m = PeerTypeChat \<longleftrightarrow> m_fanout m \<noteq> 0) \<and> m_peerType m \<noteq> PeerTypeChannel \<and> 0 \<le> m_fanout m \<and> m_fanout m \<le> n"

definition fanouts_ok :: "database \<Rightarrow> bool" where
  "fanouts_ok d \<longleftrightarrow>
     0 \<le> d_fanoutSeq d \<and> list_all (fanout_fits (d_fanoutSeq d)) (d_messages d) \<and>
     distinct (map (\<lambda>m. (m_owner m, m_fanout m)) (filter (\<lambda>m. m_fanout m \<noteq> 0) (d_messages d)))"

definition members_ok :: "database \<Rightarrow> bool" where
  "members_ok d \<longleftrightarrow> distinct (map (\<lambda>p. (pt_chat p, pt_user p)) (d_participants d))"

definition core_ok :: "database \<Rightarrow> bool" where
  "core_ok d \<longleftrightarrow> (\<forall>u. log_ok u d) \<and> tokens_ok d \<and> fanouts_ok d \<and> members_ok d"

lemma core_ok_empty: "core_ok (empty_db files blocked)"
  by (simp add: core_ok_def log_ok_def tokens_ok_def fanouts_ok_def members_ok_def pts_of_def next_of_def rows_of_def
      events_of_def empty_db_def)

lemmas inv_defs = core_ok_def log_ok_def tokens_ok_def fanouts_ok_def members_ok_def fanout_fits_def pts_of_def next_of_def
  rows_of_def events_of_def

text \<open>The invariant looks at these tables and at nothing else.\<close>

lemma core_ok_cong:
  "d_messages d' = d_messages d \<Longrightarrow> d_events d' = d_events d \<Longrightarrow> d_participants d' = d_participants d \<Longrightarrow>
    d_fanoutSeq d' = d_fanoutSeq d \<Longrightarrow> (\<And>u. pts_of u d' = pts_of u d \<and> next_of u d' = next_of u d) \<Longrightarrow> core_ok d' = core_ok d"
  by (simp add: core_ok_def log_ok_def tokens_ok_def fanouts_ok_def members_ok_def rows_of_def events_of_def)

lemma core_ok_other [simp]:
  "core_ok (d\<lparr>d_dialogs := a\<rparr>) = core_ok d" "core_ok (d\<lparr>d_chats := b\<rparr>) = core_ok d" "core_ok (d\<lparr>d_chatSeq := c\<rparr>) = core_ok d"
  "core_ok (d\<lparr>d_secretChats := e\<rparr>) = core_ok d" "core_ok (d\<lparr>d_secretSeq := f\<rparr>) = core_ok d" "core_ok (d\<lparr>d_encrypted := g\<rparr>) = core_ok d"
  by (rule core_ok_cong; simp add: pts_of_def next_of_def)+

lemma core_ok_participants: "core_ok d \<Longrightarrow> members_ok (d\<lparr>d_participants := x\<rparr>) \<Longrightarrow> core_ok (d\<lparr>d_participants := x\<rparr>)"
  by (simp add: inv_defs)

lemma core_ok_seq: "core_ok d \<Longrightarrow> d_fanoutSeq d \<le> n \<Longrightarrow> core_ok (d\<lparr>d_fanoutSeq := n\<rparr>)"
  by (auto simp: inv_defs list_all_iff)

lemma core_logD: "core_ok d \<Longrightarrow> log_ok u d"
  by (simp add: core_ok_def)

subsection \<open>What it gives\<close>

lemma log_locals: "log_ok u d \<Longrightarrow> m_local ` set (rows_of u d) = {1..next_of u d - 1}"
  unfolding log_ok_def by (metis set_map set_upto)

lemma log_pts: "log_ok u d \<Longrightarrow> ev_pts ` set (events_of u d) = {1..pts_of u d}"
  unfolding log_ok_def by (metis set_map set_upto)

lemma log_new: "log_ok u d \<Longrightarrow> ev_local ` set (filter (\<lambda>e. ev_type e = EventNewMessage) (events_of u d)) = {1..next_of u d - 1}"
  unfolding log_ok_def by (metis set_map set_upto)

lemma log_deletions: "log_ok u d \<Longrightarrow> m \<in> set (rows_of u d) \<Longrightarrow> deletions (m_local m) (events_of u d) = (if m_deleted m then 1 else 0)"
  by (simp add: log_ok_def list_all_iff)

lemma log_distinct: "log_ok u d \<Longrightarrow> distinct (map m_local (rows_of u d))"
  by (simp add: log_ok_def)

lemma local_range: "core_ok d \<Longrightarrow> m \<in> set (d_messages d) \<Longrightarrow> 1 \<le> m_local m \<and> m_local m < next_of (m_owner m) d"
proof -
  assume ok: "core_ok d" and m: "m \<in> set (d_messages d)"
  then have "m_local m \<in> m_local ` set (rows_of (m_owner m) d)" by (auto simp: rows_of_def)
  then show ?thesis by (simp add: log_locals [OF core_logD [OF ok]])
qed

lemma has_state: "core_ok d \<Longrightarrow> m \<in> set (d_messages d) \<Longrightarrow> \<exists>s. fmlookup (d_state d) (m_owner m) = Some s"
  using local_range [of d m] by (cases "fmlookup (d_state d) (m_owner m)") (auto simp: next_of_def)

lemma row_key: "core_ok d \<Longrightarrow> m \<in> set (d_messages d) \<Longrightarrow> m' \<in> set (d_messages d) \<Longrightarrow> m_owner m = m_owner m' \<Longrightarrow>
    m_local m = m_local m' \<Longrightarrow> m = m'"
proof -
  assume ok: "core_ok d" and m: "m \<in> set (d_messages d)" "m' \<in> set (d_messages d)" "m_owner m = m_owner m'" "m_local m = m_local m'"
  have "distinct (map m_local (rows_of (m_owner m) d))" using log_distinct [OF core_logD [OF ok]] .
  moreover have "m \<in> set (rows_of (m_owner m) d)" "m' \<in> set (rows_of (m_owner m) d)" using m by (auto simp: rows_of_def)
  ultimately show ?thesis using m(4) by (auto simp: distinct_map inj_on_def)
qed

lemma row_lookup: "core_ok d \<Longrightarrow> m \<in> set (d_messages d) \<Longrightarrow> MessageByOwnerLocal (m_owner m) (m_local m) d = Some m"
proof -
  assume ok: "core_ok d" and m: "m \<in> set (d_messages d)"
  have "MessageByOwnerLocal (m_owner m) (m_local m) d \<noteq> None"
    using m by (auto simp: MessageByOwnerLocal_def find_None_iff row_at_def)
  then obtain m' where "MessageByOwnerLocal (m_owner m) (m_local m) d = Some m'" by blast
  moreover then have "m' = m"
    using row_key [OF ok _ m] find_hit by (fastforce simp: MessageByOwnerLocal_def row_at_def)
  ultimately show ?thesis by simp
qed

lemma lookup_rowD: "MessageByOwnerLocal u l d = Some m \<Longrightarrow> m \<in> set (d_messages d) \<and> m_owner m = u \<and> m_local m = l"
  by (auto simp: MessageByOwnerLocal_def row_at_def dest: find_hit)

lemma lookup_tokenD: "MessageByRandomID u r d = Some m \<Longrightarrow> m \<in> set (d_messages d) \<and> m_owner m = u \<and> m_random m = r \<and> r \<noteq> 0"
  by (auto simp: MessageByRandomID_def dest: find_hit)

text \<open>Every stored message has its pts in the log.\<close>

lemma new_event: "core_ok d \<Longrightarrow> m \<in> set (d_messages d) \<Longrightarrow>
    \<exists>e. find (\<lambda>e. ev_owner e = m_owner m \<and> ev_local e = m_local m \<and> ev_type e = EventNewMessage) (d_events d) = Some e"
proof -
  assume ok: "core_ok d" and m: "m \<in> set (d_messages d)"
  have "m_local m \<in> ev_local ` set (filter (\<lambda>e. ev_type e = EventNewMessage) (events_of (m_owner m) d))"
    using local_range [OF ok m] by (simp add: log_new [OF core_logD [OF ok]] del: set_filter)
  then obtain e where "e \<in> set (d_events d)" "ev_owner e = m_owner m" "ev_local e = m_local m" "ev_type e = EventNewMessage"
    by (auto simp: events_of_def)
  then show ?thesis by (cases "find (\<lambda>e. ev_owner e = m_owner m \<and> ev_local e = m_local m \<and> ev_type e = EventNewMessage) (d_events d)")
      (auto simp: find_None_iff)
qed

lemma wp_newMessagePts:
  "core_ok d \<Longrightarrow> m \<in> set (d_messages d) \<Longrightarrow> m_owner m = u \<Longrightarrow> m_local m = l \<Longrightarrow> (\<And>p. Q p d) \<Longrightarrow> wp (newMessagePts u l) E Q d"
  using new_event [of d m] by (auto simp: newMessagePts_def NewMessagePts_def tx_wp)

section \<open>Statements\<close>

lemma wp_EnsureUpdateState [tx_wp]: "wp (EnsureUpdateState now u) E Q d = Q ()
    (case fmlookup (d_state d) u of
       None \<Rightarrow> d\<lparr>d_state := fmupd u \<lparr>us_pts = 0, us_seq = 0, us_date = now, us_nextLocal = 1, us_qts = 0\<rparr> (d_state d)\<rparr>
     | Some _ \<Rightarrow> d)"
  by (simp add: EnsureUpdateState_def tx_wp)

lemma wp_BumpState [tx_wp]: "wp (BumpState now u) E Q d =
    (case fmlookup (d_state d) u of
       None \<Rightarrow> E ErrStorage
     | Some s \<Rightarrow> Q (us_pts s + 1, us_nextLocal s)
         (d\<lparr>d_state := fmupd u (s\<lparr>us_pts := us_pts s + 1, us_nextLocal := us_nextLocal s + 1, us_date := now\<rparr>) (d_state d)\<rparr>))"
  by (simp add: BumpState_def GetState_def tx_wp split: option.split)

lemma wp_BumpPtsOnly [tx_wp]: "wp (BumpPtsOnly now u) E Q d =
    (case fmlookup (d_state d) u of
       None \<Rightarrow> E ErrStorage
     | Some s \<Rightarrow> Q (us_pts s + 1) (d\<lparr>d_state := fmupd u (s\<lparr>us_pts := us_pts s + 1, us_date := now\<rparr>) (d_state d)\<rparr>))"
  by (simp add: BumpPtsOnly_def GetState_def tx_wp split: option.split)

definition event_taken :: "user_id \<Rightarrow> int \<Rightarrow> database \<Rightarrow> bool" where
  "event_taken u p d \<longleftrightarrow> list_ex (\<lambda>e. ev_owner e = u \<and> ev_pts e = p) (d_events d)"

lemma wp_InsertEvent [tx_wp]: "wp (InsertEvent u p t l) E Q d =
    (if event_taken u p d then E ErrStorage
     else Q () (d\<lparr>d_events := d_events d @ [\<lparr>ev_owner = u, ev_pts = p, ev_type = t, ev_local = l\<rparr>]\<rparr>))"
  by (simp add: InsertEvent_def event_taken_def tx_wp)

lemma wp_InsertMessage [tx_wp]: "wp (InsertMessage m) E Q d =
    (if message_clash m d then E ErrStorage else Q () (d\<lparr>d_messages := d_messages d @ [m]\<rparr>))"
  by (simp add: InsertMessage_def tx_wp)

lemma message_clash_upd [simp]:
  "message_clash m (d\<lparr>d_state := a\<rparr>) = message_clash m d" "message_clash m (d\<lparr>d_events := b\<rparr>) = message_clash m d"
  "message_clash m (d\<lparr>d_messages := xs @ [r]\<rparr>) \<longleftrightarrow> message_clash m (d\<lparr>d_messages := xs\<rparr>) \<or>
     m_owner r = m_owner m \<and> (m_local r = m_local m \<or> m_random m \<noteq> 0 \<and> m_random r = m_random m)"
  by (auto simp: message_clash_def)

lemma event_taken_upd [simp]:
  "event_taken u p (d\<lparr>d_state := a\<rparr>) = event_taken u p d" "event_taken u p (d\<lparr>d_messages := b\<rparr>) = event_taken u p d"
  "event_taken u p (d\<lparr>d_events := xs @ [e]\<rparr>) \<longleftrightarrow> event_taken u p (d\<lparr>d_events := xs\<rparr>) \<or> ev_owner e = u \<and> ev_pts e = p"
  by (auto simp: event_taken_def)

lemma wp_SetEditedText [tx_wp]:
  "wp (SetEditedText now u l text) E Q d = Q () (update_message u l (\<lambda>m. m\<lparr>m_text := text, m_editDate := Some now\<rparr>) d)"
  by (simp add: SetEditedText_def tx_wp)

lemma wp_SetDeleted [tx_wp]:
  "wp (SetDeleted u l) E Q d = Q (list_ex (\<lambda>m. row_at u l m \<and> \<not> m_deleted m) (d_messages d)) (update_message u l (\<lambda>m. m\<lparr>m_deleted := True\<rparr>) d)"
  by (simp add: SetDeleted_def tx_wp)

lemma wp_UpsertDialog [tx_wp]: "wp (UpsertDialog u pt p t n) E Q d = Q () (d\<lparr>d_dialogs := fmupd (u, pt, p)
     (case fmlookup (d_dialogs d) (u, pt, p) of
        None \<Rightarrow> \<lparr>dg_top = t, dg_unread = n, dg_readInbox = 0, dg_readOutbox = 0\<rparr>
      | Some g \<Rightarrow> g\<lparr>dg_top := t, dg_unread := dg_unread g + n\<rparr>) (d_dialogs d)\<rparr>)"
  by (simp add: UpsertDialog_def tx_wp)

lemma wp_NextFanoutID [tx_wp]: "wp NextFanoutID E Q d = Q (d_fanoutSeq d + 1) (d\<lparr>d_fanoutSeq := d_fanoutSeq d + 1\<rparr>)"
  by (simp add: NextFanoutID_def wp_def)

lemma wp_GetState [tx_wp]: "wp (GetState u) E Q d = Q (fmlookup (d_state d) u) d"
  by (simp add: GetState_def tx_wp)

lemma core_ok_ensure:
  "core_ok d \<Longrightarrow> core_ok (case fmlookup (d_state d) u of
       None \<Rightarrow> d\<lparr>d_state := fmupd u \<lparr>us_pts = 0, us_seq = 0, us_date = now, us_nextLocal = 1, us_qts = 0\<rparr> (d_state d)\<rparr>
     | Some _ \<Rightarrow> d)"
  by (erule core_ok_cong [THEN iffD2, rotated -1]) (auto simp: pts_of_def next_of_def split: option.splits)

section \<open>The three writes\<close>

subsection \<open>A new message with its event\<close>

definition add_entry :: "gtime \<Rightarrow> message_row \<Rightarrow> database \<Rightarrow> database" where
  "add_entry now m d =
     (let u = m_owner m; s = the (fmlookup (d_state d) u) in
      d\<lparr>d_state := fmupd u (s\<lparr>us_pts := us_pts s + 1, us_nextLocal := us_nextLocal s + 1, us_date := now\<rparr>) (d_state d),
        d_messages := d_messages d @ [m],
        d_events := d_events d @ [\<lparr>ev_owner = u, ev_pts = us_pts s + 1, ev_type = EventNewMessage, ev_local = m_local m\<rparr>]\<rparr>)"

text \<open>The row a transaction may insert: the next id of its owner, a fresh token, a fresh fan-out.\<close>

definition entry_fits :: "message_row \<Rightarrow> database \<Rightarrow> bool" where
  "entry_fits m d \<longleftrightarrow>
     (\<exists>s. fmlookup (d_state d) (m_owner m) = Some s \<and> m_local m = us_nextLocal s) \<and> \<not> m_deleted m \<and> fanout_fits (d_fanoutSeq d) m \<and>
     (m_random m \<noteq> 0 \<longrightarrow> MessageByRandomID (m_owner m) (m_random m) d = None) \<and>
     (m_fanout m \<noteq> 0 \<longrightarrow> list_all (\<lambda>r. \<not> (m_owner r = m_owner m \<and> m_fanout r = m_fanout m)) (d_messages d))"

lemma no_clash: "core_ok d \<Longrightarrow> entry_fits m d \<Longrightarrow> \<not> message_clash m d"
proof -
  assume ok: "core_ok d" and fits: "entry_fits m d"
  from fits have "m_local m = next_of (m_owner m) d" by (auto simp: entry_fits_def next_of_def)
  with local_range [OF ok] have "m_local r \<noteq> m_local m" if "r \<in> set (d_messages d)" "m_owner r = m_owner m" for r
    using that by fastforce
  moreover have "m_random r \<noteq> m_random m" if "r \<in> set (d_messages d)" "m_owner r = m_owner m" "m_random m \<noteq> 0" for r
    using fits that by (auto simp: entry_fits_def MessageByRandomID_def find_None_iff)
  ultimately show ?thesis by (auto simp: message_clash_def list_ex_iff)
qed

lemma pts_free: "core_ok d \<Longrightarrow> fmlookup (d_state d) u = Some s \<Longrightarrow> us_pts s < p \<Longrightarrow> \<not> event_taken u p d"
proof
  assume ok: "core_ok d" and s: "fmlookup (d_state d) u = Some s" "us_pts s < p" and "event_taken u p d"
  then have "p \<in> ev_pts ` set (events_of u d)" by (auto simp: event_taken_def list_ex_iff events_of_def)
  then show False using s by (simp add: log_pts [OF core_logD [OF ok]] pts_of_def)
qed

lemma upto_snoc: "1 \<le> n + 1 \<Longrightarrow> [1..n + 1] = [1..n] @ [n + 1 :: int]"
  using upto_rec2 [of 1 "n + 1"] by simp

lemma deletions_snoc [simp]: "deletions l (es @ [e]) = deletions l es + (if ev_type e = EventDelete \<and> ev_local e = l then 1 else 0)"
  by (simp add: deletions_def)

text \<open>No deletion names an id that is not there yet.\<close>

lemma deletions_new: "log_ok u d \<Longrightarrow> next_of u d \<le> l \<Longrightarrow> deletions l (events_of u d) = 0"
  by (auto simp: log_ok_def deletions_def list_all_iff filter_empty_conv)

lemma log_ok_entry:
  assumes "core_ok d" and "entry_fits m d"
  shows "log_ok u (add_entry now m d)"
proof (cases "u = m_owner m")
  case False
  then show ?thesis using core_logD [OF assms(1), of u]
    by (simp add: add_entry_def Let_def log_ok_def pts_of_def next_of_def rows_of_def events_of_def)
next
  case True
  let ?d = "add_entry now m d" and ?e = "\<lparr>ev_owner = u, ev_pts = pts_of u d + 1, ev_type = EventNewMessage, ev_local = m_local m\<rparr>"
  from assms(2) True obtain s where s: "fmlookup (d_state d) u = Some s" "m_local m = us_nextLocal s" "\<not> m_deleted m"
    by (auto simp: entry_fits_def)
  have d: "pts_of u ?d = pts_of u d + 1" "next_of u ?d = next_of u d + 1" "rows_of u ?d = rows_of u d @ [m]"
    "events_of u ?d = events_of u d @ [?e]" "m_local m = next_of u d"
    using s True by (simp_all add: add_entry_def Let_def pts_of_def next_of_def rows_of_def events_of_def)
  have L: "log_ok u d" using core_logD [OF assms(1)] .
  then have "map ev_pts (events_of u d) = [1..pts_of u d]" "map m_local (rows_of u d) = [1..next_of u d - 1]"
    "map ev_local (filter (\<lambda>e. ev_type e = EventNewMessage) (events_of u d)) = [1..next_of u d - 1]"
    "0 \<le> pts_of u d" "1 \<le> next_of u d" by (simp_all add: log_ok_def)
  moreover have "[1..next_of u d] = [1..next_of u d - 1] @ [next_of u d]"
    using upto_snoc [of "next_of u d - 1"] \<open>1 \<le> next_of u d\<close> by simp
  moreover have "list_all (\<lambda>e. ev_type e = EventEdit \<or> ev_type e = EventDelete \<longrightarrow> 1 \<le> ev_local e \<and> ev_local e < next_of u d + 1) (events_of u d)"
    using L by (fastforce simp: log_ok_def list_all_iff)
  moreover have "list_all (\<lambda>m. deletions (m_local m) (events_of u d) = (if m_deleted m then 1 else 0)) (rows_of u d @ [m])"
    using L s(3) d(5) deletions_new [OF L, of "m_local m"] by (simp add: log_ok_def)
  ultimately show ?thesis unfolding log_ok_def d(1-4) by (simp add: upto_snoc d(5))
qed

lemma core_ok_entry: "core_ok d \<Longrightarrow> entry_fits m d \<Longrightarrow> core_ok (add_entry now m d)"
proof -
  assume ok: "core_ok d" and fits: "entry_fits m d"
  have "tokens_ok (add_entry now m d)"
    using ok fits by (auto simp: core_ok_def tokens_ok_def add_entry_def Let_def entry_fits_def MessageByRandomID_def find_None_iff)
  moreover have "fanouts_ok (add_entry now m d)"
    using ok fits by (auto simp: core_ok_def fanouts_ok_def fanout_fits_def add_entry_def Let_def entry_fits_def list_all_iff)
  moreover have "members_ok (add_entry now m d)"
    using ok by (simp add: core_ok_def members_ok_def add_entry_def Let_def)
  ultimately show ?thesis using log_ok_entry [OF ok fits] by (simp add: core_ok_def)
qed

text \<open>The three statements every sending loop runs amount to one entry.\<close>

lemma wp_entry:
  assumes "core_ok d" and "fmlookup (d_state d) u = Some s" and "m_owner (row (us_nextLocal s)) = u"
    and "m_local (row (us_nextLocal s)) = us_nextLocal s" and "entry_fits (row (us_nextLocal s)) d"
    and "wp (k (us_pts s + 1, us_nextLocal s)) E Q (add_entry now (row (us_nextLocal s)) d)"
  shows "wp (andThen (BumpState now u) (\<lambda>b. andThen (InsertMessage (row (snd b))) (\<lambda>_.
           andThen (InsertEvent u (fst b) EventNewMessage (snd b)) (\<lambda>_. k b)))) E Q d"
  using assms no_clash [OF assms(1,5)] pts_free [OF assms(1,2), of "us_pts s + 1"]
  by (simp add: tx_wp add_entry_def Let_def)

subsection \<open>An event alone\<close>

definition add_event :: "gtime \<Rightarrow> user_id \<Rightarrow> event_type \<Rightarrow> local_id \<Rightarrow> database \<Rightarrow> database" where
  "add_event now u t l d =
     (let s = the (fmlookup (d_state d) u) in
      d\<lparr>d_state := fmupd u (s\<lparr>us_pts := us_pts s + 1, us_date := now\<rparr>) (d_state d),
        d_events := d_events d @ [\<lparr>ev_owner = u, ev_pts = us_pts s + 1, ev_type = t, ev_local = l\<rparr>]\<rparr>)"

lemma log_ok_event:
  assumes "log_ok v d" and "fmlookup (d_state d) u = Some s"
    and "t = EventEdit \<Longrightarrow> 1 \<le> l \<and> l < next_of u d" and "t \<noteq> EventNewMessage" and "t \<noteq> EventDelete"
  shows "log_ok v (add_event now u t l d)"
proof (cases "v = u")
  case False
  then show ?thesis using assms by (simp add: add_event_def Let_def log_ok_def pts_of_def next_of_def rows_of_def events_of_def)
next
  case True
  let ?d = "add_event now u t l d" and ?e = "\<lparr>ev_owner = u, ev_pts = pts_of u d + 1, ev_type = t, ev_local = l\<rparr>"
  have "pts_of u ?d = pts_of u d + 1" "next_of u ?d = next_of u d" "rows_of u ?d = rows_of u d" "events_of u ?d = events_of u d @ [?e]"
    using assms(2) by (simp_all add: add_event_def Let_def pts_of_def next_of_def rows_of_def events_of_def)
  then show ?thesis using assms True by (auto simp: log_ok_def upto_snoc)
qed

lemma core_ok_event:
  "core_ok d \<Longrightarrow> fmlookup (d_state d) u = Some s \<Longrightarrow> (t = EventEdit \<Longrightarrow> 1 \<le> l \<and> l < next_of u d) \<Longrightarrow>
    t \<noteq> EventNewMessage \<Longrightarrow> t \<noteq> EventDelete \<Longrightarrow> core_ok (add_event now u t l d)"
  using log_ok_event [of _ d u s t l now] unfolding core_ok_def
  by (auto simp: tokens_ok_def fanouts_ok_def fanout_fits_def members_ok_def add_event_def Let_def)

lemma wp_event:
  "core_ok d \<Longrightarrow> fmlookup (d_state d) u = Some s \<Longrightarrow>
    wp (andThen (BumpPtsOnly now u) (\<lambda>pts. andThen (InsertEvent u pts t l) (\<lambda>_. ret pts))) E Q d
      = Q (us_pts s + 1) (add_event now u t l d)"
  using pts_free [of d u s "us_pts s + 1"] by (simp add: tx_wp add_event_def Let_def)

lemma wp_log_edit: "core_ok d \<Longrightarrow> fmlookup (d_state d) u = Some s \<Longrightarrow>
    wp (log_edit now u l) E Q d = Q (us_pts s + 1) (add_event now u EventEdit l d)"
  unfolding log_edit_def by (rule wp_event)

lemma wp_log_read: "core_ok d \<Longrightarrow> fmlookup (d_state d) u = Some s \<Longrightarrow>
    wp (log_read now u t l) E Q d = Q (us_pts s + 1) (add_event now u t l d)"
  unfolding log_read_def by (rule wp_event)

subsection \<open>A rewrite in place\<close>

lemma same_rowD:
  assumes "same_row m m'"
  shows "m_owner m' = m_owner m" "m_local m' = m_local m" "m_random m' = m_random m" "m_fanout m' = m_fanout m"
    "m_peerType m' = m_peerType m" "m_peer m' = m_peer m" "m_peerLocal m' = m_peerLocal m" "m_out m' = m_out m"
    "m_from m' = m_from m" "m_action m' = m_action m"
  using assms by (cases m; cases m'; simp add: same_row_def)+

lemma same_row_edit [simp]: "same_row m (m\<lparr>m_text := t, m_editDate := e\<rparr>)" "same_row m (m\<lparr>m_deleted := True\<rparr>)"
  by (simp_all add: same_row_def)

lemma tables_rewrite:
  assumes "\<And>m. same_row m (f m)"
  shows "tokens_ok (update_message u l f d) = tokens_ok d" "fanouts_ok (update_message u l f d) = fanouts_ok d"
    "members_ok (update_message u l f d) = members_ok d"
proof -
  let ?g = "\<lambda>m. if row_at u l m then f m else m"
  have g: "m_owner (?g m) = m_owner m" "m_random (?g m) = m_random m" "m_fanout (?g m) = m_fanout m"
    "fanout_fits n (?g m) = fanout_fits n m" for m n
    using same_rowD [OF assms, of m] by (simp_all add: fanout_fits_def)
  show "tokens_ok (update_message u l f d) = tokens_ok d"
    by (simp add: tokens_ok_def update_message_def filter_map comp_def g)
  show "fanouts_ok (update_message u l f d) = fanouts_ok d"
    by (simp add: fanouts_ok_def update_message_def filter_map comp_def g list.pred_map)
  show "members_ok (update_message u l f d) = members_ok d"
    by (simp add: members_ok_def update_message_def)
qed

lemma rows_rewrite:
  assumes "\<And>m. same_row m (f m)"
  shows "rows_of v (update_message u l f d) = map (\<lambda>m. if row_at u l m then f m else m) (rows_of v d)"
proof -
  have "m_owner (if row_at u l m then f m else m) = m_owner m" for m using same_rowD(1) [OF assms] by simp
  then show ?thesis by (simp add: rows_of_def update_message_def filter_map comp_def)
qed

lemma other_rewrite [simp]:
  "events_of v (update_message u l f d) = events_of v d" "pts_of v (update_message u l f d) = pts_of v d"
  "next_of v (update_message u l f d) = next_of v d" "d_state (update_message u l f d) = d_state d"
  "d_participants (update_message u l f d) = d_participants d" "d_chats (update_message u l f d) = d_chats d"
  "d_fanoutSeq (update_message u l f d) = d_fanoutSeq d" "d_files (update_message u l f d) = d_files d"
  by (simp_all add: update_message_def events_of_def pts_of_def next_of_def)

lemma core_ok_text:
  assumes "core_ok d"
  shows "core_ok (update_message u l (\<lambda>m. m\<lparr>m_text := t, m_editDate := e\<rparr>) d)"
proof -
  have g: "m_local (if row_at u l m then m\<lparr>m_text := t, m_editDate := e\<rparr> else m) = m_local m"
    "m_deleted (if row_at u l m then m\<lparr>m_text := t, m_editDate := e\<rparr> else m) = m_deleted m" for m by simp_all
  show ?thesis using assms
    by (simp add: core_ok_def tables_rewrite log_ok_def rows_rewrite list.pred_map comp_def g)
qed

text \<open>A row is marked deleted together with its delete event, once.\<close>

definition mark_deleted :: "gtime \<Rightarrow> user_id \<Rightarrow> local_id \<Rightarrow> database \<Rightarrow> database" where
  "mark_deleted now u l d = add_event now u EventDelete l (update_message u l (\<lambda>m. m\<lparr>m_deleted := True\<rparr>) d)"

lemma set_deleted_idle:
  "\<not> list_ex (\<lambda>m. row_at u l m \<and> \<not> m_deleted m) (d_messages d) \<Longrightarrow> update_message u l (\<lambda>m. m\<lparr>m_deleted := True\<rparr>) d = d"
proof -
  assume "\<not> list_ex (\<lambda>m. row_at u l m \<and> \<not> m_deleted m) (d_messages d)"
  then have "(if row_at u l m then m\<lparr>m_deleted := True\<rparr> else m) = m" if "m \<in> set (d_messages d)" for m
    using that by (cases m) (auto simp: list_ex_iff)
  then have "map (\<lambda>m. if row_at u l m then m\<lparr>m_deleted := True\<rparr> else m) (d_messages d) = d_messages d" by (simp add: map_idI)
  then show ?thesis by (simp add: update_message_def)
qed

lemma log_ok_delete:
  assumes "core_ok d" and "r \<in> set (d_messages d)" and "m_owner r = u" and "m_local r = l" and "\<not> m_deleted r"
  shows "log_ok v (mark_deleted now u l d)"
proof -
  let ?f = "\<lambda>m. if row_at u l m then m\<lparr>m_deleted := True\<rparr> else m"
  let ?e = "\<lparr>ev_owner = u, ev_pts = pts_of u d + 1, ev_type = EventDelete, ev_local = l\<rparr>"
  obtain s where s: "fmlookup (d_state d) u = Some s" using has_state [OF assms(1,2)] assms(3) by blast
  have L: "log_ok v d" using core_logD [OF assms(1)] .
  have rows: "rows_of v (mark_deleted now u l d) = map ?f (rows_of v d)"
    unfolding mark_deleted_def add_event_def Let_def using rows_rewrite [of "\<lambda>m. m\<lparr>m_deleted := True\<rparr>" v u l d]
    by (simp add: rows_of_def update_message_def)
  have loc: "m_local (?f m) = m_local m" for m by simp
  have ev: "events_of v (mark_deleted now u l d) = events_of v d @ (if v = u then [?e] else [])"
    "pts_of v (mark_deleted now u l d) = pts_of v d + (if v = u then 1 else 0)" "next_of v (mark_deleted now u l d) = next_of v d"
    using s by (auto simp: mark_deleted_def add_event_def Let_def events_of_def pts_of_def next_of_def update_message_def)
  show ?thesis
  proof (cases "v = u")
    case False
    then have "map ?f (rows_of v d) = rows_of v d" by (intro map_idI) (auto simp: rows_of_def row_at_def)
    with False L show ?thesis by (simp add: log_ok_def rows ev)
  next
    case True
    have del: "deletions (m_local (?f m)) (events_of u d @ [?e]) = (if m_deleted (?f m) then 1 else 0)" if "m \<in> set (rows_of u d)" for m
    proof (cases "m_local m = l")
      case eq: True
      then have "m = r" using row_key [OF assms(1) _ assms(2), of m] that assms(3,4) by (simp add: rows_of_def)
      then show ?thesis using log_deletions [OF L, of m] assms(3,4,5) that True by (simp add: row_at_def)
    next
      case False
      then show ?thesis using log_deletions [OF L, of m] that True by (simp add: row_at_def)
    qed
    have R: "rows_of u (mark_deleted now u l d) = map ?f (rows_of u d)" "events_of u (mark_deleted now u l d) = events_of u d @ [?e]"
      "pts_of u (mark_deleted now u l d) = pts_of u d + 1" "next_of u (mark_deleted now u l d) = next_of u d"
      using rows ev True by simp_all
    have D: "list_all (\<lambda>m. deletions (m_local m) (events_of u d @ [?e]) = (if m_deleted m then 1 else 0)) (map ?f (rows_of u d))"
      unfolding list_all_iff set_map by (intro ballI, elim imageE, hypsubst) (rule del)
    have M: "map m_local (map ?f (rows_of u d)) = map m_local (rows_of u d)" by simp
    have "1 \<le> l \<and> l < next_of u d" using local_range [OF assms(1,2)] assms(3,4) by simp
    with True L show ?thesis unfolding True log_ok_def R M by (intro conjI D) (simp_all add: upto_snoc)
  qed
qed

lemma core_ok_delete:
  "core_ok d \<Longrightarrow> r \<in> set (d_messages d) \<Longrightarrow> m_owner r = u \<Longrightarrow> m_local r = l \<Longrightarrow> \<not> m_deleted r \<Longrightarrow> core_ok (mark_deleted now u l d)"
proof -
  assume a: "core_ok d" "r \<in> set (d_messages d)" "m_owner r = u" "m_local r = l" "\<not> m_deleted r"
  let ?d = "update_message u l (\<lambda>m. m\<lparr>m_deleted := True\<rparr>) d"
  have "tokens_ok ?d" "fanouts_ok ?d" "members_ok ?d" using a(1) by (simp_all add: core_ok_def tables_rewrite)
  then show ?thesis using log_ok_delete [OF a]
    by (simp add: core_ok_def mark_deleted_def add_event_def Let_def tokens_ok_def fanouts_ok_def members_ok_def)
qed

end
