(* ===== verification/Log_Ops.thy ===== *)
theory Log_Ops
  imports Log_Inv
begin

text \<open>Every transaction of \<open>Fan_Out\<close> and \<open>Messages\<close> keeps the invariant, and what it may fail with.\<close>

section \<open>Sending a pair\<close>

abbreviation sender_row :: "gtime \<Rightarrow> user_id \<Rightarrow> user_id \<Rightarrow> string \<Rightarrow> int \<Rightarrow> int \<Rightarrow> int option \<Rightarrow> forward_info \<Rightarrow> update_state \<Rightarrow> update_state \<Rightarrow> message_row" where
  "sender_row now from to text random file reply fw s r \<equiv>
     user_row now from (us_nextLocal s) to from text True random (us_nextLocal r) file reply fw"

abbreviation peer_row :: "gtime \<Rightarrow> user_id \<Rightarrow> user_id \<Rightarrow> string \<Rightarrow> int \<Rightarrow> int option \<Rightarrow> forward_info \<Rightarrow> update_state \<Rightarrow> update_state \<Rightarrow> message_row" where
  "peer_row now from to text file pr fw s r \<equiv> user_row now to (us_nextLocal r) from from text False 0 (us_nextLocal s) file pr fw"

lemma user_row_sel [simp]:
  "m_owner (user_row now u l p from text out random pl file reply fw) = u" "m_local (user_row now u l p from text out random pl file reply fw) = l"
  "m_random (user_row now u l p from text out random pl file reply fw) = random" "m_fanout (user_row now u l p from text out random pl file reply fw) = 0"
  "m_deleted (user_row now u l p from text out random pl file reply fw) = False" "m_peerType (user_row now u l p from text out random pl file reply fw) = PeerTypeUser"
  "m_peer (user_row now u l p from text out random pl file reply fw) = p" "m_peerLocal (user_row now u l p from text out random pl file reply fw) = pl"
  "m_text (user_row now u l p from text out random pl file reply fw) = text" "m_out (user_row now u l p from text out random pl file reply fw) = out"
  "m_from (user_row now u l p from text out random pl file reply fw) = from" "m_editDate (user_row now u l p from text out random pl file reply fw) = None"
  "m_action (user_row now u l p from text out random pl file reply fw) = ChatActionNone"
  by (simp_all add: user_row_def)

lemma user_entry_fits:
  "core_ok d \<Longrightarrow> fmlookup (d_state d) u = Some s \<Longrightarrow> (random \<noteq> 0 \<Longrightarrow> MessageByRandomID u random d = None) \<Longrightarrow>
    entry_fits (user_row now u (us_nextLocal s) p from text out random pl file reply fw) d"
  by (auto simp: entry_fits_def fanout_fits_def core_ok_def fanouts_ok_def)

lemma add_entry_sel [simp]:
  "d_messages (add_entry now m d) = d_messages d @ [m]" "d_fanoutSeq (add_entry now m d) = d_fanoutSeq d"
  "d_chats (add_entry now m d) = d_chats d" "d_participants (add_entry now m d) = d_participants d" "d_files (add_entry now m d) = d_files d"
  "fmlookup (d_state (add_entry now m d)) v = (if v = m_owner m then
     (let s = the (fmlookup (d_state d) v) in Some (s\<lparr>us_pts := us_pts s + 1, us_nextLocal := us_nextLocal s + 1, us_date := now\<rparr>))
     else fmlookup (d_state d) v)"
  by (simp_all add: add_entry_def Let_def)

lemma add_event_sel [simp]:
  "d_messages (add_event now u t l d) = d_messages d" "d_fanoutSeq (add_event now u t l d) = d_fanoutSeq d"
  "d_chats (add_event now u t l d) = d_chats d" "d_participants (add_event now u t l d) = d_participants d"
  "fmlookup (d_state (add_event now u t l d)) v = (if v = u then
     (let s = the (fmlookup (d_state d) v) in Some (s\<lparr>us_pts := us_pts s + 1, us_date := now\<rparr>)) else fmlookup (d_state d) v)"
  by (simp_all add: add_event_def Let_def)

lemma token_entry [simp]:
  "MessageByRandomID u r (add_entry now m d) =
     (case MessageByRandomID u r d of None \<Rightarrow> if m_owner m = u \<and> m_random m = r \<and> r \<noteq> 0 then Some m else None | Some x \<Rightarrow> Some x)"
  by (auto simp: MessageByRandomID_def find_append split: option.split)

definition pair_entries :: "gtime \<Rightarrow> user_id \<Rightarrow> user_id \<Rightarrow> string \<Rightarrow> int \<Rightarrow> int \<Rightarrow> int option \<Rightarrow> int option \<Rightarrow> forward_info \<Rightarrow> database \<Rightarrow> database" where
  "pair_entries now from to text random file reply pr fw d =
     (let s = the (fmlookup (d_state d) from); r = the (fmlookup (d_state d) to) in
      add_entry now (peer_row now from to text file pr fw s r) (add_entry now (sender_row now from to text random file reply fw s r) d))"

lemma core_ok_pair:
  assumes "core_ok d" and "from \<noteq> to" and "fmlookup (d_state d) from = Some s" and "fmlookup (d_state d) to = Some r"
    and "random \<noteq> 0 \<Longrightarrow> MessageByRandomID from random d = None"
  shows "core_ok (pair_entries now from to text random file reply pr fw d)"
proof -
  let ?d = "add_entry now (sender_row now from to text random file reply fw s r) d"
  have ok: "core_ok ?d" by (rule core_ok_entry [OF assms(1) user_entry_fits [OF assms(1,3,5)]])
  have "fmlookup (d_state ?d) to = Some r" using assms(2,4) by simp
  from core_ok_entry [OF ok user_entry_fits [OF ok this]] show ?thesis using assms(3,4) by (simp add: pair_entries_def)
qed

lemma wp_send_pair:
  assumes ok: "core_ok d" and ne: "from \<noteq> to" and s: "fmlookup (d_state d) from = Some s" and r: "fmlookup (d_state d) to = Some r"
    and fresh: "random \<noteq> 0 \<Longrightarrow> MessageByRandomID from random d = None"
    and Q: "\<And>pr g. Q (messageFromRow (sender_row now from to text random file reply fw s r), us_pts s + 1, us_pts r + 1)
        ((pair_entries now from to text random file reply pr fw d)\<lparr>d_dialogs := g\<rparr>)"
  shows "wp (send_pair now from to text random file reply peerReply fw) E Q d"
proof -
  have 1: "\<not> message_clash (sender_row now from to text random file reply fw s r) d"
    by (rule no_clash [OF ok user_entry_fits [OF ok s fresh]])
  have 2: "\<not> message_clash (peer_row now from to text file pr fw s r) d" for pr
    by (rule no_clash [OF ok user_entry_fits [OF ok r]]) simp
  have "MessageByOwnerLocal from (us_nextLocal s) d = None"
  proof (cases "MessageByOwnerLocal from (us_nextLocal s) d")
    case (Some m)
    then show ?thesis using local_range [OF ok] s by (fastforce simp: next_of_def dest: lookup_rowD)
  qed simp
  then have 3: "find (row_at from (us_nextLocal s)) (d_messages d @ [sender_row now from to text random file reply fw s r, q]) =
      Some (sender_row now from to text random file reply fw s r)" for q
    by (simp add: MessageByOwnerLocal_def find_append row_at_def)
  have 4: "\<not> event_taken from (us_pts s + 1) d" "\<not> event_taken to (us_pts r + 1) d"
    using pts_free [OF ok s] pts_free [OF ok r] by simp_all
  show ?thesis using ne s r 1 2 4 Q
    by (simp add: send_pair_def tx_wp MessageByOwnerLocal_def 3 pair_entries_def add_entry_def Let_def)
qed

lemma wp_lockFileRefs [tx_wp]:
  "wp (lockFileRefs ids) E Q d =
     (if list_all (\<lambda>f. f \<noteq> 0 \<longrightarrow> fmlookup (d_files d) f \<noteq> None) ids then Q () d else E ErrFileMissing)"
proof -
  have "wp (foreach (\<lambda>f _. LockFileForReference f) fs ()) E Q d =
      (if list_all (\<lambda>f. fmlookup (d_files d) f \<noteq> None) fs then Q () d else E ErrFileMissing)" for fs
    by (induction fs) (auto simp: LockFileForReference_def tx_wp split: option.split)
  moreover have "set (ascendingUnique (filter (\<lambda>i. i \<noteq> 0) ids)) = {i \<in> set ids. i \<noteq> 0}" by (auto simp: ascendingUnique_def)
  ultimately show ?thesis by (auto simp: lockFileRefs_def list_all_iff)
qed

lemma core_ok_after_ensure:
  "core_ok d \<Longrightarrow> (\<And>d' s. core_ok d' \<Longrightarrow> fmlookup (d_state d') u = Some s \<Longrightarrow> d_messages d' = d_messages d \<Longrightarrow> d_events d' = d_events d \<Longrightarrow>
      (\<And>v. v \<noteq> u \<Longrightarrow> fmlookup (d_state d') v = fmlookup (d_state d) v) \<Longrightarrow> d_fanoutSeq d' = d_fanoutSeq d \<Longrightarrow>
      d_participants d' = d_participants d \<Longrightarrow> Q () d') \<Longrightarrow>
    wp (EnsureUpdateState now u) E Q d"
  using core_ok_ensure [of d u now] by (cases "fmlookup (d_state d) u") (auto simp: tx_wp)

lemma wp_send_self:
  assumes ok: "core_ok d" and s: "fmlookup (d_state d) u = Some s" and fresh: "random \<noteq> 0 \<Longrightarrow> MessageByRandomID u random d = None"
    and Q: "\<And>g. Q (messageFromRow m, us_pts s + 1, us_pts s + 1, False) ((add_entry now m d)\<lparr>d_dialogs := g\<rparr>)"
    and m: "m = user_row now u (us_nextLocal s) u u text True random 0 file (reply_ref reply) not_forwarded"
  shows "wp (send_self now u text random file reply) E Q d"
proof -
  have sel: "m_owner m = u" "m_local m = us_nextLocal s" by (simp_all add: m)
  have fits: "entry_fits m d" unfolding m by (rule user_entry_fits [OF ok s fresh])
  have "MessageByOwnerLocal u (us_nextLocal s) (add_entry now m d) = Some m"
    using row_lookup [OF core_ok_entry [OF ok fits], of m] by (simp add: m)
  then have L: "find (row_at u (us_nextLocal s)) (d_messages d @ [m]) = Some m" by (simp add: MessageByOwnerLocal_def)
  show ?thesis unfolding send_self_def
    by (rule wp_entry [OF ok s, where row = "\<lambda>l. user_row now u l u u text True random 0 file (reply_ref reply) not_forwarded"])
      (use fits Q L in \<open>simp_all add: tx_wp m [symmetric] MessageByOwnerLocal_def sel\<close>)
qed

section \<open>Mirrored rows\<close>

text \<open>The two sides of a message point at each other and show the same thing.\<close>

definition mirror_of :: "message_row \<Rightarrow> message_row \<Rightarrow> bool" where
  "mirror_of m m' \<longleftrightarrow>
     m_owner m' = m_peer m \<and> m_peer m' = m_owner m \<and> m_local m' = m_peerLocal m \<and> m_peerLocal m' = m_local m \<and>
     m_peerType m' = PeerTypeUser \<and> m_from m' = m_from m \<and> m_out m' = (\<not> m_out m) \<and> m_text m' = m_text m \<and> m_editDate m' = m_editDate m"

definition mirrored :: "message_row list \<Rightarrow> message_row \<Rightarrow> bool" where
  "mirrored rows m \<longleftrightarrow>
     m_peerType m = PeerTypeUser \<longrightarrow>
       (if m_owner m = m_peer m then m_peerLocal m = 0 else list_ex (mirror_of m) rows)"

definition mirror_ok :: "database \<Rightarrow> bool" where
  "mirror_ok d \<longleftrightarrow> list_all (mirrored (d_messages d)) (d_messages d)"

definition db_ok :: "database \<Rightarrow> bool" where
  "db_ok d \<longleftrightarrow> core_ok d \<and> mirror_ok d"

lemma db_ok_empty: "db_ok (empty_db files blocked)"
  unfolding db_ok_def by (intro conjI core_ok_empty) (simp add: mirror_ok_def empty_db_def)

lemma db_ok_core: "db_ok d \<Longrightarrow> core_ok d"
  by (simp add: db_ok_def)

lemma mirror_ok_cong: "d_messages d' = d_messages d \<Longrightarrow> mirror_ok d' = mirror_ok d"
  by (simp add: mirror_ok_def)

lemma db_ok_other [simp]:
  "db_ok (d\<lparr>d_dialogs := a\<rparr>) = db_ok d" "db_ok (d\<lparr>d_chats := b\<rparr>) = db_ok d" "db_ok (d\<lparr>d_chatSeq := c\<rparr>) = db_ok d"
  "db_ok (d\<lparr>d_secretChats := e\<rparr>) = db_ok d" "db_ok (d\<lparr>d_secretSeq := f\<rparr>) = db_ok d" "db_ok (d\<lparr>d_encrypted := g\<rparr>) = db_ok d"
  by (simp_all add: db_ok_def mirror_ok_def)

lemma mirrored_mono: "mirrored rows m \<Longrightarrow> set rows \<subseteq> set rows' \<Longrightarrow> mirrored rows' m"
  by (fastforce simp: mirrored_def list_ex_iff)

lemma mirror_ok_append: "mirror_ok d \<Longrightarrow> d_messages d' = d_messages d @ new \<Longrightarrow> list_all (mirrored (d_messages d')) new \<Longrightarrow> mirror_ok d'"
  by (auto simp: mirror_ok_def list_all_iff intro: mirrored_mono)

lemma db_ok_entry:
  "db_ok d \<Longrightarrow> entry_fits m d \<Longrightarrow> mirrored (d_messages d @ [m]) m \<Longrightarrow> db_ok (add_entry now m d)"
  unfolding db_ok_def by (auto intro: core_ok_entry mirror_ok_append)

lemma db_ok_pair:
  assumes "db_ok d" and "from \<noteq> to" and "fmlookup (d_state d) from = Some s" and "fmlookup (d_state d) to = Some r"
    and "random \<noteq> 0 \<Longrightarrow> MessageByRandomID from random d = None"
  shows "db_ok (pair_entries now from to text random file reply pr fw d)"
proof -
  have "mirror_ok (pair_entries now from to text random file reply pr fw d)"
    by (rule mirror_ok_append [where d = d and new = "[sender_row now from to text random file reply fw s r, peer_row now from to text file pr fw s r]"])
      (use assms in \<open>simp_all add: db_ok_def pair_entries_def mirrored_def mirror_of_def\<close>)
  then show ?thesis using core_ok_pair assms by (simp add: db_ok_def)
qed

lemma db_ok_event:
  "db_ok d \<Longrightarrow> fmlookup (d_state d) u = Some s \<Longrightarrow> (t = EventEdit \<Longrightarrow> 1 \<le> l \<and> l < next_of u d) \<Longrightarrow>
    t \<noteq> EventNewMessage \<Longrightarrow> t \<noteq> EventDelete \<Longrightarrow> db_ok (add_event now u t l d)"
  unfolding db_ok_def mirror_ok_def add_event_sel by (blast intro: core_ok_event)

lemma db_ok_ensure:
  "db_ok d \<Longrightarrow> (\<And>d' s. db_ok d' \<Longrightarrow> fmlookup (d_state d') u = Some s \<Longrightarrow> d_messages d' = d_messages d \<Longrightarrow> d_events d' = d_events d \<Longrightarrow>
      (\<And>v. v \<noteq> u \<Longrightarrow> fmlookup (d_state d') v = fmlookup (d_state d) v) \<Longrightarrow> d_fanoutSeq d' = d_fanoutSeq d \<Longrightarrow>
      d_participants d' = d_participants d \<Longrightarrow> Q () d') \<Longrightarrow>
    wp (EnsureUpdateState now u) E Q d"
  by (rule core_ok_after_ensure) (auto simp: db_ok_def mirror_ok_def)

lemma has_mirror:
  assumes "db_ok d" and "m \<in> set (d_messages d)" and "m_peerType m = PeerTypeUser" and "m_owner m \<noteq> m_peer m"
  obtains m' where "m' \<in> set (d_messages d)" "mirror_of m m'"
proof -
  have "mirrored (d_messages d) m" using assms(1,2) by (simp add: db_ok_def mirror_ok_def list_all_iff)
  with assms(3,4) that show thesis by (auto simp: mirrored_def list_ex_iff)
qed

lemma wp_mirrorPts:
  assumes ok: "db_ok d" and m: "m \<in> set (d_messages d)" and st: "fmlookup (d_state d) to = Some r" and Q: "\<And>p. Q p d"
  shows "wp (mirrorPts m to) E Q d"
proof -
  have pts: "wp (newMessagePts (m_owner x) (m_local x)) E Q d" if "x \<in> set (d_messages d)" for x
    by (rule wp_newMessagePts [OF db_ok_core [OF ok] that refl refl]) (rule Q)
  have "wp (newMessagePts to (m_peerLocal m)) E Q d" if "m_peerType m = PeerTypeUser" "m_peer m = to" "m_owner m \<noteq> to"
  proof -
    from has_mirror [OF ok m that(1)] that(2,3) obtain m' where "m' \<in> set (d_messages d)" "mirror_of m m'" by blast
    with pts [of m'] that(2) show ?thesis by (simp add: mirror_of_def)
  qed
  then show ?thesis using pts [OF m] st Q by (auto simp: mirrorPts_def tx_wp)
qed

section \<open>Sending\<close>

text \<open>A send can only fail on a missing file; a resend finds the pts of both sides.\<close>

lemma wp_send_locked:
  assumes ok: "db_ok d" and s: "fmlookup (d_state d) from = Some s" and r: "fmlookup (d_state d) to = Some r"
  shows "wp (send_locked now from to text random file reply) E (\<lambda>_. db_ok) d"
proof (cases "if random \<noteq> 0 then MessageByRandomID from random d else None")
  case (Some m)
  then have m: "m \<in> set (d_messages d)" "m_owner m = from" by (auto dest: lookup_tokenD split: if_splits)
  have "wp (newMessagePts from (m_local m)) E (\<lambda>sPts. wp (mirrorPts m to) E (\<lambda>rPts. db_ok)) d"
    by (rule wp_newMessagePts [OF db_ok_core [OF ok] m refl], rule wp_mirrorPts [OF ok m(1) r], rule ok)
  with Some show ?thesis unfolding send_locked_def tx_wp by simp
next
  case None
  then have fresh: "random \<noteq> 0 \<Longrightarrow> MessageByRandomID from random d = None" by simp
  show ?thesis
  proof (cases "from = to")
    case True
    have "wp (send_self now from text random file reply) E (\<lambda>_. db_ok) d"
      by (rule wp_send_self [OF db_ok_core [OF ok] s fresh _ refl])
        (auto intro!: db_ok_entry ok user_entry_fits [OF db_ok_core [OF ok] s fresh] simp: mirrored_def)
    with None True show ?thesis unfolding send_locked_def tx_wp by simp
  next
    case False
    have "wp (send_pair now from to text random file (reply_ref reply) (peer_reply from reply) not_forwarded) E (\<lambda>_. db_ok) d"
      by (rule wp_send_pair [OF db_ok_core [OF ok] False s r fresh]) (simp_all add: db_ok_pair [OF ok False s r fresh])
    with None False show ?thesis unfolding send_locked_def tx_wp by simp
  qed
qed

lemma wp_send:
  assumes "db_ok d"
  shows "wp (send_tx now from to text random file reply) (\<lambda>e. e = ErrFileMissing) (\<lambda>_. db_ok) d"
proof -
  have "wp (EnsureUpdateState now from) E (\<lambda>_. wp (EnsureUpdateState now to) E
      (\<lambda>_. wp (send_locked now from to text random file reply) E (\<lambda>_. db_ok))) d" for E
  proof (rule db_ok_ensure [OF assms])
    fix d1 s assume 1: "db_ok d1" "fmlookup (d_state d1) from = Some s"
    show "wp (EnsureUpdateState now to) E (\<lambda>_. wp (send_locked now from to text random file reply) E (\<lambda>_. db_ok)) d1"
    proof (rule db_ok_ensure [OF 1(1)])
      fix d2 r assume 2: "db_ok d2" "fmlookup (d_state d2) to = Some r"
        and "\<And>v. v \<noteq> to \<Longrightarrow> fmlookup (d_state d2) v = fmlookup (d_state d1) v"
      then obtain s' where "fmlookup (d_state d2) from = Some s'" using 1(2) by (cases "from = to") auto
      with 2 show "wp (send_locked now from to text random file reply) E (\<lambda>_. db_ok) d2" by (intro wp_send_locked)
    qed
  qed
  then show ?thesis unfolding send_tx_def tx_wp by simp
qed

section \<open>Fan-outs\<close>

lemma fan_row_sel [simp]:
  "m_owner (fan_row now f n u l) = u" "m_local (fan_row now f n u l) = l" "m_fanout (fan_row now f n u l) = n"
  "m_random (fan_row now f n u l) = (if u = f_from f then f_random f else 0)" "m_deleted (fan_row now f n u l) = False"
  "m_peerType (fan_row now f n u l) = PeerTypeChat" "m_peer (fan_row now f n u l) = f_chat f" "m_from (fan_row now f n u l) = f_from f"
  "m_text (fan_row now f n u l) = f_text f" "m_action (fan_row now f n u l) = f_action f" "m_replyTo (fan_row now f n u l) = reply_ref (f_replyTo f)"
  by (simp_all add: fan_row_def)

text \<open>
  While a fan-out loops, the rows it has written are those of the owners it has passed, and the rows
  of the others are still to come.
\<close>

definition fan_progress :: "gtime \<Rightarrow> fan_out \<Rightarrow> int \<Rightarrow> message_row list \<Rightarrow> user_id list \<Rightarrow> database \<Rightarrow> bool" where
  "fan_progress now f n base us d \<longleftrightarrow>
     db_ok d \<and> d_fanoutSeq d = n \<and> (\<exists>ls. length ls = length us \<and> d_messages d = base @ map2 (fan_row now f n) us ls)"

lemma fan_progress_fits:
  assumes prog: "fan_progress now f n base us d" and fresh: "u \<notin> set us" and s: "fmlookup (d_state d) u = Some s"
    and base: "list_all (\<lambda>m. m_fanout m < n) base" "1 \<le> n"
    and token: "f_random f \<noteq> 0 \<Longrightarrow> list_all (\<lambda>m. \<not> (m_owner m = f_from f \<and> m_random m = f_random f)) base"
  shows "entry_fits (fan_row now f n u (us_nextLocal s)) d"
proof -
  from prog obtain ls where ls: "length ls = length us" "d_messages d = base @ map2 (fan_row now f n) us ls" "d_fanoutSeq d = n"
    by (auto simp: fan_progress_def)
  have new: "m_owner m \<in> set us \<and> m_fanout m = n" if "m \<in> set (map2 (fan_row now f n) us ls)" for m
    using that by (auto simp: set_zip)
  have split: "m \<in> set base \<or> m_owner m \<in> set us \<and> m_fanout m = n" if "m \<in> set (d_messages d)" for m
    using that new [of m] unfolding ls(2) set_append by blast
  have "m_owner m \<noteq> u \<or> m_fanout m \<noteq> n" if "m \<in> set (d_messages d)" for m
    using split [OF that] fresh base(1) by (auto simp: list_all_iff)
  moreover have "\<not> (m_owner m = f_from f \<and> m_random m = f_random f)" if "m \<in> set (d_messages d)" "f_random f \<noteq> 0" "u = f_from f" for m
    using split [OF that(1)] that(2,3) fresh token by (auto simp: list_all_iff)
  ultimately show ?thesis using s ls(3) base(2)
    by (auto simp: entry_fits_def fanout_fits_def list_all_iff MessageByRandomID_def find_None_iff)
qed

lemma db_ok_fan_entry:
  assumes "db_ok d" and "entry_fits (fan_row now f n u l) d"
  shows "db_ok (add_entry now (fan_row now f n u l) d)"
  by (rule db_ok_entry [OF assms]) (simp add: mirrored_def)

lemma fan_progress_snoc:
  assumes "fan_progress now f n base us d" and "entry_fits (fan_row now f n u l) d"
  shows "fan_progress now f n base (us @ [u]) ((add_entry now (fan_row now f n u l) d)\<lparr>d_dialogs := g\<rparr>)"
proof -
  from assms(1) obtain ls where ls: "length ls = length us" "d_messages d = base @ map2 (fan_row now f n) us ls" "d_fanoutSeq d = n"
    by (auto simp: fan_progress_def)
  have "\<exists>ls'. length ls' = length (us @ [u]) \<and> d_messages d @ [fan_row now f n u l] = base @ map2 (fan_row now f n) (us @ [u]) ls'"
    by (rule exI [of _ "ls @ [l]"]) (use ls in simp)
  then show ?thesis using assms ls(3) db_ok_fan_entry [of d now f n u l] by (simp add: fan_progress_def)
qed

text \<open>One copy, in both loops: the rows grow by one, and the sender's local id is the one just stored.\<close>

lemma wp_fan_copy:
  assumes prog: "fan_progress now f n base us d" and fresh: "u \<notin> set us"
    and base: "list_all (\<lambda>m. m_fanout m < n) base" "1 \<le> n"
    and token: "f_random f \<noteq> 0 \<Longrightarrow> list_all (\<lambda>m. \<not> (m_owner m = f_from f \<and> m_random m = f_random f)) base"
    and sent: "snd acc \<noteq> 0 \<Longrightarrow> MessageByOwnerLocal (f_from f) (snd acc) d \<noteq> None"
  shows "wp (fan_copy now f n u acc) E (\<lambda>acc' d'. fan_progress now f n base (us @ [u]) d' \<and>
     (snd acc' \<noteq> 0 \<longrightarrow> MessageByOwnerLocal (f_from f) (snd acc') d' \<noteq> None)) d"
  unfolding fan_copy_def wp_andThen [of "EnsureUpdateState now u"]
proof (rule db_ok_ensure)
  show "db_ok d" using prog by (simp add: fan_progress_def)
  fix d1 s assume d1: "db_ok d1" "fmlookup (d_state d1) u = Some s" "d_messages d1 = d_messages d" "d_fanoutSeq d1 = d_fanoutSeq d"
  have prog1: "fan_progress now f n base us d1" using prog d1 by (simp add: fan_progress_def)
  have fits: "entry_fits (fan_row now f n u (us_nextLocal s)) d1"
    by (rule fan_progress_fits [OF prog1 fresh d1(2) base token])
  have "MessageByOwnerLocal u (us_nextLocal s) (add_entry now (fan_row now f n u (us_nextLocal s)) d1) = Some (fan_row now f n u (us_nextLocal s))"
    using row_lookup [OF db_ok_core [OF db_ok_fan_entry [OF d1(1) fits]], of "fan_row now f n u (us_nextLocal s)"] by simp
  then have own: "MessageByOwnerLocal u (us_nextLocal s) ((add_entry now (fan_row now f n u (us_nextLocal s)) d1)\<lparr>d_dialogs := g\<rparr>) \<noteq> None" for g
    by (simp add: MessageByOwnerLocal_def)
  have old: "MessageByOwnerLocal v l ((add_entry now m d1)\<lparr>d_dialogs := g\<rparr>) \<noteq> None" if "MessageByOwnerLocal v l d \<noteq> None" for v l m g
    using that d1(3) by (auto simp: MessageByOwnerLocal_def find_append)
  show "wp (andThen (BumpState now u) (\<lambda>b. andThen (InsertMessage (fan_row now f n u (snd b))) (\<lambda>_.
      andThen (InsertEvent u (fst b) EventNewMessage (snd b)) (\<lambda>_.
      andThen (UpsertDialog u PeerTypeChat (f_chat f) (snd b) (if u = f_from f then 0 else 1)) (\<lambda>_.
      ret (fmupd u (fst b) (fst acc), if u = f_from f then snd b else snd acc)))))) E
      (\<lambda>acc' d'. fan_progress now f n base (us @ [u]) d' \<and> (snd acc' \<noteq> 0 \<longrightarrow> MessageByOwnerLocal (f_from f) (snd acc') d' \<noteq> None)) d1"
    by (rule wp_entry [OF db_ok_core [OF d1(1)] d1(2)])
      (use fits fan_progress_snoc [OF prog1 fits] own old [OF sent] in \<open>auto simp add: tx_wp simp del: not_None_eq iff del: not_None_eq\<close>)
qed

lemma fan_base:
  "db_ok d \<Longrightarrow> list_all (\<lambda>m. m_fanout m < d_fanoutSeq d + 1) (d_messages d) \<and> 1 \<le> d_fanoutSeq d + 1"
  by (fastforce simp: db_ok_def core_ok_def fanouts_ok_def fanout_fits_def list_all_iff)

lemma fan_start: "db_ok d \<Longrightarrow> fan_progress now f (d_fanoutSeq d + 1) (d_messages d) [] (d\<lparr>d_fanoutSeq := d_fanoutSeq d + 1\<rparr>)"
  by (auto simp: fan_progress_def db_ok_def mirror_ok_def intro: core_ok_seq)

lemma fresh_token: "MessageByRandomID u r d = None \<Longrightarrow> r \<noteq> 0 \<Longrightarrow> list_all (\<lambda>m. \<not> (m_owner m = u \<and> m_random m = r)) (d_messages d)"
  by (auto simp: MessageByRandomID_def find_None_iff list_all_iff)

text \<open>The whole write cannot fail: it stores one copy per owner and finds the sender's.\<close>

lemma wp_fan_write:
  assumes ok: "db_ok d" and us: "distinct us" and token: "f_random f \<noteq> 0 \<Longrightarrow> MessageByRandomID (f_from f) (f_random f) d = None"
  shows "wp (fan_write now f us) E (\<lambda>_ d'. fan_progress now f (d_fanoutSeq d + 1) (d_messages d) us d') d"
proof -
  let ?n = "d_fanoutSeq d + 1" and ?d = "d\<lparr>d_fanoutSeq := d_fanoutSeq d + 1\<rparr>"
  let ?I = "\<lambda>us (acc :: (user_id, int) fmap \<times> local_id) d'. fan_progress now f ?n (d_messages d) us d' \<and> (snd acc \<noteq> 0 \<longrightarrow> MessageByOwnerLocal (f_from f) (snd acc) d' \<noteq> None)"
  have "wp (foreach (fan_copy now f ?n) us (fmempty, 0)) E (?I us) ?d"
  proof (rule wp_foreach_prefix [where I = ?I])
    fix ys x zs acc d' assume split: "us = ys @ x # zs" and I: "?I ys acc d'"
    have "x \<notin> set ys" using us split by auto
    then show "wp (fan_copy now f ?n x acc) E (?I (ys @ [x])) d'"
      by (intro wp_fan_copy) (use I fan_base [OF ok] fresh_token [OF token] in auto)
  qed (simp add: fan_start [OF ok])
  then show ?thesis unfolding fan_write_def wp_andThen [of NextFanoutID] wp_NextFanoutID wp_andThen [of "foreach _ _ _"]
    by (rule wp_mono) (auto simp: tx_wp)
qed

lemma member_list_distinct: "db_ok d \<Longrightarrow> distinct (map pt_user (ChatParticipants c d))"
proof -
  assume "db_ok d"
  then have "distinct (map (\<lambda>p. (pt_chat p, pt_user p)) (filter (\<lambda>p. pt_chat p = c) (d_participants d)))"
    by (auto simp: db_ok_def core_ok_def members_ok_def distinct_map_filter)
  then have "distinct (map pt_user (filter (\<lambda>p. pt_chat p = c) (d_participants d)))"
    by (auto simp: distinct_map inj_on_def)
  moreover have "mset (map pt_user (ChatParticipants c d)) = mset (map pt_user (filter (\<lambda>p. pt_chat p = c) (d_participants d)))"
    by (simp add: ChatParticipants_def)
  ultimately show ?thesis by (metis mset_eq_imp_distinct_iff)
qed

lemma distinct_merge_extra: "distinct us \<Longrightarrow> distinct (merge_extra us xs)"
  by (induction us xs rule: merge_extra.induct) auto

lemma wp_fanoutPts:
  assumes ok: "db_ok d" and Q: "\<And>p. Q p d" and E: "E ErrStorage"
  shows "wp (fanoutPts m us) E Q d"
proof (cases "m_fanout m = 0")
  case True
  have "wp (foreach (\<lambda>u acc. andThen (GetState u) (\<lambda>r. andThen (the_row ErrStorage r) (\<lambda>s. ret (fmupd u (us_pts s) acc)))) us fmempty) E
      (\<lambda>_ d'. d' = d) d"
    by (rule wp_foreach) (auto simp: tx_wp E split: option.split)
  then show ?thesis using True by (auto simp: fanoutPts_def ptsFor_def elim!: wp_mono intro: Q)
next
  case False
  have "wp (foreach (\<lambda>c acc. andThen (newMessagePts (m_owner c) (m_local c)) (\<lambda>pts. ret (fmupd (m_owner c) pts acc)))
      (MessagesByFanout (m_fanout m) d) fmempty) E (\<lambda>_ d'. d' = d) d"
  proof (rule wp_foreach)
    fix c acc d' assume c: "c \<in> set (MessagesByFanout (m_fanout m) d)" and "d' = d"
    then show "wp (andThen (newMessagePts (m_owner c) (m_local c)) (\<lambda>pts. ret (fmupd (m_owner c) pts acc))) E (\<lambda>_ d'. d' = d) d'"
      unfolding wp_andThen wp_ret
      by (intro wp_newMessagePts [OF db_ok_core [OF ok, folded \<open>d' = d\<close>] _ refl refl]) (auto simp: MessagesByFanout_def)
  qed simp
  then show ?thesis using False by (auto simp: fanoutPts_def wp_andThen wp_query elim!: wp_mono intro: Q)
qed

lemma wp_fanOut:
  assumes ok: "db_ok d"
  shows "wp (fanOut now d0 f) (\<lambda>e. e \<noteq> ErrPtsUnknown) (\<lambda>_. db_ok) d"
proof -
  have dup: "wp (fanoutPts m us) (\<lambda>e. e \<noteq> ErrPtsUnknown) (\<lambda>_. db_ok) d" for m us
    by (rule wp_fanoutPts [OF ok]) (simp_all add: ok)
  have wr: "wp (fan_write now f (merge_extra (map pt_user (ChatParticipants (f_chat f) d)) (f_extra f))) (\<lambda>e. e \<noteq> ErrPtsUnknown) (\<lambda>_. db_ok) d"
    if "(if f_random f \<noteq> 0 then MessageByRandomID (f_from f) (f_random f) d else None) = None"
    by (rule wp_mono [OF wp_fan_write [OF ok distinct_merge_extra [OF member_list_distinct [OF ok]]]])
      (use that in \<open>auto simp: fan_progress_def split: if_splits\<close>)
  show ?thesis unfolding fanOut_def tx_wp Let_def
    using dup wr by (auto simp: tx_wp checkDefaultMessageRestriction_def split: option.splits)
qed

end
