(* ===== verification/Log_Rewrites.thy ===== *)
theory Log_Rewrites
  imports Log_Ops
begin

text \<open>
  The transactions that rewrite rows in place or move markers keep the invariant as well: edits,
  deletes, forwards, reads and the membership mutations.
\<close>

lemma wp_steady: "steady m \<Longrightarrow> wp m E Q d \<Longrightarrow> wp m E (\<lambda>x d'. Q x d' \<and> evolves d d') d"
  unfolding steady_def by (auto simp: wp_def advances_def split: sum.splits)

lemma evolves_row:
  assumes "evolves d0 d" and "m \<in> set (d_messages d0)"
  obtains m' where "m' \<in> set (d_messages d)" "same_row m m'"
proof -
  from assms(1) obtain rows new where 1: "d_messages d = rows @ new" "list_all2 same_row (d_messages d0) rows"
    by (auto simp: evolves_def rows_evolve_def)
  from 1(2) assms(2) obtain m' where "m' \<in> set rows" "same_row m m'" by (metis in_set_conv_nth list_all2_conv_all_nth)
  with 1(1) that show thesis by auto
qed

lemma evolves_lookup:
  assumes "evolves d0 d" and "core_ok d" and "MessageByOwnerLocal u l d0 = Some m"
  obtains m' where "MessageByOwnerLocal u l d = Some m'" "same_row m m'"
proof -
  from lookup_rowD [OF assms(3)] have m: "m \<in> set (d_messages d0)" "m_owner m = u" "m_local m = l" by simp_all
  from evolves_row [OF assms(1) m(1)] obtain m' where m': "m' \<in> set (d_messages d)" "same_row m m'" .
  with row_lookup [OF assms(2) m'(1)] same_rowD [OF m'(2)] m that show thesis by simp
qed

lemma evolves_state: "evolves d0 d \<Longrightarrow> fmlookup (d_state d0) u \<noteq> None \<Longrightarrow> fmlookup (d_state d) u \<noteq> None"
  by (simp add: evolves_def)

section \<open>Mirrors under a rewrite\<close>

lemma mirror_ok_mapI:
  "d_messages d' = map g (d_messages d) \<Longrightarrow> (\<And>m. m \<in> set (d_messages d) \<Longrightarrow> mirrored (map g (d_messages d)) (g m)) \<Longrightarrow> mirror_ok d'"
  by (simp add: mirror_ok_def list_all_iff)

lemma mirror_ok_single:
  assumes ok: "mirror_ok d" and f: "\<And>m. same_row m (f m)"
    and alone: "\<And>m. m \<in> set (d_messages d) \<Longrightarrow> row_at u l m \<Longrightarrow> m_peerType m = PeerTypeUser \<Longrightarrow> m_owner m = m_peer m"
  shows "mirror_ok (update_message u l f d)"
proof -
  let ?g = "\<lambda>m. if row_at u l m then f m else m"
  have "mirrored (map ?g (d_messages d)) (?g m)" if m: "m \<in> set (d_messages d)" for m
  proof (cases "m_peerType m = PeerTypeUser \<and> m_owner m \<noteq> m_peer m")
    case True
    then have "\<not> row_at u l m" using alone m by blast
    have "mirrored (d_messages d) m" using ok m by (simp add: mirror_ok_def list_all_iff)
    with True obtain m' where m': "m' \<in> set (d_messages d)" "mirror_of m m'" by (auto simp: mirrored_def list_ex_iff)
    then have "\<not> row_at u l m'" using alone [OF m'(1)] True by (auto simp: mirror_of_def)
    with m' have "m' \<in> set (map ?g (d_messages d))" by force
    with m' True \<open>\<not> row_at u l m\<close> show ?thesis by (auto simp: mirrored_def list_ex_iff)
  next
    case False
    have "mirrored (d_messages d) m" using ok m by (simp add: mirror_ok_def list_all_iff)
    with False same_rowD [OF f, of m] show ?thesis by (auto simp: mirrored_def)
  qed
  then show ?thesis by (intro mirror_ok_mapI [where d = d and g = ?g]) (simp_all add: update_message_def)
qed

lemma mirror_ok_deleted: "mirror_ok d \<Longrightarrow> mirror_ok (update_message u l (\<lambda>m. m\<lparr>m_deleted := True\<rparr>) d)"
proof -
  let ?g = "\<lambda>m. if row_at u l m then m\<lparr>m_deleted := True\<rparr> else m"
  assume ok: "mirror_ok d"
  have g: "mirror_of (?g m) (?g m') = mirror_of m m'" for m m' by (simp add: mirror_of_def)
  have "mirrored (map ?g (d_messages d)) (?g m)" if "mirrored (d_messages d) m" for m
  proof -
    have "list_ex (mirror_of (?g m)) (map ?g xs) = list_ex (mirror_of m) xs" for xs
      by (induction xs) (simp_all only: list.map list_ex_Nil_iff list_ex_Cons_iff g)
    with that show ?thesis by (simp add: mirrored_def)
  qed
  with ok show ?thesis by (intro mirror_ok_mapI [where d = d and g = ?g]) (simp_all add: update_message_def mirror_ok_def list_all_iff)
qed

text \<open>Rewriting a row and its mirror alike.\<close>

lemma mirror_ok_both:
  assumes ok: "db_ok d" and msg: "MessageByOwnerLocal u l d = Some msg" and user: "m_peerType msg = PeerTypeUser" "m_peer msg \<noteq> u"
  shows "mirror_ok (update_message (m_peer msg) (m_peerLocal msg) (\<lambda>m. m\<lparr>m_text := t, m_editDate := e\<rparr>)
     (update_message u l (\<lambda>m. m\<lparr>m_text := t, m_editDate := e\<rparr>) d))" (is "mirror_ok ?d")
proof -
  let ?at = "\<lambda>m. row_at u l m \<or> row_at (m_peer msg) (m_peerLocal msg) m"
  let ?g = "\<lambda>m. if ?at m then m\<lparr>m_text := t, m_editDate := e\<rparr> else m"
  note msgD = lookup_rowD [OF msg]
  from has_mirror [OF ok, of msg] msgD user obtain msg' where msg': "msg' \<in> set (d_messages d)" "mirror_of msg msg'" by metis
  have rows: "d_messages ?d = map ?g (d_messages d)" by (auto simp: update_message_def row_at_def)
  have key: "m = msg" if "m \<in> set (d_messages d)" "row_at u l m" for m
    using row_key [OF db_ok_core [OF ok] that(1), of msg] that msgD by (simp add: row_at_def)
  have key': "m = msg'" if "m \<in> set (d_messages d)" "row_at (m_peer msg) (m_peerLocal msg) m" for m
    using row_key [OF db_ok_core [OF ok] that(1) msg'(1)] that msg'(2) by (simp add: row_at_def mirror_of_def)
  have pair: "?at m \<longleftrightarrow> ?at m'" if "m \<in> set (d_messages d)" "m' \<in> set (d_messages d)" "mirror_of m m'" for m m'
  proof -
    have f: "m_owner m' = m_peer m" "m_peer m' = m_owner m" "m_local m' = m_peerLocal m" "m_peerLocal m' = m_local m"
      "m_peer msg' = u" "m_peerLocal msg' = l" using that(3) msg'(2) msgD by (simp_all add: mirror_of_def)
    have "?at m'" if at: "?at m"
      using at
    proof
      assume "row_at u l m"
      then have "m = msg" using key \<open>m \<in> set (d_messages d)\<close> by blast
      with f show ?thesis by (simp add: row_at_def)
    next
      assume "row_at (m_peer msg) (m_peerLocal msg) m"
      then have "m = msg'" using key' \<open>m \<in> set (d_messages d)\<close> by blast
      with f show ?thesis by (simp add: row_at_def)
    qed
    moreover have "?at m" if at: "?at m'"
      using at
    proof
      assume "row_at u l m'"
      then have "m' = msg" using key \<open>m' \<in> set (d_messages d)\<close> by blast
      with f show ?thesis by (simp add: row_at_def)
    next
      assume "row_at (m_peer msg) (m_peerLocal msg) m'"
      then have "m' = msg'" using key' \<open>m' \<in> set (d_messages d)\<close> by blast
      with f show ?thesis by (simp add: row_at_def)
    qed
    ultimately show ?thesis by blast
  qed
  have "mirrored (map ?g (d_messages d)) (?g m)" if m: "m \<in> set (d_messages d)" for m
  proof -
    have ok_m: "mirrored (d_messages d) m" using ok m by (simp add: db_ok_def mirror_ok_def list_all_iff)
    show ?thesis
    proof (cases "m_peerType m = PeerTypeUser \<and> m_owner m \<noteq> m_peer m")
      case True
      with ok_m obtain m' where m': "m' \<in> set (d_messages d)" "mirror_of m m'" by (auto simp: mirrored_def list_ex_iff)
      have "mirror_of (?g m) (?g m')" using m'(2) pair [OF m m'] by (simp add: mirror_of_def)
      moreover have "?g m' \<in> set (map ?g (d_messages d))" using m'(1) by simp
      ultimately show ?thesis using True by (auto simp: mirrored_def list_ex_iff)
    qed (use ok_m in \<open>auto simp: mirrored_def\<close>)
  qed
  then show ?thesis by (rule mirror_ok_mapI [OF rows])
qed

lemma db_ok_text_alone:
  assumes "db_ok d" and "\<And>m. m \<in> set (d_messages d) \<Longrightarrow> row_at u l m \<Longrightarrow> m_peerType m = PeerTypeUser \<Longrightarrow> m_owner m = m_peer m"
  shows "db_ok (update_message u l (\<lambda>m. m\<lparr>m_text := t, m_editDate := e\<rparr>) d)"
  using assms by (auto simp: db_ok_def intro: core_ok_text mirror_ok_single)

lemma db_ok_delete:
  "db_ok d \<Longrightarrow> r \<in> set (d_messages d) \<Longrightarrow> m_owner r = u \<Longrightarrow> m_local r = l \<Longrightarrow> \<not> m_deleted r \<Longrightarrow> db_ok (mark_deleted now u l d)"
proof -
  assume a: "db_ok d" "r \<in> set (d_messages d)" "m_owner r = u" "m_local r = l" "\<not> m_deleted r"
  have "mirror_ok (mark_deleted now u l d)"
    using mirror_ok_deleted [of d u l] a(1) by (simp add: db_ok_def mark_deleted_def mirror_ok_def)
  with core_ok_delete [OF db_ok_core [OF a(1)] a(2-5)] show ?thesis by (simp add: db_ok_def)
qed

section \<open>Editing\<close>

lemma wp_log_edit_row:
  assumes "db_ok d" and "m \<in> set (d_messages d)" and "m_owner m = u" and "m_local m = l"
  shows "wp (log_edit now u l) E (\<lambda>_. db_ok) d"
proof -
  obtain s where s: "fmlookup (d_state d) u = Some s" using has_state [OF db_ok_core [OF assms(1)] assms(2)] assms(3) by blast
  have "1 \<le> l \<and> l < next_of u d" using local_range [OF db_ok_core [OF assms(1)] assms(2)] assms(3,4) by simp
  then show ?thesis using wp_log_edit [OF db_ok_core [OF assms(1)] s] db_ok_event [OF assms(1) s] by simp
qed

lemma in_rewritten: "m \<in> set (d_messages d) \<Longrightarrow> (\<And>m. same_row m (f m)) \<Longrightarrow>
    \<exists>m' \<in> set (d_messages (update_message u l f d)). m_owner m' = m_owner m \<and> m_local m' = m_local m"
  by (rule bexI [of _ "if row_at u l m then f m else m"]) (auto simp: update_message_def same_rowD)

lemma wp_edit_copy:
  assumes ok: "db_ok d" and c: "c' \<in> set (d_messages d)" "same_row c c'" "m_peerType c = PeerTypeChat"
  shows "wp (edit_copy now pre text members c pts) E (\<lambda>_. db_ok) d"
proof -
  let ?d = "update_message (m_owner c) (m_local c) (\<lambda>m. m\<lparr>m_text := text, m_editDate := Some now\<rparr>) d"
  have "db_ok ?d"
  proof (rule db_ok_text_alone [OF ok])
    fix m assume m: "m \<in> set (d_messages d)" "row_at (m_owner c) (m_local c) m" "m_peerType m = PeerTypeUser"
    then have "m = c'" using row_key [OF db_ok_core [OF ok] m(1) c(1)] same_rowD [OF c(2)] by (simp add: row_at_def)
    then show "m_owner m = m_peer m" using m(3) c(3) same_rowD [OF c(2)] by simp
  qed
  moreover obtain m where "m \<in> set (d_messages ?d)" "m_owner m = m_owner c" "m_local m = m_local c"
    using in_rewritten [OF c(1), of "\<lambda>m. m\<lparr>m_text := text, m_editDate := Some now\<rparr>"] same_rowD [OF c(2)] by (metis same_row_edit(1))
  ultimately have "wp (log_edit now (m_owner c) (m_local c)) E (\<lambda>_. db_ok) ?d" by (rule wp_log_edit_row)
  then show ?thesis using ok unfolding edit_copy_def tx_wp by simp
qed

lemma wp_editChatMessage:
  assumes ok: "db_ok d" and ev: "evolves d1 d" and ok1: "db_ok d1"
  shows "wp (editChatMessage now d1 pre text) (\<lambda>e. e = ErrMessageInvalid) (\<lambda>_. db_ok) d"
proof -
  have chat: "m_peerType c = PeerTypeChat" "c \<in> set (d_messages d1)" if "c \<in> set (MessagesByFanout f d1)" for c f
    using that ok1 by (auto simp: MessagesByFanout_def db_ok_def core_ok_def fanouts_ok_def fanout_fits_def list_all_iff)
  have "wp (foreach (edit_copy now pre text members) (MessagesByFanout f d1) 0) E (\<lambda>_ d'. db_ok d' \<and> evolves d1 d') d" for members f E
  proof (rule wp_foreach)
    fix c s d' assume c: "c \<in> set (MessagesByFanout f d1)" and d': "db_ok d' \<and> evolves d1 d'"
    from evolves_row [OF conjunct2 [OF d'] chat(2) [OF c]] obtain c' where c': "c' \<in> set (d_messages d')" "same_row c c'" .
    have "steady (edit_copy now pre text members c s)" unfolding edit_copy_def by (intro steady_intros)
    from wp_steady [OF this wp_edit_copy [OF conjunct1 [OF d'] c' chat(1) [OF c]]]
    show "wp (edit_copy now pre text members c s) E (\<lambda>_ d'. db_ok d' \<and> evolves d1 d') d'"
      by (rule wp_mono) (use d' in \<open>auto intro: evolves_trans\<close>)
  qed (use ok ev in simp)
  then have "wp (foreach (edit_copy now pre text members) (MessagesByFanout f d1) 0) E (\<lambda>_. db_ok) d" for members f E
    by (blast intro: wp_mono)
  then show ?thesis unfolding editChatMessage_def chatCopies_def Let_def tx_wp by (simp split: option.split)
qed

lemma wp_edit_pair:
  assumes ok: "db_ok d" and row: "\<And>msg. MessageByOwnerLocal u l d = Some msg \<Longrightarrow> m_peerType msg = PeerTypeUser \<and> m_peer msg = peer"
  shows "wp (edit_pair now u l peer text) (\<lambda>e. e = ErrMessageInvalid) (\<lambda>_. db_ok) d"
proof (cases "MessageByOwnerLocal u l d")
  case None
  then show ?thesis unfolding edit_pair_def tx_wp by simp
next
  case (Some msg)
  let ?f = "\<lambda>m :: message_row. m\<lparr>m_text := text, m_editDate := Some now\<rparr>"
  note msg = lookup_rowD [OF Some] row [OF Some]
  let ?d = "update_message u l ?f d"
  obtain a where a: "a \<in> set (d_messages ?d)" "m_owner a = u" "m_local a = l"
    using in_rewritten [of msg d ?f u l] msg by (metis same_row_edit(1))
  show ?thesis
  proof (cases "u = peer")
    case True
    have "db_ok ?d"
      by (rule db_ok_text_alone [OF ok]) (use row_key [OF db_ok_core [OF ok] _ _ , of _ msg] msg True in \<open>auto simp: row_at_def\<close>)
    from wp_log_edit_row [OF this a] have "wp (log_edit now u l) E (\<lambda>_. db_ok) ?d" for E .
    with Some True show ?thesis unfolding edit_pair_def tx_wp by simp
  next
    case False
    let ?d2 = "update_message peer (m_peerLocal msg) ?f ?d"
    have ok2: "db_ok ?d2"
      using mirror_ok_both [OF ok Some] msg False core_ok_text [OF core_ok_text [OF db_ok_core [OF ok]]] by (simp add: db_ok_def)
    obtain a2 where a2: "a2 \<in> set (d_messages ?d2)" "m_owner a2 = u" "m_local a2 = l"
      using in_rewritten [OF a(1), of ?f] a by (metis same_row_edit(1))
    from has_mirror [OF ok, of msg] msg False obtain m' where m': "m' \<in> set (d_messages d)" "mirror_of msg m'" by metis
    from in_rewritten [OF m'(1), of ?f u l] obtain m2 where m2: "m2 \<in> set (d_messages ?d)" "m_owner m2 = m_owner m'" "m_local m2 = m_local m'"
      by auto
    from in_rewritten [OF m2(1), of ?f peer "m_peerLocal msg"] obtain b where "b \<in> set (d_messages ?d2)" "m_owner b = m_owner m2" "m_local b = m_local m2"
      by auto
    then have b: "b \<in> set (d_messages ?d2)" "m_owner b = peer" "m_local b = m_peerLocal msg"
      using m2 m'(2) msg by (simp_all add: mirror_of_def)
    have "wp (log_edit now u l) E (\<lambda>_. wp (log_edit now peer (m_peerLocal msg)) E (\<lambda>_. db_ok)) ?d2" for E
    proof (rule wp_mono [OF wp_steady [OF steady_logs(1) wp_log_edit_row [OF ok2 a2, of now E]]])
      fix x d' assume d': "db_ok d' \<and> evolves ?d2 d'"
      from evolves_row [OF conjunct2 [OF d'] b(1)] obtain b' where b': "b' \<in> set (d_messages d')" "same_row b b'" .
      show "wp (log_edit now peer (m_peerLocal msg)) E (\<lambda>_. db_ok) d'"
        by (rule wp_log_edit_row [OF conjunct1 [OF d'] b'(1)]) (use b same_rowD [OF b'(2)] in simp_all)
    qed
    with Some False show ?thesis unfolding edit_pair_def tx_wp by simp
  qed
qed

lemma wp_EditMessage:
  assumes "db_ok d" and "evolves d0 d" and "evolves d1 d" and "db_ok d0" and "db_ok d1"
  shows "db_ok (snd (EditMessage fault now d0 d1 u l text d))"
    and "fst (EditMessage False now d0 d1 u l text d) = Inl e \<Longrightarrow> e = ErrMessageInvalid"
proof -
  let ?m = "andThen (the_row ErrMessageInvalid (MessageByOwnerLocal u l d0)) (\<lambda>pre.
     andThen (if m_peerType pre = PeerTypeChat then editChatMessage now d1 pre text else edit_pair now u l (m_peer pre) text) (\<lambda>pts.
     ret (m_peer pre, pts)))"
  have "wp ?m (\<lambda>e. e = ErrMessageInvalid) (\<lambda>_. db_ok) d"
  proof (cases "MessageByOwnerLocal u l d0")
    case (Some pre)
    have "wp (edit_pair now u l (m_peer pre) text) (\<lambda>e. e = ErrMessageInvalid) (\<lambda>_. db_ok) d" if "m_peerType pre \<noteq> PeerTypeChat"
    proof (rule wp_edit_pair [OF assms(1)])
      fix msg assume "MessageByOwnerLocal u l d = Some msg"
      with evolves_lookup [OF assms(2) db_ok_core [OF assms(1)] Some] have "same_row pre msg" by auto
      moreover have "m_peerType pre \<noteq> PeerTypeChannel"
        using assms(4) lookup_rowD [OF Some] by (auto simp: db_ok_def core_ok_def fanouts_ok_def fanout_fits_def list_all_iff)
      ultimately show "m_peerType msg = PeerTypeUser \<and> m_peer msg = m_peer pre"
        using that same_rowD [of pre msg] by (cases "m_peerType pre") auto
    qed
    with wp_editChatMessage [OF assms(1,3,5)] Some show ?thesis unfolding tx_wp by simp
  qed (simp add: tx_wp)
  note 1 = this
  show "db_ok (snd (EditMessage fault now d0 d1 u l text d))" unfolding EditMessage_def
    by (rule transact_keeps) (use 1 assms(1) in \<open>auto elim: wp_mono\<close>)
  show "fst (EditMessage False now d0 d1 u l text d) = Inl e \<Longrightarrow> e = ErrMessageInvalid" unfolding EditMessage_def
    using transact_result [OF 1] by (auto split: sum.splits prod.splits)
qed

section \<open>Deleting\<close>

lemma wp_delete_copy:
  assumes ok: "db_ok d"
  shows "wp (delete_copy now u l acc) E (\<lambda>_. db_ok) d"
proof (cases "list_ex (\<lambda>m. row_at u l m \<and> \<not> m_deleted m) (d_messages d)")
  case True
  then obtain r where r: "r \<in> set (d_messages d)" "m_owner r = u" "m_local r = l" "\<not> m_deleted r" by (auto simp: list_ex_iff row_at_def)
  let ?d = "update_message u l (\<lambda>m. m\<lparr>m_deleted := True\<rparr>) d"
  obtain s where s: "fmlookup (d_state d) u = Some s" using has_state [OF db_ok_core [OF ok] r(1)] r(2) by blast
  have "\<not> event_taken u (us_pts s + 1) ?d" using pts_free [OF db_ok_core [OF ok] s] by (simp add: event_taken_def update_message_def)
  then have "wp (log_delete now u l) E Q ?d = Q (us_pts s + 1) (mark_deleted now u l d)" for Q
    using s by (simp add: log_delete_def tx_wp mark_deleted_def add_event_def Let_def)
  then show ?thesis using True db_ok_delete [OF ok r] unfolding delete_copy_def tx_wp by simp
next
  case False
  then show ?thesis using ok unfolding delete_copy_def tx_wp by (simp add: set_deleted_idle)
qed

lemma wp_delete_named:
  assumes ok: "db_ok d"
  shows "wp (delete_named now u l acc) (\<lambda>e. e = ErrMessageInvalid) (\<lambda>_. db_ok) d"
proof (cases "list_ex (\<lambda>m. row_at u l m \<and> \<not> m_deleted m) (d_messages d)")
  case True
  with wp_delete_copy [OF ok, of now u l acc "\<lambda>e. e = ErrMessageInvalid"] show ?thesis
    unfolding delete_copy_def delete_named_def tx_wp by simp
qed (simp add: delete_named_def tx_wp)

lemma wp_delete_target:
  assumes ok: "db_ok d"
  shows "wp (delete_target now u revoke members t acc) (\<lambda>e. e = ErrMessageInvalid) (\<lambda>_. db_ok) d"
proof -
  have "wp (foreach (\<lambda>c acc. if m_owner c \<notin> set (members (m_peer (fst t))) then ret acc else delete_copy now (m_owner c) (m_local c) acc)
      (snd t) acc) (\<lambda>e. e = ErrMessageInvalid) (\<lambda>_. db_ok) d"
    by (rule wp_foreach, simp add: wp_delete_copy wp_ret, rule ok)
  moreover have "wp (delete_named now u (m_local (fst t)) acc) (\<lambda>e. e = ErrMessageInvalid)
      (\<lambda>a. wp (if \<not> revoke \<or> m_peer (fst t) = u then ret a else delete_copy now (m_peer (fst t)) (m_peerLocal (fst t)) a)
        (\<lambda>e. e = ErrMessageInvalid) (\<lambda>_. db_ok)) d"
    by (rule wp_mono [OF wp_delete_named [OF ok]]) (simp_all add: wp_ret wp_delete_copy)
  ultimately show ?thesis using wp_delete_named [OF ok] unfolding delete_target_def Let_def wp_if wp_andThen by simp
qed

lemma wp_load_target: "wp (load_target snap u revoke il) (\<lambda>e. e = ErrMessageInvalid) (\<lambda>_ d'. d' = d) d"
  unfolding load_target_def chatCopies_def Let_def by (auto simp: tx_wp split: option.split)

lemma wp_delete_tx:
  assumes ok: "db_ok d"
  shows "wp (delete_tx now snap u ids revoke) (\<lambda>e. e = ErrMessageInvalid) (\<lambda>_. db_ok) d"
proof -
  have "wp (foreach (\<lambda>il acc. andThen (load_target snap u revoke il) (\<lambda>t. ret (acc @ [t]))) (enumerate 0 ids) [])
      (\<lambda>e. e = ErrMessageInvalid) (\<lambda>_ d'. d' = d) d"
  proof (rule wp_foreach)
    fix il acc d' assume "d' = d"
    with wp_load_target [of snap u revoke il d]
    show "wp (andThen (load_target snap u revoke il) (\<lambda>t. ret (acc @ [t]))) (\<lambda>e. e = ErrMessageInvalid) (\<lambda>_ d'. d' = d) d'"
      unfolding wp_andThen wp_ret by simp
  qed simp
  moreover have "wp (foreach (delete_target now u revoke members) targets fmempty) (\<lambda>e. e = ErrMessageInvalid) (\<lambda>_. db_ok) d" for members targets
    by (rule wp_foreach, erule wp_delete_target, rule ok)
  ultimately show ?thesis unfolding delete_tx_def tx_wp by (elim wp_mono) simp_all
qed

lemma DeleteMessages_keeps:
  assumes "db_ok d"
  shows "db_ok (snd (DeleteMessages fault now snap u ids revoke d))"
    and "fst (DeleteMessages False now snap u ids revoke d) = Inl e \<Longrightarrow> e = ErrMessageInvalid"
proof -
  note 1 = wp_delete_tx [OF assms, of now snap u ids revoke]
  have "db_ok (snd (transact fault (delete_tx now snap u ids revoke) d))"
    by (rule transact_keeps) (use 1 assms in \<open>auto elim: wp_mono\<close>)
  then show "db_ok (snd (DeleteMessages fault now snap u ids revoke d))" using assms by (simp add: DeleteMessages_def)
  show "fst (DeleteMessages False now snap u ids revoke d) = Inl e \<Longrightarrow> e = ErrMessageInvalid"
    using transact_result [OF 1] by (auto simp: DeleteMessages_def split: sum.splits prod.splits if_splits)
qed

section \<open>Reading\<close>

lemma wp_log_read_any:
  assumes "db_ok d" and "t = EventReadIn \<or> t = EventReadOut"
  shows "wp (log_read now u t l) (\<lambda>e. e \<noteq> ErrPtsUnknown) (\<lambda>_. db_ok) d"
proof (cases "fmlookup (d_state d) u")
  case None
  then show ?thesis by (simp add: log_read_def tx_wp)
next
  case (Some s)
  then show ?thesis using wp_log_read [OF db_ok_core [OF assms(1)] Some] db_ok_event [OF assms(1) Some, of t l now] assms(2) by auto
qed

lemma wp_dialog_moves:
  "db_ok d \<Longrightarrow> wp (AdvanceReadInbox l u pt p) E (\<lambda>_. db_ok) d" "db_ok d \<Longrightarrow> wp (AdvanceReadOutbox u pt p l) E (\<lambda>_. db_ok) d"
  "db_ok d \<Longrightarrow> wp (AdvanceChatReadInbox l u pt p) E (\<lambda>_. db_ok) d"
  by (auto simp: AdvanceReadInbox_def AdvanceReadOutbox_def AdvanceChatReadInbox_def Let_def tx_wp split: option.split)

lemma ReadHistory_keeps:
  assumes ok: "db_ok d"
  shows "db_ok (snd (ReadHistory fault now u peer maxID d))"
  unfolding ReadHistory_def
proof (rule transact_keeps, unfold wp_andThen, rule wp_mono [OF wp_dialog_moves(1) [OF ok]])
  fix inbox d1 assume d1: "db_ok d1"
  have one: "wp (log_read now v t l) (\<lambda>_. True) (\<lambda>_. db_ok) d'" if "db_ok d'" "t = EventReadIn \<or> t = EventReadOut" for v t l d'
    using wp_log_read_any [OF that] by (rule wp_mono) simp_all
  have two: "wp (log_read now u EventReadIn m) (\<lambda>_. True) (\<lambda>_. wp (log_read now peer EventReadOut p) (\<lambda>_. True) (\<lambda>_. db_ok)) d'"
    if "db_ok d'" for m p d' by (rule wp_mono [OF one [OF that]]) (simp_all add: one)
  have pair: "wp (AdvanceReadOutbox peer PeerTypeUser u p) (\<lambda>_. True) (\<lambda>_. wp (log_read now u EventReadIn m) (\<lambda>_. True)
      (\<lambda>_. wp (log_read now peer EventReadOut p) (\<lambda>_. True) (\<lambda>_. db_ok))) d1" for m p
    by (rule wp_mono [OF wp_dialog_moves(2) [OF d1]]) (simp_all add: two)
  show "wp (case inbox of
      None \<Rightarrow> currentPts u peer
    | Some m \<Rightarrow> if u = peer then andThen (log_read now u EventReadIn m) (\<lambda>pts. ret (pts, pts))
        else andThen (query (max_peer_local u peer maxID)) (\<lambda>peerMax.
             andThen (AdvanceReadOutbox peer PeerTypeUser u peerMax) (\<lambda>_.
             andThen (log_read now u EventReadIn m) (\<lambda>rPts.
             andThen (log_read now peer EventReadOut peerMax) (\<lambda>pPts. ret (rPts, pPts)))))) (\<lambda>_. True) (\<lambda>_. db_ok) d1"
    using d1 one [OF d1] pair unfolding tx_wp by (auto simp: currentPts_def tx_wp split: option.split)
qed (simp_all add: ok)

lemma wp_read_target:
  assumes ok: "db_ok d"
  shows "wp (read_target now chat t acc) (\<lambda>e. e \<noteq> ErrPtsUnknown) (\<lambda>_. db_ok) d"
proof -
  have "wp (AdvanceReadOutbox (fst t) PeerTypeChat chat (snd t)) (\<lambda>e. e \<noteq> ErrPtsUnknown)
      (\<lambda>rows d'. if rows = 1 then wp (log_read now (fst t) EventReadOut (snd t)) (\<lambda>e. e \<noteq> ErrPtsUnknown) (\<lambda>_. db_ok) d'
         else ErrStorage \<noteq> ErrPtsUnknown) d"
    by (rule wp_mono [OF wp_dialog_moves(2) [OF ok]]) (simp_all add: wp_log_read_any)
  then show ?thesis using ok unfolding read_target_def tx_wp by (auto split: option.split simp: if_bool_eq_conj)
qed

lemma wp_advanceChatReadHistory:
  assumes ok: "db_ok d"
  shows "wp (advanceChatReadHistory now u chat bound members) (\<lambda>e. e \<noteq> ErrPtsUnknown) (\<lambda>_. db_ok) d"
proof -
  have loop: "wp (foreach (read_target now chat) ts r) (\<lambda>e. e \<noteq> ErrPtsUnknown) (\<lambda>_. db_ok) d'" if "db_ok d'" for ts r d'
    by (rule wp_foreach, erule wp_read_target, rule that)
  have read: "wp (log_read now u EventReadIn m) (\<lambda>e. e \<noteq> ErrPtsUnknown)
      (\<lambda>pts. wp (foreach (read_target now chat) ts \<lparr>cr_pts = pts, cr_ptsCount = 1, cr_notify = [u]\<rparr>) (\<lambda>e. e \<noteq> ErrPtsUnknown) (\<lambda>_. db_ok)) d'"
    if "db_ok d'" for m ts d'
    by (rule wp_mono [OF wp_log_read_any [OF that]]) (simp_all add: loop)
  have "wp (AdvanceChatReadInbox bound u PeerTypeChat chat) (\<lambda>e. e \<noteq> ErrPtsUnknown)
      (\<lambda>inbox d'. case inbox of None \<Rightarrow> ErrStorage \<noteq> ErrPtsUnknown
       | Some m \<Rightarrow> wp (log_read now u EventReadIn m) (\<lambda>e. e \<noteq> ErrPtsUnknown)
           (\<lambda>pts. wp (foreach (read_target now chat) ts \<lparr>cr_pts = pts, cr_ptsCount = 1, cr_notify = [u]\<rparr>) (\<lambda>e. e \<noteq> ErrPtsUnknown) (\<lambda>_. db_ok)) d') d" for ts
    by (rule wp_mono [OF wp_dialog_moves(3) [OF ok]]) (simp_all add: read split: option.split)
  then show ?thesis using ok unfolding advanceChatReadHistory_def tx_wp by (auto split: option.splits)
qed

lemma ReadChatHistory_keeps:
  assumes ok: "db_ok d"
  shows "db_ok (snd (ReadChatHistory fault now d0 d1 d2 u chat maxID d))"
proof -
  have "db_ok (snd (transact fault (readChatHistoryAttempt now u chat b locked) d))" for b locked
  proof (rule transact_keeps)
    show "wp (readChatHistoryAttempt now u chat b locked) (\<lambda>_. True) (\<lambda>_. db_ok) d"
      using ok wp_mono [OF wp_advanceChatReadHistory [OF ok], of "\<lambda>_. True" "\<lambda>_. db_ok"]
      unfolding readChatHistoryAttempt_def tx_wp by simp
  qed (rule ok)
  then show ?thesis using ok by (simp add: ReadChatHistory_def Let_def)
qed

end
