(* ===== verification/Log_Chats.thy ===== *)
theory Log_Chats
  imports Log_Rewrites
begin

text \<open>
  The remaining transactions of the message store keep the invariant too: forwards, which write pairs
  and chat copies under one lock set, and the chat mutations, which change a membership and then fan
  a service message out.
\<close>

section \<open>Forwarding\<close>

lemma wp_forward_copy:
  assumes prog: "fan_progress now f n base us d" and fresh: "u \<notin> set us"
    and base: "list_all (\<lambda>m. m_fanout m < n) base" "1 \<le> n"
    and token: "f_random f \<noteq> 0 \<Longrightarrow> list_all (\<lambda>m. \<not> (m_owner m = f_from f \<and> m_random m = f_random f)) base"
  shows "wp (forward_copy now f n u acc) (\<lambda>e. e = ErrStorage) (\<lambda>_. fan_progress now f n base (us @ [u])) d"
proof (cases "fmlookup (d_state d) u")
  case None
  then show ?thesis by (simp add: forward_copy_def tx_wp)
next
  case (Some s)
  have fits: "entry_fits (fan_row now f n u (us_nextLocal s)) d"
    by (rule fan_progress_fits [OF prog fresh Some base token])
  have "core_ok d" using prog by (simp add: fan_progress_def db_ok_def)
  then show ?thesis unfolding forward_copy_def
    by (rule wp_entry [OF _ Some]) (use fits fan_progress_snoc [OF prog fits] in \<open>auto simp: tx_wp\<close>)
qed

lemma wp_forward_chat:
  assumes ok: "db_ok d" and us: "distinct us" and token: "random \<noteq> 0 \<Longrightarrow> MessageByRandomID from random d = None"
  shows "wp (forward_chat now from chat src random us acc) (\<lambda>e. e = ErrStorage) (\<lambda>_. db_ok) d"
proof -
  let ?n = "d_fanoutSeq d + 1" and ?f = "forward_fan from chat src random" and ?d = "d\<lparr>d_fanoutSeq := d_fanoutSeq d + 1\<rparr>"
  have sel: "f_from ?f = from" "f_random ?f = random" by (simp_all add: forward_fan_def)
  have "wp (foreach (forward_copy now ?f ?n) us (fst acc, (0, 0))) (\<lambda>e. e = ErrStorage)
      (\<lambda>_. fan_progress now ?f ?n (d_messages d) us) ?d"
  proof (rule wp_foreach_prefix [where I = "\<lambda>us _. fan_progress now ?f ?n (d_messages d) us"])
    fix ys x zs a d' assume split: "us = ys @ x # zs" and I: "fan_progress now ?f ?n (d_messages d) ys d'"
    have "x \<notin> set ys" using us split by auto
    then show "wp (forward_copy now ?f ?n x a) (\<lambda>e. e = ErrStorage) (\<lambda>_. fan_progress now ?f ?n (d_messages d) (ys @ [x])) d'"
      by (intro wp_forward_copy) (use I fan_base [OF ok] fresh_token [OF token] sel in auto)
  qed (rule fan_start [OF ok])
  then show ?thesis unfolding forward_chat_def wp_andThen [of NextFanoutID] wp_NextFanoutID wp_andThen [of "foreach _ _ _"]
    by (rule wp_mono) (auto simp: tx_wp fan_progress_def split: option.split)
qed

lemma wp_forward_user:
  assumes ok: "db_ok d" and ne: "from \<noteq> to" and token: "random \<noteq> 0 \<Longrightarrow> MessageByRandomID from random d = None"
  shows "wp (forward_user now from to src random acc) (\<lambda>e. e = ErrStorage) (\<lambda>_. db_ok) d"
proof (cases "fmlookup (d_state d) from = None \<or> fmlookup (d_state d) to = None")
  case True
  then show ?thesis using ne by (auto simp: forward_user_def send_pair_def tx_wp split: option.split)
next
  case False
  then obtain s r where st: "fmlookup (d_state d) from = Some s" "fmlookup (d_state d) to = Some r" by auto
  show ?thesis unfolding forward_user_def tx_wp
    by (rule wp_send_pair [OF db_ok_core [OF ok] ne st token]) (simp_all add: db_ok_pair [OF ok ne st token])
qed

lemma wp_forward_one:
  assumes ok: "db_ok d" and us: "distinct (order (fst isr))" and ne: "destType = PeerTypeUser \<Longrightarrow> from \<noteq> to"
    and allowed: "\<And>src. allowed src \<noteq> Some ErrPtsUnknown"
  shows "wp (forward_one now from destType to allowed order isr acc) (\<lambda>e. e \<noteq> ErrPtsUnknown) (\<lambda>_. db_ok) d"
proof (cases "if snd (snd isr) \<noteq> 0 then MessageByRandomID from (snd (snd isr)) d else None")
  case (Some m)
  then have m: "m \<in> set (d_messages d)" "m_owner m = from" by (auto dest: lookup_tokenD split: if_splits)
  have "wp (newMessagePts from (m_local m)) (\<lambda>e. e \<noteq> ErrPtsUnknown) (\<lambda>_. db_ok) d"
    by (rule wp_newMessagePts [OF db_ok_core [OF ok] m refl]) (rule ok)
  with Some show ?thesis unfolding forward_one_def Let_def tx_wp by simp
next
  case None
  then have fresh: "snd (snd isr) \<noteq> 0 \<Longrightarrow> MessageByRandomID from (snd (snd isr)) d = None" by simp
  have 1: "wp (forward_chat now from to src (snd (snd isr)) (order (fst isr)) acc) (\<lambda>e. e \<noteq> ErrPtsUnknown) (\<lambda>_. db_ok) d" for src
    by (rule wp_mono [OF wp_forward_chat [OF ok us fresh]]) simp_all
  have 2: "destType = PeerTypeUser \<Longrightarrow> wp (forward_user now from to src (snd (snd isr)) acc) (\<lambda>e. e \<noteq> ErrPtsUnknown) (\<lambda>_. db_ok) d" for src
    by (rule wp_mono [OF wp_forward_user [OF ok ne fresh]]) simp_all
  from None 1 2 show ?thesis unfolding forward_one_def Let_def tx_wp check_def
    using allowed by (auto simp: tx_wp split: option.split)
qed

lemma wp_ensure_all:
  "db_ok d \<Longrightarrow> wp (foreach (\<lambda>u _. EnsureUpdateState now u) us ()) E (\<lambda>_. db_ok) d"
  by (rule wp_foreach) (auto intro: db_ok_ensure)

definition visits :: "(nat \<Rightarrow> user_id list \<Rightarrow> user_id list) \<Rightarrow> bool" where
  "visits order \<longleftrightarrow> (\<forall>i us. mset (order i us) = mset us)"

lemma wp_forward_tx:
  assumes ok: "db_ok d" and order: "visits order" and ne: "destType = PeerTypeUser \<Longrightarrow> from \<noteq> to"
  shows "wp (forward_tx now order from destType to sources randoms) (\<lambda>e. e \<noteq> ErrPtsUnknown) (\<lambda>_. db_ok) d"
proof -
  have each: "distinct (order i us)" if "distinct us" for i us
    using order that unfolding visits_def by (metis mset_eq_imp_distinct_iff)
  let ?allowed = "\<lambda>chat rights src. case chat of
      Some chat \<Rightarrow> checkDefaultMessageRestriction (ch_banned chat) (from = ch_creator chat) (fs_file src \<noteq> 0) (rights (fs_file src))
    | None \<Rightarrow> None"
  have body: "wp (foreach (\<lambda>u _. EnsureUpdateState now u) vs ()) (\<lambda>e. e \<noteq> ErrPtsUnknown)
      (\<lambda>_. wp (foreach (forward_one now from destType to allowed (\<lambda>i. order (Suc i) us)) (enumerate 0 (zip sources randoms)) (fmempty, []))
        (\<lambda>e. e \<noteq> ErrPtsUnknown) (\<lambda>_. db_ok)) d" if "distinct us" and "\<And>src. allowed src \<noteq> Some ErrPtsUnknown" for us vs allowed
  proof (rule wp_mono [OF wp_ensure_all [OF ok]])
    fix d' assume d': "db_ok d'"
    show "wp (foreach (forward_one now from destType to allowed (\<lambda>i. order (Suc i) us)) (enumerate 0 (zip sources randoms)) (fmempty, []))
        (\<lambda>e. e \<noteq> ErrPtsUnknown) (\<lambda>_. db_ok) d'"
      by (rule wp_foreach, rule wp_forward_one)
        (use each [OF that(1)] that(2) ne d' in auto)
  qed simp
  have members: "distinct (chatMembers to d)" using member_list_distinct [OF ok] by (simp add: chatMembers_def)
  show ?thesis unfolding forward_tx_def wp_andThen [of "if _ then _ else _"]
  proof (rule wp_mono [where Q = "\<lambda>(cm :: chat_row option \<times> user_id list) d'. d' = d \<and> distinct (snd cm)" and E = "\<lambda>e. e = ErrNotMember"])
    fix cm :: "chat_row option \<times> user_id list" and d' assume "d' = d \<and> distinct (snd cm)"
    then show "wp (andThen (lockFileRefs (map fs_file sources)) (\<lambda>_.
     andThen (query (\<lambda>d f. case fmlookup (d_files d) f of
         Some r \<Rightarrow> if fl_stored r then fl_rights r else None
       | None \<Rightarrow> None)) (\<lambda>rights.
     andThen (foreach (\<lambda>u _. EnsureUpdateState now u) (if destType = PeerTypeUser then [from, to] else order 0 (snd cm)) ()) (\<lambda>_.
     foreach (forward_one now from destType to (?allowed (fst cm) rights)
       (\<lambda>i. order (Suc i) (snd cm))) (enumerate 0 (zip sources randoms)) (fmempty, []))))) (\<lambda>e. e \<noteq> ErrPtsUnknown) (\<lambda>_. db_ok) d'"
      unfolding wp_andThen wp_lockFileRefs wp_query 
      by (simp only: if_bool_eq_conj store_error.distinct simp_thms, intro impI body)
        (auto simp: checkDefaultMessageRestriction_def split: option.splits)
  qed (use members in \<open>auto simp: tx_wp split: option.split\<close>)
qed

lemma ForwardMessages_keeps:
  assumes ok: "db_ok d" and order: "visits order"
  shows "db_ok (snd (ForwardMessages fault now order from destType to sources randoms d))"
proof (cases "destType = PeerTypeUser \<and> to = from")
  case False
  then have "wp (forward_tx now order from destType to sources randoms) (\<lambda>_. True) (\<lambda>_. db_ok) d"
    by (intro wp_mono [OF wp_forward_tx [OF ok order]]) auto
  from transact_keeps [OF this ok] show ?thesis using ok by (simp add: ForwardMessages_def)
qed (simp add: ForwardMessages_def ok)

section \<open>Chat mutations\<close>

abbreviation known_pts :: "store_error \<Rightarrow> bool" where
  "known_pts e \<equiv> e \<noteq> ErrPtsUnknown"

lemma wp_begin:
  assumes "\<And>m. cm_members m = map pt_user (ChatParticipants c d) \<Longrightarrow> wp (k m) known_pts Q d"
  shows "wp (andThen (beginChatMutation d0 c caller) k) known_pts Q d"
  unfolding beginChatMutation_def tx_wp using assms by (auto split: option.split)

lemma db_ok_participants: "db_ok d \<Longrightarrow> members_ok (d\<lparr>d_participants := x\<rparr>) \<Longrightarrow> db_ok (d\<lparr>d_participants := x\<rparr>)"
  by (auto simp: db_ok_def mirror_ok_def intro: core_ok_participants)

lemma db_ok_join:
  assumes "db_ok d" and "\<not> IsChatMember c u d" and "pt_chat p = c" and "pt_user p = u"
  shows "db_ok (d\<lparr>d_participants := d_participants d @ [p]\<rparr>)"
  by (rule db_ok_participants [OF assms(1)])
    (use assms in \<open>auto simp: db_ok_def core_ok_def members_ok_def IsChatMember_def list_ex_iff\<close>)

lemma db_ok_leave: "db_ok d \<Longrightarrow> db_ok (d\<lparr>d_participants := filter P (d_participants d)\<rparr>)"
  by (rule db_ok_participants) (auto simp: db_ok_def core_ok_def members_ok_def distinct_map_filter)

lemma wp_update_chat:
  "db_ok d \<Longrightarrow> wp (update_chat c f) known_pts (\<lambda>_. db_ok) d"
  by (auto simp: update_chat_def Let_def tx_wp split: option.split)

lemma wp_then: "wp m E (\<lambda>_. db_ok) d \<Longrightarrow> (\<And>x d'. db_ok d' \<Longrightarrow> wp (k x) E Q d') \<Longrightarrow> wp (andThen m k) E Q d"
  unfolding wp_andThen by (erule wp_mono) auto

lemma wp_bump_then_fan:
  assumes "db_ok d"
  shows "wp (andThen (update_chat c g) (\<lambda>row. andThen (fanOut now d0 f) (\<lambda>r. ret (h row r)))) known_pts (\<lambda>_. db_ok) d"
  by (intro wp_then [OF wp_update_chat [OF assms]] wp_then [OF wp_fanOut]) (simp_all add: wp_ret)

lemma transact_ok:
  assumes "wp m known_pts (\<lambda>_. db_ok) d" and "db_ok d"
  shows "db_ok (snd (transact fault m d))"
  by (rule transact_keeps) (use assms in \<open>auto elim: wp_mono\<close>)

lemma AddChatUser_keeps: "db_ok d \<Longrightarrow> db_ok (snd (AddChatUser fault now d0 c target caller d))"
  unfolding AddChatUser_def BumpChatVersion_def
  by (rule transact_ok, rule wp_begin)
    (use wp_bump_then_fan in \<open>auto simp: Let_def tx_wp InsertChatParticipantIfAbsent_def db_ok_join\<close>)

lemma RemoveChatUser_keeps: "db_ok d \<Longrightarrow> db_ok (snd (RemoveChatUser fault now d0 c target caller d))"
  unfolding RemoveChatUser_def BumpChatVersion_def removeParticipant_def
  by (rule transact_ok, rule wp_begin)
    (use wp_bump_then_fan in \<open>auto simp: Let_def tx_wp DeleteChatParticipant_def db_ok_leave\<close>)

lemma SetChatTitle_keeps: "db_ok d \<Longrightarrow> db_ok (snd (SetChatTitle fault now d0 c caller title d))"
  unfolding SetChatTitle_def SetChatTitle_stmt_def
  by (rule transact_ok, rule wp_begin) (use wp_bump_then_fan in \<open>auto simp: tx_wp\<close>)

lemma SetChatDefaultBannedRights_keeps: "db_ok d \<Longrightarrow> db_ok (snd (SetChatDefaultBannedRights fault d0 c caller rights d))"
  unfolding SetChatDefaultBannedRights_def SetChatDefaultBannedRights_stmt_def
  by (rule transact_ok, rule wp_begin) (auto simp: tx_wp intro: wp_update_chat)

lemma SetChatPinnedMessage_keeps: "db_ok d \<Longrightarrow> db_ok (snd (SetChatPinnedMessage fault d0 c caller pinned d))"
  unfolding SetChatPinnedMessage_def SetChatPinnedMessage_stmt_def
  by (rule transact_ok, rule wp_begin) (auto simp: tx_wp intro: wp_update_chat split: option.split)

lemma CreateChat_keeps: "db_ok d \<Longrightarrow> db_ok (snd (CreateChat fault now creator title invitees d))"
proof (cases "collect_members [creator] invitees")
  case (Some members)
  assume ok: "db_ok d"
  have join: "wp (foreach (\<lambda>u _. InsertChatParticipant now c u creator) us ()) known_pts (\<lambda>_. db_ok) d'" if "db_ok d'" for c us d'
    by (rule wp_foreach, auto simp: InsertChatParticipant_def tx_wp db_ok_join that)
  have "db_ok (d\<lparr>d_chatSeq := x, d_chats := y\<rparr>)" for x y using ok by simp
  with join show ?thesis unfolding CreateChat_def Some option.case
    by (intro transact_ok ok) (auto simp: tx_wp InsertChat_def wp_def Let_def)
qed (simp add: CreateChat_def)

lemma SendChatMessage_keeps: "db_ok d \<Longrightarrow> db_ok (snd (SendChatMessage fault now d0 f d))"
  unfolding SendChatMessage_def by (intro transact_ok wp_fanOut)

lemma SendMessage_keeps:
  assumes ok: "db_ok d"
  shows "db_ok (snd (SendMessage fault now from to text random file reply d))"
proof -
  have "db_ok (snd (transact fault (send_tx now from to text random file reply) d))"
    by (rule transact_keeps, rule wp_mono [OF wp_send [OF ok]]) (simp_all add: ok)
  then show ?thesis using ok by (auto simp: SendMessage_def split: prod.splits sum.splits bool.splits)
qed

end
