(* ===== verification/Secret_Inv.thy ===== *)
theory Secret_Inv
  imports Secret_Chats Update_Log
begin

text \<open>
  The invariant of the secret chat tables, how a key exchange row may change, and that every
  operation of \<open>Secret_Chats\<close> respects both.
\<close>

section \<open>How a row changes\<close>

definition chat_evolves :: "secret_chat \<Rightarrow> secret_chat \<Rightarrow> bool" where
  "chat_evolves c c' \<longleftrightarrow>
     c' = c\<lparr>sc_state := sc_state c', sc_gAOrB := sc_gAOrB c', sc_fingerprint := sc_fingerprint c', sc_date := sc_date c'\<rparr> \<and>
     (case sc_state c of
        SecretChatRequested \<Rightarrow> sc_state c' \<noteq> SecretChatRequested \<or> c' = c
      | SecretChatActive \<Rightarrow>
          sc_gAOrB c' = sc_gAOrB c \<and> sc_fingerprint c' = sc_fingerprint c \<and> (sc_state c' = SecretChatDiscarded \<or> c' = c)
      | SecretChatDiscarded \<Rightarrow> c' = c)"

definition secrets_evolve :: "database \<Rightarrow> database \<Rightarrow> bool" where
  "secrets_evolve d d' \<longleftrightarrow> (\<exists>rows new. d_secretChats d' = rows @ new \<and> list_all2 chat_evolves (d_secretChats d) rows)"

lemma chat_evolves_refl [simp]: "chat_evolves c c"
  by (cases "sc_state c") (simp_all add: chat_evolves_def)

lemma chat_evolves_trans: "chat_evolves a b \<Longrightarrow> chat_evolves b c \<Longrightarrow> chat_evolves a c"
  by (cases a; cases b; cases c) (auto simp: chat_evolves_def split: secret_chat_state.splits)

lemma secrets_evolve_same: "d_secretChats d' = d_secretChats d \<Longrightarrow> secrets_evolve d d'"
  unfolding secrets_evolve_def by (intro exI [of _ "d_secretChats d"] exI [of _ "[]"]) (simp add: list.rel_refl)

lemma secrets_evolve_append: "d_secretChats d' = d_secretChats d @ new \<Longrightarrow> secrets_evolve d d'"
  unfolding secrets_evolve_def by (intro exI [of _ "d_secretChats d"] exI [of _ new]) (simp add: list.rel_refl)

lemma secrets_evolve_map: "d_secretChats d' = map f (d_secretChats d) \<Longrightarrow> (\<And>c. chat_evolves c (f c)) \<Longrightarrow> secrets_evolve d d'"
  unfolding secrets_evolve_def by (intro exI [of _ "map f (d_secretChats d)"] exI [of _ "[]"]) (simp add: list.rel_map list.rel_refl)

lemma secrets_evolve_trans: "secrets_evolve a b \<Longrightarrow> secrets_evolve b c \<Longrightarrow> secrets_evolve a c"
proof -
  assume "secrets_evolve a b" and "secrets_evolve b c"
  then obtain r1 n1 r2 n2 where 1: "d_secretChats b = r1 @ n1" "list_all2 chat_evolves (d_secretChats a) r1"
      "d_secretChats c = r2 @ n2" "list_all2 chat_evolves (d_secretChats b) r2"
    by (auto simp: secrets_evolve_def)
  from 1(4) [unfolded 1(1)] obtain r3 r4 where 3: "r2 = r3 @ r4" "list_all2 chat_evolves r1 r3"
    by (auto simp: list_all2_append1)
  have "list_all2 chat_evolves (d_secretChats a) r3" by (rule list_all2_trans [OF chat_evolves_trans 1(2) 3(2)])
  with 1(3) 3(1) show ?thesis unfolding secrets_evolve_def by auto
qed

lemma secrets_evolve_row:
  assumes "secrets_evolve d d'" and "c \<in> set (d_secretChats d)"
  obtains c' where "c' \<in> set (d_secretChats d')" "chat_evolves c c'"
proof -
  from assms(1) obtain rows new where 1: "d_secretChats d' = rows @ new" "list_all2 chat_evolves (d_secretChats d) rows"
    by (auto simp: secrets_evolve_def)
  from 1(2) assms(2) obtain c' where "c' \<in> set rows" "chat_evolves c c'" by (metis in_set_conv_nth list_all2_conv_all_nth)
  with 1(1) that show thesis by auto
qed

lemma chat_evolvesD:
  "chat_evolves c c' \<Longrightarrow> sc_id c' = sc_id c \<and> sc_admin c' = sc_admin c \<and> sc_participant c' = sc_participant c \<and>
     sc_gA c' = sc_gA c \<and> sc_gAHash c' = sc_gAHash c \<and> sc_random c' = sc_random c"
  by (cases c; cases c') (auto simp: chat_evolves_def)

section \<open>The invariant\<close>

definition row_ok :: "secret_chat \<Rightarrow> bool" where
  "row_ok c \<longleftrightarrow>
     sc_admin c \<noteq> sc_participant c \<and>
     (sc_state c = SecretChatRequested \<longrightarrow> sc_gAOrB c = None \<and> sc_fingerprint c = None) \<and>
     (sc_state c = SecretChatActive \<longrightarrow> sc_gAOrB c \<noteq> None \<and> sc_fingerprint c \<noteq> None)"

definition encrypted_queue :: "user_id \<Rightarrow> database \<Rightarrow> encrypted_event list" where
  "encrypted_queue u d = filter (\<lambda>e. ee_owner e = u) (d_encrypted d)"

definition queue_ok :: "user_id \<Rightarrow> database \<Rightarrow> bool" where
  "queue_ok u d \<longleftrightarrow> (\<exists>a. 0 \<le> a \<and> a \<le> qts_of u d \<and> map ee_qts (encrypted_queue u d) = [a + 1..qts_of u d])"

text \<open>A queued event belongs to a chat its owner is a party of and that was accepted: it has the responder's g_b.\<close>

definition event_ok :: "secret_chat list \<Rightarrow> encrypted_event \<Rightarrow> bool" where
  "event_ok chats e \<longleftrightarrow> list_ex (\<lambda>c. sc_id c = ee_chat e \<and> Party c (ee_owner e) \<and> sc_gAOrB c \<noteq> None) chats"

definition chats_ok :: "database \<Rightarrow> bool" where
  "chats_ok d \<longleftrightarrow>
     0 \<le> d_secretSeq d \<and> distinct (map sc_id (d_secretChats d)) \<and>
     list_all (\<lambda>c. 1 \<le> sc_id c \<and> sc_id c \<le> d_secretSeq d) (d_secretChats d) \<and>
     list_all row_ok (d_secretChats d) \<and>
     (\<forall>u. CountRequestedSecretChats u d \<le> MaxOutstandingSecretChats)"

definition secret_ok :: "database \<Rightarrow> bool" where
  "secret_ok d \<longleftrightarrow>
     chats_ok d \<and> (\<forall>u. queue_ok u d) \<and>
     distinct (map (\<lambda>e. (ee_owner e, ee_random e)) (d_encrypted d)) \<and>
     list_all (event_ok (d_secretChats d)) (d_encrypted d)"

lemma secret_ok_empty: "secret_ok (empty_db files blocked)"
  by (auto simp: secret_ok_def chats_ok_def queue_ok_def encrypted_queue_def qts_of_def empty_db_def CountRequestedSecretChats_def)

lemma GetQts_qts_of: "GetQts u d = qts_of u d"
  by (simp add: GetQts_def qts_of_def)

lemma chats_ok_cong: "d_secretChats d' = d_secretChats d \<Longrightarrow> d_secretSeq d' = d_secretSeq d \<Longrightarrow> chats_ok d' = chats_ok d"
  by (simp add: chats_ok_def CountRequestedSecretChats_def)

lemma secret_ok_quiet: "quiet d d' \<Longrightarrow> secret_ok d \<Longrightarrow> secret_ok d'"
  using chats_ok_cong [of d' d] by (auto simp: quiet_def secret_ok_def queue_ok_def encrypted_queue_def)

lemma chats_ok_seq: "chats_ok d \<Longrightarrow> d_secretSeq d \<le> n \<Longrightarrow> chats_ok (d\<lparr>d_secretSeq := n\<rparr>)"
  by (auto simp: chats_ok_def CountRequestedSecretChats_def list_all_iff)

lemma find_unique_id:
  assumes "distinct (map sc_id cs)" and "c \<in> set cs"
  shows "find (\<lambda>x. sc_id x = sc_id c) cs = Some c"
  using assms by (induction cs) auto

lemma SecretChatByID_D: "SecretChatByID i d = Some c \<Longrightarrow> c \<in> set (d_secretChats d) \<and> sc_id c = i"
  by (auto simp: SecretChatByID_def find_Some_iff)

lemma SecretChatByID_row: "chats_ok d \<Longrightarrow> c \<in> set (d_secretChats d) \<Longrightarrow> SecretChatByID (sc_id c) d = Some c"
  by (simp add: SecretChatByID_def chats_ok_def find_unique_id)

section \<open>Requests\<close>

lemma wp_create:
  assumes ok: "secret_ok d" and ne: "admin \<noteq> participant"
  shows "secret_ok (snd (CreateSecretChatRequest fault now admin participant gA gAHash random d)) \<and>
     secrets_evolve d (snd (CreateSecretChatRequest fault now admin participant gA gAHash random d))"
  unfolding CreateSecretChatRequest_def
proof (rule transact_keeps)
  let ?c = "\<lparr>sc_id = d_secretSeq d + 1, sc_admin = admin, sc_participant = participant, sc_state = SecretChatRequested, sc_gAHash = gAHash,
     sc_gA = gA, sc_gAOrB = None, sc_fingerprint = None, sc_random = random, sc_date = now\<rparr>"
  let ?d = "d\<lparr>d_secretSeq := d_secretSeq d + 1, d_secretChats := d_secretChats d @ [?c]\<rparr>"
  have seq: "list_all (\<lambda>c. sc_id c \<le> d_secretSeq d) (d_secretChats d)" "0 \<le> d_secretSeq d" "chats_ok d"
    using ok by (auto simp: secret_ok_def chats_ok_def list_all_iff)
  have count: "CountRequestedSecretChats u ?d = (if u = admin then 1 else 0) + CountRequestedSecretChats u d" for u
    by (simp add: CountRequestedSecretChats_def)
  have "chats_ok ?d" if "CountRequestedSecretChats admin d < MaxOutstandingSecretChats"
    using that seq ne by (auto simp: chats_ok_def count row_ok_def list_all_iff)
  moreover have "event_ok (d_secretChats d @ [?c]) e" if "event_ok (d_secretChats d) e" for e
    using that by (auto simp: event_ok_def)
  ultimately have new: "secret_ok ?d \<and> secrets_evolve d ?d" if "CountRequestedSecretChats admin d < MaxOutstandingSecretChats"
    using that ok by (auto simp: secret_ok_def queue_ok_def encrypted_queue_def qts_of_def list_all_iff intro: secrets_evolve_append)
  then show "wp (andThen (query (GetSecretChatByAdminRandomID admin random)) (\<lambda>dup.
     case (if random \<noteq> 0 then dup else None) of
       None \<Rightarrow>
         andThen (query (CountRequestedSecretChats admin)) (\<lambda>outstanding.
         andThen (guard (outstanding < MaxOutstandingSecretChats) ErrSecretChatsTooMany) (\<lambda>_.
         andThen NextSecretChatID (\<lambda>i.
         andThen (guard (i \<le> maxInt32) ErrStorage) (\<lambda>_.
         andThen (InsertSecretChat now i admin participant gAHash gA random) (\<lambda>row.
         ret (row, False))))))
     | Some existing \<Rightarrow> ret (existing, True))) (\<lambda>_. True) (\<lambda>_ d'. secret_ok d' \<and> secrets_evolve d d') d"
    unfolding InsertSecretChat_def tx_wp Let_def using ok
    by (auto simp: wp_def NextSecretChatID_def andThen_def guard_def exec_def query_def ret_def fail_def secrets_evolve_same split: option.split)
qed (simp add: ok secrets_evolve_same)

section \<open>Transitions\<close>

lemma count_mono:
  assumes "\<And>c. sc_admin (f c) = sc_admin c" and "\<And>c. sc_state (f c) = SecretChatRequested \<Longrightarrow> sc_state c = SecretChatRequested"
  shows "length (filter (\<lambda>c. sc_admin c = u \<and> sc_state c = SecretChatRequested) (map f cs)) \<le>
    length (filter (\<lambda>c. sc_admin c = u \<and> sc_state c = SecretChatRequested) cs)"
  using assms by (induction cs) auto

lemma update_keeps:
  assumes ok: "secret_ok d" and f: "\<And>c. P c \<Longrightarrow> chat_evolves c (f c) \<and> sc_state (f c) \<noteq> SecretChatRequested"
    and row: "\<And>c. P c \<Longrightarrow> row_ok c \<Longrightarrow> row_ok (f c)" and kept: "\<And>c. sc_gAOrB c \<noteq> None \<Longrightarrow> sc_gAOrB (f c) \<noteq> None"
  shows "secret_ok (snd (transact fault (update_secret P f) d)) \<and> secrets_evolve d (snd (transact fault (update_secret P f) d))"
proof (rule transact_keeps)
  define g where "g = (\<lambda>c. if P c then f c else c)"
  let ?d = "d\<lparr>d_secretChats := map g (d_secretChats d)\<rparr>"
  have g: "chat_evolves c (g c)" for c using f by (simp add: g_def)
  have ids: "sc_id (g c) = sc_id c" "sc_admin (g c) = sc_admin c" "Party (g c) u \<longleftrightarrow> Party c u" for c u
    using chat_evolvesD [OF g [of c]] by (simp_all add: Party_def)
  have st: "sc_state (g c) = SecretChatRequested \<Longrightarrow> sc_state c = SecretChatRequested" for c
    using f by (simp add: g_def split: if_splits)
  have rows: "row_ok c \<Longrightarrow> row_ok (g c)" for c using row by (simp add: g_def)
  have "CountRequestedSecretChats u ?d \<le> CountRequestedSecretChats u d" for u
    using count_mono [of g u "d_secretChats d", OF ids(2) st] by (simp add: CountRequestedSecretChats_def)
  moreover have chats: "chats_ok d" using ok by (simp add: secret_ok_def)
  ultimately have "CountRequestedSecretChats u ?d \<le> MaxOutstandingSecretChats" for u
    by (meson le_trans chats_ok_def)
  then have "chats_ok ?d" using chats ids rows by (auto simp: chats_ok_def list_all_iff comp_def)
  moreover have "sc_gAOrB c \<noteq> None \<Longrightarrow> sc_gAOrB (g c) \<noteq> None" for c using kept by (simp add: g_def)
  then have "event_ok (map g cs) e" if "event_ok cs e" for cs e
    using that ids by (auto simp: event_ok_def list_ex_iff)
  ultimately have "secret_ok ?d" using ok by (simp add: secret_ok_def queue_ok_def encrypted_queue_def qts_of_def list_all_iff)
  moreover have "secrets_evolve d ?d" by (rule secrets_evolve_map [OF _ g]) simp
  ultimately show "wp (update_secret P f) (\<lambda>_. True) (\<lambda>_ d'. secret_ok d' \<and> secrets_evolve d d') d"
    using ok by (auto simp: update_secret_def tx_wp g_def [symmetric] split: option.split)
qed (simp add: ok secrets_evolve_same)

lemma accept_keeps:
  assumes "secret_ok d"
  shows "secret_ok (snd (AcceptSecretChat fault now i u gB fp d)) \<and> secrets_evolve d (snd (AcceptSecretChat fault now i u gB fp d))"
  unfolding AcceptSecretChat_def by (rule update_keeps [OF assms]) (auto simp: chat_evolves_def row_ok_def)

lemma discard_keeps:
  assumes "secret_ok d"
  shows "secret_ok (snd (DiscardSecretChat fault now i d)) \<and> secrets_evolve d (snd (DiscardSecretChat fault now i d))"
  unfolding DiscardSecretChat_def by (rule update_keeps [OF assms]) (auto simp: chat_evolves_def row_ok_def)

section \<open>The queue\<close>

lemma filter_upto: "filter (\<lambda>x. m < x) [i..j] = [max i (m + 1)..j]"
proof (induction i j rule: upto.induct)
  case (1 i j)
  show ?case
  proof (cases "i \<le> j")
    case True
    then have u: "[i..j] = i # [i + 1..j]" by (rule upto_rec1)
    show ?thesis
    proof (cases "m < i")
      case True
      then have "max i (m + 1) = i" "max (i + 1) (m + 1) = i + 1" by auto
      then show ?thesis using 1 [OF \<open>i \<le> j\<close>] u True by simp
    next
      case False
      then have "max i (m + 1) = max (i + 1) (m + 1)" by auto
      then show ?thesis using 1 [OF \<open>i \<le> j\<close>] u False by simp
    qed
  qed simp
qed

lemma queue_ack:
  assumes "queue_ok u d"
  shows "queue_ok u (snd (AcknowledgeEncryptedEvents v m d))"
proof (cases "u = v")
  case True
  from assms obtain a where a: "0 \<le> a" "a \<le> qts_of u d" "map ee_qts (encrypted_queue u d) = [a + 1..qts_of u d]" by (auto simp: queue_ok_def)
  have "map ee_qts (encrypted_queue u (snd (AcknowledgeEncryptedEvents u m d))) = filter (\<lambda>q. m < q) (map ee_qts (encrypted_queue u d))"
    by (auto simp: encrypted_queue_def AcknowledgeEncryptedEvents_def filter_map comp_def not_le intro!: arg_cong [where f = "map ee_qts"] filter_cong)
  also have "\<dots> = [min (max a m) (qts_of u d) + 1..qts_of u d]"
    unfolding a(3) filter_upto using a(2) by (cases "m \<le> qts_of u d") (auto simp: max_def min_def)
  finally have "queue_ok u (snd (AcknowledgeEncryptedEvents u m d))"
    using a(1,2) unfolding queue_ok_def by (intro exI [of _ "min (max a m) (qts_of u d)"]) (simp add: AcknowledgeEncryptedEvents_def qts_of_def)
  with True show ?thesis by simp
next
  case False
  then have "encrypted_queue u (snd (AcknowledgeEncryptedEvents v m d)) = encrypted_queue u d"
    by (auto simp: encrypted_queue_def AcknowledgeEncryptedEvents_def intro: filter_cong)
  with assms show ?thesis by (simp add: queue_ok_def AcknowledgeEncryptedEvents_def qts_of_def)
qed

lemma ack_keeps:
  assumes ok: "secret_ok d"
  shows "secret_ok (snd (AcknowledgeEncryptedEvents v m d))" "d_secretChats (snd (AcknowledgeEncryptedEvents v m d)) = d_secretChats d"
proof -
  let ?d = "snd (AcknowledgeEncryptedEvents v m d)"
  show same: "d_secretChats ?d = d_secretChats d" by (simp add: AcknowledgeEncryptedEvents_def)
  have "chats_ok ?d" using ok chats_ok_cong [of ?d d] by (simp add: secret_ok_def AcknowledgeEncryptedEvents_def)
  moreover have "queue_ok u ?d" for u using ok by (intro queue_ack) (simp add: secret_ok_def)
  moreover have "distinct (map (\<lambda>e. (ee_owner e, ee_random e)) (d_encrypted ?d))"
    using ok by (simp add: secret_ok_def AcknowledgeEncryptedEvents_def distinct_map_filter)
  moreover have "list_all (event_ok (d_secretChats d)) (d_encrypted ?d)"
    using ok by (auto simp: secret_ok_def AcknowledgeEncryptedEvents_def list_all_iff)
  ultimately show "secret_ok ?d" by (simp add: secret_ok_def same)
qed

definition push_event :: "gtime \<Rightarrow> user_id \<Rightarrow> int \<Rightarrow> int \<Rightarrow> byte list \<Rightarrow> update_state \<Rightarrow> encrypted_event" where
  "push_event now owner chat random bytes s =
     \<lparr>ee_owner = owner, ee_qts = us_qts s + 1, ee_chat = chat, ee_random = random, ee_bytes = bytes, ee_date = now\<rparr>"

definition pushed :: "gtime \<Rightarrow> user_id \<Rightarrow> int \<Rightarrow> int \<Rightarrow> byte list \<Rightarrow> update_state \<Rightarrow> database \<Rightarrow> database" where
  "pushed now owner chat random bytes s d =
     d\<lparr>d_encrypted := d_encrypted d @ [push_event now owner chat random bytes s],
       d_state := fmupd owner (s\<lparr>us_qts := us_qts s + 1, us_date := now\<rparr>) (d_state d)\<rparr>"

text \<open>A send stores nothing, or the next event of the recipient's queue; a fresh token always stores.\<close>

lemma pushed_keeps:
  assumes ok: "secret_ok d" and s: "fmlookup (d_state d) owner = Some s" and fresh: "GetEncryptedEventByRandomID owner random d = None"
    and party: "event_ok (d_secretChats d) (push_event now owner chat random bytes s)"
  shows "secret_ok (pushed now owner chat random bytes s d)"
proof -
  let ?d = "pushed now owner chat random bytes s d"
  have "chats_ok ?d" using ok chats_ok_cong [of ?d d] by (simp add: secret_ok_def pushed_def)
  moreover have "queue_ok u ?d" for u
  proof (cases "u = owner")
    case True
    have "queue_ok owner d" using ok by (simp add: secret_ok_def)
    then obtain a where a: "0 \<le> a" "a \<le> us_qts s" "map ee_qts (encrypted_queue owner d) = [a + 1..us_qts s]"
      using s by (auto simp: queue_ok_def qts_of_def)
    have "map ee_qts (encrypted_queue owner ?d) = [a + 1..us_qts s] @ [us_qts s + 1]"
      using a(3) by (simp add: encrypted_queue_def pushed_def push_event_def)
    also have "\<dots> = [a + 1..us_qts s + 1]" using a(2) upto_rec2 [of "a + 1" "us_qts s + 1"] by simp
    finally show ?thesis using a True unfolding queue_ok_def by (intro exI [of _ a]) (simp add: qts_of_def pushed_def)
  next
    case False
    then have "encrypted_queue u ?d = encrypted_queue u d" "qts_of u ?d = qts_of u d" by (simp_all add: encrypted_queue_def qts_of_def pushed_def push_event_def)
    then show ?thesis using ok by (simp add: secret_ok_def queue_ok_def)
  qed
  moreover have "(owner, random) \<notin> set (map (\<lambda>e. (ee_owner e, ee_random e)) (d_encrypted d))"
    using fresh by (auto simp: GetEncryptedEventByRandomID_def find_None_iff)
  ultimately show ?thesis using ok party by (simp add: secret_ok_def pushed_def push_event_def)
qed

lemma send_encrypted_result:
  assumes ok: "secret_ok d" and s: "fmlookup (d_state d) owner = Some s" and c: "SecretChatByID chat d \<noteq> None"
  shows "SendEncryptedMessage False now d' owner chat random bytes d =
    (case GetEncryptedEventByRandomID owner random d of
       None \<Rightarrow> (Inr (push_event now owner chat random bytes s, False), pushed now owner chat random bytes s d)
     | Some _ \<Rightarrow>
         (case GetEncryptedEventByRandomID owner random d' of
            None \<Rightarrow> (Inl ErrStorage, d)
          | Some e \<Rightarrow> (Inr (e, True), d)))"
proof -
  have "queue_ok owner d" using ok by (simp add: secret_ok_def)
  then obtain a where "map ee_qts (encrypted_queue owner d) = [a + 1..us_qts s]" using s by (auto simp: queue_ok_def qts_of_def)
  then have "us_qts s + 1 \<notin> set (map ee_qts (encrypted_queue owner d))" by simp
  then have "\<not> list_ex (\<lambda>e. ee_owner e = owner \<and> ee_qts e = us_qts s + 1) (d_encrypted d)"
    by (auto simp: encrypted_queue_def list_ex_iff image_iff)
  then show ?thesis using s c
    by (auto simp: SendEncryptedMessage_def InsertEncryptedEvent_def BumpQts_def GetState_def transact_def andThen_def query_def exec_def
        ret_def guard_def fail_def the_row_def Let_def push_event_def pushed_def split: option.split)
qed

lemma send_encrypted_cases:
  assumes "d1 = snd (SendEncryptedMessage fault now d' owner chat random bytes d)"
  obtains "d1 = d" | s where "fmlookup (d_state d) owner = Some s" "GetEncryptedEventByRandomID owner random d = None"
    "SecretChatByID chat d \<noteq> None" "d1 = pushed now owner chat random bytes s d"
  using assms
  by (auto simp: SendEncryptedMessage_def InsertEncryptedEvent_def BumpQts_def GetState_def transact_def andThen_def query_def exec_def
      ret_def guard_def fail_def the_row_def Let_def push_event_def pushed_def split: option.splits if_splits)

end
