(* ===== verification/Message_Store.thy ===== *)
theory Message_Store
  imports Log_Chats Secret_Inv
begin

text \<open>
  The store over its whole life. A state is the list of the databases committed so far, newest first:
  an operation that reads before it takes its locks may have read any of them, and what it writes
  goes on top of the newest. Every operation of \<open>Fan_Out\<close>, \<open>Messages\<close> and \<open>Secret_Chats\<close> is a rule, in
  any order, with or without a fault; \<open>elsewhere\<close> stands for what other components write to the files,
  the blocks, the dialogs and the sequences, which a rolled back transaction advances too.
\<close>

section \<open>The machine\<close>

inductive store_step :: "database list \<Rightarrow> database list \<Rightarrow> bool" where
  send: "store_step (d # h) (snd (SendMessage fault now from to text random file reply d) # d # h)"
| send_chat: "d0 \<in> set (d # h) \<Longrightarrow> store_step (d # h) (snd (SendChatMessage fault now d0 f d) # d # h)"
| edit: "d0 \<in> set (d # h) \<Longrightarrow> d1 \<in> set (d # h) \<Longrightarrow> store_step (d # h) (snd (EditMessage fault now d0 d1 u l text d) # d # h)"
| delete: "range snap \<subseteq> set (d # h) \<Longrightarrow> store_step (d # h) (snd (DeleteMessages fault now snap u ids revoke d) # d # h)"
| forward: "visits order \<Longrightarrow> store_step (d # h) (snd (ForwardMessages fault now order from destType to sources randoms d) # d # h)"
| read: "store_step (d # h) (snd (ReadHistory fault now u peer maxID d) # d # h)"
| read_chat: "{d0, d1, d2} \<subseteq> set (d # h) \<Longrightarrow> store_step (d # h) (snd (ReadChatHistory fault now d0 d1 d2 u chat maxID d) # d # h)"
| create_chat: "store_step (d # h) (snd (CreateChat fault now creator title invitees d) # d # h)"
| add_user: "d0 \<in> set (d # h) \<Longrightarrow> store_step (d # h) (snd (AddChatUser fault now d0 c target caller d) # d # h)"
| remove_user: "d0 \<in> set (d # h) \<Longrightarrow> store_step (d # h) (snd (RemoveChatUser fault now d0 c target caller d) # d # h)"
| set_title: "d0 \<in> set (d # h) \<Longrightarrow> store_step (d # h) (snd (SetChatTitle fault now d0 c caller title d) # d # h)"
| set_rights: "d0 \<in> set (d # h) \<Longrightarrow> store_step (d # h) (snd (SetChatDefaultBannedRights fault d0 c caller rights d) # d # h)"
| set_pinned: "d0 \<in> set (d # h) \<Longrightarrow> store_step (d # h) (snd (SetChatPinnedMessage fault d0 c caller pinned d) # d # h)"
| ensure: "store_step (d # h) (snd (transact fault (EnsureUpdateState now u) d) # d # h)"
| request: "store_step (d # h) (snd (snd (handleRequestEncryption fault now derive ok prime sha256 known caller user gA random d)) # d # h)"
| accept: "{d0, d2} \<subseteq> set (d # h) \<Longrightarrow>
    store_step (d # h) (snd (snd (handleAcceptEncryption fault now derive ok prime d0 d2 caller peer hash gB fingerprint d)) # d # h)"
| discard: "d0 \<in> set (d # h) \<Longrightarrow> store_step (d # h) (snd (snd (handleDiscardEncryption fault now d0 caller chatID d)) # d # h)"
| send_encrypted: "{d0, d1, d2} \<subseteq> set (d # h) \<Longrightarrow>
    store_step (d # h) (snd (snd (handleSendEncryptedMessage fault now derive d0 d1 d2 limited caller chatID hash random data d)) # d # h)"
| received: "d0 \<in> set (d # h) \<Longrightarrow> store_step (d # h) (snd (handleReceivedQueue d0 caller maxQts d) # d # h)"
| elsewhere: "d_fanoutSeq d \<le> n \<Longrightarrow> d_secretSeq d \<le> k \<Longrightarrow>
    store_step (d # h) (d\<lparr>d_files := files, d_blocked := blocked, d_dialogs := dialogs, d_chatSeq := cs, d_fanoutSeq := n, d_secretSeq := k\<rparr> # d # h)"

definition hist_ok :: "database list \<Rightarrow> bool" where
  "hist_ok hs \<longleftrightarrow> hs \<noteq> [] \<and> list_all (\<lambda>d. db_ok d \<and> secret_ok d \<and> evolves d (hd hs) \<and> secrets_evolve d (hd hs)) hs"

lemma hist_okD:
  "hist_ok (d # h) \<Longrightarrow> d0 \<in> set (d # h) \<Longrightarrow> db_ok d0 \<and> secret_ok d0 \<and> evolves d0 d \<and> secrets_evolve d0 d"
  by (auto simp: hist_ok_def list_all_iff)

lemma hist_ok_head: "hist_ok (d # h) \<Longrightarrow> db_ok d \<and> secret_ok d"
  by (simp add: hist_ok_def)

lemma commit_ok:
  assumes "hist_ok (d # h)" and "db_ok d'" and "secret_ok d'" and "evolves d d'" and "secrets_evolve d d'"
  shows "hist_ok (d' # d # h)"
proof -
  have "db_ok x \<and> secret_ok x \<and> evolves x d' \<and> secrets_evolve x d'" if "x \<in> set (d' # d # h)" for x
  proof (cases "x = d'")
    case False
    then have "x \<in> set (d # h)" using that by simp
    from hist_okD [OF assms(1) this] show ?thesis using assms(4,5) by (blast intro: evolves_trans secrets_evolve_trans)
  qed (use assms in \<open>auto simp: secrets_evolve_same\<close>)
  then show ?thesis by (simp add: hist_ok_def list_all_iff)
qed

section \<open>Message transactions\<close>

lemma message_commit:
  assumes "hist_ok (d # h)" and "db_ok d'" and "advances d d'"
  shows "hist_ok (d' # d # h)"
  using assms hist_ok_head [OF assms(1)]
  by (intro commit_ok) (auto simp: advances_def quiet_def intro: secret_ok_quiet secrets_evolve_same)

lemma advances_SendMessage: "advances d (snd (SendMessage fault now from to text random file reply d))"
  using steady_advances [OF steady_send, of d fault now "from" to "text" random "file" reply]
  by (auto simp: SendMessage_def split: prod.splits sum.splits bool.splits)

lemma advances_EditMessage: "advances d (snd (EditMessage fault now d0 d1 u l text d))"
  unfolding EditMessage_def by (intro steady_advances steady_intros steady_edit)

lemma advances_DeleteMessages: "advances d (snd (DeleteMessages fault now snap u ids revoke d))"
  using steady_advances [OF steady_delete, of d fault now snap u ids revoke] by (simp add: DeleteMessages_def)

lemma advances_ForwardMessages: "advances d (snd (ForwardMessages fault now order from destType to sources randoms d))"
  using steady_advances [OF steady_forward, of d fault now order "from" destType to sources randoms] by (simp add: ForwardMessages_def)

lemma advances_ReadHistory: "advances d (snd (ReadHistory fault now u peer maxID d))"
  unfolding ReadHistory_def currentPts_def by (intro steady_advances steady_intros)

lemma advances_ReadChatHistory: "advances d (snd (ReadChatHistory fault now d0 d1 d2 u chat maxID d))"
  using steady_advances [OF steady_readChat, of d fault now u chat "MaxChatReadMessageID u chat maxID d1" "chatMembers chat d2"]
  by (simp add: ReadChatHistory_def Let_def)

lemma advances_CreateChat: "advances d (snd (CreateChat fault now creator title invitees d))"
proof (cases "collect_members [creator] invitees")
  case (Some members)
  show ?thesis unfolding CreateChat_def Some option.case by (intro steady_advances steady_intros)
qed (simp add: CreateChat_def)

lemma advances_chat_mutations:
  "advances d (snd (SendChatMessage fault now d0 f d))"
  "advances d (snd (AddChatUser fault now d0 c target caller d))"
  "advances d (snd (RemoveChatUser fault now d0 c target caller d))"
  "advances d (snd (SetChatTitle fault now d0 c caller title d))"
  "advances d (snd (SetChatDefaultBannedRights fault d0 c caller rights d))"
  "advances d (snd (SetChatPinnedMessage fault d0 c caller pinned d))"
  "advances d (snd (transact fault (EnsureUpdateState now u) d))"
  unfolding SendChatMessage_def AddChatUser_def RemoveChatUser_def SetChatTitle_def SetChatDefaultBannedRights_def
    SetChatPinnedMessage_def removeParticipant_def Let_def
  by (intro steady_advances steady_intros)+

lemma Ensure_keeps: "db_ok d \<Longrightarrow> db_ok (snd (transact fault (EnsureUpdateState now u) d))"
  by (rule transact_keeps, rule db_ok_ensure) simp_all

section \<open>Secret chat transactions\<close>

lemma db_ok_secret:
  assumes "db_ok d" and "d_messages d' = d_messages d" "d_events d' = d_events d" "d_participants d' = d_participants d"
    "d_fanoutSeq d' = d_fanoutSeq d" and st: "\<And>u. pts_of u d' = pts_of u d \<and> next_of u d' = next_of u d"
  shows "db_ok d'"
  using assms core_ok_cong [of d' d] by (simp add: db_ok_def mirror_ok_def)

lemma secret_commit:
  assumes h: "hist_ok (d # h)" and s: "secret_ok d'" "secrets_evolve d d'"
    and same: "d_messages d' = d_messages d" "d_events d' = d_events d" "d_participants d' = d_participants d" "d_fanoutSeq d' = d_fanoutSeq d"
    and st: "\<And>u. pts_of u d' = pts_of u d \<and> next_of u d' = next_of u d \<and> (fmlookup (d_state d) u \<noteq> None \<longrightarrow> fmlookup (d_state d') u \<noteq> None)"
  shows "hist_ok (d' # d # h)"
proof (rule commit_ok [OF h _ s(1) _ s(2)])
  show "db_ok d'" by (rule db_ok_secret [OF conjunct1 [OF hist_ok_head [OF h]] same]) (use st in blast)
  show "evolves d d'" unfolding evolves_def same using st by simp
qed

text \<open>The key exchange statements write only their own table.\<close>

definition messages_same :: "database \<Rightarrow> database \<Rightarrow> bool" where
  "messages_same d d' \<longleftrightarrow>
     d_messages d' = d_messages d \<and> d_events d' = d_events d \<and> d_participants d' = d_participants d \<and> d_fanoutSeq d' = d_fanoutSeq d \<and>
     (\<forall>u. pts_of u d' = pts_of u d \<and> next_of u d' = next_of u d \<and> (fmlookup (d_state d) u \<noteq> None \<longrightarrow> fmlookup (d_state d') u \<noteq> None))"

lemma messages_same_refl [simp]: "messages_same d d"
  by (simp add: messages_same_def)

lemma messages_same_tables [simp]:
  "messages_same d (d\<lparr>d_secretChats := x\<rparr>)" "messages_same d (d\<lparr>d_encrypted := y\<rparr>)" "messages_same d (d\<lparr>d_secretSeq := z\<rparr>)"
  "messages_same d (d\<lparr>d_secretSeq := z, d_secretChats := x\<rparr>)"
  by (simp_all add: messages_same_def pts_of_def next_of_def)

lemma secret_step_commit:
  assumes "hist_ok (d # h)" and "secret_ok d' \<and> secrets_evolve d d'" and "messages_same d d'"
  shows "hist_ok (d' # d # h)"
  using assms by (intro secret_commit) (auto simp: messages_same_def)

lemma same_update_secret: "messages_same d (snd (transact fault (update_secret P f) d))"
  by (auto simp: transact_def update_secret_def andThen_def query_def the_row_def exec_def ret_def fail_def split: option.split)

lemma same_create: "messages_same d (snd (CreateSecretChatRequest fault now admin participant gA gAHash random d))"
  by (auto simp: CreateSecretChatRequest_def InsertSecretChat_def NextSecretChatID_def transact_def andThen_def query_def guard_def exec_def
      ret_def fail_def Let_def split: option.split)

lemma same_pushed: "fmlookup (d_state d) owner = Some s \<Longrightarrow> messages_same d (pushed now owner chat random bytes s d)"
  by (auto simp: messages_same_def pushed_def pts_of_def next_of_def)

lemma request_commit:
  assumes h: "hist_ok (d # h)"
  shows "hist_ok (snd (snd (handleRequestEncryption fault now derive ok prime sha256 known caller user gA random d)) # d # h)"
proof -
  let ?d = "snd (snd (handleRequestEncryption fault now derive ok prime sha256 known caller user gA random d))"
  have refl: "secret_ok d \<and> secrets_evolve d d" using hist_ok_head [OF h] by (simp add: secrets_evolve_same)
  have "(secret_ok ?d \<and> secrets_evolve d ?d) \<and> messages_same d ?d"
  proof (cases "inputUserID derive user caller")
    case None
    then show ?thesis using refl by (simp add: handleRequestEncryption_def)
  next
    case (Some p)
    note keeps = wp_create [OF conjunct1 [OF refl], of caller p fault now gA "sha256 gA" random] same_create [of d fault now caller p gA "sha256 gA" random]
    show ?thesis
      by (cases "CreateSecretChatRequest fault now caller p gA (sha256 gA) random d")
        (use keeps Some refl in \<open>auto simp: handleRequestEncryption_def split: sum.splits\<close>)
  qed
  then show ?thesis using secret_step_commit [OF h] by blast
qed

lemma accept_commit:
  assumes h: "hist_ok (d # h)"
  shows "hist_ok (snd (snd (handleAcceptEncryption fault now derive ok prime d0 d2 caller peer hash gB fingerprint d)) # d # h)"
proof -
  let ?a = "\<lambda>chatID. AcceptSecretChat fault now chatID caller gB fingerprint d"
  let ?d = "snd (snd (handleAcceptEncryption fault now derive ok prime d0 d2 caller peer hash gB fingerprint d))"
  have cases: "?d = d \<or> (\<exists>chatID. ?d = snd (?a chatID))"
    unfolding handleAcceptEncryption_def
    by (auto simp: case_prod_beta split: option.split sum.split store_error.split)
  have "secret_ok d" using hist_ok_head [OF h] by simp
  from cases accept_keeps [OF this] this show ?thesis
    by (intro secret_step_commit [OF h]) (auto simp: secrets_evolve_same same_update_secret [folded AcceptSecretChat_def] AcceptSecretChat_def)
qed

lemma discard_commit:
  assumes h: "hist_ok (d # h)"
  shows "hist_ok (snd (snd (handleDiscardEncryption fault now d0 caller chatID d)) # d # h)"
proof -
  let ?d = "snd (snd (handleDiscardEncryption fault now d0 caller chatID d))"
  have cases: "?d = d \<or> (\<exists>i. ?d = snd (DiscardSecretChat fault now i d))"
    unfolding handleDiscardEncryption_def
    by (auto simp: case_prod_beta split: option.split sum.split store_error.split)
  have "secret_ok d" using hist_ok_head [OF h] by simp
  from cases discard_keeps [OF this] this show ?thesis
    by (intro secret_step_commit [OF h]) (auto simp: secrets_evolve_same same_update_secret DiscardSecretChat_def)
qed

lemma handler_writes:
  assumes "d' = snd (snd (handleSendEncryptedMessage fault now derive d0 d1 d2 limited caller chatID hash random data d))"
  obtains "d' = d" | c where "SecretChatByID chatID d0 = Some c" "sc_state c = SecretChatActive" "Party c caller"
    "d' = snd (SendEncryptedMessage fault now d2 (Other c caller) chatID random data d)"
  using assms unfolding handleSendEncryptedMessage_def
  by (auto simp: case_prod_beta split: option.splits if_splits sum.splits)

lemma still_party:
  assumes h: "hist_ok (d # h)" and d0: "d0 \<in> set (d # h)" and c: "SecretChatByID i d0 = Some c" "sc_state c = SecretChatActive" "Party c u"
    and e: "ee_owner e = u" "ee_chat e = i"
  shows "event_ok (d_secretChats d) e"
proof -
  from SecretChatByID_D [OF c(1)] have c0: "c \<in> set (d_secretChats d0)" "sc_id c = i" by simp_all
  from hist_okD [OF h d0] have ev: "secrets_evolve d0 d" and "list_all row_ok (d_secretChats d0)"
    by (simp_all add: secret_ok_def chats_ok_def)
  then have g: "sc_gAOrB c \<noteq> None" using c0(1) c(2) by (auto simp: list_all_iff row_ok_def)
  from secrets_evolve_row [OF ev c0(1)] obtain c' where c': "c' \<in> set (d_secretChats d)" "chat_evolves c c'" .
  have "sc_gAOrB c' \<noteq> None" using c'(2) c(2) g by (auto simp: chat_evolves_def)
  with c' chat_evolvesD [OF c'(2)] c(3) c0(2) e show ?thesis by (auto simp: event_ok_def list_ex_iff Party_def)
qed

lemma Other_party: "Party c u \<Longrightarrow> Party c (Other c u)"
  by (auto simp: Party_def Other_def)

lemma send_encrypted_commit:
  assumes h: "hist_ok (d # h)" and d0: "d0 \<in> set (d # h)"
  shows "hist_ok (snd (snd (handleSendEncryptedMessage fault now derive d0 d1 d2 limited caller chatID hash random data d)) # d # h)"
    (is "hist_ok (?d # d # h)")
proof -
  have ok: "secret_ok d" using hist_ok_head [OF h] by simp
  have stay: "hist_ok (d # d # h)" by (rule secret_step_commit [OF h]) (simp_all add: ok secrets_evolve_same)
  show ?thesis
  proof (rule handler_writes [OF refl])
    assume "?d = d"
    then show ?thesis using stay by simp
  next
    fix c assume c: "SecretChatByID chatID d0 = Some c" "sc_state c = SecretChatActive" "Party c caller"
      and w: "?d = snd (SendEncryptedMessage fault now d2 (Other c caller) chatID random data d)"
    show ?thesis
    proof (rule send_encrypted_cases [OF w])
      assume "?d = d"
      then show ?thesis using stay by simp
    next
      fix s assume s: "fmlookup (d_state d) (Other c caller) = Some s" "GetEncryptedEventByRandomID (Other c caller) random d = None"
        and d': "?d = pushed now (Other c caller) chatID random data s d"
      have "event_ok (d_secretChats d) (push_event now (Other c caller) chatID random data s)"
        by (rule still_party [OF h d0 c(1,2) Other_party [OF c(3)]]) (simp_all add: push_event_def)
      from pushed_keeps [OF ok s this] same_pushed [OF s(1)] show ?thesis unfolding d'
        by (intro secret_step_commit [OF h]) (simp_all add: secrets_evolve_same pushed_def)
    qed
  qed
qed

lemma received_commit:
  assumes h: "hist_ok (d # h)"
  shows "hist_ok (snd (handleReceivedQueue d0 caller maxQts d) # d # h)"
proof -
  have ok: "secret_ok d" using hist_ok_head [OF h] by simp
  have "hist_ok (snd (AcknowledgeEncryptedEvents caller m d) # d # h)" for m
    by (rule secret_step_commit [OF h]) (use ack_keeps [OF ok] in \<open>auto simp: secrets_evolve_same AcknowledgeEncryptedEvents_def\<close>)
  moreover have "hist_ok (d # d # h)" by (rule secret_step_commit [OF h]) (simp_all add: ok secrets_evolve_same)
  ultimately show ?thesis by (simp add: handleReceivedQueue_def case_prod_beta)
qed

lemma elsewhere_commit:
  assumes h: "hist_ok (d # h)" and "d_fanoutSeq d \<le> n" and "d_secretSeq d \<le> k"
  shows "hist_ok (d\<lparr>d_files := files, d_blocked := blocked, d_dialogs := dialogs, d_chatSeq := cs, d_fanoutSeq := n, d_secretSeq := k\<rparr> # d # h)"
    (is "hist_ok (?d # d # h)")
proof (rule commit_ok [OF h])
  have "core_ok (d\<lparr>d_fanoutSeq := n\<rparr>)" using hist_ok_head [OF h] assms(2) by (intro core_ok_seq) (simp_all add: db_ok_def)
  then have "core_ok ?d" by (rule core_ok_cong [THEN iffD2, rotated -1]) (simp_all add: pts_of_def next_of_def)
  then show "db_ok ?d" using hist_ok_head [OF h] by (simp add: db_ok_def mirror_ok_def)
  have "chats_ok (d\<lparr>d_secretSeq := k\<rparr>)" using hist_ok_head [OF h] assms(3) by (intro chats_ok_seq) (simp_all add: secret_ok_def)
  then have "chats_ok ?d" by (rule chats_ok_cong [THEN iffD2, rotated -1]) simp_all
  then show "secret_ok ?d" using hist_ok_head [OF h] by (simp add: secret_ok_def queue_ok_def encrypted_queue_def qts_of_def)
  show "evolves d ?d" using assms(2) by (simp add: evolves_def)
  show "secrets_evolve d ?d" by (simp add: secrets_evolve_same)
qed

section \<open>The invariant holds throughout\<close>

lemma store_step_ok: "store_step s t \<Longrightarrow> hist_ok s \<Longrightarrow> hist_ok t"
proof (induction rule: store_step.induct)
  case (edit d0 d h d1 fault now u l body)
  from hist_okD [OF edit(3) edit(1)] hist_okD [OF edit(3) edit(2)] hist_ok_head [OF edit(3)]
  show ?case by (intro message_commit [OF edit(3) _ advances_EditMessage] wp_EditMessage(1)) simp_all
qed (use hist_ok_head in \<open>blast intro: message_commit request_commit accept_commit discard_commit send_encrypted_commit received_commit elsewhere_commit
    advances_SendMessage advances_DeleteMessages advances_ForwardMessages advances_ReadHistory advances_ReadChatHistory advances_CreateChat
    advances_chat_mutations SendMessage_keeps SendChatMessage_keeps DeleteMessages_keeps ForwardMessages_keeps ReadHistory_keeps
    ReadChatHistory_keeps CreateChat_keeps AddChatUser_keeps RemoveChatUser_keeps SetChatTitle_keeps SetChatDefaultBannedRights_keeps
    SetChatPinnedMessage_keeps Ensure_keeps\<close>)+

definition store_start :: "database list \<Rightarrow> bool" where
  "store_start s \<longleftrightarrow> (\<exists>files blocked. s = [empty_db files blocked])"

lemma store_start_ok: "store_start s \<Longrightarrow> hist_ok s"
  by (auto simp: store_start_def hist_ok_def db_ok_empty secret_ok_empty secrets_evolve_same)

interpretation stm: invariant_machine store_start store_step hist_ok
  by unfold_locales (blast intro: store_start_ok store_step_ok)+

text \<open>Nothing is forgotten: a later state still holds every database committed before it.\<close>

lemma store_reach_grows: "reach store_step s t \<Longrightarrow> set s \<subseteq> set t"
proof (induction rule: reach.induct)
  case (reach_step s t u)
  from reach_step(2) have "set t \<subseteq> set u" by (cases rule: store_step.cases) auto
  with reach_step show ?case by blast
qed simp

lemma store_reach_evolves:
  assumes "hist_ok s" and "reach store_step s (e # k)" and "d \<in> set s"
  shows "evolves d e" "secrets_evolve d e"
  using hist_okD [OF stm.reach_keeps [OF assms(2,1)]] store_reach_grows [OF assms(2)] assms(3) by blast+

end
