(* ===== verification/Resend.thy ===== *)
theory Resend
  imports Message_Store
begin

text \<open>
  A resend is answered with what the first send stored, however much happened in between, and stores
  nothing. The argument follows the sent row and its two log entries through every later database.
\<close>

definition entry_at :: "user_id \<Rightarrow> local_id \<Rightarrow> int \<Rightarrow> message_event list \<Rightarrow> bool" where
  "entry_at u l p es \<longleftrightarrow> map_option ev_pts (find (\<lambda>e. ev_owner e = u \<and> ev_local e = l \<and> ev_type e = EventNewMessage) es) = Some p"

definition sent :: "user_id \<Rightarrow> user_id \<Rightarrow> int \<Rightarrow> message_row \<Rightarrow> int \<Rightarrow> int \<Rightarrow> database \<Rightarrow> bool" where
  "sent from to random row sPts rPts d \<longleftrightarrow>
     row \<in> set (d_messages d) \<and> m_owner row = from \<and> m_random row = random \<and> m_peerType row = PeerTypeUser \<and> m_peer row = to \<and>
     entry_at from (m_local row) sPts (d_events d) \<and>
     (if from = to then rPts = sPts else m_peerLocal row \<noteq> 0 \<and> entry_at to (m_peerLocal row) rPts (d_events d))"

lemma entry_at_append: "entry_at u l p es \<Longrightarrow> entry_at u l p (es @ new)"
  by (auto simp: entry_at_def find_append split: option.splits)

lemma entry_at_new:
  assumes "core_ok d" and "fmlookup (d_state d) u = Some s" and "events = d_events d @ new"
    and "list_all (\<lambda>e. \<not> (ev_owner e = u \<and> ev_local e = us_nextLocal s \<and> ev_type e = EventNewMessage)) before"
    and "new = before @ \<lparr>ev_owner = u, ev_pts = p, ev_type = EventNewMessage, ev_local = us_nextLocal s\<rparr> # after"
  shows "entry_at u (us_nextLocal s) p events"
proof -
  have "map ev_local (filter (\<lambda>e. ev_type e = EventNewMessage) (events_of u d)) = [1..us_nextLocal s - 1]"
    using core_logD [OF assms(1), of u] assms(2) by (simp add: log_ok_def next_of_def)
  then have "us_nextLocal s \<notin> set (map ev_local (filter (\<lambda>e. ev_type e = EventNewMessage) (events_of u d)))" by simp
  then have "find (\<lambda>e. ev_owner e = u \<and> ev_local e = us_nextLocal s \<and> ev_type e = EventNewMessage) (d_events d) = None"
    by (auto simp: events_of_def find_None_iff image_iff)
  moreover have "find (\<lambda>e. ev_owner e = u \<and> ev_local e = us_nextLocal s \<and> ev_type e = EventNewMessage) before = None"
    using assms(4) by (simp add: find_None_iff list_all_iff)
  ultimately show ?thesis by (simp add: entry_at_def assms(3,5) find_append)
qed

lemma wp_newMessagePts_entry: "entry_at u l p (d_events d) \<Longrightarrow> wp (newMessagePts u l) E Q d = Q p d"
  by (auto simp: newMessagePts_def NewMessagePts_def entry_at_def tx_wp)

section \<open>The first send\<close>

lemma sent_pair:
  assumes ok: "db_ok d" and ne: "from \<noteq> to" and s: "fmlookup (d_state d) from = Some s" and r: "fmlookup (d_state d) to = Some r"
    and d': "d' = (pair_entries now from to text random file reply pr fw d)\<lparr>d_dialogs := g\<rparr>"
  shows "sent from to random (sender_row now from to text random file reply fw s r) (us_pts s + 1) (us_pts r + 1) d'"
proof -
  let ?e1 = "\<lparr>ev_owner = from, ev_pts = us_pts s + 1, ev_type = EventNewMessage, ev_local = us_nextLocal s\<rparr>"
  let ?e2 = "\<lparr>ev_owner = to, ev_pts = us_pts r + 1, ev_type = EventNewMessage, ev_local = us_nextLocal r\<rparr>"
  have ev: "d_events d' = d_events d @ [?e1, ?e2]" using ne s r by (simp add: d' pair_entries_def add_entry_def Let_def)
  have core: "core_ok d" using ok by (rule db_ok_core)
  have "entry_at from (us_nextLocal s) (us_pts s + 1) (d_events d')"
    by (rule entry_at_new [OF core s ev, where before = "[]"]) simp_all
  moreover have "entry_at to (us_nextLocal r) (us_pts r + 1) (d_events d')"
    by (rule entry_at_new [OF core r ev, where before = "[?e1]"]) (use ne in simp_all)
  moreover have "us_nextLocal r \<noteq> 0" using core_logD [OF core, of to] r by (simp add: log_ok_def next_of_def)
  ultimately show ?thesis using ne s r by (simp add: sent_def d' pair_entries_def add_entry_def Let_def)
qed

lemma sent_self:
  assumes ok: "db_ok d" and s: "fmlookup (d_state d) u = Some s"
    and m: "m = user_row now u (us_nextLocal s) u u text True random 0 file reply fw" and d': "d' = (add_entry now m d)\<lparr>d_dialogs := g\<rparr>"
  shows "sent u u random m (us_pts s + 1) (us_pts s + 1) d'"
proof -
  have ev: "d_events d' = d_events d @ [\<lparr>ev_owner = u, ev_pts = us_pts s + 1, ev_type = EventNewMessage, ev_local = us_nextLocal s\<rparr>]"
    using s by (simp add: d' m add_entry_def Let_def)
  have "entry_at u (us_nextLocal s) (us_pts s + 1) (d_events d')"
    by (rule entry_at_new [OF db_ok_core [OF ok] s ev, where before = "[]"]) simp_all
  then show ?thesis using s by (simp add: sent_def d' m)
qed

definition recorded :: "user_id \<Rightarrow> user_id \<Rightarrow> int \<Rightarrow> message_struct \<times> int \<times> int \<times> bool \<Rightarrow> database \<Rightarrow> bool" where
  "recorded from to random r d \<longleftrightarrow>
     snd (snd (snd r)) \<or> (\<exists>row. fst r = messageFromRow row \<and> sent from to random row (fst (snd r)) (fst (snd (snd r))) d)"

lemma wp_send_locked_records:
  assumes ok: "db_ok d" and s: "fmlookup (d_state d) from = Some s" and r: "fmlookup (d_state d) to = Some r"
  shows "wp (send_locked now from to text random file reply) E (recorded from to random) d"
proof (cases "if random \<noteq> 0 then MessageByRandomID from random d else None")
  case (Some m)
  then have m: "m \<in> set (d_messages d)" "m_owner m = from" by (auto dest: lookup_tokenD split: if_splits)
  have "wp (newMessagePts from (m_local m)) E (\<lambda>sPts. wp (mirrorPts m to) E (\<lambda>rPts. recorded from to random (messageFromRow m, sPts, rPts, True))) d"
    by (rule wp_newMessagePts [OF db_ok_core [OF ok] m refl], rule wp_mirrorPts [OF ok m(1) r]) (simp add: recorded_def)
  with Some show ?thesis unfolding send_locked_def tx_wp by simp
next
  case None
  then have fresh: "random \<noteq> 0 \<Longrightarrow> MessageByRandomID from random d = None" by simp
  show ?thesis
  proof (cases "from = to")
    case True
    have "wp (send_self now from text random file reply) E (recorded from to random) d"
      by (rule wp_send_self [OF db_ok_core [OF ok] s fresh _ refl])
        (use True sent_self [OF ok s refl refl] in \<open>auto simp: recorded_def\<close>)
    with None True show ?thesis unfolding send_locked_def tx_wp by simp
  next
    case False
    have "wp (send_pair now from to text random file (reply_ref reply) (peer_reply from reply) not_forwarded) E
        (\<lambda>x. recorded from to random (fst x, fst (snd x), snd (snd x), False)) d"
      by (rule wp_send_pair [OF db_ok_core [OF ok] False s r fresh])
        (use sent_pair [OF ok False s r refl] in \<open>auto simp: recorded_def\<close>)
    with None False show ?thesis unfolding send_locked_def tx_wp by simp
  qed
qed

lemma wp_send_records:
  assumes "db_ok d"
  shows "wp (send_tx now from to text random file reply) (\<lambda>_. True) (recorded from to random) d"
proof -
  have "wp (EnsureUpdateState now from) E (\<lambda>_. wp (EnsureUpdateState now to) E
      (\<lambda>_. wp (send_locked now from to text random file reply) E (recorded from to random))) d" for E
  proof (rule db_ok_ensure [OF assms])
    fix d1 s assume 1: "db_ok d1" "fmlookup (d_state d1) from = Some s"
    show "wp (EnsureUpdateState now to) E (\<lambda>_. wp (send_locked now from to text random file reply) E (recorded from to random)) d1"
    proof (rule db_ok_ensure [OF 1(1)])
      fix d2 r assume 2: "db_ok d2" "fmlookup (d_state d2) to = Some r"
        and "\<And>v. v \<noteq> to \<Longrightarrow> fmlookup (d_state d2) v = fmlookup (d_state d1) v"
      then obtain s' where "fmlookup (d_state d2) from = Some s'" using 1(2) by (cases "from = to") auto
      with 2 show "wp (send_locked now from to text random file reply) E (recorded from to random) d2" by (intro wp_send_locked_records)
    qed
  qed
  then show ?thesis unfolding send_tx_def tx_wp by simp
qed

section \<open>The row afterwards\<close>

lemma sent_persists:
  assumes "sent from to random row sPts rPts d" and ev: "evolves d d'"
  obtains row' where "sent from to random row' sPts rPts d'" "same_row row row'"
proof -
  from assms(1) have row: "row \<in> set (d_messages d)" by (simp add: sent_def)
  from evolves_row [OF ev row] obtain row' where row': "row' \<in> set (d_messages d')" "same_row row row'" .
  from ev obtain new where "d_events d' = d_events d @ new" by (auto simp: evolves_def)
  with assms(1) row' same_rowD [OF row'(2)] have "sent from to random row' sPts rPts d'"
    by (auto simp: sent_def intro: entry_at_append)
  with row'(2) that show thesis by blast
qed

lemma token_row:
  assumes "core_ok d" and "row \<in> set (d_messages d)" and "m_owner row = u" and "m_random row = r" and "r \<noteq> 0"
  shows "MessageByRandomID u r d = Some row"
proof (cases "MessageByRandomID u r d")
  case None
  with assms(2-5) show ?thesis by (auto simp: MessageByRandomID_def find_None_iff)
next
  case (Some x)
  then have x: "x \<in> set (d_messages d)" "m_owner x = u" "m_random x = r" by (auto dest: lookup_tokenD simp: MessageByRandomID_def find_Some_iff)
  have "distinct (map (\<lambda>m. (m_owner m, m_random m)) (filter (\<lambda>m. m_random m \<noteq> 0) (d_messages d)))"
    using assms(1) by (simp add: core_ok_def tokens_ok_def)
  then have "inj_on (\<lambda>m. (m_owner m, m_random m)) {m \<in> set (d_messages d). m_random m \<noteq> 0}" by (simp add: distinct_map)
  from inj_onD [OF this, of x row] x assms have "x = row" by simp
  with Some show ?thesis by simp
qed

lemma resend_tx:
  assumes core: "core_ok d" and row: "sent from to random row sPts rPts d" and random: "random \<noteq> 0"
    and stored: "file = 0 \<or> fmlookup (d_files d) file \<noteq> None"
  shows "wp (send_tx now from to text random file reply) (\<lambda>_. False) (\<lambda>r _. r = (messageFromRow row, sPts, rPts, True)) d"
proof -
  have tok: "MessageByRandomID from random d = Some row"
    by (rule token_row [OF core _ _ _ random]) (use row in \<open>simp_all add: sent_def\<close>)
  have here: "wp (send_locked now from to text random file reply) (\<lambda>_. False) (\<lambda>r _. r = (messageFromRow row, sPts, rPts, True)) d1"
    if "d_messages d1 = d_messages d" "d_events d1 = d_events d" for d1
  proof -
    have "MessageByRandomID from random d1 = Some row" using tok that(1) by (simp add: MessageByRandomID_def)
    moreover have "entry_at from (m_local row) sPts (d_events d1)" using row that(2) by (simp add: sent_def)
    moreover have "wp (mirrorPts row to) (\<lambda>_. False) (\<lambda>p _. p = rPts) d1"
      using row that(2) wp_newMessagePts_entry [of "from" "m_local row" sPts d1] wp_newMessagePts_entry [of to "m_peerLocal row" rPts d1]
      by (auto simp: sent_def mirrorPts_def split: if_splits)
    ultimately show ?thesis using random unfolding send_locked_def tx_wp by (auto simp: wp_newMessagePts_entry elim: wp_mono)
  qed
  have ensure: "wp (EnsureUpdateState now u) (\<lambda>_. False) (\<lambda>_ d2. d_messages d2 = d_messages d1 \<and> d_events d2 = d_events d1) d1" for u d1
    by (auto simp: EnsureUpdateState_def tx_wp split: option.split)
  have "wp (EnsureUpdateState now from) (\<lambda>_. False) (\<lambda>_. wp (EnsureUpdateState now to) (\<lambda>_. False)
      (\<lambda>_. wp (send_locked now from to text random file reply) (\<lambda>_. False) (\<lambda>r _. r = (messageFromRow row, sPts, rPts, True)))) d"
    by (rule wp_mono [OF ensure], simp, rule wp_mono [OF ensure]) (auto intro: here)
  then show ?thesis using stored unfolding send_tx_def tx_wp by auto
qed

lemma same_message: "same_row a b \<Longrightarrow> messageFromRow b =
    (messageFromRow a)\<lparr>Text := Text (messageFromRow b), EditDate := EditDate (messageFromRow b), Deleted := Deleted (messageFromRow b)\<rparr>"
  by (cases a; cases b) (simp add: same_row_def messageFromRow_def)

text \<open>
  C1. A resend returns the original. Take any history of the store, a send that stored a message under
  a non-zero random id, and any further history of sends, edits, deletes, forwards, reads, chat
  changes and secret chat traffic: sending again to the same peer under the same random id, with
  whatever text, reply and (existing) file, answers with the stored message and the pts each side got
  the first time, and leaves the database untouched. The message may only differ in the text, edit
  date and deleted flag that edits and deletes have given the row since.
\<close>

theorem resend_returns_original:
  assumes "store_start s" and "reach store_step s (d # h)"
    and "SendMessage False now from to text random file reply d = (Inr (m, sPts, rPts, False), d')" and "random \<noteq> 0"
    and "reach store_step (d' # d # h) (e # k)" and "file' = 0 \<or> fmlookup (d_files e) file' \<noteq> None"
  shows "\<exists>m'. SendMessage False now' from to text' random file' reply' e = (Inr (m', sPts, rPts, True), e) \<and>
     m' = m\<lparr>Text := Text m', EditDate := EditDate m', Deleted := Deleted m'\<rparr>"
proof -
  have h: "hist_ok (d # h)" by (rule stm.reachable_inv [OF assms(1,2)])
  have d': "d' = snd (SendMessage False now from to text random file reply d)" using assms(3) by simp
  have h': "hist_ok (d' # d # h)" unfolding d' by (rule store_step_ok [OF store_step.send h])
  have t: "transact False (send_tx now from to text random file reply) d = (Inr (m, sPts, rPts, False), d')"
    using assms(3) by (auto simp: SendMessage_def split: prod.splits sum.splits bool.splits)
  from transact_result [OF wp_send_records [of d now "from" to "text" random "file" reply]] hist_ok_head [OF h] t
  obtain row where row: "m = messageFromRow row" "sent from to random row sPts rPts d'" by (auto simp: recorded_def)
  have e: "hist_ok (e # k)" by (rule stm.reach_keeps [OF assms(5) h'])
  have "evolves d' e" by (rule store_reach_evolves(1) [OF h' assms(5)]) simp
  from sent_persists [OF row(2) this] obtain row' where row': "sent from to random row' sPts rPts e" "same_row row row'" .
  from transact_result [OF resend_tx [OF db_ok_core row'(1) assms(4,6), of now' "text'" reply']] hist_ok_head [OF e]
  have "SendMessage False now' from to text' random file' reply' e = (Inr (messageFromRow row', sPts, rPts, True), e)"
    by (auto simp: SendMessage_def split: prod.splits sum.splits)
  with same_message [OF row'(2)] row(1) show ?thesis by blast
qed

lemmas send_eval = SendMessage_def send_tx_def send_locked_def send_pair_def lockFileRefs_def ascendingUnique_def EnsureUpdateState_def BumpState_def
  GetState_def InsertMessage_def message_clash_def InsertEvent_def event_taken_def UpsertDialog_def MessageByRandomID_def MessageByOwnerLocal_def
  row_at_def transact_def andThen_def query_def exec_def ret_def guard_def fail_def the_row_def user_row_def not_forwarded_def reply_ref_def peer_reply_def
  empty_db_def Let_def

theorem resend_returns_original_witness:
  "\<exists>m' d'. snd (SendMessage False 5 1 2 ''hi'' 9 0 0 (empty_db fmempty [])) = d' \<and>
     SendMessage False 6 1 2 ''again'' 9 0 0 d' = (Inr (m', 1, 1, True), d') \<and> Text m' = ''hi''"
proof -
  let ?d = "empty_db fmempty []" and ?r = "SendMessage False 5 1 2 ''hi'' 9 0 0 (empty_db fmempty [])"
  have r: "?r = (Inr (messageFromRow (user_row 5 1 1 2 1 ''hi'' True 9 1 0 None not_forwarded), 1, 1, False), snd ?r)"
    by (simp add: send_eval)
  have "\<exists>m'. SendMessage False 6 1 2 ''again'' 9 0 0 (snd ?r) = (Inr (m', 1, 1, True), snd ?r) \<and>
     m' = (messageFromRow (user_row 5 1 1 2 1 ''hi'' True 9 1 0 None not_forwarded))\<lparr>Text := Text m', EditDate := EditDate m', Deleted := Deleted m'\<rparr>"
    by (rule resend_returns_original [where h = "[]", OF _ reach_refl r _ reach_refl]) (auto simp: store_start_def)
  moreover have "fst (SendMessage False 6 1 2 ''again'' 9 0 0 (snd ?r)) = Inr (messageFromRow (user_row 5 1 1 2 1 ''hi'' True 9 1 0 None not_forwarded), 1, 1, True)"
    by (simp add: send_eval newMessagePts_def NewMessagePts_def mirrorPts_def)
  ultimately show ?thesis by (auto simp: messageFromRow_def user_row_def)
qed

end
