(* ===== verification/Store_Theorems.thy ===== *)
theory Store_Theorems
  imports Resend
begin

text \<open>
  What holds of the store in every reachable state: the update logs are exact, the two sides of a
  message agree, and no answer is ever lost to an unknown pts.
\<close>

section \<open>Sample histories\<close>

definition sample_start :: database where
  "sample_start = empty_db fmempty []"

definition sample_sent :: database where
  "sample_sent = snd (SendMessage False 5 1 2 ''hi'' 9 0 0 sample_start)"

lemma sample_begins: "store_start [sample_start]"
  by (auto simp: store_start_def sample_start_def)

lemma sample_sends: "reach store_step [sample_start] [sample_sent, sample_start]"
  unfolding sample_sent_def by (rule reach_one, rule store_step.send)

section \<open>The update log\<close>

text \<open>
  C4. The update log is exact. In every reachable database, the events of an account carry the pts 1,
  2, ... up to its current pts with no gap and no repeat; its messages carry the local ids 1, 2, ...
  below the next one, in the order in which the log announced them as new; and a message has exactly
  one delete event if it is deleted and none if it is not.
\<close>

theorem update_log_exact:
  assumes "store_start s" and "reach store_step s (d # h)"
  shows "map ev_pts (events_of u d) = [1..pts_of u d] \<and>
     map m_local (rows_of u d) = [1..next_of u d - 1] \<and>
     map ev_local (filter (\<lambda>e. ev_type e = EventNewMessage) (events_of u d)) = map m_local (rows_of u d) \<and>
     list_all (\<lambda>m. deletions (m_local m) (events_of u d) = (if m_deleted m then 1 else 0)) (rows_of u d)"
  using core_logD [OF db_ok_core, of d u] hist_ok_head [OF stm.reachable_inv [OF assms]] by (simp add: log_ok_def)

theorem update_log_exact_witness: "map ev_pts (events_of 2 sample_sent) = [1..pts_of 2 sample_sent] \<and> pts_of 2 sample_sent = 1"
  using update_log_exact [OF sample_begins sample_sends, of 2]
  by (simp add: sample_sent_def sample_start_def send_eval pts_of_def)

text \<open>
  C9. The two sides of a conversation agree. In every reachable database, a message of a dialog between
  two accounts has its counterpart in the other's dialog: each row names the other's local id, one is
  outgoing and the other incoming, and both show the same sender, text and edit date, whatever edits
  and one-sided deletes there were.
\<close>

theorem counterparts_agree:
  assumes "store_start s" and "reach store_step s (d # h)"
    and "a \<in> set (d_messages d)" and "m_peerType a = PeerTypeUser" and "m_owner a \<noteq> m_peer a"
  shows "\<exists>b. b \<in> set (d_messages d) \<and> m_owner b = m_peer a \<and> m_peer b = m_owner a \<and> m_local b = m_peerLocal a \<and> m_peerLocal b = m_local a \<and>
     m_out b = (\<not> m_out a) \<and> m_from b = m_from a \<and> m_text b = m_text a \<and> m_editDate b = m_editDate a"
proof -
  have "db_ok d" using hist_ok_head [OF stm.reachable_inv [OF assms(1,2)]] by simp
  from has_mirror [OF this assms(3-5)] show ?thesis unfolding mirror_of_def by metis
qed

theorem counterparts_agree_witness: "\<exists>b. b \<in> set (d_messages sample_sent) \<and> m_owner b = 2 \<and> m_text b = ''hi'' \<and> \<not> m_out b"
proof -
  let ?a = "user_row 5 1 1 2 1 ''hi'' True 9 1 0 None not_forwarded"
  have "?a \<in> set (d_messages sample_sent)" by (simp add: sample_sent_def sample_start_def send_eval)
  from counterparts_agree [OF sample_begins sample_sends this] show ?thesis by auto
qed

text \<open>
  C31. No answer is lost to an unknown pts. Whatever the history, a send, a chat send and a forward
  never fail with \<open>ErrPtsUnknown\<close>: the pts of every message a resend can name is in the log.
\<close>

theorem pts_always_known:
  assumes "store_start s" and "reach store_step s (d # h)" and "visits order"
  shows "fst (SendMessage False now from to text random file reply d) \<noteq> Inl ErrPtsUnknown \<and>
     fst (SendChatMessage False now d0 f d) \<noteq> Inl ErrPtsUnknown \<and>
     fst (ForwardMessages False now order from destType to sources randoms d) \<noteq> Inl ErrPtsUnknown"
proof -
  have ok: "db_ok d" using hist_ok_head [OF stm.reachable_inv [OF assms(1,2)]] by simp
  have "fst (SendMessage False now from to text random file reply d) \<noteq> Inl ErrPtsUnknown"
    using transact_result [OF wp_send [OF ok, of now "from" to "text" random "file" reply]]
    by (auto simp: SendMessage_def split: prod.splits sum.splits bool.splits)
  moreover have "fst (SendChatMessage False now d0 f d) \<noteq> Inl ErrPtsUnknown"
    using transact_result [OF wp_fanOut [OF ok, of now d0 f]] by (auto simp: SendChatMessage_def split: prod.splits sum.splits)
  moreover have "fst (ForwardMessages False now order from destType to sources randoms d) \<noteq> Inl ErrPtsUnknown"
  proof (cases "destType = PeerTypeUser \<and> to = from")
    case False
    from transact_result [OF wp_forward_tx [OF ok assms(3), of destType "from" to now sources randoms]] False
    show ?thesis by (auto simp: ForwardMessages_def split: prod.splits sum.splits)
  qed (simp add: ForwardMessages_def)
  ultimately show ?thesis by blast
qed

theorem pts_always_known_witness:
  "fst (ForwardMessages False 6 (\<lambda>_ us. us) 1 PeerTypeUser 2 [\<lparr>fs_from = 1, fs_date = 5, fs_text = ''hi'', fs_channel = 0, fs_post = 0, fs_file = 0\<rparr>] [9]
     sample_sent) \<noteq> Inl ErrPtsUnknown"
  using pts_always_known [OF sample_begins sample_sends, of "\<lambda>_ us. us" 6 1 2 _ _ _ _ _ _ PeerTypeUser
    "[\<lparr>fs_from = 1, fs_date = 5, fs_text = ''hi'', fs_channel = 0, fs_post = 0, fs_file = 0\<rparr>]" "[9]"] by (simp add: visits_def)

end
