(* ===== verification/Secret_Theorems.thy ===== *)
theory Secret_Theorems
  imports Store_Theorems
begin

text \<open>
  The secret chat promises over every history of the store, and two places where the handler of
  \<open>messages.sendEncrypted\<close> does not do what the comments around it say.
\<close>

section \<open>Sample history\<close>

abbreviation any_hash :: derive where
  "any_hash \<equiv> \<lambda>_ _ _. 0"

abbreviation any_value :: "int \<Rightarrow> int \<Rightarrow> int \<Rightarrow> int \<Rightarrow> bool" where
  "any_value \<equiv> \<lambda>_ _ _ _. True"

definition sample_users :: database where
  "sample_users = snd (transact False (EnsureUpdateState 3 2) (snd (transact False (EnsureUpdateState 3 1) sample_start)))"

definition sample_requested :: database where
  "sample_requested = snd (snd (handleRequestEncryption False 4 any_hash any_value [] id (\<lambda>_. True) 1 (InputUser 2 0) (replicate 256 1) 7 sample_users))"

definition sample_active :: database where
  "sample_active = snd (snd (handleAcceptEncryption False 5 any_hash any_value [] sample_requested sample_requested 2 1 0 (replicate 256 2) 77 sample_requested))"

definition sample_discarded :: database where
  "sample_discarded = snd (snd (handleDiscardEncryption False 6 sample_active 1 1 sample_active))"

lemma sample_chat:
  "d_secretChats sample_active = [\<lparr>sc_id = 1, sc_admin = 1, sc_participant = 2, sc_state = SecretChatActive, sc_gAHash = replicate 256 1,
     sc_gA = replicate 256 1, sc_gAOrB = Some (replicate 256 2), sc_fingerprint = Some 77, sc_random = 7, sc_date = 5\<rparr>]"
  "d_encrypted sample_active = []" "d_secretSeq sample_active = 1"
  "fmlookup (d_state sample_active) 1 = Some \<lparr>us_pts = 0, us_seq = 0, us_date = 3, us_nextLocal = 1, us_qts = 0\<rparr>"
  "fmlookup (d_state sample_active) 2 = Some \<lparr>us_pts = 0, us_seq = 0, us_date = 3, us_nextLocal = 1, us_qts = 0\<rparr>"
  by (simp_all add: sample_active_def sample_requested_def sample_users_def sample_start_def handleAcceptEncryption_def handleRequestEncryption_def
      secretChatID_def secretChatHash_def validateDHValue_def dhValueLen_def inputUserID_def peerUserID_def CreateSecretChatRequest_def
      GetSecretChatByAdminRandomID_def CountRequestedSecretChats_def MaxOutstandingSecretChats_def NextSecretChatID_def maxInt32_def
      InsertSecretChat_def secret_clash_def SecretChatByID_def AcceptSecretChat_def update_secret_def EnsureUpdateState_def send_eval)

lemma sample_request_reached: "\<exists>h. reach store_step [sample_start] (sample_requested # h)"
proof -
  let ?u = "snd (transact False (EnsureUpdateState 3 1) sample_start)"
  have "store_step [sample_start] [?u, sample_start]" by (rule store_step.ensure)
  moreover have "store_step [?u, sample_start] [sample_users, ?u, sample_start]" unfolding sample_users_def by (rule store_step.ensure)
  moreover have "store_step [sample_users, ?u, sample_start] [sample_requested, sample_users, ?u, sample_start]"
    unfolding sample_requested_def by (rule store_step.request)
  ultimately show ?thesis by (blast intro: reach.intros)
qed

lemma sample_chat_reached: "\<exists>h. reach store_step [sample_start] (sample_active # h) \<and> reach store_step (sample_active # h) (sample_discarded # sample_active # h)"
proof -
  obtain h where h: "reach store_step [sample_start] (sample_requested # h)" using sample_request_reached by blast
  let ?h = "sample_requested # h"
  have "store_step ?h (sample_active # ?h)" unfolding sample_active_def by (rule store_step.accept) simp
  moreover have "store_step (sample_active # ?h) (sample_discarded # sample_active # ?h)" unfolding sample_discarded_def by (rule store_step.discard) simp
  ultimately show ?thesis using h by (blast intro: reach.intros)
qed

section \<open>Key exchanges\<close>

lemma find_map_same: "(\<And>x. P (f x) = P x) \<Longrightarrow> find P (map f xs) = map_option f (find P xs)"
  by (induction xs) auto

text \<open>
  C5. A key exchange only moves forward. From any database a history reaches to any later one, a secret
  chat keeps its id, its two parties, the initiator's g_a with its hash and the token; once accepted,
  the responder's g_b and the key fingerprint never change again and the chat can only be discarded;
  once discarded, nothing of the row changes, its date included.
\<close>

theorem secret_chat_lifecycle:
  assumes "store_start s" and "reach store_step s (d # h)" and "reach store_step (d # h) (e # k)" and "SecretChatByID i d = Some c"
  shows "\<exists>c'. SecretChatByID i e = Some c' \<and>
     c' = c\<lparr>sc_state := sc_state c', sc_gAOrB := sc_gAOrB c', sc_fingerprint := sc_fingerprint c', sc_date := sc_date c'\<rparr> \<and>
     (case sc_state c of
        SecretChatRequested \<Rightarrow> sc_state c' \<noteq> SecretChatRequested \<or> c' = c
      | SecretChatActive \<Rightarrow>
          sc_gAOrB c' = sc_gAOrB c \<and> sc_fingerprint c' = sc_fingerprint c \<and> (sc_state c' = SecretChatDiscarded \<or> c' = c)
      | SecretChatDiscarded \<Rightarrow> c' = c)"
proof -
  have h: "hist_ok (d # h)" by (rule stm.reachable_inv [OF assms(1,2)])
  have "secrets_evolve d e" by (rule store_reach_evolves(2) [OF h assms(3)]) simp
  from SecretChatByID_D [OF assms(4)] secrets_evolve_row [OF this]
  obtain c' where c': "c' \<in> set (d_secretChats e)" "chat_evolves c c'" "sc_id c = i" by blast
  have "chats_ok e" using hist_ok_head [OF stm.reach_keeps [OF assms(3) h]] by (simp add: secret_ok_def)
  from SecretChatByID_row [OF this c'(1)] chat_evolvesD [OF c'(2)] c'(3) have "SecretChatByID i e = Some c'" by simp
  with c'(2) show ?thesis unfolding chat_evolves_def by blast
qed

theorem secret_chat_lifecycle_witness:
  "\<exists>c'. SecretChatByID 1 sample_discarded = Some c' \<and> sc_gAOrB c' = Some (replicate 256 2) \<and> sc_fingerprint c' = Some 77"
proof -
  obtain h where h: "reach store_step [sample_start] (sample_active # h)" "reach store_step (sample_active # h) (sample_discarded # sample_active # h)"
    using sample_chat_reached by blast
  have "SecretChatByID 1 sample_active = Some (hd (d_secretChats sample_active))" by (simp add: SecretChatByID_def sample_chat)
  from secret_chat_lifecycle [OF sample_begins h this] show ?thesis by (auto simp: sample_chat)
qed

text \<open>
  C20. Only the responder can complete an exchange. Whatever was read before, an accept that answers with
  a chat was made by the participant of that chat, named with an access hash derived for that account,
  with a g_b of 256 bytes that passes the group check of the Diffie-Hellman library for the server's
  prime and generator, while the chat was still requested; it stores exactly that g_b and
  fingerprint, leaves every other chat alone and notifies the initiator only.
\<close>

theorem accept_completes:
  assumes "store_start s" and "reach store_step s (d # h)"
    and "handleAcceptEncryption fault now derive dhCheck prime d0 d2 caller peer hash gB fingerprint d = (Inr r, push, d')"
  shows "\<exists>c. SecretChatByID peer d = Some c \<and> sc_state c = SecretChatRequested \<and> sc_participant c = caller \<and>
     hash = derive caller KindSecret peer \<and> length gB = 256 \<and> dhCheck (SetBytes prime) dhGenerator (SetBytes gB) (SetBytes gB) \<and> push = [(sc_admin c, peer)] \<and>
     SecretChatByID peer d' = Some (c\<lparr>sc_state := SecretChatActive, sc_gAOrB := Some gB, sc_fingerprint := Some fingerprint, sc_date := now\<rparr>) \<and>
     (\<forall>i. i \<noteq> peer \<longrightarrow> SecretChatByID i d' = SecretChatByID i d)"
proof -
  let ?P = "\<lambda>c. sc_id c = peer \<and> sc_participant c = caller \<and> sc_state c = SecretChatRequested"
  let ?f = "\<lambda>c. c\<lparr>sc_state := SecretChatActive, sc_gAOrB := Some gB, sc_fingerprint := Some fingerprint, sc_date := now\<rparr>"
  have chats: "chats_ok d" using hist_ok_head [OF stm.reachable_inv [OF assms(1,2)]] by (simp add: secret_ok_def)
  from assms(3) obtain c' where a: "AcceptSecretChat fault now peer caller gB fingerprint d = (Inr c', d')" "push = [(sc_admin c', sc_id c')]"
    and g: "hash = derive caller KindSecret peer" "length gB = 256" "dhCheck (SetBytes prime) dhGenerator (SetBytes gB) (SetBytes gB)"
    unfolding handleAcceptEncryption_def
    by (auto simp: secretChatID_def secretChatHash_def validateDHValue_def dhValueLen_def split: if_splits option.splits prod.splits sum.splits store_error.splits)
  from a(1) obtain c where c: "find ?P (d_secretChats d) = Some c" "c' = ?f c"
    and d': "d' = d\<lparr>d_secretChats := map (\<lambda>c. if ?P c then ?f c else c) (d_secretChats d)\<rparr>"
    by (auto simp: AcceptSecretChat_def update_secret_def transact_def andThen_def query_def the_row_def exec_def ret_def fail_def
        split: if_splits option.splits)
  from c(1) have in_d: "c \<in> set (d_secretChats d)" and P: "?P c" by (auto simp: find_Some_iff)
  have here: "SecretChatByID peer d = Some c" using SecretChatByID_row [OF chats in_d] P by simp
  have after: "SecretChatByID i d' = map_option (\<lambda>c. if ?P c then ?f c else c) (SecretChatByID i d)" for i
    unfolding SecretChatByID_def d' by (simp add: find_map_same)
  have "SecretChatByID peer d' = Some (?f c)" using after [of peer] here P by simp
  moreover have "SecretChatByID i d' = SecretChatByID i d" if "i \<noteq> peer" for i
    using after [of i] SecretChatByID_D [of i d] that by (cases "SecretChatByID i d") auto
  ultimately show ?thesis using here P g a(2) c(2) by auto
qed

theorem accept_completes_witness: "\<exists>c. SecretChatByID 1 sample_active = Some c \<and> sc_fingerprint c = Some 77"
proof -
  let ?a = "handleAcceptEncryption False 5 any_hash any_value [] sample_requested sample_requested 2 1 0 (replicate 256 2) 77 sample_requested"
  obtain h where h: "reach store_step [sample_start] (sample_requested # h)" using sample_request_reached by blast
  obtain r push where "?a = (Inr r, push, sample_active)"
    by (simp add: sample_active_def sample_requested_def sample_users_def sample_start_def handleAcceptEncryption_def handleRequestEncryption_def
      secretChatID_def secretChatHash_def validateDHValue_def dhValueLen_def inputUserID_def peerUserID_def CreateSecretChatRequest_def
      GetSecretChatByAdminRandomID_def CountRequestedSecretChats_def MaxOutstandingSecretChats_def NextSecretChatID_def maxInt32_def
      InsertSecretChat_def secret_clash_def SecretChatByID_def AcceptSecretChat_def update_secret_def EnsureUpdateState_def send_eval)
  from accept_completes [OF sample_begins h this] show ?thesis by auto
qed

text \<open>
  Outstanding requests are capped. No history gives an account more than
  \<open>MaxOutstandingSecretChats\<close> requests of its own that are neither accepted nor discarded.
\<close>

theorem outstanding_requests_bounded:
  assumes "store_start s" and "reach store_step s (d # h)"
  shows "CountRequestedSecretChats u d \<le> MaxOutstandingSecretChats"
  using hist_ok_head [OF stm.reachable_inv [OF assms]] by (simp add: secret_ok_def chats_ok_def)

theorem outstanding_requests_bounded_witness: "CountRequestedSecretChats 1 sample_sent \<le> 10"
  using outstanding_requests_bounded [OF sample_begins sample_sends, of 1] by (simp add: MaxOutstandingSecretChats_def)

section \<open>Encrypted messages\<close>

text \<open>
  C17. An encrypted queue has no gap. In every reachable database the unacknowledged events of an
  account carry consecutive qts ending at its current qts, every one of them belongs to a chat the
  account is a party of that has been accepted (the responder's g_b is recorded, which only an accept
  does; it may have been discarded since), and no two of them share a random id.
\<close>

theorem encrypted_queue_exact:
  assumes "store_start s" and "reach store_step s (d # h)"
  shows "(\<exists>a. 0 \<le> a \<and> map ee_qts (encrypted_queue u d) = [a + 1..GetQts u d]) \<and> distinct (map ee_random (encrypted_queue u d)) \<and>
     list_all (\<lambda>e. list_ex (\<lambda>c. sc_id c = ee_chat e \<and> Party c u \<and> sc_gAOrB c \<noteq> None) (d_secretChats d)) (encrypted_queue u d)"
proof -
  have ok: "secret_ok d" using hist_ok_head [OF stm.reachable_inv [OF assms]] by simp
  have "distinct (map (\<lambda>e. (ee_owner e, ee_random e)) (encrypted_queue u d))" using ok by (simp add: secret_ok_def encrypted_queue_def distinct_map_filter)
  then have "distinct (map ee_random (encrypted_queue u d))" by (auto simp: encrypted_queue_def distinct_map inj_on_def)
  then show ?thesis using ok by (auto simp: secret_ok_def queue_ok_def GetQts_qts_of encrypted_queue_def event_ok_def list_all_iff)
qed

definition sample_encrypted :: database where
  "sample_encrypted = snd (snd (handleSendEncryptedMessage False 6 any_hash sample_active sample_active sample_active None 1 1 0 0 [65] sample_active))"

lemmas encrypted_eval = handleSendEncryptedMessage_def maxEncryptedData_def SecretChatByID_def Party_def Other_def secretChatHash_def
  EncryptedMessageByRandomID_def SendEncryptedMessage_def InsertEncryptedEvent_def GetEncryptedEventByRandomID_def BumpQts_def sample_chat

lemma sample_encrypted_reached: "\<exists>h. reach store_step [sample_start] (sample_encrypted # sample_active # h)"
proof -
  obtain h where h: "reach store_step [sample_start] (sample_active # h)" using sample_chat_reached by blast
  have "store_step (sample_active # h) (sample_encrypted # sample_active # h)" unfolding sample_encrypted_def by (rule store_step.send_encrypted) simp
  with h show ?thesis by (blast intro: reach.intros)
qed

theorem encrypted_queue_exact_witness: "\<exists>a. map ee_qts (encrypted_queue 2 sample_encrypted) = [a + 1..GetQts 2 sample_encrypted] \<and> GetQts 2 sample_encrypted = 1"
proof -
  obtain h where "reach store_step [sample_start] (sample_encrypted # sample_active # h)" using sample_encrypted_reached by blast
  from encrypted_queue_exact [OF sample_begins this, of 2] show ?thesis
    by (auto simp: sample_encrypted_def GetQts_def encrypted_eval send_eval)
qed





section \<open>What the comments say otherwise\<close>

text \<open>
  \<open>errEncryptionIDInvalid\<close> is documented as the one answer to every caller who names a chat they are not
  a party to, and the handler's comment promises it too; but an account that is no party learns from
  the error whether the chat is active, is there but not active, or does not exist.
\<close>

lemma send_encrypted_tells_strangers:
  "fst (handleSendEncryptedMessage False 6 any_hash sample_active sample_active sample_active None 3 1 0 9 [65] sample_active) = Inl ChatForbidden"
  "fst (handleSendEncryptedMessage False 6 any_hash sample_requested sample_requested sample_requested None 3 1 0 9 [65] sample_requested) = Inl EncryptionDeclined"
  "fst (handleSendEncryptedMessage False 6 any_hash sample_active sample_active sample_active None 3 2 0 9 [65] sample_active) = Inl EncryptionIDInvalid"
proof -
  have "map (\<lambda>c. (sc_id c, sc_state c)) (d_secretChats sample_requested) = [(1, SecretChatRequested)]"
    by (simp add: sample_requested_def sample_users_def sample_start_def handleRequestEncryption_def secretChatHash_def validateDHValue_def
      dhValueLen_def inputUserID_def peerUserID_def CreateSecretChatRequest_def GetSecretChatByAdminRandomID_def CountRequestedSecretChats_def
      MaxOutstandingSecretChats_def NextSecretChatID_def maxInt32_def InsertSecretChat_def secret_clash_def EnsureUpdateState_def send_eval)
  then show "fst (handleSendEncryptedMessage False 6 any_hash sample_requested sample_requested sample_requested None 3 1 0 9 [65] sample_requested) =
      Inl EncryptionDeclined"
    by (auto simp: handleSendEncryptedMessage_def maxEncryptedData_def SecretChatByID_def map_eq_Cons_conv)
qed (simp_all add: encrypted_eval)

text \<open>
  A random id of 0 means no token: the retry lookup skips it. The unique index does not: the second
  message under 0 to the same recipient is answered as sent and never stored, whoever sent the first.
\<close>

lemma zero_token_message_dropped:
  "\<exists>date. handleSendEncryptedMessage False 8 any_hash sample_encrypted sample_encrypted sample_encrypted None 1 1 0 0 [66] sample_encrypted =
     (Inr date, [], sample_encrypted)"
  "map ee_bytes (encrypted_queue 2 sample_encrypted) = [[65]]" "EncryptedMessageByRandomID 2 0 sample_encrypted = None"
  by (simp_all add: sample_encrypted_def encrypted_eval encrypted_queue_def send_eval)

end
