(* ===== verification/Difference_Loop.thy ===== *)
theory Difference_Loop
  imports Difference Secret_Theorems
begin

text \<open>
  A client that repeats \<open>updates.getDifference\<close> from where the last reply left it, over a history that goes
  on meanwhile. A history is read by time: \<open>asof hs t\<close> is the database of the t-th commit.
\<close>

section \<open>Databases in time\<close>

definition asof :: "database list \<Rightarrow> nat \<Rightarrow> database" where
  "asof hs t = rev hs ! t"

lemma history_sorted:
  assumes "store_start s" and "reach store_step s hs"
  shows "sorted_wrt (\<lambda>n o'. evolves o' n) hs"
proof -
  have "reach store_step a b \<Longrightarrow> hist_ok a \<Longrightarrow> sorted_wrt (\<lambda>n o'. evolves o' n) a \<Longrightarrow> sorted_wrt (\<lambda>n o'. evolves o' n) b" for a b
  proof (induction rule: reach.induct)
    case (reach_step s t u)
    from reach_step(1,4) have "hist_ok t" by (rule stm.reach_keeps)
    from store_step_ok [OF reach_step(2) this] have "list_all (\<lambda>d. evolves d (hd u)) (tl u)"
      by (cases u) (auto simp: hist_ok_def list_all_iff)
    moreover from reach_step(2) have "tl u = t \<and> u \<noteq> []" by (cases rule: store_step.cases) auto
    ultimately show ?case using reach_step by (cases u) (auto simp: list_all_iff)
  qed simp
  from this [OF assms(2) store_start_ok [OF assms(1)]] assms(1) show ?thesis by (auto simp: store_start_def)
qed

lemma asof_evolves:
  assumes "store_start s" and "reach store_step s hs" and "t \<le> t'" and "t' < length hs"
  shows "evolves (asof hs t) (asof hs t')" "db_ok (asof hs t)"
proof -
  have "sorted_wrt (\<lambda>a b. evolves a b) (rev hs)" using history_sorted [OF assms(1,2)] by (simp add: sorted_wrt_rev)
  then show "evolves (asof hs t) (asof hs t')" using assms(3,4) by (cases "t = t'") (auto simp: asof_def sorted_wrt_iff_nth_less)
  have "asof hs t \<in> set hs" using assms(3,4) by (metis asof_def le_less_trans length_rev nth_mem set_rev)
  moreover have "hist_ok hs" by (rule stm.reachable_inv [OF assms(1,2)])
  ultimately show "db_ok (asof hs t)" by (auto simp: hist_ok_def list_all_iff)
qed

section \<open>The log as a list\<close>

lemma log_events:
  assumes "db_ok d"
  shows "map ev_pts (events_of u d) = [1..pts_of u d]" "0 \<le> pts_of u d"
  using core_logD [OF db_ok_core [OF assms], of u] by (simp_all add: log_ok_def)

lemma readState_pts: "st_Pts (readState u d) = pts_of u d"
  by (simp add: readState_def pts_of_def split: option.split)

lemma filter_upto_window:
  assumes "map f xs = [1..n]" and "0 \<le> p" and "p \<le> q" and "q \<le> n"
  shows "filter (\<lambda>x. p < f x \<and> f x \<le> q) xs = drop (nat p) (take (nat q) xs)"
proof -
  have len: "length xs = nat n" using arg_cong [OF assms(1), of length] by simp
  have nth: "f (xs ! i) = int i + 1" if "i < length xs" for i
    using that len arg_cong [OF assms(1), of "\<lambda>l. l ! i"] by simp
  have "0 \<le> q" using assms(2,3) by simp
  then obtain P Q where pq: "p = int P" "q = int Q" using assms(2) by (metis nonneg_int_cases)
  have le: "P \<le> Q" "Q \<le> length xs" using assms(3,4) len by (simp_all add: pq)
  let ?w = "\<lambda>x. p < f x \<and> f x \<le> q"
  have "take P xs @ drop P (take Q xs) = take Q xs" using append_take_drop_id [of P "take Q xs"] le by (simp add: min_def)
  then have split: "xs = take P xs @ drop P (take Q xs) @ drop Q xs" by (metis append_assoc append_take_drop_id)
  have "P \<le> length xs" using le by simp
  then have "filter ?w (take P xs) = []" using nth by (auto simp: filter_empty_conv in_set_conv_nth pq)
  moreover have "filter ?w (drop Q xs) = []" using nth le by (auto simp: filter_empty_conv in_set_conv_nth pq)
  moreover have "filter ?w (drop P (take Q xs)) = drop P (take Q xs)" using nth le by (auto simp: filter_id_conv in_set_conv_nth pq)
  ultimately have "filter ?w xs = drop P (take Q xs)" by (subst split) simp
  then show ?thesis by (simp add: pq)
qed

lemma log_prefix:
  assumes "evolves d d'" and "db_ok d" and "db_ok d'"
  shows "events_of u d = take (nat (pts_of u d)) (events_of u d')" "pts_of u d \<le> pts_of u d'"
proof -
  from assms(1) obtain new where "d_events d' = d_events d @ new" by (auto simp: evolves_def)
  then have ap: "events_of u d' = events_of u d @ filter (\<lambda>e. ev_owner e = u) new" by (simp add: events_of_def)
  have len: "length (events_of u x) = nat (pts_of u x)" if "db_ok x" for x
    using arg_cong [OF log_events(1) [OF that, of u], of length] by simp
  show "events_of u d = take (nat (pts_of u d)) (events_of u d')" using ap len [OF assms(2)] by simp
  from arg_cong [OF ap, of length] len [OF assms(2)] len [OF assms(3)] log_events(2) [OF assms(3), of u]
  show "pts_of u d \<le> pts_of u d'" by simp
qed

text \<open>The window a request reads: bounded by the pts it read first, whatever was appended since.\<close>

lemma window_events:
  assumes "evolves d0 d1" and "db_ok d0" and "db_ok d1" and "0 \<le> p" and "p \<le> pts_of u d0"
  shows "batch_events d0 d1 u p = take (maxDiffEvents + 1) (drop (nat p) (events_of u d0))"
proof -
  have sel: "filter (\<lambda>e. ev_owner e = u \<and> p < ev_pts e \<and> ev_pts e \<le> pts_of u d0) (d_events d1) =
      filter (\<lambda>e. p < ev_pts e \<and> ev_pts e \<le> pts_of u d0) (events_of u d1)" by (simp add: events_of_def)
  also have win: "\<dots> = drop (nat p) (take (nat (pts_of u d0)) (events_of u d1))"
    by (rule filter_upto_window [OF log_events(1) [OF assms(3)] assms(4,5) log_prefix(2) [OF assms(1-3)]])
  also have "\<dots> = drop (nat p) (events_of u d0)" using log_prefix(1) [OF assms(1-3), of u] by simp
  finally have w: "filter (\<lambda>e. ev_owner e = u \<and> p < ev_pts e \<and> ev_pts e \<le> pts_of u d0) (d_events d1) = drop (nat p) (events_of u d0)" .
  have "map ev_pts (drop (nat p) (events_of u d0)) = drop (nat p) [1..pts_of u d0]"
    using log_events(1) [OF assms(2), of u] by (simp add: drop_map [symmetric])
  then have "sorted (map ev_pts (drop (nat p) (events_of u d0)))" by (simp add: sorted_wrt_drop)
  then show ?thesis by (simp add: batch_events_def EventsWindow_def readState_pts w sort_key_id_if_sorted)
qed

section \<open>One batch\<close>

definition is_message_event :: "message_event \<Rightarrow> bool" where
  "is_message_event e \<longleftrightarrow> ev_type e = EventNewMessage \<or> ev_type e = EventEdit \<or> ev_type e = EventDelete"

fun message_id :: "message_tl \<Rightarrow> local_id" where
  "message_id (MessageService i out peer from_id date act) = i"
| "message_id (MessageTL m) = wm_id m"

text \<open>The message event an update on the wire stands for: its kind, the message's id and its pts.\<close>

fun update_event :: "update_tl \<Rightarrow> (event_type \<times> local_id \<times> int) option" where
  "update_event (UpdateNewMessage m p) = Some (EventNewMessage, message_id m, p)"
| "update_event (UpdateEditMessage m p) = Some (EventEdit, message_id m, p)"
| "update_event (UpdateDeleteMessages [l] p) = Some (EventDelete, l, p)"
| "update_event _ = None"

definition event_key :: "message_event \<Rightarrow> event_type \<times> local_id \<times> int" where
  "event_key e = (ev_type e, ev_local e, ev_pts e)"

lemma messageToTL_id: "message_id (messageToTL m users files texts reactions) = LocalID m"
  by (simp add: messageToTL_def)

lemma batchMessages_local:
  assumes "fmlookup (batchMessages snap u events) l = Some m"
  shows "LocalID m = l"
proof -
  have step: "\<forall>l m. fmlookup (batch_row snap u ie msgs) l = Some m \<longrightarrow> LocalID m = l" if "\<forall>l m. fmlookup msgs l = Some m \<longrightarrow> LocalID m = l" for ie msgs
    using that by (cases ie) (auto simp: MessageByOwnerLocal_def find_Some_iff row_at_def messageFromRow_def split: option.splits)
  have "\<forall>l m. fmlookup (fold (batch_row snap u) ies msgs) l = Some m \<longrightarrow> LocalID m = l" if "\<forall>l m. fmlookup msgs l = Some m \<longrightarrow> LocalID m = l" for ies msgs
    using that
  proof (induction ies arbitrary: msgs)
    case (Cons ie ies)
    from Cons.IH [OF step [OF Cons.prems]] show ?case by simp
  qed simp
  from this [of fmempty] assms show ?thesis by (simp add: batchMessages_def)
qed

lemma batch_row_keeps: "fmlookup msgs l \<noteq> None \<Longrightarrow> fmlookup (batch_row snap u ie msgs) l \<noteq> None"
  by (cases ie) (auto split: option.split)

lemma fold_batch_keeps: "fmlookup msgs l \<noteq> None \<Longrightarrow> fmlookup (fold (batch_row snap u) ies msgs) l \<noteq> None"
proof (induction ies arbitrary: msgs)
  case (Cons ie ies)
  from Cons.IH [OF batch_row_keeps [OF Cons.prems]] show ?case by simp
qed simp

lemma batchMessages_has:
  assumes "ev \<in> set events" and "ev_type ev \<noteq> EventDelete" and "ev_local ev \<noteq> 0" and "\<And>i. MessageByOwnerLocal u (ev_local ev) (snap i) \<noteq> None"
  shows "fmlookup (batchMessages snap u events) (ev_local ev) \<noteq> None"
proof -
  have "fmlookup (fold (batch_row snap u) (enumerate n events) msgs) (ev_local ev) \<noteq> None" for n msgs
    using assms(1)
  proof (induction events arbitrary: n msgs)
    case (Cons e events)
    show ?case
    proof (cases "e = ev")
      case True
      have "fmlookup (batch_row snap u (n, ev) msgs) (ev_local ev) \<noteq> None" using assms(2,3) assms(4) [of n] by (auto split: option.split)
      then show ?thesis using True fold_batch_keeps by simp
    next
      case False
      then show ?thesis using Cons by simp
    qed
  qed simp
  then show ?thesis by (simp add: batchMessages_def)
qed

lemma event_row:
  assumes "db_ok d0" and "e \<in> set (events_of u d0)" and "ev_type e = EventNewMessage \<or> ev_type e = EventEdit" and "evolves d0 d" and "db_ok d"
  shows "MessageByOwnerLocal u (ev_local e) d \<noteq> None" "ev_local e \<noteq> 0"
proof -
  have log: "log_ok u d0" by (rule core_logD [OF db_ok_core [OF assms(1)]])
  have "ev_local e \<in> set [1..next_of u d0 - 1]"
  proof (cases "ev_type e = EventNewMessage")
    case True
    then have "ev_local e \<in> set (map ev_local (filter (\<lambda>e. ev_type e = EventNewMessage) (events_of u d0)))" using assms(2) by simp
    then show ?thesis using log by (simp only: log_ok_def)
  qed (use log assms(2,3) in \<open>auto simp: log_ok_def list_all_iff\<close>)
  then have l: "ev_local e \<in> set (map m_local (rows_of u d0))" and "ev_local e \<noteq> 0" using log by (auto simp: log_ok_def)
  from l obtain m where m: "m \<in> set (d_messages d0)" "m_owner m = u" "m_local m = ev_local e" by (auto simp: rows_of_def)
  have "MessageByOwnerLocal u (ev_local e) d0 = Some m" using row_lookup [OF db_ok_core [OF assms(1)] m(1)] m(2,3) by simp
  from evolves_lookup [OF assms(4) db_ok_core [OF assms(5)] this] show "MessageByOwnerLocal u (ev_local e) d \<noteq> None" by auto
  show "ev_local e \<noteq> 0" by fact
qed

lemma rendered_event:
  assumes "eventToUpdate d u e msgs = Some r" and "\<And>l m. fmlookup msgs l = Some m \<Longrightarrow> LocalID m = l"
  shows "update_event (fst r) = (if is_message_event e then Some (event_key e) else None)"
  using assms
  by (auto simp: eventToUpdate_def is_message_event_def event_key_def messageToTL_id Let_def split: event_type.splits option.splits if_splits)

lemma rendered_events:
  assumes "\<And>e. e \<in> set events \<Longrightarrow> is_message_event e \<Longrightarrow> eventToUpdate d u e msgs \<noteq> None" and "\<And>l m. fmlookup msgs l = Some m \<Longrightarrow> LocalID m = l"
  shows "List.map_filter update_event (map (fst \<circ> snd) (List.map_filter (\<lambda>ev. map_option (\<lambda>r. (ev_pts ev, r)) (eventToUpdate d u ev msgs)) events)) =
     map event_key (filter is_message_event events)"
  using assms(1)
proof (induction events)
  case (Cons e events)
  show ?case
  proof (cases "eventToUpdate d u e msgs")
    case None
    then have "\<not> is_message_event e" using Cons.prems [of e] by auto
    then show ?thesis using None Cons by (simp add: List.map_filter_simps)
  next
    case (Some r)
    then show ?thesis using Cons rendered_event [OF Some assms(2)] by (simp add: List.map_filter_simps)
  qed
qed (simp add: List.map_filter_simps)

text \<open>What one request answers, over the log \<open>es\<close> of the database its state was read from.\<close>

lemma batch_delivers:
  assumes d: "db_ok d0" "db_ok d1" "evolves d0 d1" and snap: "\<And>i. db_ok (snap i) \<and> evolves d0 (snap i)"
    and p: "0 \<le> p" "p \<le> pts_of u d0" and b: "b = buildUpdates d0 d1 snap d3 u p" and q: "q = st_Pts (ub_state b)"
  shows "q = min (pts_of u d0) (p + int maxDiffEvents)" "ub_more b \<longleftrightarrow> q < pts_of u d0"
    "List.map_filter update_event (ub_ups b) = map event_key (filter is_message_event (drop (nat p) (take (nat q) (events_of u d0))))"
proof -
  define es where "es = events_of u d0"
  define ws where "ws = take (maxDiffEvents + 1) (drop (nat p) es)"
  define evs where "evs = (if length ws > maxDiffEvents then take maxDiffEvents ws else ws)"
  have win: "batch_events d0 d1 u p = ws" unfolding ws_def es_def by (rule window_events [OF d(3,1,2) p])
  have es: "map ev_pts es = [1..pts_of u d0]" unfolding es_def by (rule log_events(1) [OF d(1)])
  then have len: "length es = nat (pts_of u d0)" by (metis length_map length_upto add_diff_cancel diff_add_cancel)
  obtain P where P: "p = int P" using p(1) by (metis nonneg_int_cases)
  have more: "length ws > maxDiffEvents \<longleftrightarrow> p + int maxDiffEvents < pts_of u d0" using p len by (auto simp: ws_def P)
  have evs: "evs = take maxDiffEvents (drop P es)" by (auto simp: evs_def ws_def P min_def)
  have last: "ev_pts (last evs) = p + int maxDiffEvents" "evs \<noteq> []" if "length ws > maxDiffEvents"
  proof -
    have l: "length evs = maxDiffEvents" using that more len p by (auto simp: evs P)
    then show ne: "evs \<noteq> []" by (auto simp: maxDiffEvents_def)
    have "last evs = es ! (P + (maxDiffEvents - 1))" using ne l that more len p by (simp add: last_conv_nth evs P maxDiffEvents_def)
    moreover have "ev_pts (es ! i) = int i + 1" if "i < length es" for i using that len arg_cong [OF es, of "\<lambda>l. l ! i"] by simp
    ultimately show "ev_pts (last evs) = p + int maxDiffEvents" using that more len by (simp add: P maxDiffEvents_def)
  qed
  have q': "q = (if length ws > maxDiffEvents then p + int maxDiffEvents else pts_of u d0)"
    unfolding q b buildUpdates_def Let_def win using last by (auto simp: evs_def readState_pts)
  then show "q = min (pts_of u d0) (p + int maxDiffEvents)" using more by auto
  have "ub_more b \<longleftrightarrow> length ws > maxDiffEvents" unfolding b buildUpdates_def Let_def win by simp
  then show "ub_more b \<longleftrightarrow> q < pts_of u d0" using q' more by auto
  have win2: "evs = drop (nat p) (take (nat q) es)"
    using q' more p len by (cases "length ws > maxDiffEvents") (auto simp: evs P drop_take nat_add_distrib take_all)
  have "eventToUpdate d3 u e (batchMessages snap u evs) \<noteq> None" if e: "e \<in> set evs" "is_message_event e" for e
  proof (cases "ev_type e = EventDelete")
    case True
    then show ?thesis by (simp add: eventToUpdate_def)
  next
    case False
    have in_log: "e \<in> set (events_of u d0)" using e(1) unfolding win2 es_def by (meson in_set_dropD in_set_takeD)
    have t: "ev_type e = EventNewMessage \<or> ev_type e = EventEdit" using e(2) False by (auto simp: is_message_event_def)
    have "fmlookup (batchMessages snap u evs) (ev_local e) \<noteq> None"
      by (rule batchMessages_has [OF e(1) False event_row(2) [OF d(1) in_log t d(3,2)]]) (use event_row(1) [OF d(1) in_log t] snap in blast)
    then show ?thesis using t by (auto simp: eventToUpdate_def Let_def split: option.splits)
  qed
  from rendered_events [OF this batchMessages_local] show "List.map_filter update_event (ub_ups b) = map event_key (filter is_message_event (drop (nat p) (take (nat q) (events_of u d0))))"
    unfolding b buildUpdates_def Let_def win win2 [unfolded es_def, symmetric] by (simp add: evs_def)
qed


section \<open>Replies\<close>

fun reply_messages :: "'a difference \<Rightarrow> message_tl list" where
  "reply_messages (DifferenceEmpty date sq) = []"
| "reply_messages (DifferenceSlice ms es us cs as f st) = ms"
| "reply_messages (DifferenceFull ms es us cs as f st) = ms"

fun reply_updates :: "'a difference \<Rightarrow> update_tl list" where
  "reply_updates (DifferenceEmpty date sq) = []"
| "reply_updates (DifferenceSlice ms es us cs as f st) = us"
| "reply_updates (DifferenceFull ms es us cs as f st) = us"

fun is_slice :: "'a difference \<Rightarrow> bool" where
  "is_slice (DifferenceSlice ms es us cs as f st) = True"
| "is_slice _ = False"

fun is_empty :: "'a difference \<Rightarrow> bool" where
  "is_empty (DifferenceEmpty date sq) = True"
| "is_empty _ = False"

text \<open>
  Where a client stands after a reply: at the pts and qts of the state it carries, and where it
  stood if the reply is empty, which carries neither.
\<close>

fun client_after :: "'a difference \<Rightarrow> int \<times> int \<Rightarrow> int \<times> int" where
  "client_after (DifferenceEmpty date sq) pos = pos"
| "client_after (DifferenceSlice ms es us cs as f st) pos = (st_Pts st, st_Qts st)"
| "client_after (DifferenceFull ms es us cs as f st) pos = (st_Pts st, st_Qts st)"

abbreviation is_new :: "message_event \<Rightarrow> bool" where
  "is_new e \<equiv> ev_type e = EventNewMessage"

abbreviation is_change :: "message_event \<Rightarrow> bool" where
  "is_change e \<equiv> ev_type e = EventEdit \<or> ev_type e = EventDelete"

lemma split_updates:
  assumes "List.map_filter update_event us = map event_key (filter is_message_event es)"
  shows "map message_id (new_messages us) = map ev_local (filter is_new es)"
    "List.map_filter update_event (other_updates us) = map event_key (filter is_change es)"
proof -
  have n: "map message_id (new_messages us) = map (\<lambda>(t, l, p). l) (filter (\<lambda>(t, l, p). t = EventNewMessage) (List.map_filter update_event us))"
    by (induction us rule: new_messages.induct) (auto simp: List.map_filter_simps elim: update_event.elims split: option.split)
  have o: "List.map_filter update_event (other_updates us) = filter (\<lambda>(t, l, p). t \<noteq> EventNewMessage) (List.map_filter update_event us)"
    by (induction us rule: other_updates.induct) (auto simp: List.map_filter_simps elim: update_event.elims split: option.split)
  show "map message_id (new_messages us) = map ev_local (filter is_new es)"
    unfolding n assms by (auto simp: filter_map comp_def event_key_def is_message_event_def intro!: arg_cong [where f = "map ev_local"] filter_cong)
  show "List.map_filter update_event (other_updates us) = map event_key (filter is_change es)"
    unfolding o assms by (auto simp: filter_map comp_def event_key_def is_message_event_def intro!: arg_cong [where f = "map _"] filter_cong)
qed

lemma reply_run:
  assumes "reply = differenceReply b enc chats admins adminMore refresh"
  shows "is_slice reply \<longleftrightarrow> ub_more b \<or> ew_more enc \<or> adminMore"
    and "is_empty reply \<Longrightarrow> ub_ups b = [] \<and> \<not> ub_more b \<and> ew_events enc = [] \<and> \<not> ew_more enc \<and> \<not> adminMore"
    and "client_after reply pos = (if is_empty reply then pos else (st_Pts (ub_state b), ew_qts enc))"
    and "reply_messages reply = new_messages (ub_ups b)" "reply_updates reply = other_updates (ub_ups b)"
  using assms by (auto simp: differenceReply_def Let_def split: if_splits)

section \<open>The client's loop\<close>

text \<open>
  One request: when its statements run (the state first, the others at any time after it) and what
  else it is made of or finds: the client's date, the admin snapshots, what is owed of the folders and
  the clock.
\<close>

record 'a difference_request =
  rq_state :: nat
  rq_window :: nat
  rq_rows :: "nat \<Rightarrow> nat"
  rq_rest :: nat
  rq_encrypted :: nat
  rq_chats :: nat
  rq_date :: int
  rq_snapshots :: "'a list"
  rq_filterPending :: bool
  rq_marker :: "gtime option"
  rq_now :: gtime

definition request_at :: "derive \<Rightarrow> database list \<Rightarrow> user_id \<Rightarrow> int \<times> int \<Rightarrow> 'a difference_request \<Rightarrow> 'a list difference option" where
  "request_at derive hs u pos r =
     handleGetDifference derive (asof hs (rq_state r)) (asof hs (rq_window r)) (\<lambda>i. asof hs (rq_rows r i)) (asof hs (rq_rest r))
       (asof hs (rq_encrypted r)) (asof hs (rq_chats r)) (rq_snapshots r) (rq_filterPending r) (rq_marker r) (rq_now r)
       u (fst pos) (snd pos) (rq_date r)"

text \<open>The replies to a client that asks each time from where the last reply left it.\<close>

fun sync :: "derive \<Rightarrow> database list \<Rightarrow> user_id \<Rightarrow> int \<times> int \<Rightarrow> 'a difference_request list \<Rightarrow> 'a list difference list" where
  "sync derive hs u pos [] = []"
| "sync derive hs u pos (r # rs) =
     (case request_at derive hs u pos r of
        None \<Rightarrow> []
      | Some reply \<Rightarrow> reply # sync derive hs u (client_after reply pos) rs)"

definition synced :: "derive \<Rightarrow> database list \<Rightarrow> user_id \<Rightarrow> int \<times> int \<Rightarrow> 'a difference_request list \<Rightarrow> int \<times> int" where
  "synced derive hs u pos rs = fold client_after (sync derive hs u pos rs) pos"

definition within :: "database list \<Rightarrow> 'a difference_request \<Rightarrow> bool" where
  "within hs r \<longleftrightarrow>
     rq_state r \<le> rq_window r \<and> rq_window r < length hs \<and> (\<forall>i. rq_state r \<le> rq_rows r i \<and> rq_rows r i < length hs)"

fun timely :: "database list \<Rightarrow> nat \<Rightarrow> 'a difference_request list \<Rightarrow> bool" where
  "timely hs t [] = True"
| "timely hs t (r # rs) = (t \<le> rq_state r \<and> within hs r \<and> timely hs (rq_state r) rs)"

lemma request_some:
  assumes "u \<noteq> 0"
  obtains b enc chats admins refresh where
    "request_at derive hs u (p, q) r = Some (differenceReply b enc chats admins (length (rq_snapshots r) > maxDiffEvents) refresh)"
    "b = buildUpdates (asof hs (rq_state r)) (asof hs (rq_window r)) (\<lambda>i. asof hs (rq_rows r i)) (asof hs (rq_rest r)) u p"
    "enc = encrypted_gap (asof hs (rq_encrypted r)) u q (ub_state b)"
  using assms by (simp add: request_at_def handleGetDifference_def Let_def)

text \<open>The batch of a request, over the log of the newest database.\<close>

lemma request_batch:
  assumes hs: "store_start s" "reach store_step s hs" and r: "within hs r" and p: "0 \<le> p" "p \<le> pts_of u (asof hs (rq_state r))"
    and b: "b = buildUpdates (asof hs (rq_state r)) (asof hs (rq_window r)) (\<lambda>i. asof hs (rq_rows r i)) (asof hs (rq_rest r)) u p"
    and q: "q = st_Pts (ub_state b)"
  shows "q = min (pts_of u (asof hs (rq_state r))) (p + int maxDiffEvents)" "ub_more b \<longleftrightarrow> q < pts_of u (asof hs (rq_state r))"
    "List.map_filter update_event (ub_ups b) = map event_key (filter is_message_event (drop (nat p) (take (nat q) (events_of u (hd hs)))))"
proof -
  have t: "rq_state r < length hs" using r by (auto simp: within_def)
  have ok: "db_ok (asof hs t)" if "t < length hs" for t using asof_evolves(2) [OF hs le_refl that] .
  have snap: "db_ok (asof hs (rq_rows r i)) \<and> evolves (asof hs (rq_state r)) (asof hs (rq_rows r i))" for i
    using r asof_evolves [OF hs] ok by (auto simp: within_def)
  have w: "db_ok (asof hs (rq_window r))" "evolves (asof hs (rq_state r)) (asof hs (rq_window r))"
    using r asof_evolves [OF hs] ok by (auto simp: within_def)
  note d = batch_delivers [OF ok [OF t] w snap p b q]
  show 1: "q = min (pts_of u (asof hs (rq_state r))) (p + int maxDiffEvents)" and "ub_more b \<longleftrightarrow> q < pts_of u (asof hs (rq_state r))" by (rule d)+
  have "hs \<noteq> []" using t by auto
  then have hd: "asof hs (length hs - 1) = hd hs" by (simp add: asof_def rev_nth hd_conv_nth)
  have "evolves (asof hs (rq_state r)) (hd hs)" "db_ok (hd hs)"
    using asof_evolves(1) [OF hs, of "rq_state r" "length hs - 1"] ok [of "length hs - 1"] t unfolding hd by auto
  from log_prefix(1) [OF this(1) ok [OF t] this(2), of u]
  have "take (nat q) (events_of u (asof hs (rq_state r))) = take (nat q) (events_of u (hd hs))"
    using 1 by (simp add: min_def take_take split: if_splits)
  with d(3) show "List.map_filter update_event (ub_ups b) = map event_key (filter is_message_event (drop (nat p) (take (nat q) (events_of u (hd hs)))))"
    by simp
qed

text \<open>What one reply delivers and where it leaves the client, \<open>n\<close> being the pts its state was read at.\<close>

lemma request_delivers:
  assumes hs: "store_start s" "reach store_step s hs" and u: "u \<noteq> 0" and r: "within hs r" and p: "0 \<le> p" "p \<le> n"
    and n: "n = pts_of u (asof hs (rq_state r))" and reply: "request_at derive hs u (p, q) r = Some reply"
    and p': "p' = fst (client_after reply (p, q))"
  defines "es \<equiv> events_of u (hd hs)"
  shows "p \<le> p'" "p' \<le> n" "is_slice reply \<or> n \<le> p + int maxDiffEvents" "min n (p + int maxDiffEvents) = p' \<or> is_empty reply"
    "map message_id (reply_messages reply) = map ev_local (filter is_new (drop (nat p) (take (nat p') es)))"
    "List.map_filter update_event (reply_updates reply) = map event_key (filter is_change (drop (nat p) (take (nat p') es)))"
    "is_slice reply \<or> filter is_message_event (drop (nat p') (take (nat n) es)) = []"
    "is_slice reply \<or> is_empty reply \<or> p' = n"
proof -
  obtain b enc chats admins refresh where
    req: "request_at derive hs u (p, q) r = Some (differenceReply b enc chats admins (length (rq_snapshots r) > maxDiffEvents) refresh)"
    and b: "b = buildUpdates (asof hs (rq_state r)) (asof hs (rq_window r)) (\<lambda>i. asof hs (rq_rows r i)) (asof hs (rq_rest r)) u p"
    by (rule request_some [OF u])
  then have re: "reply = differenceReply b enc chats admins (length (rq_snapshots r) > maxDiffEvents) refresh" using reply by simp
  note d = request_batch [OF hs r p(1) p(2) [unfolded n] b refl, folded n es_def] and run = reply_run [OF re]
  define q' where "q' = st_Pts (ub_state b)"
  have q': "p \<le> q'" "q' \<le> n" using d(1) p by (auto simp: q'_def)
  have at: "p' = (if is_empty reply then p else q')" using p' run(3) by (simp add: q'_def)
  then show "p \<le> p'" "p' \<le> n" using q' p by auto
  show "min n (p + int maxDiffEvents) = p' \<or> is_empty reply" using at d(1) by (auto simp: q'_def)
  show "is_slice reply \<or> n \<le> p + int maxDiffEvents" using run(1) d(1,2) by (auto simp: min_def split: if_splits)
  show "is_slice reply \<or> is_empty reply \<or> p' = n" using run(1) at d(2) q' by (auto simp: q'_def)
  note ups = split_updates [OF d(3) [folded q'_def], folded run(4,5)]
  have silent: "filter is_message_event (drop (nat p) (take (nat q') es)) = []" "q' = n" if "is_empty reply"
    using run(2) [OF that] d(2,3) q' by (auto simp: q'_def List.map_filter_simps)
  show "map message_id (reply_messages reply) = map ev_local (filter is_new (drop (nat p) (take (nat p') es)))"
    using ups(1) run(2) run(4) at by (cases "is_empty reply") auto
  show "List.map_filter update_event (reply_updates reply) = map event_key (filter is_change (drop (nat p) (take (nat p') es)))"
    using ups(2) run(2) run(5) at by (cases "is_empty reply") (auto simp: List.map_filter_simps)
  show "is_slice reply \<or> filter is_message_event (drop (nat p') (take (nat n) es)) = []"
  proof (cases "is_empty reply")
    case True
    then show ?thesis using silent(1) [OF True] silent(2) [OF True] at by simp
  next
    case False
    with at run(1) d(2) q' show ?thesis by (auto simp: q'_def)
  qed
qed

lemma drop_take_join:
  assumes "i \<le> j" and "j \<le> k"
  shows "drop i (take j xs) @ drop j (take k xs) = drop i (take k xs)"
proof -
  from assms obtain m n where "j = i + m" "k = i + m + n" by (metis le_Suc_ex)
  then have "drop i (take j xs) = take m (drop i xs)" "drop j (take k xs) = take n (drop m (drop i xs))" "drop i (take k xs) = take (m + n) (drop i xs)"
    by (simp_all add: drop_take add.commute)
  then show ?thesis by (simp only: take_add)
qed

lemma sync_delivers:
  assumes hs: "store_start s" "reach store_step s hs" and u: "u \<noteq> 0"
  defines "es \<equiv> events_of u (hd hs)"
  shows "timely hs t (r # rs) \<Longrightarrow> 0 \<le> p \<Longrightarrow> p \<le> pts_of u (asof hs (rq_state r)) \<Longrightarrow> p' = fst (synced derive hs u (p, q) (r # rs)) \<Longrightarrow>
     n = pts_of u (asof hs (rq_state (last (r # rs)))) \<Longrightarrow> replies = sync derive hs u (p, q) (r # rs) \<Longrightarrow>
     length replies = Suc (length rs) \<and> p \<le> p' \<and> p' \<le> n \<and>
     concat (map (\<lambda>reply. map message_id (reply_messages reply)) replies) = map ev_local (filter is_new (drop (nat p) (take (nat p') es))) \<and>
     concat (map (\<lambda>reply. List.map_filter update_event (reply_updates reply)) replies) =
       map event_key (filter is_change (drop (nat p) (take (nat p') es))) \<and>
     (is_slice (last replies) \<or> filter is_message_event (drop (nat p') (take (nat n) es)) = []) \<and>
     (is_slice (last replies) \<or> is_empty (last replies) \<or> p' = n)"
proof (induction rs arbitrary: t r p q replies)
  case Nil
  have r: "within hs r" using Nil(1) by simp
  obtain reply where re: "request_at derive hs u (p, q) r = Some reply" by (rule request_some [OF u])
  then have rep: "replies = [reply]" and p': "p' = fst (client_after reply (p, q))" using Nil(4,6) by (simp_all add: synced_def)
  from request_delivers [OF hs u r Nil(2) _ _ re p', folded es_def, of n] Nil(3,5) show ?case by (simp add: rep)
next
  case (Cons r' rs)
  obtain reply where re: "request_at derive hs u (p, q) r = Some reply" by (rule request_some [OF u])
  obtain p1 q1 where pos: "client_after reply (p, q) = (p1, q1)" by fastforce
  have r: "within hs r" "timely hs (rq_state r) (r' # rs)" and le: "rq_state r \<le> rq_state r'" "within hs r'" using Cons(2) by auto
  have p1: "p1 = fst (client_after reply (p, q))" using pos by simp
  note d = request_delivers [OF hs u r(1) Cons(3,4) refl re p1, folded es_def]
  have "rq_state r' < length hs" using le(2) by (auto simp: within_def)
  then have "pts_of u (asof hs (rq_state r)) \<le> pts_of u (asof hs (rq_state r'))"
    using asof_evolves [OF hs le(1)] asof_evolves(2) [OF hs le_refl] by (intro log_prefix(2)) simp_all
  then have b1: "0 \<le> p1" "p1 \<le> pts_of u (asof hs (rq_state r'))" using d(1,2) Cons(3) by simp_all
  define rest where "rest = sync derive hs u (p1, q1) (r' # rs)"
  have rep: "replies = reply # rest" using Cons(7) by (simp add: re pos rest_def del: sync.simps(2) add: sync.simps(2) [of _ _ _ "(p, q)"])
  have p': "p' = fst (synced derive hs u (p1, q1) (r' # rs))"
    using Cons(5) rep Cons(7) by (simp add: synced_def rest_def pos del: sync.simps)
  have n: "n = pts_of u (asof hs (rq_state (last (r' # rs))))" using Cons(6) by simp
  note ih = Cons(1) [OF r(2) b1 p' n rest_def]
  then have ne: "rest \<noteq> []" and p1': "p1 \<le> p'" by auto
  have join: "drop (nat p) (take (nat p1) es) @ drop (nat p1) (take (nat p') es) = drop (nat p) (take (nat p') es)"
    by (rule drop_take_join) (use d(1) p1' in simp_all)
  have "filter P (drop (nat p) (take (nat p') es)) = filter P (drop (nat p) (take (nat p1) es)) @ filter P (drop (nat p1) (take (nat p') es))" for P
    unfolding join [symmetric] by simp
  then show ?case using ih d(1,5,6) ne p1' by (simp add: rep)
qed

lemma hd_asof: "hs \<noteq> [] \<Longrightarrow> asof hs (length hs - 1) = hd hs"
  by (simp add: asof_def rev_nth hd_conv_nth)

lemma timely_last: "timely hs t rs \<Longrightarrow> rs \<noteq> [] \<Longrightarrow> rq_state (last rs) < length hs"
  by (induction rs arbitrary: t) (auto simp: within_def)

text \<open>
  C2. Catching up loses nothing and repeats nothing. Over any history, let a client whose pts is at most
  the account's ask for the difference and then again and again from where the last reply left it,
  which is the state the reply carries, or where it stood if the reply was the empty one. While the
  store goes on, whenever the statements of each request run (the state first, no request starting
  before the one before it) and whatever else its replies carry, the new messages of all replies
  together are, in order and once each, exactly those of the new-message events of the log above its
  first pts and up to its last, and the edits and deletions among the other updates exactly those of
  the edit and delete events in that range, each under its own pts. If the last reply is not a slice,
  no message event is left between the client and the pts the account had when that reply's state
  was read; and unless that reply is empty the client is at that pts.
\<close>

theorem difference_complete:
  assumes "store_start s" and "reach store_step s hs" and "u \<noteq> 0" and "timely hs t (r # rs)"
    and "0 \<le> p" and "p \<le> pts_of u (asof hs (rq_state r))"
    and "replies = sync derive hs u (p, q) (r # rs)" and "(p', q') = synced derive hs u (p, q) (r # rs)"
    and "log = filter (\<lambda>e. p < ev_pts e \<and> ev_pts e \<le> p') (events_of u (hd hs))" and "n = pts_of u (asof hs (rq_state (last (r # rs))))"
  shows "length replies = Suc (length rs) \<and> p \<le> p' \<and>
     concat (map (\<lambda>reply. map message_id (reply_messages reply)) replies) = map ev_local (filter (\<lambda>e. ev_type e = EventNewMessage) log) \<and>
     concat (map (\<lambda>reply. List.map_filter update_event (reply_updates reply)) replies) =
       map (\<lambda>e. (ev_type e, ev_local e, ev_pts e)) (filter (\<lambda>e. ev_type e = EventEdit \<or> ev_type e = EventDelete) log) \<and>
     (\<not> is_slice (last replies) \<longrightarrow>
        filter (\<lambda>e. is_message_event e \<and> p' < ev_pts e \<and> ev_pts e \<le> n) (events_of u (hd hs)) = [] \<and> (\<not> is_empty (last replies) \<longrightarrow> p' = n))"
proof -
  have p': "p' = fst (synced derive hs u (p, q) (r # rs))" using assms(8) by (metis fst_conv)
  note d = sync_delivers [OF assms(1-6) p' assms(10,7)]
  have t: "rq_state (last (r # rs)) < length hs" using timely_last [OF assms(4)] by simp
  then have ne: "hs \<noteq> []" by auto
  have "evolves (asof hs (rq_state (last (r # rs)))) (hd hs)" "db_ok (asof hs (rq_state (last (r # rs))))" and ok: "db_ok (hd hs)"
    using asof_evolves [OF assms(1,2), of "rq_state (last (r # rs))" "length hs - 1"] asof_evolves(2) [OF assms(1,2) le_refl, of "length hs - 1"] t ne
    unfolding hd_asof [OF ne] by simp_all
  from log_prefix(2) [OF this, of u] have head: "n \<le> pts_of u (hd hs)" using assms(10) by simp
  have win: "filter (\<lambda>e. a < ev_pts e \<and> ev_pts e \<le> b) (events_of u (hd hs)) = drop (nat a) (take (nat b) (events_of u (hd hs)))"
    if "0 \<le> a" "a \<le> b" "b \<le> n" for a b
    by (rule filter_upto_window [OF log_events(1) [OF ok]]) (use that head in simp_all)
  have le: "p \<le> p'" "p' \<le> n" using d by simp_all
  have log: "log = drop (nat p) (take (nat p') (events_of u (hd hs)))" unfolding assms(9) by (rule win) (use le assms(5) in simp_all)
  have "filter (\<lambda>e. is_message_event e \<and> p' < ev_pts e \<and> ev_pts e \<le> n) (events_of u (hd hs)) =
      filter is_message_event (filter (\<lambda>e. p' < ev_pts e \<and> ev_pts e \<le> n) (events_of u (hd hs)))" by (auto intro: filter_cong)
  also have "\<dots> = filter is_message_event (drop (nat p') (take (nat n) (events_of u (hd hs))))" using win [of p' n] le assms(5) by simp
  finally show ?thesis using d unfolding log event_key_def [abs_def, symmetric] by auto
qed

definition sample_request :: "unit difference_request" where
  "sample_request = \<lparr>rq_state = 1, rq_window = 1, rq_rows = (\<lambda>_. 1), rq_rest = 1, rq_encrypted = 1, rq_chats = 1, rq_date = 0,
     rq_snapshots = [], rq_filterPending = False, rq_marker = None, rq_now = 9\<rparr>"

lemma sample_pts: "pts_of 2 sample_sent = 1"
  by (simp add: sample_sent_def sample_start_def send_eval pts_of_def)

theorem difference_complete_witness:
  "\<exists>p'. concat (map (\<lambda>reply. map message_id (reply_messages reply)) (sync any_hash [sample_sent, sample_start] 2 (0, 0) [sample_request, sample_request])) =
     map ev_local (filter (\<lambda>e. ev_type e = EventNewMessage) (filter (\<lambda>e. 0 < ev_pts e \<and> ev_pts e \<le> p') (events_of 2 sample_sent)))"
proof -
  obtain p' q' where pos: "(p', q') = synced any_hash [sample_sent, sample_start] 2 (0, 0) [sample_request, sample_request]" by (metis prod.exhaust)
  have t: "timely [sample_sent, sample_start] 0 [sample_request, sample_request]" by (simp add: within_def sample_request_def)
  have "0 \<le> pts_of 2 (asof [sample_sent, sample_start] (rq_state sample_request))" by (simp add: sample_request_def asof_def sample_pts)
  from difference_complete [OF sample_begins sample_sends _ t _ this refl pos refl refl] show ?thesis by auto
qed

section \<open>The encrypted gap\<close>

lemma filter_upto_last:
  assumes "sorted_wrt (<) (map f xs)" and "ys = take n xs" and "ys \<noteq> []"
  shows "filter (\<lambda>x. f x \<le> (f (last ys) :: int)) xs = ys"
proof -
  have split: "xs = ys @ drop n xs" using assms(2) by simp
  have "sorted_wrt (<) (map f ys @ map f (drop n xs))" using assms(1) split by (metis map_append)
  then have ys: "sorted_wrt (<) (map f ys)" and rest: "\<And>x y. x \<in> set ys \<Longrightarrow> y \<in> set (drop n xs) \<Longrightarrow> f x < f y"
    by (auto simp: sorted_wrt_append)
  have "f x \<le> f (last ys)" if "x \<in> set ys" for x
  proof -
    have "ys = butlast ys @ [last ys]" using assms(3) by simp
    then have "x = last ys \<or> x \<in> set (butlast ys)" using that by (metis Un_iff empty_iff list.set(1) set_ConsD set_append)
    moreover have "sorted_wrt (<) (map f (butlast ys) @ [f (last ys)])" using ys assms(3) by (metis append_butlast_last_id list.simps(8,9) map_append)
    ultimately show ?thesis by (auto simp: sorted_wrt_append)
  qed
  then have "filter (\<lambda>x. f x \<le> f (last ys)) ys = ys" by simp
  moreover have "filter (\<lambda>x. f x \<le> f (last ys)) (drop n xs) = []" using rest [of "last ys"] assms(3) by (auto simp: filter_empty_conv not_le)
  ultimately show ?thesis by (subst split) simp
qed

lemma encrypted_gap_run:
  assumes "queue_ok u d" and "g = encrypted_gap d u qts st"
  shows "ew_events g = filter (\<lambda>e. qts < ee_qts e \<and> ee_qts e \<le> ew_qts g) (encrypted_queue u d) \<and>
    (if ew_more g
     then length (ew_events g) = maxDiffEvents \<and> qts < ew_qts g \<and>
       maxDiffEvents < length (filter (\<lambda>e. qts < ee_qts e \<and> ee_qts e \<le> st_Qts st) (encrypted_queue u d))
     else ew_qts g = st_Qts st \<and>
       length (filter (\<lambda>e. qts < ee_qts e \<and> ee_qts e \<le> st_Qts st) (encrypted_queue u d)) \<le> maxDiffEvents)"
proof (cases "qts < st_Qts st")
  case True
  let ?w = "filter (\<lambda>e. qts < ee_qts e \<and> ee_qts e \<le> st_Qts st) (encrypted_queue u d)"
  from assms(1) obtain a where "map ee_qts (encrypted_queue u d) = [a + 1..qts_of u d]" by (auto simp: queue_ok_def)
  then have "sorted_wrt (<) (map ee_qts (encrypted_queue u d))" by simp
  then have sorted: "sorted_wrt (<) (map ee_qts ?w)" by (simp add: sorted_wrt_map sorted_wrt_filter)
  then have "sorted (map ee_qts ?w)" by (simp add: strict_sorted_imp_sorted)
  then have win: "EncryptedEventsWindow u qts (st_Qts st) n d = take n ?w" for n
    by (simp add: EncryptedEventsWindow_def encrypted_queue_def sort_key_id_if_sorted)
  show ?thesis
  proof (cases "length ?w > maxDiffEvents")
    case cut: True
    let ?ys = "take maxDiffEvents ?w"
    have ne: "?ys \<noteq> []" using cut by (auto simp: maxDiffEvents_def)
    have g: "ew_events g = ?ys" "ew_more g" "ew_qts g = ee_qts (last ?ys)"
      using True cut ne by (simp_all add: assms(2) encrypted_gap_def win Let_def min_def)
    have "last ?ys \<in> set ?w" using last_in_set [OF ne] by (rule in_set_takeD)
    then have q: "ew_qts g \<le> st_Qts st" "qts < ew_qts g" using g(3) by simp_all
    then have "filter (\<lambda>e. qts < ee_qts e \<and> ee_qts e \<le> ew_qts g) (encrypted_queue u d) = filter (\<lambda>e. ee_qts e \<le> ee_qts (last ?ys)) ?w"
      unfolding filter_filter g(3) by (intro filter_cong) auto
    also have "\<dots> = ?ys" by (rule filter_upto_last [OF sorted refl ne])
    finally show ?thesis using g cut q by simp
  next
    case False
    then show ?thesis using True by (simp add: assms(2) encrypted_gap_def win Let_def)
  qed
qed (auto simp: assms(2) encrypted_gap_def filter_empty_conv)

text \<open>
  C30. The encrypted part of a difference has no hole. In any reachable database, the encrypted messages a
  difference returns from the client's qts are exactly the queued ones above it and up to the qts the
  reply advertises, in order; a reply that was cut holds \<open>maxDiffEvents\<close> of them.
\<close>

theorem encrypted_gap_exact:
  assumes "store_start s" and "reach store_step s (d # h)" and "g = encrypted_gap d u qts st"
  shows "ew_events g = filter (\<lambda>e. qts < ee_qts e \<and> ee_qts e \<le> ew_qts g) (encrypted_queue u d) \<and> (ew_more g \<longrightarrow> length (ew_events g) = maxDiffEvents)"
proof -
  have "queue_ok u d" using hist_ok_head [OF stm.reachable_inv [OF assms(1,2)]] by (simp add: secret_ok_def)
  from encrypted_gap_run [OF this assms(3)] show ?thesis by (auto split: if_splits)
qed

theorem encrypted_gap_exact_witness:
  "map ee_bytes (ew_events (encrypted_gap sample_encrypted 2 0 (readState 2 sample_encrypted))) = [[65]]"
proof -
  obtain h where h: "reach store_step [sample_start] (sample_encrypted # sample_active # h)" using sample_encrypted_reached by blast
  have "st_Qts (readState 2 sample_encrypted) = 1" "map ee_bytes (encrypted_queue 2 sample_encrypted) = [[65]]" "map ee_qts (encrypted_queue 2 sample_encrypted) = [1]"
    by (simp_all add: sample_encrypted_def readState_def encrypted_queue_def encrypted_eval send_eval)
  moreover have "\<not> ew_more (encrypted_gap sample_encrypted 2 0 (readState 2 sample_encrypted))"
    by (simp add: sample_encrypted_def encrypted_gap_def EncryptedEventsWindow_def readState_def maxDiffEvents_def encrypted_eval send_eval)
  moreover from this have "ew_qts (encrypted_gap sample_encrypted 2 0 (readState 2 sample_encrypted)) = st_Qts (readState 2 sample_encrypted)"
    by (auto simp: encrypted_gap_def Let_def split: if_splits)
  ultimately show ?thesis using encrypted_gap_exact [OF sample_begins h refl, of 2 0 "readState 2 sample_encrypted"]
    by (auto simp: map_eq_Cons_conv)
qed

section \<open>Reaching the head\<close>

text \<open>How much is queued above a qts, and what a reply leaves of it when nothing was queued since its state was read.\<close>

definition queued_above :: "user_id \<Rightarrow> database \<Rightarrow> int \<Rightarrow> nat" where
  "queued_above u d qts = length (filter (\<lambda>e. qts < ee_qts e) (encrypted_queue u d))"

lemma filter_split_length: "a \<le> (b :: int) \<Longrightarrow>
  length (filter (\<lambda>x. a < f x) xs) = length (filter (\<lambda>x. a < f x \<and> f x \<le> b) xs) + length (filter (\<lambda>x. b < f x) xs)"
  by (induction xs) auto

lemma encrypted_gap_progress:
  assumes q: "queue_ok u d" and g: "g = encrypted_gap d u qts st" and st: "st_Qts st = qts_of u d"
  shows "ew_more g \<Longrightarrow> queued_above u d (ew_qts g) + maxDiffEvents = queued_above u d qts"
    and "\<not> ew_more g \<Longrightarrow> ew_qts g = qts_of u d \<and> queued_above u d (ew_qts g) = 0"
    and "ew_more g \<longleftrightarrow> maxDiffEvents < queued_above u d qts"
    and "\<not> ew_more g \<Longrightarrow> ew_events g = [] \<Longrightarrow> queued_above u d qts = 0"
proof -
  from q obtain a where "map ee_qts (encrypted_queue u d) = [a + 1..qts_of u d]" by (auto simp: queue_ok_def)
  then have "ee_qts e \<in> set [a + 1..qts_of u d]" if "e \<in> set (encrypted_queue u d)" for e using that by (metis image_eqI list.set_map)
  then have top: "e \<in> set (encrypted_queue u d) \<Longrightarrow> ee_qts e \<le> qts_of u d" for e by simp
  have all: "filter (\<lambda>e. x < ee_qts e \<and> ee_qts e \<le> qts_of u d) (encrypted_queue u d) = filter (\<lambda>e. x < ee_qts e) (encrypted_queue u d)" for x
    by (rule filter_cong) (use top in auto)
  have none: "queued_above u d (qts_of u d) = 0" using top by (force simp: queued_above_def filter_empty_conv)
  note run = encrypted_gap_run [OF q g, unfolded st all]
  show "queued_above u d (ew_qts g) + maxDiffEvents = queued_above u d qts" if "ew_more g"
  proof -
    have "length (filter (\<lambda>e. qts < ee_qts e \<and> ee_qts e \<le> ew_qts g) (encrypted_queue u d)) = maxDiffEvents" "qts \<le> ew_qts g"
      using conjunct1 [OF run, symmetric] conjunct2 [OF run] that by simp_all
    with filter_split_length [of qts "ew_qts g" ee_qts "encrypted_queue u d"] show ?thesis by (simp add: queued_above_def)
  qed
  show "ew_qts g = qts_of u d \<and> queued_above u d (ew_qts g) = 0" if "\<not> ew_more g" using run that none by simp
  show "ew_more g \<longleftrightarrow> maxDiffEvents < queued_above u d qts" using run by (auto simp: queued_above_def split: if_splits)
  show "queued_above u d qts = 0" if "\<not> ew_more g" "ew_events g = []"
  proof -
    have "ew_qts g = qts_of u d" using run that(1) by simp
    with conjunct1 [OF run, symmetric] all [of qts] that(2) show ?thesis by (simp add: queued_above_def)
  qed
qed

text \<open>A request that reads everything from the newest database.\<close>

definition reads_newest :: "database list \<Rightarrow> 'a difference_request \<Rightarrow> bool" where
  "reads_newest hs r \<longleftrightarrow> within hs r \<and> rq_state r = length hs - 1 \<and> rq_encrypted r = length hs - 1"

lemma quiet_request:
  assumes hs: "store_start s" "reach store_step s hs" and u: "u \<noteq> 0" and r: "reads_newest hs r"
    and p: "0 \<le> p" "p \<le> pts_of u (hd hs)" and reply: "request_at derive hs u (p, q) r = Some reply"
    and pos: "client_after reply (p, q) = (p', q')"
  shows "p \<le> p'" "p' \<le> pts_of u (hd hs)"
    "is_slice reply \<longleftrightarrow> maxDiffEvents < length (rq_snapshots r) \<or> p + int maxDiffEvents < pts_of u (hd hs) \<or> maxDiffEvents < queued_above u (hd hs) q"
    "pts_of u (hd hs) - p' \<le> max 0 (pts_of u (hd hs) - p - int maxDiffEvents) \<or> is_empty reply"
    "queued_above u (hd hs) q' = queued_above u (hd hs) q - maxDiffEvents"
    "pts_of u (hd hs) - p \<le> int maxDiffEvents \<Longrightarrow> filter (\<lambda>e. is_message_event e \<and> p' < ev_pts e) (events_of u (hd hs)) = []"
    "pts_of u (hd hs) - p \<le> int maxDiffEvents \<Longrightarrow> queued_above u (hd hs) q \<le> maxDiffEvents \<Longrightarrow>
      is_empty reply \<or> p' = pts_of u (hd hs) \<and> q' = GetQts u (hd hs)"
proof -
  have ne: "hs \<noteq> []" and w: "within hs r" using r by (auto simp: reads_newest_def within_def)
  have st: "asof hs (rq_state r) = hd hs" "asof hs (rq_encrypted r) = hd hs" using r hd_asof [OF ne] by (simp_all add: reads_newest_def)
  have "reach store_step s (hd hs # tl hs)" using hs(2) ne by simp
  from hist_ok_head [OF stm.reachable_inv [OF hs(1) this]] have ok: "db_ok (hd hs)" and queue: "queue_ok u (hd hs)" by (simp_all add: secret_ok_def)
  obtain b enc chats admins refresh where
    req: "request_at derive hs u (p, q) r = Some (differenceReply b enc chats admins (length (rq_snapshots r) > maxDiffEvents) refresh)"
    and b: "b = buildUpdates (asof hs (rq_state r)) (asof hs (rq_window r)) (\<lambda>i. asof hs (rq_rows r i)) (asof hs (rq_rest r)) u p"
    and enc: "enc = encrypted_gap (hd hs) u q (ub_state b)"
    unfolding st(2) [symmetric] by (rule request_some [OF u])
  then have re: "reply = differenceReply b enc chats admins (length (rq_snapshots r) > maxDiffEvents) refresh" using reply by simp
  have "st_Qts (ub_state b) = st_Qts (readState u (hd hs))" unfolding b buildUpdates_def Let_def st(1) by simp
  then have "st_Qts (ub_state b) = qts_of u (hd hs)" by (simp add: readState_def qts_of_def split: option.split)
  note prog = encrypted_gap_progress [OF queue enc this]
  note run = reply_run [OF re] and d = request_delivers [OF hs u w p(1) p(2) [folded st(1)] refl reply, unfolded st(1)]
    and batch = request_batch [OF hs w p(1) p(2) [folded st(1)] b refl, unfolded st(1)]
  have p': "p' = fst (client_after reply (p, q))" using pos by simp
  note d = d [OF p']
  show "p \<le> p'" "p' \<le> pts_of u (hd hs)" by (fact d(1), fact d(2))
  show "is_slice reply \<longleftrightarrow> maxDiffEvents < length (rq_snapshots r) \<or> p + int maxDiffEvents < pts_of u (hd hs) \<or> maxDiffEvents < queued_above u (hd hs) q"
    using run(1) batch(1,2) prog(3) by auto
  show "pts_of u (hd hs) - p' \<le> max 0 (pts_of u (hd hs) - p - int maxDiffEvents) \<or> is_empty reply" using d(4) by auto
  have q': "q' = (if is_empty reply then q else ew_qts enc)" using pos run(3) [of "(p, q)"] by (auto split: if_splits)
  show "queued_above u (hd hs) q' = queued_above u (hd hs) q - maxDiffEvents"
  proof (cases "is_empty reply")
    case True
    then show ?thesis using run(2) [OF True] prog(4) q' by simp
  next
    case False
    then show ?thesis using prog(1-3) q' by (cases "ew_more enc") auto
  qed
  have "filter (\<lambda>e. p' < ev_pts e \<and> ev_pts e \<le> pts_of u (hd hs)) (events_of u (hd hs)) =
      drop (nat p') (take (nat (pts_of u (hd hs))) (events_of u (hd hs)))"
    by (rule filter_upto_window [OF log_events(1) [OF ok]]) (use p d(1,2) in simp_all)
  moreover have "ev_pts e \<in> set [1..pts_of u (hd hs)]" if "e \<in> set (events_of u (hd hs))" for e
    using that log_events(1) [OF ok, of u] by (metis image_eqI list.set_map)
  then have "filter (\<lambda>e. is_message_event e \<and> p' < ev_pts e) (events_of u (hd hs)) =
      filter is_message_event (filter (\<lambda>e. p' < ev_pts e \<and> ev_pts e \<le> pts_of u (hd hs)) (events_of u (hd hs)))"
    unfolding filter_filter by (intro filter_cong) auto
  ultimately have above: "filter (\<lambda>e. is_message_event e \<and> p' < ev_pts e) (events_of u (hd hs)) =
      filter is_message_event (drop (nat p') (take (nat (pts_of u (hd hs))) (events_of u (hd hs))))" by simp
  show "filter (\<lambda>e. is_message_event e \<and> p' < ev_pts e) (events_of u (hd hs)) = []" if "pts_of u (hd hs) - p \<le> int maxDiffEvents"
  proof (cases "is_empty reply")
    case True
    then have "\<not> is_slice reply" by (cases reply) simp_all
    with d(7) show ?thesis unfolding above by blast
  next
    case False
    then have "p' = pts_of u (hd hs)" using d(4) that by auto
    then show ?thesis unfolding above by simp
  qed
  show "is_empty reply \<or> p' = pts_of u (hd hs) \<and> q' = GetQts u (hd hs)"
    if "pts_of u (hd hs) - p \<le> int maxDiffEvents" "queued_above u (hd hs) q \<le> maxDiffEvents"
    using d(4) that prog(2,3) q' by (auto simp: GetQts_qts_of)
qed

lemma quiet_sync:
  assumes hs: "store_start s" "reach store_step s hs" and u: "u \<noteq> 0"
  shows "list_all (reads_newest hs) (r # rs) \<Longrightarrow> 0 \<le> p \<Longrightarrow> p \<le> pts_of u (hd hs) \<Longrightarrow>
     pts_of u (hd hs) - p \<le> int (maxDiffEvents * Suc (length rs)) \<Longrightarrow> queued_above u (hd hs) q \<le> maxDiffEvents * Suc (length rs) \<Longrightarrow>
     replies = sync derive hs u (p, q) (r # rs) \<Longrightarrow> (p', q') = synced derive hs u (p, q) (r # rs) \<Longrightarrow>
     replies \<noteq> [] \<and> (is_slice (last replies) \<longleftrightarrow> maxDiffEvents < length (rq_snapshots (last (r # rs)))) \<and>
     filter (\<lambda>e. is_message_event e \<and> p' < ev_pts e) (events_of u (hd hs)) = [] \<and> queued_above u (hd hs) q' = 0 \<and>
     (is_empty (last replies) \<or> p' = pts_of u (hd hs) \<and> q' = GetQts u (hd hs))"
proof (induction rs arbitrary: r p q replies)
  case Nil
  obtain reply where re: "request_at derive hs u (p, q) r = Some reply" by (rule request_some [OF u])
  have r: "reads_newest hs r" using Nil(1) by simp
  have rep: "replies = [reply]" and pos: "client_after reply (p, q) = (p', q')" using Nil(6,7) by (simp_all add: re synced_def)
  have near: "pts_of u (hd hs) - p \<le> int maxDiffEvents" "queued_above u (hd hs) q \<le> maxDiffEvents" using Nil(4,5) by simp_all
  note d = quiet_request [OF hs u r Nil(2,3) re pos]
  from d(3) near have "is_slice reply \<longleftrightarrow> maxDiffEvents < length (rq_snapshots r)" by auto
  with d(5) d(6) [OF near(1)] d(7) [OF near] near show ?case by (simp add: rep)
next
  case (Cons r' rs)
  obtain reply where re: "request_at derive hs u (p, q) r = Some reply" by (rule request_some [OF u])
  obtain p1 q1 where pos: "client_after reply (p, q) = (p1, q1)" by fastforce
  define rest where "rest = sync derive hs u (p1, q1) (r' # rs)"
  have r: "reads_newest hs r" "list_all (reads_newest hs) (r' # rs)" using Cons(2) by simp_all
  note d = quiet_request [OF hs u r(1) Cons(3,4) re pos]
  have rep: "replies = reply # rest" using Cons(7) by (simp add: re pos rest_def del: sync.simps(2) add: sync.simps(2) [of _ _ _ "(p, q)"])
  have fin: "(p', q') = synced derive hs u (p1, q1) (r' # rs)"
    using Cons(8) rep Cons(7) by (simp add: synced_def rest_def pos del: sync.simps)
  have left: "pts_of u (hd hs) - p1 \<le> int (maxDiffEvents * Suc (length rs))"
  proof (cases "is_empty reply")
    case True
    then have "\<not> is_slice reply" by (cases reply) simp_all
    with d(1,3) show ?thesis by (simp add: maxDiffEvents_def)
  next
    case False
    then have "pts_of u (hd hs) - p1 \<le> max 0 (pts_of u (hd hs) - p - int maxDiffEvents)" using d(4) by simp
    with Cons(5) show ?thesis by (simp add: maxDiffEvents_def)
  qed
  have "queued_above u (hd hs) q1 \<le> maxDiffEvents * Suc (length rs)" using d(5) Cons(6) by simp
  from Cons(1) [OF r(2) _ d(2) left this rest_def fin] d(1) Cons(3) show ?case by (simp add: rep)
qed

text \<open>
  C19. Catching up ends. Let nothing more be written, and let a client be at most \<open>500 * k\<close> events behind in
  pts and have at most \<open>500 * k\<close> encrypted messages queued above its qts, for \<open>k\<close> at least 1. With the \<open>k\<close>-th
  reply nothing is left to deliver: no message event is above the client's pts and no encrypted message
  above its qts, and unless that reply is the empty one the client has the account's pts and qts.
  That reply announces more only when more than 500 admin snapshots were waiting for it.
\<close>

theorem difference_catches_up:
  assumes "store_start s" and "reach store_step s hs" and "u \<noteq> 0" and "list_all (reads_newest hs) rs" and "length rs = Suc k"
    and "0 \<le> p" and "p \<le> pts_of u (hd hs)" and "pts_of u (hd hs) - p \<le> int (500 * Suc k)"
    and "length (filter (\<lambda>e. q < ee_qts e) (encrypted_queue u (hd hs))) \<le> 500 * Suc k"
    and "replies = sync derive hs u (p, q) rs" and "(p', q') = synced derive hs u (p, q) rs"
  shows "filter (\<lambda>e. is_message_event e \<and> p' < ev_pts e) (events_of u (hd hs)) = [] \<and>
     filter (\<lambda>e. q' < ee_qts e) (encrypted_queue u (hd hs)) = [] \<and>
     (is_empty (last replies) \<or> p' = pts_of u (hd hs) \<and> q' = GetQts u (hd hs)) \<and>
     (is_slice (last replies) \<longleftrightarrow> 500 < length (rq_snapshots (last rs)))"
proof -
  obtain r rest where rs: "rs = r # rest" "length rest = k" using assms(5) by (cases rs) auto
  have max: "maxDiffEvents = 500" by (simp add: maxDiffEvents_def)
  from quiet_sync [OF assms(1-3), of r rest p q replies derive p' q'] assms(4,6-11) show ?thesis
    unfolding rs max queued_above_def by (auto simp: rs)
qed

theorem difference_catches_up_witness:
  "\<exists>p' q'. (p', q') = synced any_hash [sample_sent, sample_start] 2 (0, 0) [sample_request] \<and>
     filter (\<lambda>e. is_message_event e \<and> p' < ev_pts e) (events_of 2 sample_sent) = []"
proof -
  obtain p' q' where pos: "(p', q') = synced any_hash [sample_sent, sample_start] 2 (0, 0) [sample_request]" by (metis prod.exhaust)
  have r: "list_all (reads_newest [sample_sent, sample_start]) [sample_request]" by (simp add: reads_newest_def within_def sample_request_def)
  have "encrypted_queue 2 sample_sent = []" by (simp add: sample_sent_def sample_start_def send_eval encrypted_queue_def)
  with difference_catches_up [OF sample_begins sample_sends _ r _ _ _ _ _ refl pos, of 0] sample_pts pos show ?thesis by auto
qed

end
