(* ===== verification/Net_Addr.thy ===== *)
theory Net_Addr
  imports Go_Prelude
begin

unbundle bit_operations_syntax

text \<open>
  Client addresses: the values of Go's \<open>netip\<close> package that the server uses, the network a
  client is counted under (\<open>IPBucketKey\<close>, internal/store/send_code_ip.go), the PROXY protocol v2
  header a balancer sends (internal/mtproto/proxyproto.go) and the address a freshly accepted
  socket is given (\<open>clientAddrUntil\<close>, internal/mtproto/accept.go).
\<close>

section \<open>netip values\<close>

datatype addr = NoAddr | V4 "32 word" | V6 "128 word" string

datatype prefix = NoPrefix | P4 "32 word" nat | P6 "128 word" nat

definition addr_valid :: "addr \<Rightarrow> bool" where
  "addr_valid a \<longleftrightarrow> a \<noteq> NoAddr"

text \<open>\<open>Addr.Unmap\<close>: an IPv4-mapped IPv6 address (\<open>::ffff:a.b.c.d\<close>) becomes the IPv4 address.\<close>

fun unmap :: "addr \<Rightarrow> addr" where
  "unmap (V6 w z) = (if drop_bit 32 w = 0xffff then V4 (ucast w) else V6 w z)"
| "unmap a = a"

text \<open>\<open>Addr.WithZone("")\<close>.\<close>

fun without_zone :: "addr \<Rightarrow> addr" where
  "without_zone (V6 w z) = V6 w ''''"
| "without_zone a = a"

fun is6 :: "addr \<Rightarrow> bool" where
  "is6 (V6 w z) = True"
| "is6 a = False"

text \<open>\<open>netip.PrefixFrom(addr, bits).Masked()\<close>: the bits below the prefix length are cleared.\<close>

fun prefix_masked :: "addr \<Rightarrow> nat \<Rightarrow> prefix" where
  "prefix_masked (V4 w) b = (if b \<le> 32 then P4 (push_bit (32 - b) (drop_bit (32 - b) w)) b else NoPrefix)"
| "prefix_masked (V6 w z) b = (if b \<le> 128 then P6 (push_bit (128 - b) (drop_bit (128 - b) w)) b else NoPrefix)"
| "prefix_masked NoAddr b = NoPrefix"

fun prefix_contains :: "prefix \<Rightarrow> addr \<Rightarrow> bool" where
  "prefix_contains (P4 w b) (V4 x) = (b \<le> 32 \<and> drop_bit (32 - b) w = drop_bit (32 - b) x)"
| "prefix_contains (P6 w b) (V6 x z) = (z = '''' \<and> b \<le> 128 \<and> drop_bit (128 - b) w = drop_bit (128 - b) x)"
| "prefix_contains p a = False"

section \<open>The network a client is counted under\<close>

definition ipv4_bucket_bits :: nat where
  "ipv4_bucket_bits = 32"

definition ipv6_bucket_bits :: nat where
  "ipv6_bucket_bits = 64"

definition ip_bucket_key :: "addr \<Rightarrow> prefix option" where
  "ip_bucket_key a =
     (if \<not> addr_valid a then None
      else let a' = without_zone (unmap a);
               bits = (if is6 a' then ipv6_bucket_bits else ipv4_bucket_bits)
           in Some (prefix_masked a' bits))"

text \<open>
  The reference the bucket is compared with: two peers are the same peer when they have the same
  IPv4 address, in whichever of its two forms, or share the upper 64 bits of an IPv6 address.
\<close>

fun same_network :: "addr \<Rightarrow> addr \<Rightarrow> bool" where
  "same_network (V4 x) (V4 y) = (x = y)"
| "same_network (V6 x z) (V6 y z') = (drop_bit 64 x = drop_bit 64 y)"
| "same_network a b = False"

section \<open>PROXY protocol v2\<close>

definition proxyV2Signature :: "byte list" where
  "proxyV2Signature = [0x0D, 0x0A, 0x0D, 0x0A, 0x00, 0x0D, 0x0A, 0x51, 0x55, 0x49, 0x54, 0x0A]"

definition proxyV2FixedLen :: nat where
  "proxyV2FixedLen = 16"

definition proxyV2INetLen :: nat where
  "proxyV2INetLen = 4 + 4 + 2 + 2"

definition proxyV2INet6Len :: nat where
  "proxyV2INet6Len = 16 + 16 + 2 + 2"

lemmas proxyV2_consts = proxyV2FixedLen_def proxyV2INetLen_def proxyV2INet6Len_def

text \<open>\<open>binary.BigEndian\<close>, as a number.\<close>

definition be_nat :: "byte list \<Rightarrow> nat" where
  "be_nat bs = foldl (\<lambda>acc b. acc * 256 + unat b) 0 bs"

definition addr_from4 :: "byte list \<Rightarrow> addr" where
  "addr_from4 bs = V4 (of_nat (be_nat bs))"

definition addr_from16 :: "byte list \<Rightarrow> addr" where
  "addr_from16 bs = V6 (of_nat (be_nat bs)) ''''"

datatype proxy_error =
    ProxyShortHeader
  | ProxyNoSignature
  | ProxyVersion byte
  | ProxyShortBlock
  | ProxyUnknownCommand byte
  | ProxyShortINet nat
  | ProxyShortINet6 nat
  | ProxyUnsupported byte byte

definition proxy_address :: "byte \<Rightarrow> byte list \<Rightarrow> proxy_error + addr" where
  "proxy_address famproto block =
     (let family = drop_bit 4 famproto; proto = famproto AND 0x0f in
      if family = 0x1 \<and> proto = 0x1 then
        (if length block < proxyV2INetLen then Inl (ProxyShortINet (length block))
         else Inr (addr_from4 (take 4 block)))
      else if family = 0x2 \<and> proto = 0x1 then
        (if length block < proxyV2INet6Len then Inl (ProxyShortINet6 (length block))
         else Inr (unmap (addr_from16 (take 16 block))))
      else if family = 0x0 \<and> proto = 0x0 then Inr NoAddr
      else Inl (ProxyUnsupported family proto))"

definition readProxyV2 :: "stream \<Rightarrow> proxy_error + addr \<times> stream" where
  "readProxyV2 r =
     (case read_full proxyV2FixedLen r of
        None \<Rightarrow> Inl ProxyShortHeader
      | Some (fixed, r1) \<Rightarrow>
          if take (length proxyV2Signature) fixed \<noteq> proxyV2Signature then Inl ProxyNoSignature
          else if drop_bit 4 (fixed ! 12) \<noteq> 2 then Inl (ProxyVersion (drop_bit 4 (fixed ! 12)))
          else (case read_full (be_nat [fixed ! 14, fixed ! 15]) r1 of
                  None \<Rightarrow> Inl ProxyShortBlock
                | Some (block, r2) \<Rightarrow>
                    let cmd = fixed ! 12 AND 0x0f in
                    if cmd = 0x0 then Inr (NoAddr, r2)
                    else if cmd = 0x1 then
                      (case proxy_address (fixed ! 13) block of
                         Inl e \<Rightarrow> Inl e
                       | Inr a \<Rightarrow> Inr (a, r2))
                    else Inl (ProxyUnknownCommand cmd)))"

text \<open>The balancer allowlist.\<close>

definition proxy_allowed :: "prefix list \<Rightarrow> addr \<Rightarrow> bool" where
  "proxy_allowed allow peer \<longleftrightarrow>
     (if \<not> addr_valid peer then False else list_ex (\<lambda>p. prefix_contains p peer) allow)"

section \<open>The address of an accepted socket\<close>

text \<open>
  \<open>peerAddr\<close> sees the socket's remote address, absent when the network has no IP. A deadline that
  cannot be set is the socket's own failure; \<open>deadline_ok\<close> says whether it could.
\<close>

definition peerAddr :: "addr option \<Rightarrow> addr" where
  "peerAddr remote = (case remote of None \<Rightarrow> NoAddr | Some a \<Rightarrow> unmap a)"

datatype addr_error = NotAllowlisted addr | DeadlineFailed | BadProxyHeader proxy_error

definition clientAddrUntil ::
  "prefix list option \<Rightarrow> addr option \<Rightarrow> bool \<Rightarrow> stream \<Rightarrow> addr_error + addr \<times> stream" where
  "clientAddrUntil proxyV2 remote deadline_ok sock =
     (let a = peerAddr remote in
      if (case proxyV2 of None \<Rightarrow> False | Some allow \<Rightarrow> \<not> proxy_allowed allow a)
      then Inl (NotAllowlisted a)
      else if \<not> deadline_ok then Inl DeadlineFailed
      else case proxyV2 of
             None \<Rightarrow> Inr (a, sock)
           | Some allow \<Rightarrow>
               (case readProxyV2 sock of
                  Inl e \<Rightarrow> Inl (BadProxyHeader e)
                | Inr (client, rest) \<Rightarrow> Inr (client, rest)))"

section \<open>Lemmas\<close>

lemma be_nat_snoc [simp]: "be_nat (bs @ [b]) = be_nat bs * 256 + unat b"
  by (simp add: be_nat_def)

lemma be_nat_Nil [simp]: "be_nat [] = 0"
  by (simp add: be_nat_def)

lemma unat_byte_lt: "unat (b :: byte) < 256"
  using unsigned_less [of b] by simp

lemma be_nat_lt: "be_nat bs < 256 ^ length bs"
proof (induction bs rule: rev_induct)
  case (snoc b bs)
  have "be_nat bs * 256 + unat b < be_nat bs * 256 + 256"
    using unat_byte_lt [of b] by simp
  also have "\<dots> \<le> 256 ^ length bs * 256"
    using snoc.IH by simp
  finally show ?case by simp
qed simp

lemma radix_inject:
  assumes "x < 256" "y < (256 :: nat)"
  shows "a * 256 + x = b * 256 + y \<longleftrightarrow> a = b \<and> x = y"
proof
  assume eq: "a * 256 + x = b * 256 + y"
  have "(a * 256 + x) mod 256 = x" "(b * 256 + y) mod 256 = y"
    using assms by simp_all
  with eq have "x = y" by metis
  with eq show "a = b \<and> x = y" by simp
qed simp

lemma be_nat_inject: "length bs = length cs \<Longrightarrow> be_nat bs = be_nat cs \<longleftrightarrow> bs = cs"
proof (induction bs arbitrary: cs rule: rev_induct)
  case (snoc b bs)
  then obtain ds d where cs: "cs = ds @ [d]" "length bs = length ds"
    by (metis length_append_singleton length_0_conv nat.distinct(1) rev_exhaust nat.inject)
  with snoc.IH [of ds] show ?case
    by (simp add: radix_inject [OF unat_byte_lt unat_byte_lt] word_unat_eq_iff [of b d])
qed simp

lemma addr_from4_inject:
  assumes "length bs = 4" "length cs = 4"
  shows "addr_from4 bs = addr_from4 cs \<longleftrightarrow> bs = cs"
proof -
  have lt: "be_nat bs < 2 ^ 32" "be_nat cs < 2 ^ 32"
    using be_nat_lt [of bs] be_nat_lt [of cs] assms by simp_all
  have "(of_nat (be_nat bs) :: 32 word) = of_nat (be_nat cs) \<longleftrightarrow> be_nat bs = be_nat cs"
    using lt by (simp add: word_of_nat_eq_iff take_bit_nat_eq_self)
  with assms show ?thesis by (simp add: addr_from4_def be_nat_inject)
qed

lemma addr_from16_inject:
  assumes "length bs = 16" "length cs = 16"
  shows "addr_from16 bs = addr_from16 cs \<longleftrightarrow> bs = cs"
proof -
  have lt: "be_nat bs < 2 ^ 128" "be_nat cs < 2 ^ 128"
    using be_nat_lt [of bs] be_nat_lt [of cs] assms by simp_all
  have "(of_nat (be_nat bs) :: 128 word) = of_nat (be_nat cs) \<longleftrightarrow> be_nat bs = be_nat cs"
    using lt by (simp add: word_of_nat_eq_iff take_bit_nat_eq_self)
  with assms show ?thesis by (simp add: addr_from16_def be_nat_inject)
qed

lemma push_drop_bit_eq_iff:
  fixes x y :: "'a::len word"
  shows "push_bit n (drop_bit n x) = push_bit n (drop_bit n y) \<longleftrightarrow> drop_bit n x = drop_bit n y"
proof
  assume h: "push_bit n (drop_bit n x) = push_bit n (drop_bit n y)"
  show "drop_bit n x = drop_bit n y"
  proof (rule bit_word_eqI)
    fix i assume "i < LENGTH('a)"
    have "bit (push_bit n (drop_bit n x)) (n + i) = bit (push_bit n (drop_bit n y)) (n + i)"
      using h by simp
    then show "bit (drop_bit n x) i = bit (drop_bit n y) i"
      by (auto simp: bit_push_bit_iff bit_drop_bit_eq dest: bit_imp_le_length)
  qed
qed simp

lemma ip_bucket_key_Some_iff: "(\<exists>p. ip_bucket_key a = Some p) \<longleftrightarrow> addr_valid a"
  by (simp add: ip_bucket_key_def Let_def)

lemma unmap_idem [simp]: "unmap (unmap a) = unmap a"
  by (cases a) auto

lemma same_network_zone [simp]:
  "same_network (without_zone a) b = same_network a b"
  "same_network a (without_zone b) = same_network a b"
  by (cases a; cases b; simp)+

lemma ip_bucket_key_unmap: "ip_bucket_key (unmap a) = ip_bucket_key a"
  by (cases a) (auto simp: ip_bucket_key_def addr_valid_def)

lemma prefix_bucket_eq:
  assumes "a \<noteq> NoAddr" "b \<noteq> NoAddr"
  shows "prefix_masked a (if is6 a then ipv6_bucket_bits else ipv4_bucket_bits) =
         prefix_masked b (if is6 b then ipv6_bucket_bits else ipv4_bucket_bits) \<longleftrightarrow> same_network a b"
  using assms
  by (cases a; cases b)
     (simp_all add: ipv4_bucket_bits_def ipv6_bucket_bits_def push_drop_bit_eq_iff)

text \<open>The header a balancer writes in front of a proxied TCP connection.\<close>

definition proxy_header :: "byte \<Rightarrow> byte list \<Rightarrow> byte list" where
  "proxy_header famproto block =
     proxyV2Signature @ [0x21, famproto, of_nat (length block div 256), of_nat (length block mod 256)] @ block"

lemma be_nat_length16:
  assumes "n < 65536"
  shows "be_nat [of_nat (n div 256), of_nat (n mod 256)] = n"
proof -
  have a: "unat (of_nat (n div 256) :: byte) = n div 256"
    using assms by (simp add: unat_of_nat take_bit_nat_eq_self less_mult_imp_div_less)
  have b: "unat (of_nat (n mod 256) :: byte) = n mod 256"
    by (simp add: unat_of_nat)
  show ?thesis by (simp add: be_nat_def a b)
qed

lemma proxy_header_read:
  assumes "length block < 65536"
  shows "readProxyV2 (proxy_header famproto block @ rest) =
    (case proxy_address famproto block of Inl e \<Rightarrow> Inl e | Inr a \<Rightarrow> Inr (a, rest))"
proof -
  let ?fixed = "proxyV2Signature @ [0x21, famproto, of_nat (length block div 256), of_nat (length block mod 256)]"
  have h: "read_full proxyV2FixedLen (proxy_header famproto block @ rest) = Some (?fixed, block @ rest)"
    by (simp add: proxy_header_def read_full_Some_iff proxyV2FixedLen_def proxyV2Signature_def)
  have b: "read_full (length block) (block @ rest) = Some (block, rest)"
    by (simp add: read_full_append)
  have n: "?fixed ! 12 = 0x21" "?fixed ! 13 = famproto"
     "be_nat [?fixed ! 14, ?fixed ! 15] = length block"
    by (simp_all add: proxyV2Signature_def be_nat_length16 [OF assms])
  have v: "drop_bit 4 (0x21 :: byte) = 2" "(0x21 :: byte) AND 0x0f = 1" by simp_all
  show ?thesis
    unfolding readProxyV2_def h option.case prod.case n b v Let_def
    by (simp add: proxyV2Signature_def)
qed

lemma length_proxyV2Signature [simp]: "length proxyV2Signature = 12"
  by (simp add: proxyV2Signature_def)

lemma readProxyV2_consumes:
  assumes "readProxyV2 s = Inr (a, rest)"
  shows "\<exists>hdr. s = hdr @ rest \<and> take 12 hdr = proxyV2Signature \<and>
    length hdr = proxyV2FixedLen + be_nat [hdr ! 14, hdr ! 15] \<and> (\<forall>more. readProxyV2 (hdr @ more) = Inr (a, more))"
proof -
  from assms obtain fixed r1 where f: "read_full proxyV2FixedLen s = Some (fixed, r1)"
    and sig: "take (length proxyV2Signature) fixed = proxyV2Signature"
    by (auto simp: readProxyV2_def split: option.splits if_splits)
  from assms f sig obtain block where b: "read_full (be_nat [fixed ! 14, fixed ! 15]) r1 = Some (block, rest)"
    by (auto simp: readProxyV2_def Let_def split: option.splits if_splits sum.splits)
  from f b have "s = (fixed @ block) @ rest" "length fixed = 16"
    "length block = be_nat [fixed ! 14, fixed ! 15]"
    by (auto simp: read_full_Some_iff proxyV2FixedLen_def)
  moreover have "readProxyV2 ((fixed @ block) @ more) = Inr (a, more)" for more
  proof -
    have "read_full proxyV2FixedLen ((fixed @ block) @ more) = Some (fixed, block @ more)"
      "read_full (be_nat [fixed ! 14, fixed ! 15]) (block @ more) = Some (block, more)"
      using calculation(2,3) by (auto simp: read_full_Some_iff proxyV2FixedLen_def)
    with assms f b show ?thesis by (auto simp: readProxyV2_def Let_def split: if_splits sum.splits)
  qed
  ultimately show ?thesis using sig
    by (intro exI [of _ "fixed @ block"])
       (simp add: nth_append proxyV2FixedLen_def)
qed

section \<open>Properties\<close>

text \<open>
  Two connections land in the same rate-limit bucket exactly when they come from the same
  network: the same IPv4 address, whether written as IPv4 or as an IPv4-mapped IPv6 address, or
  the same IPv6 /64. A zone never separates two peers, and an address the transport could not
  parse has no bucket that an addressed peer could share.
\<close>

theorem ip_bucket_key_same_network:
  "(ip_bucket_key a = ip_bucket_key b) =
     (if addr_valid a \<and> addr_valid b then same_network (unmap a) (unmap b)
      else addr_valid a = addr_valid b)"
proof (cases "addr_valid a \<and> addr_valid b")
  case True
  then have "without_zone (unmap a) \<noteq> NoAddr" "without_zone (unmap b) \<noteq> NoAddr"
    by (cases a; cases b; simp add: addr_valid_def)+
  from prefix_bucket_eq [OF this] True show ?thesis
    by (simp add: ip_bucket_key_def Let_def)
qed (auto simp: ip_bucket_key_def Let_def)

text \<open>
  C33. The PROXY v2 reader returns exactly the source address a balancer wrote for a TCP
  connection, IPv4 or IPv6, whatever destination, ports and extensions follow it, and leaves the
  stream at the first byte after the header.
\<close>

theorem readProxyV2_roundtrip:
  assumes "length src4 = 4" and "8 \<le> length tail4" and "length tail4 < 60000"
    and "length src6 = 16" and "20 \<le> length tail6" and "length tail6 < 60000"
  shows "readProxyV2 (proxy_header 0x11 (src4 @ tail4) @ rest) = Inr (addr_from4 src4, rest) \<and>
         readProxyV2 (proxy_header 0x21 (src6 @ tail6) @ rest) = Inr (unmap (addr_from16 src6), rest)"
proof -
  have nib: "drop_bit 4 (0x11 :: byte) = 1" "(0x11 :: byte) AND 0x0f = 1"
      "drop_bit 4 (0x21 :: byte) = 2" "(0x21 :: byte) AND 0x0f = 1" by simp_all
  have "proxy_address 0x11 (src4 @ tail4) = Inr (addr_from4 src4)"
    using assms(1,2) by (simp add: proxy_address_def Let_def nib proxyV2INetLen_def)
  moreover have "proxy_address 0x21 (src6 @ tail6) = Inr (unmap (addr_from16 src6))"
    using assms(4,5) by (simp add: proxy_address_def Let_def nib proxyV2INet6Len_def)
  ultimately show ?thesis
    using assms by (simp add: proxy_header_read)
qed

theorem readProxyV2_roundtrip_witness:
  "readProxyV2 (proxy_header 0x11 ([203, 0, 113, 7] @ replicate 8 0) @ [0xef]) =
     Inr (addr_from4 [203, 0, 113, 7], [0xef])"
  using readProxyV2_roundtrip [of "[203, 0, 113, 7]" "replicate 8 0" "replicate 16 1" "replicate 20 0" "[0xef]"]
  by simp

text \<open>
  C32. With a balancer allowlist configured, a connection obtains an address only if its socket
  peer is allowlisted and its stream opens with a complete PROXY v2 header, the fixed part and as many
  bytes as it declares, which is consumed exactly. The address is a function of that header alone:
  the same header gives the same address from any allowlisted peer and whatever bytes follow it, and
  what follows is left to be read.
\<close>

theorem clientAddrUntil_fails_closed:
  assumes "clientAddrUntil (Some allow) remote deadline_ok sock = Inr (client, rest)"
  shows "proxy_allowed allow (peerAddr remote) \<and>
    (\<exists>hdr. sock = hdr @ rest \<and> take 12 hdr = proxyV2Signature \<and>
      length hdr = proxyV2FixedLen + be_nat [hdr ! 14, hdr ! 15] \<and>
      (\<forall>remote' more. clientAddrUntil (Some allow) remote' deadline_ok (hdr @ more) =
        (if proxy_allowed allow (peerAddr remote') then Inr (client, more)
         else Inl (NotAllowlisted (peerAddr remote')))))"
proof -
  from assms have a: "proxy_allowed allow (peerAddr remote)" "deadline_ok"
    and r: "readProxyV2 sock = Inr (client, rest)"
    by (auto simp: clientAddrUntil_def Let_def split: if_splits sum.splits prod.splits)
  from readProxyV2_consumes [OF r] obtain hdr where h: "sock = hdr @ rest" "take 12 hdr = proxyV2Signature"
    "length hdr = proxyV2FixedLen + be_nat [hdr ! 14, hdr ! 15]" and again: "\<And>more. readProxyV2 (hdr @ more) = Inr (client, more)"
    by blast
  have "clientAddrUntil (Some allow) remote' deadline_ok (hdr @ more) =
      (if proxy_allowed allow (peerAddr remote') then Inr (client, more) else Inl (NotAllowlisted (peerAddr remote')))" for remote' more
    using a(2) by (simp add: clientAddrUntil_def Let_def again)
  with a(1) h show ?thesis by blast
qed

theorem clientAddrUntil_fails_closed_witness:
  "\<exists>hdr. proxy_header 0x11 ([203, 0, 113, 7] @ replicate 8 0) @ [0xef] = hdr @ [0xef] \<and>
     clientAddrUntil (Some [P4 0x0A000000 8]) (Some (V4 0x0A000001)) True (hdr @ [1, 2, 3]) = Inr (addr_from4 [203, 0, 113, 7], [1, 2, 3]) \<and>
     clientAddrUntil (Some [P4 0x0A000000 8]) (Some (V4 0x0B000001)) True (hdr @ [1, 2, 3]) = Inl (NotAllowlisted (V4 0x0B000001))"
proof -
  have r: "readProxyV2 (proxy_header 0x11 ([203, 0, 113, 7] @ replicate 8 0) @ [0xef]) =
      Inr (addr_from4 [203, 0, 113, 7], [0xef])"
    by (simp add: proxy_header_read proxy_address_def Let_def proxyV2INetLen_def)
  have al: "proxy_allowed [P4 0x0A000000 8] (V4 0x0A000001)"
    "\<not> proxy_allowed [P4 0x0A000000 8] (V4 0x0B000001)"
    by (simp_all add: proxy_allowed_def addr_valid_def)
  have h: "clientAddrUntil (Some [P4 0x0A000000 8]) (Some (V4 0x0A000001)) True
      (proxy_header 0x11 ([203, 0, 113, 7] @ replicate 8 0) @ [0xef]) =
        Inr (addr_from4 [203, 0, 113, 7], [0xef])"
    unfolding clientAddrUntil_def r by (simp add: peerAddr_def al)
  from clientAddrUntil_fails_closed [OF h] obtain hdr where
    "proxy_header 0x11 ([203, 0, 113, 7] @ replicate 8 0) @ [0xef] = hdr @ [0xef]"
    and "\<And>remote' more. clientAddrUntil (Some [P4 0x0A000000 8]) remote' True (hdr @ more) =
        (if proxy_allowed [P4 0x0A000000 8] (peerAddr remote') then Inr (addr_from4 [203, 0, 113, 7], more)
         else Inl (NotAllowlisted (peerAddr remote')))"
    by blast
  then show ?thesis using al by (intro exI [of _ hdr]) (simp add: peerAddr_def)
qed

end
