(* ===== verification/Rpc_Barrier.thy ===== *)
theory Rpc_Barrier
  imports Go_Prelude
begin

text \<open>
  The sender-result barriers of one connection (internal/mtproto/send.go): which updates its own
  send RPCs have in flight, in what order they may be accounted, and the push watermark they
  protect. Every operation runs under the connection's write lock, so each is one atomic step.

  The code keeps three parallel slices and two binding fields; \<open>Barrier_Spec\<close> gives the abstract
  barrier and shows that the code implements it.
\<close>

section \<open>State\<close>

type_synonym pending_id = "64 word"

record rpc_reservation =
  rv_owner :: int
  rv_authKey :: int
  rv_id :: pending_id
  rv_owned :: bool
  rv_overflow :: bool

record overflow_entry =
  oe_id :: pending_id
  oe_pts :: int
  oe_ready :: bool

record barrier =
  br_owner :: int
  br_authKeyID :: int
  br_lastPushedPts :: int
  br_pendingOwner :: int
  br_pendingAuthKey :: int
  br_pts :: "int list"
  br_ids :: "pending_id list"
  br_ready :: "bool list"
  br_nextID :: pending_id
  br_overflow :: "overflow_entry list"
  br_saturated :: bool

definition maxPendingRPCUpdates :: nat where
  "maxPendingRPCUpdates = 64"

definition maxPendingRPCOverflowUpdates :: nat where
  "maxPendingRPCOverflowUpdates = maxPendingRPCUpdates"

definition new_barrier :: barrier where
  "new_barrier = \<lparr>br_owner = 0, br_authKeyID = 0, br_lastPushedPts = 0, br_pendingOwner = 0,
     br_pendingAuthKey = 0, br_pts = [], br_ids = [], br_ready = [], br_nextID = 0,
     br_overflow = [], br_saturated = False\<rparr>"

definition no_reservation :: rpc_reservation where
  "no_reservation = \<lparr>rv_owner = 0, rv_authKey = 0, rv_id = 0, rv_owned = False, rv_overflow = False\<rparr>"

section \<open>Operations\<close>

definition next_id :: "pending_id \<Rightarrow> pending_id" where
  "next_id n = (if n + 1 = 0 then 1 else n + 1)"

definition removePendingRPCAtLocked :: "nat \<Rightarrow> barrier \<Rightarrow> barrier" where
  "removePendingRPCAtLocked i b =
     (let b1 = b\<lparr>br_pts := remove_at i (br_pts b), br_ids := remove_at i (br_ids b),
                 br_ready := remove_at i (br_ready b)\<rparr> in
      if length (br_pts b1) = 0
      then b1\<lparr>br_pendingOwner := 0, br_pendingAuthKey := 0, br_ids := [], br_ready := []\<rparr>
      else b1)"

definition removePendingRPCOverflowAtLocked :: "nat \<Rightarrow> barrier \<Rightarrow> barrier" where
  "removePendingRPCOverflowAtLocked i b = b\<lparr>br_overflow := remove_at i (br_overflow b)\<rparr>"

text \<open>The watermark only moves up here.\<close>

definition raise_pts :: "int \<Rightarrow> barrier \<Rightarrow> barrier" where
  "raise_pts pts b = (if pts > br_lastPushedPts b then b\<lparr>br_lastPushedPts := pts\<rparr> else b)"

definition markRPCUpdateLocked :: "int \<Rightarrow> int \<Rightarrow> int \<Rightarrow> barrier \<Rightarrow> bool \<times> barrier" where
  "markRPCUpdateLocked owner authKeyID pts b =
     (if authKeyID = 0 \<or> pts \<le> 0 then (False, b)
      else if br_owner b \<noteq> owner \<or> br_authKeyID b \<noteq> authKeyID then (False, b)
      else if length (br_pts b) > 0 then
        (let pendingPts = br_pts b ! 0 in
         if pendingPts = 0 then (False, b)
         else if pendingPts \<noteq> pts then (pts \<le> br_lastPushedPts b, b)
         else (True, removePendingRPCAtLocked 0 (raise_pts pts b)))
      else if length (br_overflow b) > 0 then
        (let pendingPts = oe_pts (br_overflow b ! 0) in
         if pendingPts = 0 then (False, b)
         else if pendingPts \<noteq> pts then (pts \<le> br_lastPushedPts b, b)
         else (True, removePendingRPCOverflowAtLocked 0 (raise_pts pts b)))
      else (True, raise_pts pts b))"

definition MarkRPCUpdate :: "int \<Rightarrow> int \<Rightarrow> int \<Rightarrow> barrier \<Rightarrow> bool \<times> barrier" where
  "MarkRPCUpdate owner authKeyID pts b =
     (if authKeyID = 0 \<or> pts \<le> 0 then (False, b) else markRPCUpdateLocked owner authKeyID pts b)"

definition begin_overflow :: "int \<Rightarrow> int \<Rightarrow> barrier \<Rightarrow> (rpc_reservation \<times> bool) \<times> barrier" where
  "begin_overflow owner authKeyID b =
     (let n = next_id (br_nextID b) in
      ((\<lparr>rv_owner = owner, rv_authKey = authKeyID, rv_id = n, rv_owned = True, rv_overflow = True\<rparr>, False),
       b\<lparr>br_nextID := n, br_overflow := br_overflow b @ [\<lparr>oe_id = n, oe_pts = 0, oe_ready = False\<rparr>]\<rparr>))"

definition BeginRPCUpdateAttempt ::
  "int \<Rightarrow> int \<Rightarrow> int \<Rightarrow> barrier \<Rightarrow> (rpc_reservation \<times> bool) \<times> barrier" where
  "BeginRPCUpdateAttempt owner authKeyID pts b =
     (if owner \<le> 0 \<or> authKeyID = 0 \<or> pts < 0 then ((no_reservation, False), b)
      else if br_owner b \<noteq> owner \<or> br_authKeyID b \<noteq> authKeyID then ((no_reservation, False), b)
      else case (if pts > 0 then find_index (\<lambda>p. p = pts) (br_pts b) else None) of
        Some i \<Rightarrow>
          ((\<lparr>rv_owner = owner, rv_authKey = authKeyID, rv_id = br_ids b ! i, rv_owned = False, rv_overflow = False\<rparr>, True), b)
      | None \<Rightarrow>
      case (if pts > 0 then find_index (\<lambda>e. oe_pts e = pts) (br_overflow b) else None) of
        Some i \<Rightarrow>
          ((\<lparr>rv_owner = owner, rv_authKey = authKeyID, rv_id = oe_id (br_overflow b ! i), rv_owned = False, rv_overflow = True\<rparr>, True), b)
      | None \<Rightarrow>
      if length (br_overflow b) > 0 \<or> br_saturated b then
        (if br_saturated b then
           ((\<lparr>rv_owner = owner, rv_authKey = authKeyID, rv_id = 0, rv_owned = False, rv_overflow = True\<rparr>, False), b)
         else if length (br_overflow b) \<ge> maxPendingRPCOverflowUpdates then
           ((\<lparr>rv_owner = owner, rv_authKey = authKeyID, rv_id = 0, rv_owned = False, rv_overflow = True\<rparr>, False),
            b\<lparr>br_saturated := True\<rparr>)
         else begin_overflow owner authKeyID b)
      else if length (br_pts b) \<ge> maxPendingRPCUpdates then begin_overflow owner authKeyID b
      else
        (let n = next_id (br_nextID b) in
         ((\<lparr>rv_owner = owner, rv_authKey = authKeyID, rv_id = n, rv_owned = True, rv_overflow = False\<rparr>, True),
          b\<lparr>br_nextID := n, br_pendingOwner := owner, br_pendingAuthKey := authKeyID,
            br_pts := br_pts b @ [pts], br_ids := br_ids b @ [n], br_ready := br_ready b @ [False]\<rparr>)))"

definition BeginRPCUpdate :: "int \<Rightarrow> int \<Rightarrow> int \<Rightarrow> barrier \<Rightarrow> bool \<times> barrier" where
  "BeginRPCUpdate owner authKeyID pts b =
     (let ((_, ok), b') = BeginRPCUpdateAttempt owner authKeyID pts b in (ok, b'))"

definition SetRPCUpdatePts :: "int \<Rightarrow> int \<Rightarrow> int \<Rightarrow> barrier \<Rightarrow> bool \<times> barrier" where
  "SetRPCUpdatePts owner authKeyID pts b =
     (if owner \<le> 0 \<or> authKeyID = 0 \<or> pts \<le> 0 then (False, b)
      else if br_pendingOwner b \<noteq> owner \<or> br_pendingAuthKey b \<noteq> authKeyID \<or>
              br_owner b \<noteq> owner \<or> br_authKeyID b \<noteq> authKeyID then (False, b)
      else case find_last_index (\<lambda>p. p = 0) (br_pts b) of
             Some i \<Rightarrow> (True, b\<lparr>br_pts := (br_pts b)[i := pts]\<rparr>)
           | None \<Rightarrow> (False, b))"

definition SetRPCUpdatePtsAttempt :: "rpc_reservation \<Rightarrow> int \<Rightarrow> barrier \<Rightarrow> bool \<times> barrier" where
  "SetRPCUpdatePtsAttempt r pts b =
     (if pts \<le> 0 then (False, b)
      else if br_owner b \<noteq> rv_owner r \<or> br_authKeyID b \<noteq> rv_authKey r then (False, b)
      else if rv_overflow r then
        (if rv_id r = 0 then (br_saturated b, b)
         else case find_index (\<lambda>e. oe_id e = rv_id r) (br_overflow b) of
                None \<Rightarrow> (False, b)
              | Some i \<Rightarrow>
                  (if \<not> rv_owned r then (oe_pts (br_overflow b ! i) = pts, b)
                   else if oe_pts (br_overflow b ! i) = 0 then
                     (True, b\<lparr>br_overflow := (br_overflow b)[i := (br_overflow b ! i)\<lparr>oe_pts := pts\<rparr>]\<rparr>)
                   else (oe_pts (br_overflow b ! i) = pts, b)))
      else if \<not> rv_owned r then (False, b)
      else if br_pendingOwner b \<noteq> rv_owner r \<or> br_pendingAuthKey b \<noteq> rv_authKey r then (False, b)
      else case find_index (\<lambda>n. n = rv_id r) (br_ids b) of
             None \<Rightarrow> (False, b)
           | Some i \<Rightarrow>
               (if br_pts b ! i = 0 then (True, b\<lparr>br_pts := (br_pts b)[i := pts]\<rparr>)
                else (br_pts b ! i = pts, b)))"

definition clearRPCUpdateLocked :: "int \<Rightarrow> int \<Rightarrow> barrier \<Rightarrow> bool \<times> barrier" where
  "clearRPCUpdateLocked owner authKeyID b =
     (if br_pendingOwner b \<noteq> owner \<or> br_pendingAuthKey b \<noteq> authKeyID \<or> length (br_pts b) = 0 then (False, b)
      else (True, removePendingRPCAtLocked (length (br_pts b) - 1) b))"

definition ClearRPCUpdate :: "int \<Rightarrow> int \<Rightarrow> barrier \<Rightarrow> bool \<times> barrier" where
  "ClearRPCUpdate owner authKeyID b =
     (if owner \<le> 0 \<or> authKeyID = 0 then (False, b) else clearRPCUpdateLocked owner authKeyID b)"

definition ClearRPCUpdateAttempt :: "rpc_reservation \<Rightarrow> barrier \<Rightarrow> bool \<times> barrier" where
  "ClearRPCUpdateAttempt r b =
     (if rv_overflow r then
        (if rv_id r = 0 \<or> \<not> rv_owned r \<or> br_owner b \<noteq> rv_owner r \<or> br_authKeyID b \<noteq> rv_authKey r then (False, b)
         else case find_index (\<lambda>e. oe_id e = rv_id r) (br_overflow b) of
                None \<Rightarrow> (False, b)
              | Some i \<Rightarrow> (True, removePendingRPCOverflowAtLocked i b))
      else if \<not> rv_owned r then (False, b)
      else if br_pendingOwner b \<noteq> rv_owner r \<or> br_pendingAuthKey b \<noteq> rv_authKey r \<or>
              br_owner b \<noteq> rv_owner r \<or> br_authKeyID b \<noteq> rv_authKey r then (False, b)
      else case find_index (\<lambda>n. n = rv_id r) (br_ids b) of
             None \<Rightarrow> (False, b)
           | Some i \<Rightarrow> (True, removePendingRPCAtLocked i b))"

definition PendingRPCUpdate :: "int \<Rightarrow> barrier \<Rightarrow> int \<times> bool" where
  "PendingRPCUpdate owner b =
     (if br_pendingOwner b = owner \<and> length (br_pts b) > 0 then (br_pts b ! 0, True)
      else if br_owner b = owner \<and> length (br_overflow b) > 0 then (oe_pts (br_overflow b ! 0), True)
      else if br_owner b = owner \<and> br_saturated b then (0, True)
      else (0, False))"

definition PendingRPCUpdateReady :: "int \<Rightarrow> barrier \<Rightarrow> bool" where
  "PendingRPCUpdateReady owner b =
     (if br_pendingOwner b = owner \<and> length (br_pts b) > 0
      then length (br_ready b) > 0 \<and> br_ready b ! 0
      else if br_owner b = owner \<and> length (br_overflow b) > 0 then oe_ready (br_overflow b ! 0)
      else False)"

definition drop_resolved :: "nat option \<Rightarrow> nat option \<Rightarrow> barrier \<Rightarrow> barrier" where
  "drop_resolved pendingIndex overflowIndex b =
     (case pendingIndex of
        Some i \<Rightarrow> removePendingRPCAtLocked i b
      | None \<Rightarrow> (case overflowIndex of
                    Some j \<Rightarrow> removePendingRPCOverflowAtLocked j b
                  | None \<Rightarrow> b))"

definition markRPCResultLocked :: "int \<Rightarrow> int \<Rightarrow> int \<Rightarrow> barrier \<Rightarrow> bool \<times> barrier" where
  "markRPCResultLocked owner authKeyID pts b =
     (if authKeyID = 0 \<or> pts \<le> 0 then (False, b)
      else if br_owner b \<noteq> owner \<or> br_authKeyID b \<noteq> authKeyID then (False, b)
      else
        (let pendingIndex = (if br_pendingOwner b = owner \<and> br_pendingAuthKey b = authKeyID
                             then find_last_index (\<lambda>p. p = pts) (br_pts b) else None);
             overflowIndex = find_last_index (\<lambda>e. oe_pts e = pts) (br_overflow b);
             current = br_lastPushedPts b;
             b1 = (case pendingIndex of
                     Some i \<Rightarrow> if i < length (br_ready b) then b\<lparr>br_ready := (br_ready b)[i := True]\<rparr> else b
                   | None \<Rightarrow> b);
             b2 = (case overflowIndex of
                     Some j \<Rightarrow> b1\<lparr>br_overflow := (br_overflow b1)[j := (br_overflow b1 ! j)\<lparr>oe_ready := True\<rparr>]\<rparr>
                   | None \<Rightarrow> b1)
         in (True,
             if pts \<le> current then drop_resolved pendingIndex overflowIndex b2
             else if pts = current + 1
             then drop_resolved pendingIndex overflowIndex (b2\<lparr>br_lastPushedPts := pts\<rparr>)
             else b2)))"

text \<open>The part of \<open>setOwner\<close> and \<open>setKey\<close> that concerns the barriers.\<close>

definition clear_barriers :: "barrier \<Rightarrow> barrier" where
  "clear_barriers b =
     b\<lparr>br_pendingOwner := 0, br_pendingAuthKey := 0, br_pts := [], br_ids := [], br_ready := [],
       br_overflow := [], br_saturated := False\<rparr>"

definition barrier_setOwner :: "int \<Rightarrow> barrier \<Rightarrow> barrier" where
  "barrier_setOwner userID b =
     (if br_owner b = userID then b
      else clear_barriers (b\<lparr>br_owner := userID, br_lastPushedPts := 0\<rparr>))"

definition barrier_setKey :: "int \<Rightarrow> barrier \<Rightarrow> barrier" where
  "barrier_setKey keyID b =
     (if br_authKeyID b \<noteq> keyID then (clear_barriers b)\<lparr>br_authKeyID := keyID\<rparr> else b)"

section \<open>Pushes\<close>

text \<open>
  What a push meets: whether its body encodes, whether its context is already done when it gets the
  write lock, and whether the transport takes it.
\<close>

record push_env =
  pe_encodes :: bool
  pe_ctxDone :: bool
  pe_sends :: bool

datatype push_result = PushEncodeFailed | PushNotAttempted | PushNotOwner | PushStale | PushSendFailed | Pushed

definition PushTo :: "push_env \<Rightarrow> int \<Rightarrow> int \<Rightarrow> barrier \<Rightarrow> push_result \<times> barrier" where
  "PushTo env owner pts b =
     (if \<not> pe_encodes env then (PushEncodeFailed, b)
      else if pe_ctxDone env then (PushNotAttempted, b)
      else if br_owner b \<noteq> owner then (PushNotOwner, b)
      else if \<not> pe_sends env then (PushSendFailed, b)
      else (Pushed, if pts > 0 then b\<lparr>br_lastPushedPts := pts\<rparr> else b))"

definition PushToAtWatermark :: "push_env \<Rightarrow> int \<Rightarrow> int \<Rightarrow> int \<Rightarrow> barrier \<Rightarrow> push_result \<times> barrier" where
  "PushToAtWatermark env owner expectedPts pts b =
     (if \<not> pe_encodes env then (PushEncodeFailed, b)
      else if pe_ctxDone env then (PushNotAttempted, b)
      else if br_owner b \<noteq> owner then (PushNotOwner, b)
      else if br_lastPushedPts b \<noteq> expectedPts then (PushStale, b)
      else if \<not> pe_sends env then (PushSendFailed, b)
      else (Pushed, if pts > 0 \<and> pts > br_lastPushedPts b then b\<lparr>br_lastPushedPts := pts\<rparr> else b))"

end
