(* ===== verification/Barrier_Spec.thy ===== *)
theory Barrier_Spec
  imports Rpc_Barrier
begin

text \<open>
  The contract of the sender-result barriers: the abstract barrier, the simulation that shows the
  connection's slices (\<open>Rpc_Barrier\<close>) implement it operation by operation, and what the contract
  guarantees over every sequence of operations.
\<close>

section \<open>The abstract barrier\<close>

text \<open>
  What the connection promises: a queue of entries, each known by its id, followed by a bounded
  overflow and, beyond that, a saturated hold; all of it belongs to the current owner and key.
\<close>

record barrier_spec =
  bs_owner :: int
  bs_key :: int
  bs_last :: int
  bs_queue :: "overflow_entry list"
  bs_overflow :: "overflow_entry list"
  bs_saturated :: bool
  bs_nextID :: pending_id

definition bound_to :: "int \<Rightarrow> int \<Rightarrow> barrier_spec \<Rightarrow> bool" where
  "bound_to owner key a \<longleftrightarrow> bs_owner a = owner \<and> bs_key a = key"

definition spec_raise :: "int \<Rightarrow> barrier_spec \<Rightarrow> barrier_spec" where
  "spec_raise pts a = a\<lparr>bs_last := max pts (bs_last a)\<rparr>"

definition spec_pop :: "barrier_spec \<Rightarrow> barrier_spec" where
  "spec_pop a = (if bs_queue a \<noteq> [] then a\<lparr>bs_queue := tl (bs_queue a)\<rparr>
                 else a\<lparr>bs_overflow := tl (bs_overflow a)\<rparr>)"

definition spec_mark :: "int \<Rightarrow> int \<Rightarrow> int \<Rightarrow> barrier_spec \<Rightarrow> bool \<times> barrier_spec" where
  "spec_mark owner key pts a =
     (if key = 0 \<or> pts \<le> 0 \<or> \<not> bound_to owner key a then (False, a)
      else case bs_queue a @ bs_overflow a of
             [] \<Rightarrow> (True, spec_raise pts a)
           | e # _ \<Rightarrow>
               if oe_pts e = 0 then (False, a)
               else if oe_pts e \<noteq> pts then (pts \<le> bs_last a, a)
               else (True, spec_pop (spec_raise pts a)))"

definition spec_reservation :: "int \<Rightarrow> int \<Rightarrow> pending_id \<Rightarrow> bool \<Rightarrow> bool \<Rightarrow> rpc_reservation" where
  "spec_reservation owner key n owned overflow =
     \<lparr>rv_owner = owner, rv_authKey = key, rv_id = n, rv_owned = owned, rv_overflow = overflow\<rparr>"

definition spec_begin :: "int \<Rightarrow> int \<Rightarrow> int \<Rightarrow> barrier_spec \<Rightarrow> (rpc_reservation \<times> bool) \<times> barrier_spec" where
  "spec_begin owner key pts a =
     (let res = spec_reservation owner key; n = next_id (bs_nextID a) in
      if owner \<le> 0 \<or> key = 0 \<or> pts < 0 \<or> \<not> bound_to owner key a then ((no_reservation, False), a)
      else case find (\<lambda>e. 0 < pts \<and> oe_pts e = pts) (bs_queue a) of
             Some e \<Rightarrow> ((res (oe_id e) False False, True), a)
           | None \<Rightarrow>
      case find (\<lambda>e. 0 < pts \<and> oe_pts e = pts) (bs_overflow a) of
             Some e \<Rightarrow> ((res (oe_id e) False True, True), a)
           | None \<Rightarrow>
      if bs_saturated a then ((res 0 False True, False), a)
      else if bs_overflow a = [] \<and> length (bs_queue a) < 64
      then ((res n True False, True),
            a\<lparr>bs_nextID := n, bs_queue := bs_queue a @ [\<lparr>oe_id = n, oe_pts = pts, oe_ready = False\<rparr>]\<rparr>)
      else if length (bs_overflow a) < 64
      then ((res n True True, False),
            a\<lparr>bs_nextID := n, bs_overflow := bs_overflow a @ [\<lparr>oe_id = n, oe_pts = 0, oe_ready = False\<rparr>]\<rparr>)
      else ((res 0 False True, False), a\<lparr>bs_saturated := True\<rparr>))"

definition set_pts_at :: "nat \<Rightarrow> int \<Rightarrow> overflow_entry list \<Rightarrow> overflow_entry list" where
  "set_pts_at i pts es = es[i := (es ! i)\<lparr>oe_pts := pts\<rparr>]"

definition set_ready_at :: "nat \<Rightarrow> overflow_entry list \<Rightarrow> overflow_entry list" where
  "set_ready_at i es = es[i := (es ! i)\<lparr>oe_ready := True\<rparr>]"

definition spec_set_pts :: "int \<Rightarrow> int \<Rightarrow> int \<Rightarrow> barrier_spec \<Rightarrow> bool \<times> barrier_spec" where
  "spec_set_pts owner key pts a =
     (if owner \<le> 0 \<or> key = 0 \<or> pts \<le> 0 \<or> \<not> bound_to owner key a then (False, a)
      else case find_last_index (\<lambda>e. oe_pts e = 0) (bs_queue a) of
             Some i \<Rightarrow> (True, a\<lparr>bs_queue := set_pts_at i pts (bs_queue a)\<rparr>)
           | None \<Rightarrow> (False, a))"

text \<open>Recording a pts on the entry a reservation names, in one of the two lists.\<close>

definition entry_set_pts :: "pending_id \<Rightarrow> bool \<Rightarrow> int \<Rightarrow> overflow_entry list \<Rightarrow> bool \<times> overflow_entry list" where
  "entry_set_pts n owned pts es =
     (case find_index (\<lambda>e. oe_id e = n) es of
        None \<Rightarrow> (False, es)
      | Some i \<Rightarrow> if owned \<and> oe_pts (es ! i) = 0 then (True, set_pts_at i pts es)
                  else (oe_pts (es ! i) = pts, es))"

definition spec_set_pts_of :: "rpc_reservation \<Rightarrow> int \<Rightarrow> barrier_spec \<Rightarrow> bool \<times> barrier_spec" where
  "spec_set_pts_of r pts a =
     (if pts \<le> 0 \<or> \<not> bound_to (rv_owner r) (rv_authKey r) a then (False, a)
      else if rv_overflow r \<and> rv_id r = 0 then (bs_saturated a, a)
      else if rv_overflow r then
        (let (ok, es) = entry_set_pts (rv_id r) (rv_owned r) pts (bs_overflow a) in (ok, a\<lparr>bs_overflow := es\<rparr>))
      else if rv_owned r then
        (let (ok, es) = entry_set_pts (rv_id r) True pts (bs_queue a) in (ok, a\<lparr>bs_queue := es\<rparr>))
      else (False, a))"

definition entry_clear :: "pending_id \<Rightarrow> overflow_entry list \<Rightarrow> bool \<times> overflow_entry list" where
  "entry_clear n es =
     (case find_index (\<lambda>e. oe_id e = n) es of None \<Rightarrow> (False, es) | Some i \<Rightarrow> (True, remove_at i es))"

definition spec_clear :: "int \<Rightarrow> int \<Rightarrow> barrier_spec \<Rightarrow> bool \<times> barrier_spec" where
  "spec_clear owner key a =
     (if owner \<le> 0 \<or> key = 0 \<or> \<not> bound_to owner key a \<or> bs_queue a = [] then (False, a)
      else (True, a\<lparr>bs_queue := butlast (bs_queue a)\<rparr>))"

definition spec_clear_of :: "rpc_reservation \<Rightarrow> barrier_spec \<Rightarrow> bool \<times> barrier_spec" where
  "spec_clear_of r a =
     (if \<not> rv_owned r \<or> \<not> bound_to (rv_owner r) (rv_authKey r) a then (False, a)
      else if \<not> rv_overflow r then
        (let (ok, es) = entry_clear (rv_id r) (bs_queue a) in (ok, a\<lparr>bs_queue := es\<rparr>))
      else if rv_id r = 0 then (False, a)
      else (let (ok, es) = entry_clear (rv_id r) (bs_overflow a) in (ok, a\<lparr>bs_overflow := es\<rparr>)))"

text \<open>
  A result that reached the wire: the newest entry of its pts is ready, and once the watermark has
  no gap before it, the entry is resolved.
\<close>

definition spec_result :: "int \<Rightarrow> int \<Rightarrow> int \<Rightarrow> barrier_spec \<Rightarrow> bool \<times> barrier_spec" where
  "spec_result owner key pts a =
     (if key = 0 \<or> pts \<le> 0 \<or> \<not> bound_to owner key a then (False, a)
      else
        (let qi = find_last_index (\<lambda>e. oe_pts e = pts) (bs_queue a);
             oi = find_last_index (\<lambda>e. oe_pts e = pts) (bs_overflow a);
             q = (case qi of Some i \<Rightarrow> set_ready_at i (bs_queue a) | None \<Rightarrow> bs_queue a);
             f = (case oi of Some j \<Rightarrow> set_ready_at j (bs_overflow a) | None \<Rightarrow> bs_overflow a) in
         (True,
          if pts > bs_last a + 1 then a\<lparr>bs_queue := q, bs_overflow := f\<rparr>
          else a\<lparr>bs_last := max pts (bs_last a),
                 bs_queue := (case qi of Some i \<Rightarrow> remove_at i q | None \<Rightarrow> q),
                 bs_overflow := (case (qi, oi) of (None, Some j) \<Rightarrow> remove_at j f | _ \<Rightarrow> f)\<rparr>)))"

definition spec_reset :: "barrier_spec \<Rightarrow> barrier_spec" where
  "spec_reset a = a\<lparr>bs_queue := [], bs_overflow := [], bs_saturated := False\<rparr>"

definition spec_rebind :: "int \<Rightarrow> barrier_spec \<Rightarrow> barrier_spec" where
  "spec_rebind userID a = (if bs_owner a = userID then a else spec_reset (a\<lparr>bs_owner := userID, bs_last := 0\<rparr>))"

definition spec_rekey :: "int \<Rightarrow> barrier_spec \<Rightarrow> barrier_spec" where
  "spec_rekey keyID a = (if bs_key a = keyID then a else spec_reset (a\<lparr>bs_key := keyID\<rparr>))"

definition spec_push :: "push_env \<Rightarrow> int \<Rightarrow> int \<Rightarrow> barrier_spec \<Rightarrow> push_result \<times> barrier_spec" where
  "spec_push env owner pts a =
     (if \<not> pe_encodes env then (PushEncodeFailed, a)
      else if pe_ctxDone env then (PushNotAttempted, a)
      else if bs_owner a \<noteq> owner then (PushNotOwner, a)
      else if \<not> pe_sends env then (PushSendFailed, a)
      else (Pushed, if pts > 0 then a\<lparr>bs_last := pts\<rparr> else a))"

definition spec_push_at :: "push_env \<Rightarrow> int \<Rightarrow> int \<Rightarrow> int \<Rightarrow> barrier_spec \<Rightarrow> push_result \<times> barrier_spec" where
  "spec_push_at env owner expected pts a =
     (if pe_encodes env \<and> \<not> pe_ctxDone env \<and> bs_owner a = owner \<and> bs_last a \<noteq> expected then (PushStale, a)
      else spec_push env owner (if pts > bs_last a then pts else 0) a)"

section \<open>Operations as events\<close>

datatype barrier_op =
    Mark int int int
  | Begin int int int
  | SetPts int int int
  | SetPtsOf rpc_reservation int
  | Clear int int
  | ClearOf rpc_reservation
  | Result int int int
  | Rebind int
  | Rekey int
  | Push push_env int int
  | PushAt push_env int int int

datatype barrier_out = OutBool bool | OutReservation rpc_reservation bool | OutPush push_result | OutUnit

fun barrier_do :: "barrier_op \<Rightarrow> barrier \<Rightarrow> barrier_out \<times> barrier" where
  "barrier_do (Mark owner key pts) b = map_prod OutBool id (MarkRPCUpdate owner key pts b)"
| "barrier_do (Begin owner key pts) b =
     map_prod (\<lambda>(r, ok). OutReservation r ok) id (BeginRPCUpdateAttempt owner key pts b)"
| "barrier_do (SetPts owner key pts) b = map_prod OutBool id (SetRPCUpdatePts owner key pts b)"
| "barrier_do (SetPtsOf r pts) b = map_prod OutBool id (SetRPCUpdatePtsAttempt r pts b)"
| "barrier_do (Clear owner key) b = map_prod OutBool id (ClearRPCUpdate owner key b)"
| "barrier_do (ClearOf r) b = map_prod OutBool id (ClearRPCUpdateAttempt r b)"
| "barrier_do (Result owner key pts) b = map_prod OutBool id (markRPCResultLocked owner key pts b)"
| "barrier_do (Rebind userID) b = (OutUnit, barrier_setOwner userID b)"
| "barrier_do (Rekey keyID) b = (OutUnit, barrier_setKey keyID b)"
| "barrier_do (Push env owner pts) b = map_prod OutPush id (PushTo env owner pts b)"
| "barrier_do (PushAt env owner expected pts) b = map_prod OutPush id (PushToAtWatermark env owner expected pts b)"

fun spec_do :: "barrier_op \<Rightarrow> barrier_spec \<Rightarrow> barrier_out \<times> barrier_spec" where
  "spec_do (Mark owner key pts) a = map_prod OutBool id (spec_mark owner key pts a)"
| "spec_do (Begin owner key pts) a = map_prod (\<lambda>(r, ok). OutReservation r ok) id (spec_begin owner key pts a)"
| "spec_do (SetPts owner key pts) a = map_prod OutBool id (spec_set_pts owner key pts a)"
| "spec_do (SetPtsOf r pts) a = map_prod OutBool id (spec_set_pts_of r pts a)"
| "spec_do (Clear owner key) a = map_prod OutBool id (spec_clear owner key a)"
| "spec_do (ClearOf r) a = map_prod OutBool id (spec_clear_of r a)"
| "spec_do (Result owner key pts) a = map_prod OutBool id (spec_result owner key pts a)"
| "spec_do (Rebind userID) a = (OutUnit, spec_rebind userID a)"
| "spec_do (Rekey keyID) a = (OutUnit, spec_rekey keyID a)"
| "spec_do (Push env owner pts) a = map_prod OutPush id (spec_push env owner pts a)"
| "spec_do (PushAt env owner expected pts) a = map_prod OutPush id (spec_push_at env owner expected pts a)"

section \<open>The code implements the contract\<close>

definition queue_of :: "barrier \<Rightarrow> overflow_entry list" where
  "queue_of b = map (\<lambda>((n, p), r). \<lparr>oe_id = n, oe_pts = p, oe_ready = r\<rparr>) (zip (zip (br_ids b) (br_pts b)) (br_ready b))"

definition spec_of :: "barrier \<Rightarrow> barrier_spec" where
  "spec_of b = \<lparr>bs_owner = br_owner b, bs_key = br_authKeyID b, bs_last = br_lastPushedPts b,
     bs_queue = queue_of b, bs_overflow = br_overflow b, bs_saturated = br_saturated b, bs_nextID = br_nextID b\<rparr>"

text \<open>The slices run in parallel and belong to the connection's current owner and key.\<close>

definition barrier_wf :: "barrier \<Rightarrow> bool" where
  "barrier_wf b \<longleftrightarrow> length (br_ids b) = length (br_pts b) \<and> length (br_ready b) = length (br_pts b) \<and>
     (br_pts b \<noteq> [] \<longrightarrow> br_pendingOwner b = br_owner b \<and> br_pendingAuthKey b = br_authKeyID b)"

lemma find_index_map: "find_index P (map f xs) = find_index (\<lambda>x. P (f x)) xs"
  by (induction xs) simp_all

lemma find_last_index_map: "find_last_index P (map f xs) = find_last_index (\<lambda>x. P (f x)) xs"
  by (simp add: find_last_index_def rev_map find_index_map)

lemma find_find_index: "find P xs = map_option (\<lambda>i. xs ! i) (find_index P xs)"
  by (induction xs) (auto simp: option.map_comp comp_def)

lemma zip_remove_at:
  "length xs = length ys \<Longrightarrow> zip (remove_at i xs) (remove_at i ys) = remove_at i (zip xs ys)"
  by (simp add: remove_at_def zip_append take_zip drop_zip)

lemma length_remove_at_eq: "length xs = length ys \<Longrightarrow> length (remove_at i xs) = length (remove_at i ys)"
  by (simp add: remove_at_def)

lemma length_queue_of: "barrier_wf b \<Longrightarrow> length (queue_of b) = length (br_pts b)"
  by (simp add: queue_of_def barrier_wf_def)

lemma nth_queue_of:
  "barrier_wf b \<Longrightarrow> i < length (br_pts b) \<Longrightarrow>
    queue_of b ! i = \<lparr>oe_id = br_ids b ! i, oe_pts = br_pts b ! i, oe_ready = br_ready b ! i\<rparr>"
  by (simp add: queue_of_def barrier_wf_def)

lemma queue_of_projections:
  assumes "barrier_wf b"
  shows "br_ids b = map oe_id (queue_of b)" "br_pts b = map oe_pts (queue_of b)"
    "br_ready b = map oe_ready (queue_of b)"
  using assms length_queue_of [OF assms] nth_queue_of [OF assms]
  by (auto simp: barrier_wf_def intro!: nth_equalityI)

text \<open>How each change of the slices looks on the queue.\<close>

lemma queue_of_overflow [simp]:
  "queue_of (b\<lparr>br_overflow := es\<rparr>) = queue_of b" "queue_of (b\<lparr>br_saturated := x\<rparr>) = queue_of b"
  "queue_of (b\<lparr>br_lastPushedPts := p\<rparr>) = queue_of b" "queue_of (b\<lparr>br_nextID := n\<rparr>) = queue_of b"
  "queue_of (raise_pts p b) = queue_of b"
  by (simp_all add: queue_of_def raise_pts_def)

lemma barrier_wf_other [simp]:
  "barrier_wf (b\<lparr>br_overflow := es\<rparr>) = barrier_wf b" "barrier_wf (b\<lparr>br_saturated := x\<rparr>) = barrier_wf b"
  "barrier_wf (b\<lparr>br_lastPushedPts := p\<rparr>) = barrier_wf b" "barrier_wf (b\<lparr>br_nextID := n\<rparr>) = barrier_wf b"
  "barrier_wf (raise_pts p b) = barrier_wf b"
  by (simp_all add: barrier_wf_def raise_pts_def)

lemma queue_of_remove:
  assumes "barrier_wf b" and "i < length (br_pts b)"
  shows "queue_of (removePendingRPCAtLocked i b) = remove_at i (queue_of b)"
    and "barrier_wf (removePendingRPCAtLocked i b)"
proof -
  from assms have l: "length (br_ids b) = length (br_pts b)" "length (br_ready b) = length (br_pts b)"
    by (simp_all add: barrier_wf_def)
  have z: "zip (zip (remove_at i (br_ids b)) (remove_at i (br_pts b))) (remove_at i (br_ready b)) =
      remove_at i (zip (zip (br_ids b) (br_pts b)) (br_ready b))"
    using l by (simp add: zip_remove_at)
  have e: "length (br_pts b) = Suc 0 \<Longrightarrow> remove_at i (zip (zip (br_ids b) (br_pts b)) (br_ready b)) = []"
    using l assms(2) length_remove_at [of i "zip (zip (br_ids b) (br_pts b)) (br_ready b)"]
    by (simp del: length_remove_at flip: length_0_conv)
  show "queue_of (removePendingRPCAtLocked i b) = remove_at i (queue_of b)"
    using assms(2) z e
    by (auto simp: removePendingRPCAtLocked_def queue_of_def Let_def map_remove_at [symmetric])
  show "barrier_wf (removePendingRPCAtLocked i b)"
    using assms l by (auto simp: removePendingRPCAtLocked_def barrier_wf_def Let_def)
qed

lemma remove_fields [simp]:
  "br_owner (removePendingRPCAtLocked i b) = br_owner b"
  "br_authKeyID (removePendingRPCAtLocked i b) = br_authKeyID b"
  "br_lastPushedPts (removePendingRPCAtLocked i b) = br_lastPushedPts b"
  "br_overflow (removePendingRPCAtLocked i b) = br_overflow b"
  "br_saturated (removePendingRPCAtLocked i b) = br_saturated b"
  "br_nextID (removePendingRPCAtLocked i b) = br_nextID b"
  by (simp_all add: removePendingRPCAtLocked_def Let_def)

lemma queue_of_set_pts:
  assumes "barrier_wf b" and "i < length (br_pts b)"
  shows "queue_of (b\<lparr>br_pts := (br_pts b)[i := p]\<rparr>) = set_pts_at i p (queue_of b)"
    and "barrier_wf (b\<lparr>br_pts := (br_pts b)[i := p]\<rparr>)"
proof -
  show w: "barrier_wf (b\<lparr>br_pts := (br_pts b)[i := p]\<rparr>)" using assms by (auto simp: barrier_wf_def)
  show "queue_of (b\<lparr>br_pts := (br_pts b)[i := p]\<rparr>) = set_pts_at i p (queue_of b)"
    by (rule nth_equalityI)
       (use assms w in \<open>auto simp: set_pts_at_def length_queue_of nth_queue_of nth_list_update\<close>)
qed

lemma queue_of_set_ready:
  assumes "barrier_wf b" and "i < length (br_pts b)"
  shows "queue_of (b\<lparr>br_ready := (br_ready b)[i := True]\<rparr>) = set_ready_at i (queue_of b)"
    and "barrier_wf (b\<lparr>br_ready := (br_ready b)[i := True]\<rparr>)"
proof -
  show w: "barrier_wf (b\<lparr>br_ready := (br_ready b)[i := True]\<rparr>)" using assms by (auto simp: barrier_wf_def)
  have "length (br_ready b) = length (br_pts b)" using assms by (simp add: barrier_wf_def)
  then show "queue_of (b\<lparr>br_ready := (br_ready b)[i := True]\<rparr>) = set_ready_at i (queue_of b)"
    by (intro nth_equalityI)
       (use assms w in \<open>auto simp: set_ready_at_def length_queue_of nth_queue_of nth_list_update\<close>)
qed

lemma queue_of_append:
  fixes n p
  assumes "barrier_wf b" and "br_owner b = owner" and "br_authKeyID b = key"
  defines "b' \<equiv> b\<lparr>br_nextID := n, br_pendingOwner := owner, br_pendingAuthKey := key,
    br_pts := br_pts b @ [p], br_ids := br_ids b @ [n], br_ready := br_ready b @ [False]\<rparr>"
  shows "queue_of b' = queue_of b @ [\<lparr>oe_id = n, oe_pts = p, oe_ready = False\<rparr>]"
    and "barrier_wf b'"
  using assms by (auto simp: queue_of_def barrier_wf_def)

lemma queue_of_clear [simp]: "queue_of (clear_barriers b) = []" "barrier_wf (clear_barriers b)"
  by (simp_all add: queue_of_def barrier_wf_def clear_barriers_def)

text \<open>The simulation, one lemma per operation.\<close>

definition simulates :: "('o \<times> barrier) \<Rightarrow> ('o \<times> barrier_spec) \<Rightarrow> bool" where
  "simulates x y \<longleftrightarrow> barrier_wf (snd x) \<and> y = (fst x, spec_of (snd x))"

lemma simulatesI: "barrier_wf b' \<Longrightarrow> spec_of b' = a' \<Longrightarrow> simulates (x, b') (x, a')"
  by (simp add: simulates_def)

lemma spec_of_fields [simp]:
  "bs_owner (spec_of b) = br_owner b" "bs_key (spec_of b) = br_authKeyID b"
  "bs_last (spec_of b) = br_lastPushedPts b" "bs_queue (spec_of b) = queue_of b"
  "bs_overflow (spec_of b) = br_overflow b" "bs_saturated (spec_of b) = br_saturated b"
  "bs_nextID (spec_of b) = br_nextID b"
  by (simp_all add: spec_of_def)

lemma bound_to_spec_of [simp]:
  "bound_to owner key (spec_of b) \<longleftrightarrow> br_owner b = owner \<and> br_authKeyID b = key"
  by (simp add: bound_to_def)

lemma queue_of_Nil: "barrier_wf b \<Longrightarrow> queue_of b = [] \<longleftrightarrow> br_pts b = []"
  using length_queue_of [of b] by (metis length_0_conv)

lemma spec_of_raise: "spec_of (raise_pts p b) = spec_raise p (spec_of b)"
  by (auto simp: spec_of_def spec_raise_def raise_pts_def queue_of_def)

lemma spec_of_remove:
  "barrier_wf b \<Longrightarrow> i < length (br_pts b) \<Longrightarrow>
    spec_of (removePendingRPCAtLocked i b) = (spec_of b)\<lparr>bs_queue := remove_at i (queue_of b)\<rparr>"
  by (simp add: spec_of_def queue_of_remove)

lemma spec_of_remove_overflow:
  "spec_of (removePendingRPCOverflowAtLocked i b) = (spec_of b)\<lparr>bs_overflow := remove_at i (br_overflow b)\<rparr>"
  by (simp add: spec_of_def removePendingRPCOverflowAtLocked_def)

lemma spec_of_set_pts:
  "barrier_wf b \<Longrightarrow> i < length (br_pts b) \<Longrightarrow>
    spec_of (b\<lparr>br_pts := (br_pts b)[i := p]\<rparr>) = (spec_of b)\<lparr>bs_queue := set_pts_at i p (queue_of b)\<rparr>"
  by (simp add: spec_of_def queue_of_set_pts)

lemma spec_of_overflow: "spec_of (b\<lparr>br_overflow := es\<rparr>) = (spec_of b)\<lparr>bs_overflow := es\<rparr>"
  by (simp add: spec_of_def)

lemma spec_of_updates:
  "spec_of (b\<lparr>br_nextID := n, br_overflow := es\<rparr>) = (spec_of b)\<lparr>bs_nextID := n, bs_overflow := es\<rparr>"
  "spec_of (b\<lparr>br_saturated := x\<rparr>) = (spec_of b)\<lparr>bs_saturated := x\<rparr>"
  by (simp_all add: spec_of_def)

lemma spec_same [simp]: "(spec_of b)\<lparr>bs_queue := queue_of b\<rparr> = spec_of b" "(spec_of b)\<lparr>bs_overflow := br_overflow b\<rparr> = spec_of b"
  by (simp_all add: spec_of_def)

lemma sim_mark:
  assumes wf: "barrier_wf b"
  shows "simulates (MarkRPCUpdate owner key pts b) (spec_mark owner key pts (spec_of b))"
proof (cases "key = 0 \<or> pts \<le> 0 \<or> \<not> bound_to owner key (spec_of b)")
  case True
  then show ?thesis
    using wf by (auto simp: MarkRPCUpdate_def markRPCUpdateLocked_def spec_mark_def simulates_def)
next
  case False
  then have ok: "key \<noteq> 0" "\<not> pts \<le> 0" "br_owner b = owner" "br_authKeyID b = key" by auto
  show ?thesis
  proof (cases "br_pts b")
    case (Cons p ps)
    then have q: "queue_of b \<noteq> []" "oe_pts (hd (queue_of b)) = p"
      using wf nth_queue_of [OF wf, of 0] by (simp_all add: queue_of_Nil hd_conv_nth)
    then obtain e es where e: "queue_of b = e # es" "oe_pts e = p" by (cases "queue_of b") auto
    have rm: "barrier_wf (removePendingRPCAtLocked 0 (raise_pts pts b))"
      "spec_of (removePendingRPCAtLocked 0 (raise_pts pts b)) = spec_pop (spec_raise pts (spec_of b))"
      using wf Cons queue_of_remove [of "raise_pts pts b" 0] spec_of_remove [of "raise_pts pts b" 0] q(1)
      by (simp_all add: raise_pts_def spec_of_raise spec_pop_def spec_raise_def split: if_splits)
    then show ?thesis
      using ok wf Cons e
      by (auto simp: MarkRPCUpdate_def markRPCUpdateLocked_def spec_mark_def intro!: simulatesI)
  next
    case Nil
    then have q: "queue_of b = []" using wf by (simp add: queue_of_Nil)
    have "barrier_wf (removePendingRPCOverflowAtLocked 0 (raise_pts pts b))"
      "spec_of (removePendingRPCOverflowAtLocked 0 (raise_pts pts b)) = spec_pop (spec_raise pts (spec_of b))"
      using wf q by (simp_all add: removePendingRPCOverflowAtLocked_def spec_of_overflow spec_of_raise spec_pop_def
          spec_raise_def raise_pts_def)
    then show ?thesis
      using ok wf Nil q
      by (cases "br_overflow b")
         (auto simp: MarkRPCUpdate_def markRPCUpdateLocked_def spec_mark_def spec_of_raise intro!: simulatesI)
  qed
qed

lemma find_False [simp]: "find (\<lambda>x. False) xs = None"
  by (induction xs) simp_all

lemma find_pts_queue:
  assumes wf: "barrier_wf b" and "0 < pts"
  shows "find (\<lambda>e. 0 < pts \<and> oe_pts e = pts) (queue_of b) =
    map_option (\<lambda>i. queue_of b ! i) (find_index (\<lambda>p. p = pts) (br_pts b))"
  using assms(2) by (simp add: find_find_index queue_of_projections(2) [OF wf] find_index_map)

lemma sim_begin_fresh:
  assumes wf: "barrier_wf b" and ok: "0 < owner" "key \<noteq> 0" "br_owner b = owner" "br_authKeyID b = key"
    and none: "(if pts > 0 then find_index (\<lambda>p. p = pts) (br_pts b) else None) = None"
      "(if pts > 0 then find_index (\<lambda>e. oe_pts e = pts) (br_overflow b) else None) = None" and "0 \<le> pts"
  shows "simulates (BeginRPCUpdateAttempt owner key pts b) (spec_begin owner key pts (spec_of b))"
proof -
  have f: "find (\<lambda>e. 0 < pts \<and> oe_pts e = pts) (queue_of b) = None"
    "find (\<lambda>e. 0 < pts \<and> oe_pts e = pts) (br_overflow b) = None"
    using none find_pts_queue [OF wf, of pts] by (cases "0 < pts"; simp add: find_find_index)+
  note len = length_queue_of [OF wf]
  note app = queue_of_append [OF wf ok(3,4)]
  have begin_o: "barrier_wf (snd (begin_overflow owner key b))" using wf by (simp add: begin_overflow_def Let_def)
  show ?thesis
  proof (cases "br_overflow b = [] \<and> length (br_pts b) < 64 \<and> \<not> br_saturated b")
    case True
    then show ?thesis
      unfolding BeginRPCUpdateAttempt_def spec_begin_def none spec_of_fields f
      using ok assms(8) wf app len
      by (simp add: simulates_def maxPendingRPCUpdates_def spec_reservation_def Let_def)
  next
    case False
    then show ?thesis
      unfolding BeginRPCUpdateAttempt_def spec_begin_def none spec_of_fields f
      using ok assms(8) wf begin_o len
      by (auto simp: simulates_def maxPendingRPCUpdates_def maxPendingRPCOverflowUpdates_def
          begin_overflow_def spec_reservation_def Let_def spec_of_updates)
  qed
qed

lemma sim_begin:
  assumes wf: "barrier_wf b"
  shows "simulates (BeginRPCUpdateAttempt owner key pts b) (spec_begin owner key pts (spec_of b))"
proof (cases "owner \<le> 0 \<or> key = 0 \<or> pts < 0 \<or> \<not> bound_to owner key (spec_of b)")
  case True
  then show ?thesis
    using wf by (auto simp: BeginRPCUpdateAttempt_def spec_begin_def simulates_def Let_def)
next
  case False
  then have ok: "0 < owner" "key \<noteq> 0" "br_owner b = owner" "br_authKeyID b = key" "0 \<le> pts" by auto
  consider (fresh) "(if pts > 0 then find_index (\<lambda>p. p = pts) (br_pts b) else None) = None"
      "(if pts > 0 then find_index (\<lambda>e. oe_pts e = pts) (br_overflow b) else None) = None"
    | (queued) i where "0 < pts" "find_index (\<lambda>p. p = pts) (br_pts b) = Some i"
    | (over) j where "0 < pts" "find_index (\<lambda>p. p = pts) (br_pts b) = None"
        "find_index (\<lambda>e. oe_pts e = pts) (br_overflow b) = Some j"
    by (cases "0 < pts"; cases "find_index (\<lambda>p. p = pts) (br_pts b)";
        cases "find_index (\<lambda>e. oe_pts e = pts) (br_overflow b)") simp_all
  then show ?thesis
  proof cases
    case fresh
    then show ?thesis by (rule sim_begin_fresh [OF wf ok(1-4) _ _ ok(5)])
  next
    case (queued i)
    then have "i < length (br_pts b)" by (simp add: find_index_Some_nth(2))
    then have "oe_id (queue_of b ! i) = br_ids b ! i" by (simp add: nth_queue_of [OF wf])
    with queued ok wf find_pts_queue [OF wf queued(1)] show ?thesis
      by (simp add: BeginRPCUpdateAttempt_def spec_begin_def simulates_def spec_reservation_def Let_def)
  next
    case (over j)
    with ok wf find_pts_queue [OF wf over(1)] show ?thesis
      by (simp add: BeginRPCUpdateAttempt_def spec_begin_def simulates_def spec_reservation_def Let_def
          find_find_index)
  qed
qed

lemma sim_set_pts:
  assumes wf: "barrier_wf b"
  shows "simulates (SetRPCUpdatePts owner key pts b) (spec_set_pts owner key pts (spec_of b))"
proof -
  have eq: "find_last_index (\<lambda>e. oe_pts e = 0) (queue_of b) = find_last_index (\<lambda>p. p = 0) (br_pts b)"
    by (simp add: queue_of_projections(2) [OF wf] find_last_index_map)
  have own: "br_pendingOwner b = br_owner b \<and> br_pendingAuthKey b = br_authKeyID b" if "br_pts b \<noteq> []"
    using wf that by (simp add: barrier_wf_def)
  show ?thesis
  proof (cases "find_last_index (\<lambda>p. p = 0) (br_pts b)")
    case None
    then show ?thesis
      using wf by (auto simp: SetRPCUpdatePts_def spec_set_pts_def simulates_def eq)
  next
    case (Some i)
    then have i: "i < length (br_pts b)" using find_last_index_SomeD [of "\<lambda>p. p = 0" "br_pts b" i] by blast
    then have "br_pts b \<noteq> []" by auto
    with own wf i Some show ?thesis
      by (auto simp: SetRPCUpdatePts_def spec_set_pts_def simulates_def eq spec_of_set_pts queue_of_set_pts)
  qed
qed

lemma sim_set_pts_of:
  assumes wf: "barrier_wf b"
  shows "simulates (SetRPCUpdatePtsAttempt r pts b) (spec_set_pts_of r pts (spec_of b))"
proof (cases "rv_overflow r \<or> \<not> rv_owned r \<or> pts \<le> 0 \<or> \<not> bound_to (rv_owner r) (rv_authKey r) (spec_of b)")
  case True
  then show ?thesis
    using wf
    by (auto simp: SetRPCUpdatePtsAttempt_def spec_set_pts_of_def simulates_def entry_set_pts_def set_pts_at_def
        spec_of_overflow split: option.split)
next
  case False
  have eq: "find_index (\<lambda>e. oe_id e = rv_id r) (queue_of b) = find_index (\<lambda>n. n = rv_id r) (br_ids b)"
    by (simp add: queue_of_projections(1) [OF wf] find_index_map)
  show ?thesis
  proof (cases "find_index (\<lambda>n. n = rv_id r) (br_ids b)")
    case None
    with False wf show ?thesis
      by (auto simp: SetRPCUpdatePtsAttempt_def spec_set_pts_of_def simulates_def entry_set_pts_def eq)
  next
    case (Some i)
    then have i: "i < length (br_pts b)"
      using find_index_Some_nth(2) [OF Some] wf by (simp add: barrier_wf_def)
    then have own: "br_pendingOwner b = br_owner b" "br_pendingAuthKey b = br_authKeyID b"
      using wf by (auto simp: barrier_wf_def)
    from i have p: "oe_pts (queue_of b ! i) = br_pts b ! i" by (simp add: nth_queue_of [OF wf])
    from False wf i own Some show ?thesis
      by (auto simp: SetRPCUpdatePtsAttempt_def spec_set_pts_of_def simulates_def entry_set_pts_def eq p
          spec_of_set_pts queue_of_set_pts)
  qed
qed

lemma remove_at_last: "xs \<noteq> [] \<Longrightarrow> remove_at (length xs - Suc 0) xs = butlast xs"
  by (simp add: remove_at_def butlast_conv_take)

lemma sim_clear:
  assumes wf: "barrier_wf b"
  shows "simulates (ClearRPCUpdate owner key b) (spec_clear owner key (spec_of b))"
proof (cases "br_pts b = []")
  case True
  with wf show ?thesis
    by (auto simp: ClearRPCUpdate_def clearRPCUpdateLocked_def spec_clear_def simulates_def queue_of_Nil)
next
  case False
  then have own: "br_pendingOwner b = br_owner b" "br_pendingAuthKey b = br_authKeyID b"
    and q: "queue_of b \<noteq> []" and i: "length (br_pts b) - Suc 0 < length (br_pts b)"
    using wf by (auto simp: barrier_wf_def queue_of_Nil)
  have "remove_at (length (br_pts b) - Suc 0) (queue_of b) = butlast (queue_of b)"
    using remove_at_last [OF q] by (simp add: length_queue_of [OF wf])
  with False own q i wf show ?thesis
    by (auto simp: ClearRPCUpdate_def clearRPCUpdateLocked_def spec_clear_def simulates_def
        spec_of_remove queue_of_remove)
qed

lemma sim_clear_of:
  assumes wf: "barrier_wf b"
  shows "simulates (ClearRPCUpdateAttempt r b) (spec_clear_of r (spec_of b))"
proof (cases "rv_overflow r \<or> \<not> rv_owned r")
  case True
  then show ?thesis
    using wf
    by (auto simp: ClearRPCUpdateAttempt_def spec_clear_of_def simulates_def entry_clear_def
        spec_of_remove_overflow removePendingRPCOverflowAtLocked_def spec_of_overflow split: option.split)
next
  case False
  have eq: "find_index (\<lambda>e. oe_id e = rv_id r) (queue_of b) = find_index (\<lambda>n. n = rv_id r) (br_ids b)"
    by (simp add: queue_of_projections(1) [OF wf] find_index_map)
  show ?thesis
  proof (cases "find_index (\<lambda>n. n = rv_id r) (br_ids b)")
    case None
    with False wf show ?thesis
      by (auto simp: ClearRPCUpdateAttempt_def spec_clear_of_def simulates_def entry_clear_def eq)
  next
    case (Some i)
    then have i: "i < length (br_pts b)"
      using find_index_Some_nth(2) [OF Some] wf by (simp add: barrier_wf_def)
    then have "br_pendingOwner b = br_owner b" "br_pendingAuthKey b = br_authKeyID b"
      using wf by (auto simp: barrier_wf_def)
    with False wf i Some show ?thesis
      by (auto simp: ClearRPCUpdateAttempt_def spec_clear_of_def simulates_def entry_clear_def eq
          spec_of_remove queue_of_remove)
  qed
qed

lemma set_ready_remove: "i < length es \<Longrightarrow> remove_at i (set_ready_at i es) = remove_at i es"
  by (simp add: remove_at_def set_ready_at_def)

lemma length_set_ready [simp]: "length (set_ready_at i es) = length es"
  by (simp add: set_ready_at_def)

text \<open>The barrier after the ready marks of a result.\<close>

lemma result_marks:
  fixes oi
  assumes wf: "barrier_wf b" and i: "\<And>i. pi = Some i \<Longrightarrow> i < length (br_pts b)"
  defines "b1 \<equiv> (case pi of
       Some i \<Rightarrow> if i < length (br_ready b) then b\<lparr>br_ready := (br_ready b)[i := True]\<rparr> else b
     | None \<Rightarrow> b)"
  defines "b2 \<equiv> (case oi of
       Some j \<Rightarrow> b1\<lparr>br_overflow := (br_overflow b1)[j := (br_overflow b1 ! j)\<lparr>oe_ready := True\<rparr>]\<rparr>
     | None \<Rightarrow> b1)"
  shows "barrier_wf b2" "br_pts b2 = br_pts b" "br_lastPushedPts b2 = br_lastPushedPts b"
    "spec_of b2 = (spec_of b)\<lparr>
      bs_queue := (case pi of Some i \<Rightarrow> set_ready_at i (queue_of b) | None \<Rightarrow> queue_of b),
      bs_overflow := (case oi of Some j \<Rightarrow> set_ready_at j (br_overflow b) | None \<Rightarrow> br_overflow b)\<rparr>"
proof -
  have l: "length (br_ready b) = length (br_pts b)" using wf by (simp add: barrier_wf_def)
  have b1: "barrier_wf b1" "br_pts b1 = br_pts b" "br_overflow b1 = br_overflow b"
    "br_lastPushedPts b1 = br_lastPushedPts b"
    "spec_of b1 = (spec_of b)\<lparr>bs_queue := (case pi of Some i \<Rightarrow> set_ready_at i (queue_of b) | None \<Rightarrow> queue_of b)\<rparr>"
    using wf i l queue_of_set_ready [OF wf] by (auto simp: b1_def spec_of_def split: option.split)
  then show "barrier_wf b2" "br_pts b2 = br_pts b" "br_lastPushedPts b2 = br_lastPushedPts b"
    by (auto simp: b2_def split: option.split)
  show "spec_of b2 = (spec_of b)\<lparr>
      bs_queue := (case pi of Some i \<Rightarrow> set_ready_at i (queue_of b) | None \<Rightarrow> queue_of b),
      bs_overflow := (case oi of Some j \<Rightarrow> set_ready_at j (br_overflow b) | None \<Rightarrow> br_overflow b)\<rparr>"
    using b1 by (auto simp: b2_def spec_of_overflow set_ready_at_def split: option.split)
qed

lemma spec_of_drop_resolved:
  assumes "barrier_wf b" and "\<And>i. pi = Some i \<Longrightarrow> i < length (br_pts b)"
  shows "barrier_wf (drop_resolved pi oi b)"
    and "spec_of (drop_resolved pi oi b) = (spec_of b)\<lparr>
      bs_queue := (case pi of Some i \<Rightarrow> remove_at i (queue_of b) | None \<Rightarrow> queue_of b),
      bs_overflow := (case (pi, oi) of (None, Some j) \<Rightarrow> remove_at j (br_overflow b) | _ \<Rightarrow> br_overflow b)\<rparr>"
  using assms queue_of_remove(2) [OF assms(1)] spec_of_remove [OF assms(1)]
  by (auto simp: drop_resolved_def spec_of_remove_overflow removePendingRPCOverflowAtLocked_def spec_of_overflow
      spec_of_def split: option.split)

lemma sim_result:
  assumes wf: "barrier_wf b"
  shows "simulates (markRPCResultLocked owner key pts b) (spec_result owner key pts (spec_of b))"
proof (cases "key = 0 \<or> pts \<le> 0 \<or> \<not> bound_to owner key (spec_of b)")
  case True
  then show ?thesis
    using wf by (auto simp: markRPCResultLocked_def spec_result_def simulates_def)
next
  case False
  then have ok: "key \<noteq> 0" "\<not> pts \<le> 0" "br_owner b = owner" "br_authKeyID b = key" by auto
  define pi where "pi = find_last_index (\<lambda>p. p = pts) (br_pts b)"
  define oi where "oi = find_last_index (\<lambda>e. oe_pts e = pts) (br_overflow b)"
  have eqs: "find_last_index (\<lambda>e. oe_pts e = pts) (queue_of b) = pi"
    by (simp add: pi_def queue_of_projections(2) [OF wf] find_last_index_map)
  have own: "(if br_pendingOwner b = owner \<and> br_pendingAuthKey b = key
      then find_last_index (\<lambda>p. p = pts) (br_pts b) else None) = pi"
    using wf ok by (cases "br_pts b = []") (auto simp: pi_def barrier_wf_def find_last_index_def)
  have i: "i < length (br_pts b)" if "pi = Some i" for i
    using that find_last_index_SomeD [of "\<lambda>p. p = pts" "br_pts b" i] by (simp add: pi_def)
  define b1 where "b1 = (case pi of
       Some i \<Rightarrow> if i < length (br_ready b) then b\<lparr>br_ready := (br_ready b)[i := True]\<rparr> else b
     | None \<Rightarrow> b)"
  define b2 where "b2 = (case oi of
       Some j \<Rightarrow> b1\<lparr>br_overflow := (br_overflow b1)[j := (br_overflow b1 ! j)\<lparr>oe_ready := True\<rparr>]\<rparr>
     | None \<Rightarrow> b1)"
  note m = result_marks [OF wf i, of pi oi, folded b1_def, folded b2_def]
  have code: "markRPCResultLocked owner key pts b = (True,
      if pts \<le> br_lastPushedPts b then drop_resolved pi oi b2
      else if pts = br_lastPushedPts b + 1 then drop_resolved pi oi (b2\<lparr>br_lastPushedPts := pts\<rparr>) else b2)"
    using ok unfolding markRPCResultLocked_def own oi_def [symmetric] Let_def b2_def b1_def by simp
  define b3 where "b3 = b2\<lparr>br_lastPushedPts := max pts (br_lastPushedPts b)\<rparr>"
  have b3: "barrier_wf b3" "br_pts b3 = br_pts b"
      "spec_of b3 = (spec_of b2)\<lparr>bs_last := max pts (br_lastPushedPts b)\<rparr>"
    using m(1,2) by (simp_all add: b3_def spec_of_def)
  have keep: "drop_resolved pi oi b2 = drop_resolved pi oi b3" if "pts \<le> br_lastPushedPts b"
    using that by (simp add: b3_def max_absorb2 flip: m(3))
  have raise: "b2\<lparr>br_lastPushedPts := pts\<rparr> = b3" if "pts = br_lastPushedPts b + 1"
    using that by (simp add: b3_def)
  have d: "barrier_wf (drop_resolved pi oi b3)"
    "spec_of (drop_resolved pi oi b3) = (spec_of b3)\<lparr>
      bs_queue := (case pi of Some i \<Rightarrow> remove_at i (queue_of b3) | None \<Rightarrow> queue_of b3),
      bs_overflow := (case (pi, oi) of (None, Some j) \<Rightarrow> remove_at j (br_overflow b3) | _ \<Rightarrow> br_overflow b3)\<rparr>"
    by (rule spec_of_drop_resolved; use b3 i in simp)+
  have q3: "queue_of b3 = (case pi of Some i \<Rightarrow> set_ready_at i (queue_of b) | None \<Rightarrow> queue_of b)"
      "br_overflow b3 = (case oi of Some j \<Rightarrow> set_ready_at j (br_overflow b) | None \<Rightarrow> br_overflow b)"
    using arg_cong [OF m(4), of bs_queue] arg_cong [OF m(4), of bs_overflow] by (simp_all add: b3_def)
  show ?thesis
  proof (cases "pts > br_lastPushedPts b + 1")
    case True
    then show ?thesis
      using m(1,4) ok
      unfolding code simulates_def spec_result_def spec_of_fields eqs oi_def [symmetric] Let_def by simp
  next
    case False
    then have run: "markRPCResultLocked owner key pts b = (True, drop_resolved pi oi b3)"
      unfolding code using keep raise by (cases "pts \<le> br_lastPushedPts b") simp_all
    have "spec_of (drop_resolved pi oi b3) = snd (spec_result owner key pts (spec_of b))"
      using False ok unfolding d(2) q3 b3(3) spec_result_def spec_of_fields eqs oi_def [symmetric] Let_def
      by (simp add: m(4) split: option.split)
    moreover have "fst (spec_result owner key pts (spec_of b))"
      using ok by (simp add: spec_result_def Let_def)
    ultimately show ?thesis
      unfolding run simulates_def using d(1) by (simp add: prod_eq_iff)
  qed
qed

lemma sim_rebind:
  assumes "barrier_wf b"
  shows "simulates ((), barrier_setOwner u b) ((), spec_rebind u (spec_of b))"
    and "simulates ((), barrier_setKey k b) ((), spec_rekey k (spec_of b))"
  using assms
  by (auto simp: simulates_def barrier_setOwner_def barrier_setKey_def spec_rebind_def spec_rekey_def spec_reset_def
      clear_barriers_def spec_of_def queue_of_def barrier_wf_def)

lemma sim_push:
  assumes "barrier_wf b"
  shows "simulates (PushTo env owner pts b) (spec_push env owner pts (spec_of b))"
    and "simulates (PushToAtWatermark env owner expected pts b) (spec_push_at env owner expected pts (spec_of b))"
  using assms
  by (auto simp: simulates_def PushTo_def PushToAtWatermark_def spec_push_def spec_push_at_def spec_of_def)

lemmas sims = sim_mark sim_begin sim_set_pts sim_set_pts_of sim_clear sim_clear_of sim_result sim_rebind sim_push

section \<open>Properties\<close>

text \<open>
  C13. The connection's barrier code implements its contract: from any well-formed state, every
  operation returns what the abstract barrier returns, leaves the state the abstract barrier is
  left in, and keeps the three slices aligned and tied to the current owner and auth key.
\<close>

theorem barrier_refines:
  assumes "barrier_wf b" and "barrier_do op b = (out, b')"
  shows "barrier_wf b' \<and> spec_do op (spec_of b) = (out, spec_of b')"
  using assms(2) sims [OF assms(1)] unfolding simulates_def
  by (cases op) (auto simp: map_prod_def case_prod_unfold)

theorem barrier_refines_witness:
  "barrier_wf (new_barrier\<lparr>br_owner := 7, br_authKeyID := 9\<rparr>) \<and>
   spec_do (Begin 7 9 0) (spec_of (new_barrier\<lparr>br_owner := 7, br_authKeyID := 9\<rparr>)) =
     (OutReservation (spec_reservation 7 9 1 True False) True,
      spec_of (snd (barrier_do (Begin 7 9 0) (new_barrier\<lparr>br_owner := 7, br_authKeyID := 9\<rparr>))))"
proof -
  let ?b = "new_barrier\<lparr>br_owner := 7, br_authKeyID := 9\<rparr>"
  have wf: "barrier_wf ?b" by (simp add: barrier_wf_def new_barrier_def)
  have out: "fst (barrier_do (Begin 7 9 0) ?b) = OutReservation (spec_reservation 7 9 1 True False) True"
    by (simp add: BeginRPCUpdateAttempt_def new_barrier_def maxPendingRPCUpdates_def next_id_def spec_reservation_def Let_def)
  obtain o' b' where e: "barrier_do (Begin 7 9 0) ?b = (o', b')" by fastforce
  from barrier_refines [OF wf e] wf out show ?thesis by (simp only: e fst_conv snd_conv simp_thms)
qed

end
