(* ===== verification/Barrier_Inv.thy ===== *)
theory Barrier_Inv
  imports Barrier_Spec
begin

text \<open>
  What the sender-result barriers guarantee over every sequence of operations on a connection:
  bounds, identity of reservations, the hold that generic delivery sees, and the watermark.
\<close>

section \<open>What the contract guarantees\<close>

definition entry_ok :: "pending_id \<Rightarrow> overflow_entry \<Rightarrow> bool" where
  "entry_ok n e \<longleftrightarrow> 0 < unat (oe_id e) \<and> unat (oe_id e) \<le> unat n \<and> 0 \<le> oe_pts e \<and> (oe_ready e \<longrightarrow> 0 < oe_pts e)"

definition spec_inv :: "barrier_spec \<Rightarrow> bool" where
  "spec_inv a \<longleftrightarrow> length (bs_queue a) \<le> 64 \<and> length (bs_overflow a) \<le> 64 \<and>
     distinct (map oe_id (bs_queue a) @ map oe_id (bs_overflow a)) \<and>
     (\<forall>e \<in> set (bs_queue a) \<union> set (bs_overflow a). entry_ok (bs_nextID a) e)"

text \<open>Lists that are like the old one, with entries dropped or advanced.\<close>

definition shrinks :: "overflow_entry list \<Rightarrow> overflow_entry list \<Rightarrow> bool" where
  "shrinks es' es \<longleftrightarrow> length es' \<le> length es \<and> set (map oe_id es') \<subseteq> set (map oe_id es) \<and>
     (distinct (map oe_id es) \<longrightarrow> distinct (map oe_id es')) \<and>
     (\<forall>n. (\<forall>e \<in> set es. entry_ok n e) \<longrightarrow> (\<forall>e \<in> set es'. entry_ok n e))"

lemma shrinks_refl [simp]: "shrinks es es"
  by (simp add: shrinks_def)

lemma shrinks_trans: "shrinks a b \<Longrightarrow> shrinks b c \<Longrightarrow> shrinks a c"
  by (auto simp: shrinks_def)

lemma shrinks_Nil [simp]: "shrinks [] es"
  by (simp add: shrinks_def)

lemma shrinks_remove: "shrinks (remove_at i es) es"
proof -
  have "length (remove_at i es) \<le> length es" by (simp add: remove_at_def)
  then show ?thesis
    using set_remove_at [of i es] set_remove_at [of i "map oe_id es"] distinct_remove_at [of "map oe_id es" i]
    by (auto simp: shrinks_def map_remove_at)
qed

lemma shrinks_tl: "shrinks (tl es) es"
  using shrinks_remove [of 0 es] by simp

lemma shrinks_butlast: "shrinks (butlast es) es"
  by (cases "es = []") (use shrinks_remove [of "length es - Suc 0" es] remove_at_last [of es] in auto)

lemma map_id_update: "map oe_id (es[i := (es ! i)\<lparr>oe_pts := p\<rparr>]) = map oe_id es"
  "map oe_id (es[i := (es ! i)\<lparr>oe_ready := True\<rparr>]) = map oe_id es"
proof -
  have "(map oe_id es)[i := oe_id (es ! i)] = map oe_id es"
    by (cases "i < length es") (metis list_update_id nth_map, simp add: not_less list_update_beyond)
  then show "map oe_id (es[i := (es ! i)\<lparr>oe_pts := p\<rparr>]) = map oe_id es"
    "map oe_id (es[i := (es ! i)\<lparr>oe_ready := True\<rparr>]) = map oe_id es" by (simp_all add: map_update)
qed

lemma shrinks_set_pts: "0 < p \<Longrightarrow> shrinks (set_pts_at i p es) es"
proof -
  assume p: "0 < p"
  have "entry_ok n e" if "\<forall>e \<in> set es. entry_ok n e" "e \<in> set (set_pts_at i p es)" for n e
  proof (cases "i < length es")
    case True
    then have "entry_ok n (es ! i)" using that(1) by simp
    then have "entry_ok n ((es ! i)\<lparr>oe_pts := p\<rparr>)" using p by (simp add: entry_ok_def)
    moreover have "e \<in> insert ((es ! i)\<lparr>oe_pts := p\<rparr>) (set es)"
      using that(2) set_update_subset_insert [of es i "(es ! i)\<lparr>oe_pts := p\<rparr>"] by (auto simp: set_pts_at_def)
    ultimately show ?thesis using that(1) by auto
  qed (use that in \<open>simp add: set_pts_at_def not_less list_update_beyond\<close>)
  then show ?thesis
    unfolding shrinks_def using map_id_update(1) [of es i p] by (simp add: set_pts_at_def)
qed

lemma shrinks_set_ready: "i < length es \<Longrightarrow> 0 < oe_pts (es ! i) \<Longrightarrow> shrinks (set_ready_at i es) es"
proof -
  assume i: "i < length es" and p: "0 < oe_pts (es ! i)"
  have "entry_ok n e" if "\<forall>e \<in> set es. entry_ok n e" "e \<in> set (set_ready_at i es)" for n e
  proof -
    have "entry_ok n ((es ! i)\<lparr>oe_ready := True\<rparr>)" using that(1) i p by (simp add: entry_ok_def)
    moreover have "e \<in> insert ((es ! i)\<lparr>oe_ready := True\<rparr>) (set es)"
      using that(2) set_update_subset_insert [of es i "(es ! i)\<lparr>oe_ready := True\<rparr>"] by (auto simp: set_ready_at_def)
    ultimately show ?thesis using that(1) by auto
  qed
  then show ?thesis
    unfolding shrinks_def using map_id_update(2) [of es i] by (simp add: set_ready_at_def)
qed

lemma spec_inv_shrinks:
  assumes inv: "spec_inv a" and q: "shrinks (bs_queue a') (bs_queue a)" and f: "shrinks (bs_overflow a') (bs_overflow a)"
    and n: "bs_nextID a' = bs_nextID a"
  shows "spec_inv a'"
proof -
  have len: "length (bs_queue a') \<le> 64" "length (bs_overflow a') \<le> 64"
    using inv q f unfolding spec_inv_def shrinks_def by linarith+
  have d: "distinct (map oe_id (bs_queue a))" "distinct (map oe_id (bs_overflow a))"
    "set (map oe_id (bs_queue a)) \<inter> set (map oe_id (bs_overflow a)) = {}"
    using inv unfolding spec_inv_def distinct_append by blast+
  have sub: "set (map oe_id (bs_queue a')) \<subseteq> set (map oe_id (bs_queue a))"
    "set (map oe_id (bs_overflow a')) \<subseteq> set (map oe_id (bs_overflow a))"
    "distinct (map oe_id (bs_queue a'))" "distinct (map oe_id (bs_overflow a'))"
    using q f d(1,2) unfolding shrinks_def by blast+
  have "set (map oe_id (bs_queue a')) \<inter> set (map oe_id (bs_overflow a')) = {}"
    using d(3) sub(1,2) by blast
  then have dis: "distinct (map oe_id (bs_queue a') @ map oe_id (bs_overflow a'))"
    using sub(3,4) by (simp only: distinct_append)
  have "\<forall>e \<in> set (bs_queue a'). entry_ok (bs_nextID a) e"
    using inv q unfolding spec_inv_def shrinks_def by blast
  moreover have "\<forall>e \<in> set (bs_overflow a'). entry_ok (bs_nextID a) e"
    using inv f unfolding spec_inv_def shrinks_def by blast
  ultimately show ?thesis unfolding spec_inv_def n using len dis by blast
qed

lemma spec_inv_mark: "spec_inv a \<Longrightarrow> spec_inv (snd (spec_mark owner key pts a))"
  by (erule spec_inv_shrinks)
     (auto simp: spec_mark_def spec_pop_def spec_raise_def shrinks_tl split: list.split)

lemma spec_inv_set_pts: "spec_inv a \<Longrightarrow> spec_inv (snd (spec_set_pts owner key pts a))"
  by (erule spec_inv_shrinks) (auto simp: spec_set_pts_def shrinks_set_pts split: option.split)

lemma entry_set_pts_shrinks: "0 < pts \<Longrightarrow> shrinks (snd (entry_set_pts n owned pts es)) es"
  by (auto simp: entry_set_pts_def shrinks_set_pts split: option.split)

lemma entry_clear_shrinks: "shrinks (snd (entry_clear n es)) es"
  by (auto simp: entry_clear_def shrinks_remove split: option.split)

lemma spec_inv_set_pts_of: "spec_inv a \<Longrightarrow> spec_inv (snd (spec_set_pts_of r pts a))"
  using entry_set_pts_shrinks [of pts]
  by (elim spec_inv_shrinks) (auto simp: spec_set_pts_of_def case_prod_unfold Let_def)

lemma spec_inv_clear: "spec_inv a \<Longrightarrow> spec_inv (snd (spec_clear owner key a))"
  by (erule spec_inv_shrinks) (auto simp: spec_clear_def shrinks_butlast)

lemma spec_inv_clear_of: "spec_inv a \<Longrightarrow> spec_inv (snd (spec_clear_of r a))"
  by (erule spec_inv_shrinks) (auto simp: spec_clear_of_def case_prod_unfold Let_def entry_clear_shrinks)

lemma ready_shrinks:
  assumes "0 < pts"
  shows "shrinks (case find_last_index (\<lambda>e. oe_pts e = pts) es of Some i \<Rightarrow> set_ready_at i es | None \<Rightarrow> es) es"
proof (cases "find_last_index (\<lambda>e. oe_pts e = pts) es")
  case (Some i)
  from find_last_index_SomeD [OF Some] assms have "i < length es" "0 < oe_pts (es ! i)" by auto
  with Some show ?thesis by (simp add: shrinks_set_ready)
qed simp

lemma spec_inv_result:
  assumes inv: "spec_inv a"
  shows "spec_inv (snd (spec_result owner key pts a))"
proof (cases "key = 0 \<or> pts \<le> 0 \<or> \<not> bound_to owner key a")
  case True
  with inv show ?thesis by (auto simp: spec_result_def)
next
  case False
  then have p: "0 < pts" by simp
  note q = ready_shrinks [OF p, of "bs_queue a"] and f = ready_shrinks [OF p, of "bs_overflow a"]
  show ?thesis
  proof (rule spec_inv_shrinks [OF inv])
    show "shrinks (bs_queue (snd (spec_result owner key pts a))) (bs_queue a)"
      using False q by (auto simp: spec_result_def Let_def intro: shrinks_trans [OF shrinks_remove] split: option.splits)
    show "shrinks (bs_overflow (snd (spec_result owner key pts a))) (bs_overflow a)"
      using False f by (auto simp: spec_result_def Let_def intro: shrinks_trans [OF shrinks_remove] split: option.splits)
  qed (auto simp: spec_result_def Let_def)
qed

lemma spec_inv_reset: "spec_inv (spec_reset a)"
  by (simp add: spec_inv_def spec_reset_def)

lemma spec_inv_rebind: "spec_inv a \<Longrightarrow> spec_inv (spec_rebind u a)" "spec_inv a \<Longrightarrow> spec_inv (spec_rekey k a)"
  by (auto simp: spec_rebind_def spec_rekey_def spec_inv_reset)

lemma spec_inv_last: "spec_inv (a\<lparr>bs_last := p\<rparr>) = spec_inv a" "spec_inv (a\<lparr>bs_saturated := x\<rparr>) = spec_inv a"
  by (simp_all add: spec_inv_def)

lemma spec_inv_push: "spec_inv a \<Longrightarrow> spec_inv (snd (spec_push env owner pts a))"
  "spec_inv a \<Longrightarrow> spec_inv (snd (spec_push_at env owner expected pts a))"
  by (auto simp: spec_push_def spec_push_at_def spec_inv_last)

text \<open>A connection would have to start \<open>2^64 - 1\<close> sends before an id could come round again.\<close>

definition id_left :: "pending_id \<Rightarrow> bool" where
  "id_left n \<longleftrightarrow> unat n + 1 < 2 ^ 64"

lemma next_id_unat: "id_left n \<Longrightarrow> unat (next_id n) = unat n + 1"
proof -
  assume "id_left n"
  then have u: "unat (n + 1) = unat n + 1" by (simp add: id_left_def unat_word_ariths)
  then have "n + 1 \<noteq> 0" by (metis Suc_eq_plus1 nat.distinct(1) unat_0)
  then show ?thesis by (simp add: next_id_def u)
qed

lemma entry_ok_next: "id_left n \<Longrightarrow> entry_ok n e \<Longrightarrow> entry_ok (next_id n) e \<and> oe_id e \<noteq> next_id n"
  using next_id_unat [of n] by (auto simp: entry_ok_def)

lemma spec_inv_begin:
  assumes inv: "spec_inv a" and left: "id_left (bs_nextID a)"
  shows "spec_inv (snd (spec_begin owner key pts a))"
proof -
  let ?n = "next_id (bs_nextID a)"
  have old: "entry_ok ?n e \<and> oe_id e \<noteq> ?n" if "e \<in> set (bs_queue a) \<union> set (bs_overflow a)" for e
    using inv that entry_ok_next [OF left] by (simp add: spec_inv_def)
  then have fresh: "?n \<notin> set (map oe_id (bs_queue a))" "?n \<notin> set (map oe_id (bs_overflow a))" by force+
  have new: "entry_ok ?n \<lparr>oe_id = ?n, oe_pts = p, oe_ready = False\<rparr>" if "0 \<le> p" for p
    using that next_id_unat [OF left] by (simp add: entry_ok_def)
  have "spec_inv (a\<lparr>bs_nextID := ?n, bs_queue := bs_queue a @ [\<lparr>oe_id = ?n, oe_pts = pts, oe_ready = False\<rparr>]\<rparr>)"
    if "length (bs_queue a) < 64" "0 \<le> pts"
    using that inv old fresh new [of pts] by (auto simp: spec_inv_def)
  moreover have "spec_inv (a\<lparr>bs_nextID := ?n, bs_overflow := bs_overflow a @ [\<lparr>oe_id = ?n, oe_pts = 0, oe_ready = False\<rparr>]\<rparr>)"
    if "length (bs_overflow a) < 64"
    using that inv old fresh new [of 0] by (auto simp: spec_inv_def)
  ultimately show ?thesis
    using inv by (auto simp: spec_begin_def Let_def spec_inv_last split: option.split)
qed

lemma spec_inv_do:
  assumes "spec_inv a" and "id_left (bs_nextID a)"
  shows "spec_inv (snd (spec_do op a))"
  using assms
  by (cases op)
     (simp_all add: spec_inv_mark spec_inv_begin spec_inv_set_pts spec_inv_set_pts_of spec_inv_clear
        spec_inv_clear_of spec_inv_result spec_inv_rebind spec_inv_push)

section \<open>A connection's life\<close>

inductive barrier_step :: "barrier \<Rightarrow> barrier \<Rightarrow> bool" where
  "id_left (br_nextID b) \<Longrightarrow> barrier_do op b = (out, b') \<Longrightarrow> barrier_step b b'"

definition barrier_inv :: "barrier \<Rightarrow> bool" where
  "barrier_inv b \<longleftrightarrow> barrier_wf b \<and> spec_inv (spec_of b)"

lemma barrier_refines_step:
  assumes "barrier_wf b" and "barrier_do op b = (out, b')"
  shows "barrier_wf b'" and "spec_of b' = snd (spec_do op (spec_of b))"
  using assms(2) sims [OF assms(1)] unfolding simulates_def
  by (cases op; auto simp: map_prod_def case_prod_unfold)+

interpretation brm: invariant_machine "\<lambda>b. b = new_barrier" barrier_step barrier_inv
proof
  fix b assume "b = new_barrier"
  then show "barrier_inv b"
    by (simp add: barrier_inv_def barrier_wf_def new_barrier_def spec_inv_def spec_of_def queue_of_def)
next
  fix b b' assume "barrier_step b b'" and inv: "barrier_inv b"
  then obtain op out where l: "id_left (br_nextID b)" and d: "barrier_do op b = (out, b')"
    by (auto elim: barrier_step.cases)
  from inv have wf: "barrier_wf b" and i: "spec_inv (spec_of b)" by (simp_all add: barrier_inv_def)
  from barrier_refines_step [OF wf d] spec_inv_do [OF i, of op] l show "barrier_inv b'"
    by (simp add: barrier_inv_def)
qed

lemma find_index_distinct:
  assumes "distinct (map f es)" and "find_index (\<lambda>e. f e = n) es = Some i"
  shows "remove_at i es = filter (\<lambda>e. f e \<noteq> n) es"
  using assms
proof (induction es arbitrary: i)
  case (Cons e es)
  show ?case
  proof (cases "f e = n")
    case True
    with Cons.prems have i: "i = 0" and "n \<notin> f ` set es" by auto
    then have "\<forall>x \<in> set es. f x \<noteq> n" by blast
    then have "filter (\<lambda>x. f x \<noteq> n) es = es" by (simp add: filter_id_conv)
    with True i show ?thesis by simp
  next
    case False
    with Cons.prems obtain j where j: "find_index (\<lambda>e. f e = n) es = Some j" "i = Suc j" by auto
    have "remove_at i (e # es) = e # remove_at j es" by (simp add: remove_at_def j(2))
    with Cons.IH [OF _ j(1)] Cons.prems(1) False show ?thesis by simp
  qed
qed simp

lemma filter_absent: "n \<notin> set (map f es) \<Longrightarrow> filter (\<lambda>e. f e \<noteq> n) es = es"
  by (auto simp: filter_id_conv)

section \<open>Properties\<close>

text \<open>
  Whatever a connection's clients and handlers do, the bookkeeping stays within its two caps,
  no two outstanding attempts share an id, and an entry counts as delivered only once its pts is
  known; the saturated hold is never traded for unbounded growth.
\<close>

theorem barrier_bounded:
  assumes "reach barrier_step new_barrier b"
  shows "length (br_pts b) \<le> maxPendingRPCUpdates \<and> length (br_overflow b) \<le> maxPendingRPCOverflowUpdates \<and>
    length (br_ids b) = length (br_pts b) \<and> length (br_ready b) = length (br_pts b) \<and>
    distinct (br_ids b @ map oe_id (br_overflow b)) \<and>
    (\<forall>i < length (br_pts b). br_ready b ! i \<longrightarrow> 0 < br_pts b ! i)"
proof -
  from brm.reachable_inv [OF refl assms] have wf: "barrier_wf b" and inv: "spec_inv (spec_of b)"
    by (simp_all add: barrier_inv_def)
  have "0 < br_pts b ! i" if "i < length (br_pts b)" "br_ready b ! i" for i
  proof -
    have "queue_of b ! i \<in> set (queue_of b)" using that(1) length_queue_of [OF wf] by simp
    then have "entry_ok (br_nextID b) (queue_of b ! i)" using inv by (simp add: spec_inv_def)
    with that show ?thesis by (simp add: entry_ok_def nth_queue_of [OF wf])
  qed
  moreover have "distinct (br_ids b @ map oe_id (br_overflow b))"
    using inv unfolding spec_inv_def spec_of_fields queue_of_projections(1) [OF wf, symmetric] by blast
  ultimately show ?thesis
    using inv wf length_queue_of [OF wf]
    by (simp add: spec_inv_def barrier_wf_def maxPendingRPCUpdates_def maxPendingRPCOverflowUpdates_def)
qed

theorem barrier_bounded_witness:
  "length (br_pts (barrier_setOwner 7 new_barrier)) \<le> maxPendingRPCUpdates"
proof -
  have "barrier_step new_barrier (barrier_setOwner 7 new_barrier)"
    by (rule barrier_step.intros [of _ "Rebind 7"]) (simp_all add: id_left_def new_barrier_def)
  then have "reach barrier_step new_barrier (barrier_setOwner 7 new_barrier)" by (rule reach_one)
  from barrier_bounded [OF this] show ?thesis by blast
qed

text \<open>
  Aborting an attempt releases that attempt's barrier and no other: on any reachable
  connection, a successful clear removes exactly the entry with the reservation's id and leaves
  the watermark alone, a refused clear changes nothing, and an attempt that was deduplicated onto
  somebody else's barrier can never clear it.
\<close>

theorem barrier_own_entry:
  assumes "reach barrier_step new_barrier b" and "ClearRPCUpdateAttempt r b = (ok, b')"
  shows "(if ok then rv_owned r \<and> queue_of b' = filter (\<lambda>e. oe_id e \<noteq> rv_id r) (queue_of b) \<and>
            br_overflow b' = filter (\<lambda>e. oe_id e \<noteq> rv_id r) (br_overflow b) \<and>
            (\<exists>e \<in> set (queue_of b) \<union> set (br_overflow b). oe_id e = rv_id r) \<and>
            br_lastPushedPts b' = br_lastPushedPts b
          else spec_of b' = spec_of b)"
proof -
  from brm.reachable_inv [OF refl assms(1)] have wf: "barrier_wf b" and inv: "spec_inv (spec_of b)"
    by (simp_all add: barrier_inv_def)
  have eq: "spec_clear_of r (spec_of b) = (ok, spec_of b')"
    using sim_clear_of [OF wf, of r] assms(2) by (simp add: simulates_def)
  have d: "distinct (map oe_id (queue_of b))" "distinct (map oe_id (br_overflow b))"
    and dis: "set (map oe_id (queue_of b)) \<inter> set (map oe_id (br_overflow b)) = {}"
    using inv unfolding spec_inv_def spec_of_fields distinct_append by blast+
  have flds: "bs_queue (spec_of b') = queue_of b'" "bs_overflow (spec_of b') = br_overflow b'"
    "bs_last (spec_of b') = br_lastPushedPts b'" by simp_all
  show ?thesis
  proof (cases ok)
    case False
    with eq show ?thesis
      by (auto simp: spec_clear_of_def entry_clear_def split: if_splits option.splits)
  next
    case True
    with eq have own: "rv_owned r" by (auto simp: spec_clear_of_def split: if_splits)
    show ?thesis
    proof (cases "rv_overflow r")
      case False
      with eq own True obtain i where i: "find_index (\<lambda>e. oe_id e = rv_id r) (queue_of b) = Some i"
        and b': "spec_of b' = (spec_of b)\<lparr>bs_queue := remove_at i (queue_of b)\<rparr>"
        by (auto simp: spec_clear_of_def entry_clear_def split: if_splits option.splits)
      from find_index_SomeD [OF i] have m: "queue_of b ! i \<in> set (queue_of b)" "oe_id (queue_of b ! i) = rv_id r"
        by auto
      then have "rv_id r \<notin> set (map oe_id (br_overflow b))" using dis by force
      with own True m find_index_distinct [OF d(1) i] flds show ?thesis
        by (auto simp: b' filter_absent)
    next
      case over: True
      with eq own True obtain i where i: "find_index (\<lambda>e. oe_id e = rv_id r) (br_overflow b) = Some i"
        and b': "spec_of b' = (spec_of b)\<lparr>bs_overflow := remove_at i (br_overflow b)\<rparr>"
        by (auto simp: spec_clear_of_def entry_clear_def split: if_splits option.splits)
      from find_index_SomeD [OF i] have m: "br_overflow b ! i \<in> set (br_overflow b)" "oe_id (br_overflow b ! i) = rv_id r"
        by auto
      then have "rv_id r \<notin> set (map oe_id (queue_of b))" using dis by force
      with own True m find_index_distinct [OF d(2) i] flds show ?thesis
        by (auto simp: b' filter_absent)
    qed
  qed
qed

text \<open>A connection that user 7 has just signed in on with key 9.\<close>

definition bound_barrier :: barrier where
  "bound_barrier = barrier_setKey 9 (barrier_setOwner 7 new_barrier)"

lemma bound_barrier_fields:
  "br_owner bound_barrier = 7" "br_authKeyID bound_barrier = 9" "br_lastPushedPts bound_barrier = 0"
  "br_pts bound_barrier = []" "br_ids bound_barrier = []" "br_ready bound_barrier = []"
  "br_overflow bound_barrier = []" "br_nextID bound_barrier = 0" "\<not> br_saturated bound_barrier"
  by (simp_all add: bound_barrier_def barrier_setKey_def barrier_setOwner_def clear_barriers_def new_barrier_def)

lemma bound_barrier_reach: "reach barrier_step new_barrier bound_barrier"
proof -
  have "barrier_step new_barrier (barrier_setOwner 7 new_barrier)"
    by (rule barrier_step.intros [of _ "Rebind 7"]) (simp_all add: id_left_def new_barrier_def)
  moreover have "barrier_step (barrier_setOwner 7 new_barrier) bound_barrier"
    by (rule barrier_step.intros [of _ "Rekey 9"])
       (simp_all add: bound_barrier_def id_left_def new_barrier_def barrier_setOwner_def clear_barriers_def)
  ultimately show ?thesis by (blast intro: reach.intros)
qed

theorem barrier_own_entry_witness:
  "fst (ClearRPCUpdateAttempt (spec_reservation 7 9 1 True False) (snd (BeginRPCUpdateAttempt 7 9 0 bound_barrier))) \<and>
   queue_of (snd (ClearRPCUpdateAttempt (spec_reservation 7 9 1 True False)
     (snd (BeginRPCUpdateAttempt 7 9 0 bound_barrier)))) = []"
proof -
  let ?r = "spec_reservation 7 9 1 True False"
  let ?b = "bound_barrier\<lparr>br_nextID := 1, br_pendingOwner := 7, br_pendingAuthKey := 9,
        br_pts := [0], br_ids := [1], br_ready := [False]\<rparr>"
  have c: "BeginRPCUpdateAttempt 7 9 0 bound_barrier = ((?r, True), ?b)"
    by (simp add: BeginRPCUpdateAttempt_def bound_barrier_fields maxPendingRPCUpdates_def next_id_def
        spec_reservation_def Let_def)
  then have "barrier_step bound_barrier ?b"
    by (intro barrier_step.intros [of _ "Begin 7 9 0"]) (simp_all add: id_left_def bound_barrier_fields)
  with bound_barrier_reach have r: "reach barrier_step new_barrier ?b" by (rule reach_step)
  obtain ok b' where e: "ClearRPCUpdateAttempt ?r ?b = (ok, b')" by fastforce
  then have ok: "ok"
    by (simp add: ClearRPCUpdateAttempt_def spec_reservation_def bound_barrier_fields)
  from barrier_own_entry [OF r e] ok have "queue_of b' = filter (\<lambda>e. oe_id e \<noteq> rv_id ?r) (queue_of ?b)" by simp
  also have "\<dots> = []" by (simp add: queue_of_def spec_reservation_def)
  finally show ?thesis using e ok unfolding c by simp
qed

lemma pending_iff:
  assumes "barrier_wf b"
  shows "snd (PendingRPCUpdate (br_owner b) b) \<longleftrightarrow> queue_of b \<noteq> [] \<or> br_overflow b \<noteq> [] \<or> br_saturated b"
  using assms queue_of_Nil [OF assms] by (auto simp: PendingRPCUpdate_def barrier_wf_def)

text \<open>The operations that neither account an entry nor abort one nor change the binding.\<close>

fun keeps_hold :: "barrier_op \<Rightarrow> bool" where
  "keeps_hold (Begin owner key pts) = True"
| "keeps_hold (SetPts owner key pts) = True"
| "keeps_hold (SetPtsOf r pts) = True"
| "keeps_hold (Push env owner pts) = True"
| "keeps_hold (PushAt env owner expected pts) = True"
| "keeps_hold op = False"

definition spec_held :: "barrier_spec \<Rightarrow> bool" where
  "spec_held a \<longleftrightarrow> bs_queue a \<noteq> [] \<or> bs_overflow a \<noteq> [] \<or> bs_saturated a"

lemma set_pts_at_Nil [simp]: "set_pts_at i p es = [] \<longleftrightarrow> es = []"
  by (simp add: set_pts_at_def)

lemma spec_held_keeps:
  assumes "keeps_hold op" and "spec_held a"
  shows "spec_held (snd (spec_do op a))" and "bs_owner (snd (spec_do op a)) = bs_owner a"
proof -
  have "snd (entry_set_pts n owned pts es) = [] \<longleftrightarrow> es = []" for n owned pts es
    by (auto simp: entry_set_pts_def split: option.split)
  with assms show "spec_held (snd (spec_do op a))"
    by (cases op)
       (auto simp: spec_held_def spec_begin_def spec_set_pts_def spec_set_pts_of_def spec_push_def spec_push_at_def
          Let_def case_prod_unfold split: option.split)
  show "bs_owner (snd (spec_do op a)) = bs_owner a"
    using assms(1)
    by (cases op)
       (auto simp: spec_begin_def spec_set_pts_def spec_set_pts_of_def spec_push_def spec_push_at_def
          Let_def case_prod_unfold split: option.split)
qed

lemma spec_begin_held:
  assumes "0 < owner" and "key \<noteq> 0" and "0 \<le> pts" and "bound_to owner key a"
  shows "spec_held (snd (spec_begin owner key pts a)) \<and> bs_owner (snd (spec_begin owner key pts a)) = bs_owner a"
  using assms
  by (auto simp: spec_begin_def Let_def spec_held_def find_Some_iff split: option.split)

text \<open>
  C24. Once a send has begun on a connection, generic delivery to its owner is held: whichever way
  the attempt is recorded, in the queue, on an existing entry, in the overflow or by saturation,
  the connection reports a pending barrier, and keeps reporting one through any number of further
  sends, recorded pts values and pushes, until an entry is accounted or aborted.
\<close>

theorem barrier_holds:
  assumes "reach barrier_step new_barrier b" and "0 < owner" and "key \<noteq> 0" and "0 \<le> pts"
    and "br_owner b = owner" and "br_authKeyID b = key"
    and "BeginRPCUpdateAttempt owner key pts b = ((r, ok), b0)"
    and "list_all keeps_hold ops" and "b' = foldl (\<lambda>b op. snd (barrier_do op b)) b0 ops"
  shows "snd (PendingRPCUpdate owner b')"
proof -
  from brm.reachable_inv [OF refl assms(1)] have wf: "barrier_wf b" by (simp add: barrier_inv_def)
  from sim_begin [OF wf, of owner key pts] assms(7)
  have wf0: "barrier_wf b0" and e: "spec_begin owner key pts (spec_of b) = ((r, ok), spec_of b0)"
    by (simp_all add: simulates_def)
  have held: "spec_held (spec_of b0)" and own: "br_owner b0 = owner"
    using spec_begin_held [of owner key pts "spec_of b"] e assms(2-6) by (simp_all add: bound_to_def)
  have "barrier_wf b' \<and> spec_held (spec_of b') \<and> br_owner b' = owner"
    using wf0 held own assms(8,9)
  proof (induction ops arbitrary: b0)
    case (Cons op ops)
    obtain out b1 where d: "barrier_do op b0 = (out, b1)" by fastforce
    note r1 = barrier_refines_step [OF Cons.prems(1) d]
    have "spec_held (spec_of b1)" "br_owner b1 = owner"
      using spec_held_keeps [of op "spec_of b0", folded r1(2)] Cons.prems by simp_all
    from Cons.IH [OF r1(1) this] Cons.prems(4,5) show ?case by (simp add: d)
  qed simp
  then show ?thesis using pending_iff [of b'] by (auto simp: spec_held_def)
qed

theorem barrier_holds_witness:
  "snd (PendingRPCUpdate 7 (snd (barrier_do (PushAt \<lparr>pe_encodes = True, pe_ctxDone = False, pe_sends = True\<rparr> 7 0 5)
     (snd (BeginRPCUpdateAttempt 7 9 0 bound_barrier)))))"
proof -
  let ?op = "PushAt \<lparr>pe_encodes = True, pe_ctxDone = False, pe_sends = True\<rparr> 7 0 5"
  obtain rv ok b0 where e: "BeginRPCUpdateAttempt 7 9 0 bound_barrier = ((rv, ok), b0)" by (metis prod.exhaust)
  from barrier_holds [OF bound_barrier_reach _ _ _ _ _ e, of "[?op]"] show ?thesis
    unfolding e by (simp add: bound_barrier_fields)
qed

lemma map_pts_ready: "map oe_pts (set_ready_at i es) = map oe_pts es" "map oe_id (set_ready_at i es) = map oe_id es"
proof -
  have "(map oe_pts es)[i := oe_pts (es ! i)] = map oe_pts es"
    by (cases "i < length es") (metis list_update_id nth_map, simp add: not_less list_update_beyond)
  then show "map oe_pts (set_ready_at i es) = map oe_pts es" by (simp add: set_ready_at_def map_update)
qed (simp add: set_ready_at_def map_id_update)

lemma spec_result_gap:
  assumes "bs_last a + 1 < pts"
  shows "map oe_id (bs_queue (snd (spec_result owner key pts a))) = map oe_id (bs_queue a) \<and>
    map oe_pts (bs_queue (snd (spec_result owner key pts a))) = map oe_pts (bs_queue a) \<and>
    map oe_id (bs_overflow (snd (spec_result owner key pts a))) = map oe_id (bs_overflow a)"
  using assms by (auto simp: spec_result_def Let_def map_pts_ready split: option.split)

lemma spec_result_last:
  "bs_last (snd (spec_result owner key pts a)) =
     (if fst (spec_result owner key pts a) \<and> pts = bs_last a + 1 then pts else bs_last a)"
  by (auto simp: spec_result_def Let_def)

lemma spec_last_mono:
  assumes "\<And>u. op \<noteq> Rebind u" and "\<And>env u p. op \<noteq> Push env u p"
  shows "bs_last a \<le> bs_last (snd (spec_do op a))"
  using assms
  by (cases op)
     (auto simp: spec_mark_def spec_raise_def spec_pop_def spec_begin_def spec_set_pts_def spec_set_pts_of_def
        spec_clear_def spec_clear_of_def spec_result_def spec_rekey_def spec_reset_def spec_push_def spec_push_at_def
        Let_def case_prod_unfold split: option.split list.split)

text \<open>The operations that may raise the watermark, and the only value each may raise it to.\<close>

fun raises_to :: "barrier_op \<Rightarrow> barrier \<Rightarrow> int \<Rightarrow> bool" where
  "raises_to (Result owner key pts) b p \<longleftrightarrow> br_owner b = owner \<and> br_authKeyID b = key \<and> p = pts \<and> pts = br_lastPushedPts b + 1"
| "raises_to (Mark owner key pts) b p \<longleftrightarrow> br_owner b = owner \<and> br_authKeyID b = key \<and> p = pts \<and>
     (case br_pts b @ map oe_pts (br_overflow b) of [] \<Rightarrow> True | oldest # _ \<Rightarrow> pts = oldest)"
| "raises_to (Push env owner pts) b p \<longleftrightarrow> br_owner b = owner \<and> p = pts \<and> pe_sends env"
| "raises_to (PushAt env owner expected pts) b p \<longleftrightarrow>
     br_owner b = owner \<and> p = pts \<and> pe_sends env \<and> br_lastPushedPts b = expected"
| "raises_to _ b p \<longleftrightarrow> False"

lemma mark_raises:
  assumes "bs_last a < bs_last (snd (spec_mark owner key pts a))"
  shows "bound_to owner key a \<and> bs_last (snd (spec_mark owner key pts a)) = pts \<and>
    (case map oe_pts (bs_queue a @ bs_overflow a) of [] \<Rightarrow> True | oldest # _ \<Rightarrow> pts = oldest)"
  using assms
  by (cases "bs_queue a @ bs_overflow a") (auto simp: spec_mark_def spec_raise_def spec_pop_def max_def split: if_splits list.splits)

lemma spec_raises_to:
  assumes wf: "barrier_wf b" and "\<And>u. op \<noteq> Rebind u" and up: "br_lastPushedPts b < bs_last (snd (spec_do op (spec_of b)))"
  shows "raises_to op b (bs_last (snd (spec_do op (spec_of b))))"
proof (cases op)
  case (Mark owner key pts)
  then show ?thesis using up mark_raises [of "spec_of b" owner key pts] by (simp add: queue_of_projections(2) [OF wf])
next
  case (Result owner key pts)
  then show ?thesis using up by (auto simp: spec_result_def Let_def split: if_splits)
qed (use assms in \<open>auto simp: spec_begin_def spec_set_pts_def spec_set_pts_of_def spec_clear_def spec_clear_of_def
      spec_rekey_def spec_reset_def spec_push_def spec_push_at_def Let_def case_prod_unfold split: option.splits if_splits\<close>)

text \<open>
  C14. What moves the watermark. A result moves it forward by exactly one or not at all, and a result
  that arrived ahead of a gap keeps every barrier in place. Of all operations only four can raise it,
  each for the connection's owner and only to the pts it carries: a result at the next pts; a mark, while
  barriers are outstanding only at the pts of the oldest one; a written push; a written push at the watermark
  it expected. Apart from a rebind and an unguarded push, no operation lowers it.
\<close>

theorem watermark_contiguous:
  assumes "reach barrier_step new_barrier b"
  shows "(case markRPCResultLocked owner key pts b of (ok, b') \<Rightarrow>
      br_lastPushedPts b' = (if ok \<and> pts = br_lastPushedPts b + 1 then pts else br_lastPushedPts b) \<and>
      (ok \<and> br_lastPushedPts b + 1 < pts \<longrightarrow>
        br_ids b' = br_ids b \<and> br_pts b' = br_pts b \<and> map oe_id (br_overflow b') = map oe_id (br_overflow b))) \<and>
    ((\<forall>u. op \<noteq> Rebind u) \<and> br_lastPushedPts b < br_lastPushedPts (snd (barrier_do op b)) \<longrightarrow>
      raises_to op b (br_lastPushedPts (snd (barrier_do op b)))) \<and>
    ((\<forall>u. op \<noteq> Rebind u) \<and> (\<forall>env u p. op \<noteq> Push env u p) \<longrightarrow>
      br_lastPushedPts b \<le> br_lastPushedPts (snd (barrier_do op b)))"
proof -
  from brm.reachable_inv [OF refl assms] have wf: "barrier_wf b" by (simp add: barrier_inv_def)
  obtain ok b' where e: "markRPCResultLocked owner key pts b = (ok, b')" by fastforce
  from sim_result [OF wf, of owner key pts] e
  have wf': "barrier_wf b'" and sp: "spec_result owner key pts (spec_of b) = (ok, spec_of b')"
    by (simp_all add: simulates_def)
  have "bs_last (spec_of b') = (if ok \<and> pts = bs_last (spec_of b) + 1 then pts else bs_last (spec_of b))"
    using spec_result_last [of owner key pts "spec_of b"] unfolding sp fst_conv snd_conv .
  moreover have "map oe_id (bs_queue (spec_of b')) = map oe_id (bs_queue (spec_of b)) \<and>
      map oe_pts (bs_queue (spec_of b')) = map oe_pts (bs_queue (spec_of b)) \<and>
      map oe_id (bs_overflow (spec_of b')) = map oe_id (bs_overflow (spec_of b))"
    if "ok" "bs_last (spec_of b) + 1 < pts"
    using spec_result_gap [OF that(2), of owner key] unfolding sp snd_conv .
  moreover have step: "br_lastPushedPts (snd (barrier_do op b)) = bs_last (snd (spec_do op (spec_of b)))"
    using barrier_refines_step(2) [OF wf, of op "fst (barrier_do op b)" "snd (barrier_do op b)"] by (simp flip: spec_of_fields(3))
  moreover note spec_raises_to [OF wf, of op] spec_last_mono [of op "spec_of b"]
  ultimately show ?thesis
    unfolding e by (simp add: queue_of_projections(1,2) [OF wf] queue_of_projections(1,2) [OF wf'])
qed

theorem watermark_contiguous_witness:
  "br_lastPushedPts (snd (markRPCResultLocked 7 9 1 bound_barrier)) = 1 \<and>
   br_lastPushedPts (snd (markRPCResultLocked 7 9 5 bound_barrier)) = 0"
proof -
  have "fst (markRPCResultLocked 7 9 1 bound_barrier)"
    by (simp add: markRPCResultLocked_def bound_barrier_fields Let_def)
  then show ?thesis
    using watermark_contiguous [OF bound_barrier_reach, where owner = 7 and key = 9 and pts = 1 and op = "Clear 7 9"]
      watermark_contiguous [OF bound_barrier_reach, where owner = 7 and key = 9 and pts = 5 and op = "Clear 7 9"]
    by (simp add: bound_barrier_fields case_prod_unfold)
qed

end
