(* ===== verification/Rpc_Outcomes.thy ===== *)
theory Rpc_Outcomes
  imports Go_Prelude
begin

text \<open>
  The ring of recent RPC results that \<open>invokeAfterMsg\<close> dependencies are looked up in
  (internal/mtproto/send.go): 64 slots, a write position and a fill count, cleared whenever the
  connection changes session, owner or key.
\<close>

record rpc_outcome =
  oc_msgID :: int
  oc_session :: int
  oc_success :: bool

record outcome_ring =
  or_slots :: "rpc_outcome list"
  or_next :: nat
  or_size :: nat

definition ring_len :: nat where
  "ring_len = 64"

definition empty_outcome :: rpc_outcome where
  "empty_outcome = \<lparr>oc_msgID = 0, oc_session = 0, oc_success = False\<rparr>"

definition resetRPCOutcomesLocked :: outcome_ring where
  "resetRPCOutcomesLocked = \<lparr>or_slots = replicate ring_len empty_outcome, or_next = 0, or_size = 0\<rparr>"

text \<open>\<open>session\<close> is the result's session, \<open>sessionID\<close> the connection's.\<close>

definition recordRPCOutcome :: "int \<Rightarrow> int \<Rightarrow> int \<Rightarrow> bool \<Rightarrow> outcome_ring \<Rightarrow> outcome_ring" where
  "recordRPCOutcome sessionID msgID session success r =
     (if msgID \<le> 0 \<or> session \<noteq> sessionID then r
      else r\<lparr>or_slots := (or_slots r)[or_next r := \<lparr>oc_msgID = msgID, oc_session = session, oc_success = success\<rparr>],
             or_next := (or_next r + 1) mod length (or_slots r),
             or_size := (if or_size r < length (or_slots r) then or_size r + 1 else or_size r)\<rparr>)"

text \<open>The loop over the ring, newest first; n results are still to be looked at.\<close>

fun search_outcomes :: "outcome_ring \<Rightarrow> int \<Rightarrow> int \<Rightarrow> nat \<Rightarrow> nat \<Rightarrow> bool \<times> bool" where
  "search_outcomes r session dependency i 0 = (False, False)"
| "search_outcomes r session dependency i (Suc n) =
     (let index = (or_next r + length (or_slots r) - 1 - i) mod length (or_slots r);
          outcome = or_slots r ! index in
      if oc_msgID outcome = dependency \<and> oc_session outcome = session then (True, oc_success outcome)
      else search_outcomes r session dependency (Suc i) n)"

definition RPCDependencyOutcome :: "int \<Rightarrow> int \<Rightarrow> int \<Rightarrow> int \<Rightarrow> outcome_ring \<Rightarrow> bool \<times> bool" where
  "RPCDependencyOutcome sessionID session dependency current r =
     (if dependency \<le> 0 \<or> dependency \<ge> current \<or> session \<noteq> sessionID then (False, False)
      else search_outcomes r session dependency 0 (or_size r))"

section \<open>The history a ring stands for\<close>

text \<open>The results in the ring, newest first.\<close>

definition history :: "outcome_ring \<Rightarrow> rpc_outcome list" where
  "history r = map (\<lambda>i. or_slots r ! ((or_next r + 64 - 1 - i) mod 64)) [0..<or_size r]"

definition ring_wf :: "outcome_ring \<Rightarrow> bool" where
  "ring_wf r \<longleftrightarrow> length (or_slots r) = 64 \<and> or_next r < 64 \<and> or_size r \<le> 64"

lemma ring_wf_reset: "ring_wf resetRPCOutcomesLocked" "history resetRPCOutcomesLocked = []"
  by (simp_all add: ring_wf_def resetRPCOutcomesLocked_def history_def ring_len_def)

lemma ring_slot_other:
  assumes "n < 64" and "Suc i < (64 :: nat)"
  shows "((n + 1) mod 64 + 64 - 1 - Suc i) mod 64 = (n + 64 - 1 - i) mod 64"
    and "(n + 64 - 1 - i) mod 64 \<noteq> n"
proof -
  show "((n + 1) mod 64 + 64 - 1 - Suc i) mod 64 = (n + 64 - 1 - i) mod 64"
  proof (cases "n = 63")
    case True
    have "126 - i = (62 - i) + 64" using assms(2) by simp
    then have e: "(126 - i) mod 64 = (62 - i) mod 64" by (metis mod_add_self2)
    show ?thesis using assms(2) by (simp add: True e)
  next
    case False
    then show ?thesis using assms by simp
  qed
  show "(n + 64 - 1 - i) mod 64 \<noteq> n"
  proof (cases "i < n")
    case True
    then have "(n + 64 - 1 - i) = (n - 1 - i) + 64" by simp
    then have "(n + 64 - 1 - i) mod 64 = (n - 1 - i) mod 64" by (metis mod_add_self2)
    also have "\<dots> = n - 1 - i" using assms by simp
    finally show ?thesis using True by simp
  next
    case False
    then show ?thesis using assms by simp
  qed
qed

lemma history_record:
  fixes session ok
  assumes wf: "ring_wf r" and "0 < msgID"
  defines "r' \<equiv> recordRPCOutcome session msgID session ok r"
  shows "ring_wf r'" and "history r' = take 64 (\<lparr>oc_msgID = msgID, oc_session = session, oc_success = ok\<rparr> # history r)"
proof -
  let ?o = "\<lparr>oc_msgID = msgID, oc_session = session, oc_success = ok\<rparr>"
  let ?n = "or_next r"
  from wf have n: "?n < 64" and l: "length (or_slots r) = 64" and s: "or_size r \<le> 64" by (simp_all add: ring_wf_def)
  have r': "r' = r\<lparr>or_slots := (or_slots r)[?n := ?o], or_next := (?n + 1) mod 64,
      or_size := min 64 (or_size r + 1)\<rparr>"
    using assms(2) l s by (simp add: r'_def recordRPCOutcome_def)
  show "ring_wf r'" using l by (simp add: r' ring_wf_def)
  show "history r' = take 64 (?o # history r)"
  proof (rule nth_equalityI)
    show "length (history r') = length (take 64 (?o # history r))" by (simp add: r' history_def)
    fix i assume "i < length (history r')"
    then have i: "i < min 64 (or_size r + 1)" by (simp add: r' history_def)
    then have e: "history r' ! i = (or_slots r)[?n := ?o] ! (((?n + 1) mod 64 + 64 - 1 - i) mod 64)"
      by (simp add: r' history_def del: upt_Suc)
    show "history r' ! i = take 64 (?o # history r) ! i"
    proof (cases i)
      case 0
      have "((?n + 1) mod 64 + 64 - 1) mod 64 = ?n" using n by (cases "?n = 63") simp_all
      with 0 e n l show ?thesis by simp
    next
      case (Suc j)
      with i have j: "Suc j < 64" "j < or_size r" by simp_all
      from ring_slot_other [OF n j(1)] l have "history r' ! i = or_slots r ! ((?n + 64 - 1 - j) mod 64)"
        unfolding e by (simp add: Suc)
      with Suc j show ?thesis by (simp add: history_def)
    qed
  qed
qed

lemma search_history:
  assumes wf: "ring_wf r" and "i + n = or_size r"
  shows "search_outcomes r session dependency i n =
    (case find (\<lambda>x. oc_msgID x = dependency \<and> oc_session x = session) (drop i (history r)) of
       None \<Rightarrow> (False, False) | Some x \<Rightarrow> (True, oc_success x))"
  using assms(2)
proof (induction n arbitrary: i)
  case 0
  then show ?case by (simp add: history_def)
next
  case (Suc n)
  then have i: "i < length (history r)" by (simp add: history_def)
  then have "drop i (history r) = history r ! i # drop (Suc i) (history r)" by (simp add: Cons_nth_drop_Suc)
  moreover have "history r ! i = or_slots r ! ((or_next r + length (or_slots r) - 1 - i) mod length (or_slots r))"
    using i wf by (simp add: history_def ring_wf_def)
  ultimately show ?case using Suc.IH [of "Suc i"] Suc.prems by (simp add: Let_def)
qed

section \<open>Properties\<close>

text \<open>
  The ring answers dependencies exactly as a log of the last 64 results would: after any
  sequence of results on a session, looking up an earlier message finds its newest recorded
  outcome if it is among the last 64 recorded and reports it unknown otherwise, whatever the write
  position; results of other sessions and invalid message ids are never recorded.
\<close>

theorem outcomes_last_64:
  assumes "0 < dependency" and "dependency < current"
  shows "RPCDependencyOutcome s s dependency current
      (foldl (\<lambda>r (msgID, session, ok). recordRPCOutcome s msgID session ok r) resetRPCOutcomesLocked results) =
    (case find (\<lambda>(msgID, session, ok). msgID = dependency)
        (take 64 (rev (filter (\<lambda>(msgID, session, ok). 0 < msgID \<and> session = s) results))) of
       None \<Rightarrow> (False, False) | Some (msgID, session, ok) \<Rightarrow> (True, ok))"
proof -
  let ?run = "foldl (\<lambda>r (msgID, session, ok). recordRPCOutcome s msgID session ok r) resetRPCOutcomesLocked"
  let ?log = "\<lambda>rs. take 64 (rev (filter (\<lambda>(msgID, session, ok). 0 < msgID \<and> session = s) rs))"
  let ?mk = "\<lambda>(msgID, session, ok). \<lparr>oc_msgID = msgID, oc_session = session, oc_success = ok\<rparr>"
  have run: "ring_wf (?run results) \<and> history (?run results) = map ?mk (?log results)"
  proof (induction results rule: rev_induct)
    case Nil
    then show ?case by (simp add: ring_wf_reset)
  next
    case (snoc x rs)
    obtain m se ok where x: "x = (m, se, ok)" by (cases x) auto
    show ?case
    proof (cases "0 < m \<and> se = s")
      case True
      with snoc.IH history_record [of "?run rs" m s ok] x show ?thesis
        by (simp add: take_Cons' take_map)
    next
      case False
      with snoc.IH x show ?thesis by (auto simp: recordRPCOutcome_def)
    qed
  qed
  have "find (\<lambda>x. oc_msgID x = dependency \<and> oc_session x = s) (map ?mk ys) =
      map_option ?mk (find (\<lambda>(msgID, session, ok). msgID = dependency) ys)"
    if "\<forall>(msgID, session, ok) \<in> set ys. session = s" for ys
    using that by (induction ys) auto
  moreover have "\<forall>(msgID, session, ok) \<in> set (?log results). session = s"
    by (auto dest: in_set_takeD)
  ultimately have f: "find (\<lambda>x. oc_msgID x = dependency \<and> oc_session x = s) (history (?run results)) =
      map_option ?mk (find (\<lambda>(msgID, session, ok). msgID = dependency) (?log results))"
    using run by (simp only:)
  have "RPCDependencyOutcome s s dependency current (?run results) =
      search_outcomes (?run results) s dependency 0 (or_size (?run results))"
    using assms by (simp add: RPCDependencyOutcome_def)
  also have "\<dots> = (case find (\<lambda>x. oc_msgID x = dependency \<and> oc_session x = s) (drop 0 (history (?run results))) of
       None \<Rightarrow> (False, False) | Some x \<Rightarrow> (True, oc_success x))"
    by (rule search_history) (use run in blast, simp)
  finally show ?thesis
    unfolding drop_0 f
    by (cases "find (\<lambda>(msgID, session, ok). msgID = dependency) (?log results)") auto
qed

theorem outcomes_last_64_witness:
  "RPCDependencyOutcome 5 5 3 9
     (foldl (\<lambda>r (msgID, session, ok). recordRPCOutcome 5 msgID session ok r) resetRPCOutcomesLocked
       [(3, 5, False), (3, 5, True), (4, 6, True)]) = (True, True)"
  using outcomes_last_64 [of 3 9 5 "[(3, 5, False), (3, 5, True), (4, 6, True)]"] by simp

end
