(* ===== verification/Filter_Recovery.thy ===== *)
theory Filter_Recovery
  imports Go_Prelude
begin

text \<open>
  Recovery of missed folder invalidations on one connection (internal/mtproto/send.go): which
  generation of the user's folders the client is known to have fetched, and the bounded, spaced
  push attempts that nudge it to fetch again. The state is an immutable snapshot replaced by
  compare-and-swap; a successful swap is one atomic step. The connection always holds a snapshot.
\<close>

type_synonym generation = "64 word"

record filter_recovery =
  fr_owner :: int
  fr_session :: int
  fr_generation :: generation
  fr_covered :: generation
  fr_initialized :: bool
  fr_firstDifference :: bool
  fr_pushEligible :: bool
  fr_cycle :: bool
  fr_attempts :: int
  fr_nextAttempt :: gtime
  fr_inFlight :: bool
  fr_claimID :: "64 word"

record recovery_cell =
  rc_state :: filter_recovery
  rc_claims :: "64 word"

definition zero_recovery :: filter_recovery where
  "zero_recovery = \<lparr>fr_owner = 0, fr_session = 0, fr_generation = 0, fr_covered = 0, fr_initialized = False,
     fr_firstDifference = False, fr_pushEligible = False, fr_cycle = False, fr_attempts = 0,
     fr_nextAttempt = 0, fr_inFlight = False, fr_claimID = 0\<rparr>"

definition new_recovery_cell :: recovery_cell where
  "new_recovery_cell = \<lparr>rc_state = zero_recovery\<lparr>fr_firstDifference := True\<rparr>, rc_claims = 0\<rparr>"

definition resetDialogFilterRecoveryLocked :: "int \<Rightarrow> int \<Rightarrow> recovery_cell \<Rightarrow> recovery_cell" where
  "resetDialogFilterRecoveryLocked owner session c =
     c\<lparr>rc_state := zero_recovery\<lparr>fr_owner := owner, fr_session := session, fr_firstDifference := True\<rparr>\<rparr>"

definition EnsureDialogFilterRecoveryBinding :: "int \<Rightarrow> int \<Rightarrow> generation \<Rightarrow> recovery_cell \<Rightarrow> recovery_cell" where
  "EnsureDialogFilterRecoveryBinding owner session initialCoverage c =
     (let state = rc_state c in
      if fr_owner state = owner \<and> fr_session state = session \<and> fr_initialized state then c
      else c\<lparr>rc_state := zero_recovery\<lparr>fr_owner := owner, fr_session := session, fr_covered := initialCoverage,
                                       fr_initialized := True, fr_firstDifference := True\<rparr>\<rparr>)"

definition MarkDialogFilterRecovery ::
  "int \<Rightarrow> int \<Rightarrow> generation \<Rightarrow> generation \<Rightarrow> recovery_cell \<Rightarrow> bool \<times> recovery_cell" where
  "MarkDialogFilterRecovery owner session generation globalEpoch c =
     (let current = rc_state c in
      if fr_owner current \<noteq> owner \<or> fr_session current \<noteq> session then (False, c)
      else
        let next = (if \<not> fr_initialized current
                    then zero_recovery\<lparr>fr_owner := owner, fr_session := session,
                                       fr_covered := max (generation - 1) globalEpoch,
                                       fr_initialized := True, fr_firstDifference := True\<rparr>
                    else current);
            before = max (fr_generation next) globalEpoch > fr_covered next;
            next = (if generation > fr_generation next then next\<lparr>fr_generation := generation\<rparr> else next);
            after = max (fr_generation next) globalEpoch > fr_covered next;
            next = (if \<not> before \<and> after
                    then next\<lparr>fr_cycle := False, fr_attempts := 0, fr_nextAttempt := 0\<rparr> else next)
        in (True, c\<lparr>rc_state := next\<rparr>))"

definition DialogFilterRecoverySnapshot ::
  "int \<Rightarrow> int \<Rightarrow> generation \<Rightarrow> recovery_cell \<Rightarrow> (generation \<times> generation \<times> bool \<times> bool) option" where
  "DialogFilterRecoverySnapshot owner session globalEpoch c =
     (let state = rc_state c in
      if fr_owner state \<noteq> owner \<or> fr_session state \<noteq> session \<or> \<not> fr_initialized state then None
      else Some (fr_generation state, fr_covered state, fr_firstDifference state,
                 max (fr_generation state) globalEpoch > fr_covered state))"

definition DialogFilterRecoveryAttemptPending :: "int \<Rightarrow> int \<Rightarrow> generation \<Rightarrow> recovery_cell \<Rightarrow> bool" where
  "DialogFilterRecoveryAttemptPending owner session globalEpoch c \<longleftrightarrow>
     (let state = rc_state c in
      fr_owner state = owner \<and> fr_session state = session \<and> fr_initialized state \<and>
      fr_pushEligible state \<and> fr_attempts state < 3 \<and> max (fr_generation state) globalEpoch > fr_covered state)"

definition AcknowledgeDialogFilterFetch ::
  "int \<Rightarrow> int \<Rightarrow> generation \<Rightarrow> generation \<Rightarrow> recovery_cell \<Rightarrow> bool \<times> recovery_cell" where
  "AcknowledgeDialogFilterFetch owner session captured globalEpoch c =
     (let state = rc_state c in
      if fr_owner state \<noteq> owner \<or> fr_session state \<noteq> session \<or> \<not> fr_initialized state then (False, c)
      else
        let next = (if captured > fr_covered state then state\<lparr>fr_covered := captured\<rparr> else state);
            next = (if max (fr_generation next) globalEpoch \<le> fr_covered next
                    then next\<lparr>fr_cycle := False, fr_attempts := 0, fr_nextAttempt := 0,
                              fr_inFlight := False, fr_claimID := 0\<rparr> else next)
        in (True, c\<lparr>rc_state := next\<lparr>fr_pushEligible := True\<rparr>\<rparr>))"

definition AcknowledgeDialogFilterDifference ::
  "int \<Rightarrow> int \<Rightarrow> bool \<Rightarrow> recovery_cell \<Rightarrow> bool \<times> recovery_cell" where
  "AcknowledgeDialogFilterDifference owner session consumeFirst c =
     (let state = rc_state c in
      if \<not> consumeFirst then (False, c)
      else if fr_owner state \<noteq> owner \<or> fr_session state \<noteq> session \<or> \<not> fr_initialized state \<or>
              \<not> fr_firstDifference state then (False, c)
      else (True, c\<lparr>rc_state := state\<lparr>fr_firstDifference := False, fr_pushEligible := True\<rparr>\<rparr>))"

definition ClaimDialogFilterRecoveryAttempt ::
  "int \<Rightarrow> int \<Rightarrow> generation \<Rightarrow> gtime \<Rightarrow> recovery_cell \<Rightarrow> 64 word option \<times> recovery_cell" where
  "ClaimDialogFilterRecoveryAttempt owner session globalEpoch now c =
     (let state = rc_state c in
      if fr_owner state \<noteq> owner \<or> fr_session state \<noteq> session \<or> \<not> fr_initialized state \<or>
         \<not> fr_pushEligible state \<or> fr_inFlight state then (None, c)
      else if max (fr_generation state) globalEpoch \<le> fr_covered state \<or> fr_attempts state \<ge> 3 then (None, c)
      else if fr_attempts state > 0 \<and> now < fr_nextAttempt state then (None, c)
      else
        let attempts = fr_attempts state + 1;
            claimID = rc_claims c + 1;
            nextAttempt = (if attempts = 1 then now + 20 * second
                           else if attempts = 2 then now + 40 * second else 0)
        in (Some claimID,
            \<lparr>rc_state = state\<lparr>fr_cycle := True, fr_attempts := attempts, fr_inFlight := True,
                              fr_claimID := claimID, fr_nextAttempt := nextAttempt\<rparr>,
             rc_claims = claimID\<rparr>))"

definition FinishDialogFilterRecoveryAttempt :: "int \<Rightarrow> int \<Rightarrow> 64 word \<Rightarrow> recovery_cell \<Rightarrow> recovery_cell" where
  "FinishDialogFilterRecoveryAttempt owner session claimID c =
     (let state = rc_state c in
      if fr_owner state \<noteq> owner \<or> fr_session state \<noteq> session \<or> \<not> fr_inFlight state \<or>
         fr_claimID state \<noteq> claimID then c
      else c\<lparr>rc_state := state\<lparr>fr_inFlight := False, fr_claimID := 0\<rparr>\<rparr>)"

section \<open>Operations as events\<close>

datatype recovery_op =
    Reset int int
  | Ensure int int generation
  | MarkGen int int generation generation
  | AckFetch int int generation generation
  | AckDiff int int bool
  | Claim int int generation gtime
  | Finish int int "64 word"

fun recovery_do :: "recovery_op \<Rightarrow> recovery_cell \<Rightarrow> recovery_cell" where
  "recovery_do (Reset owner session) c = resetDialogFilterRecoveryLocked owner session c"
| "recovery_do (Ensure owner session g) c = EnsureDialogFilterRecoveryBinding owner session g c"
| "recovery_do (MarkGen owner session g e) c = snd (MarkDialogFilterRecovery owner session g e c)"
| "recovery_do (AckFetch owner session captured e) c = snd (AcknowledgeDialogFilterFetch owner session captured e c)"
| "recovery_do (AckDiff owner session first) c = snd (AcknowledgeDialogFilterDifference owner session first c)"
| "recovery_do (Claim owner session e now) c = snd (ClaimDialogFilterRecoveryAttempt owner session e now c)"
| "recovery_do (Finish owner session n) c = FinishDialogFilterRecoveryAttempt owner session n c"

text \<open>The times of the attempts that were granted along a sequence of operations.\<close>

fun granted_times :: "recovery_op list \<Rightarrow> recovery_cell \<Rightarrow> gtime list" where
  "granted_times [] c = []"
| "granted_times (op # ops) c =
     (case op of
        Claim owner session e now \<Rightarrow>
          if fst (ClaimDialogFilterRecoveryAttempt owner session e now c) \<noteq> None then [now] else []
      | _ \<Rightarrow> []) @ granted_times ops (recovery_do op c)"

text \<open>
  One uncovered invalidation: the connection keeps its binding and, at every step and for every
  epoch an operation brings, something remains that the client has not fetched.
\<close>

definition uncovered :: "generation \<Rightarrow> filter_recovery \<Rightarrow> bool" where
  "uncovered e s \<longleftrightarrow> max (fr_generation s) e > fr_covered s"

fun op_epoch :: "recovery_op \<Rightarrow> generation option" where
  "op_epoch (MarkGen owner session g e) = Some e"
| "op_epoch (AckFetch owner session captured e) = Some e"
| "op_epoch (Claim owner session e now) = Some e"
| "op_epoch op = None"

fun stays_uncovered :: "recovery_op list \<Rightarrow> recovery_cell \<Rightarrow> bool" where
  "stays_uncovered [] c \<longleftrightarrow> True"
| "stays_uncovered (op # ops) c \<longleftrightarrow>
     fr_initialized (rc_state c) \<and>
     (\<forall>owner session. op \<noteq> Reset owner session) \<and>
     (\<forall>owner session g. op = Ensure owner session g \<longrightarrow>
        fr_owner (rc_state c) = owner \<and> fr_session (rc_state c) = session) \<and>
     (\<forall>e. op_epoch op = Some e \<longrightarrow> uncovered e (rc_state c) \<and> uncovered e (rc_state (recovery_do op c))) \<and>
     stays_uncovered ops (recovery_do op c)"


text \<open>The connection keeps its owner and session: nothing rebinds the state.\<close>

fun keeps_binding :: "recovery_op \<Rightarrow> recovery_cell \<Rightarrow> bool" where
  "keeps_binding (Reset owner session) c \<longleftrightarrow> False"
| "keeps_binding (Ensure owner session g) c \<longleftrightarrow> fr_owner (rc_state c) = owner \<and> fr_session (rc_state c) = session"
| "keeps_binding op c \<longleftrightarrow> True"

fun stays_bound :: "recovery_op list \<Rightarrow> recovery_cell \<Rightarrow> bool" where
  "stays_bound [] c \<longleftrightarrow> True"
| "stays_bound (op # ops) c \<longleftrightarrow> keeps_binding op c \<and> stays_bound ops (recovery_do op c)"

fun recovery_run :: "recovery_op list \<Rightarrow> recovery_cell \<Rightarrow> recovery_cell" where
  "recovery_run [] c = c"
| "recovery_run (op # ops) c = recovery_run ops (recovery_do op c)"

text \<open>A fetch that read the folders before generation \<open>g\<close> was captured.\<close>

fun fetches_before :: "generation \<Rightarrow> recovery_op \<Rightarrow> bool" where
  "fetches_before g (AckFetch owner session captured e) \<longleftrightarrow> captured < g"
| "fetches_before g op \<longleftrightarrow> True"

definition same_binding :: "filter_recovery \<Rightarrow> filter_recovery \<Rightarrow> bool" where
  "same_binding s s' \<longleftrightarrow> fr_owner s' = fr_owner s \<and> fr_session s' = fr_session s \<and> fr_initialized s'"

lemmas recovery_defs = resetDialogFilterRecoveryLocked_def EnsureDialogFilterRecoveryBinding_def
  MarkDialogFilterRecovery_def AcknowledgeDialogFilterFetch_def AcknowledgeDialogFilterDifference_def
  ClaimDialogFilterRecoveryAttempt_def FinishDialogFilterRecoveryAttempt_def

section \<open>An invalidation is pending until a later fetch\<close>

lemma recovery_do_bound:
  assumes "keeps_binding op c" and "fr_initialized (rc_state c)"
  shows "same_binding (rc_state c) (rc_state (recovery_do op c))"
  using assms by (cases op) (auto simp: recovery_defs same_binding_def Let_def)

lemma recovery_do_generation_mono:
  assumes "keeps_binding op c" and "fr_initialized (rc_state c)"
  shows "fr_generation (rc_state c) \<le> fr_generation (rc_state (recovery_do op c))"
  using assms by (cases op) (auto simp: recovery_defs Let_def)

lemma recovery_do_covered_mono:
  assumes "keeps_binding op c" and "fr_initialized (rc_state c)"
  shows "fr_covered (rc_state c) \<le> fr_covered (rc_state (recovery_do op c))"
  using assms by (cases op) (auto simp: recovery_defs Let_def)

lemma recovery_do_covered_below:
  assumes "keeps_binding op c" and "fr_initialized (rc_state c)"
    and "fetches_before g op" and "fr_covered (rc_state c) < g"
  shows "fr_covered (rc_state (recovery_do op c)) < g"
  using assms by (cases op) (auto simp: recovery_defs Let_def)

lemma recovery_run_pending:
  assumes "stays_bound ops c" and "fr_initialized (rc_state c)" and "list_all (fetches_before g) ops"
    and "fr_covered (rc_state c) < g" and "g \<le> fr_generation (rc_state c)"
  shows "same_binding (rc_state c) (rc_state (recovery_run ops c)) \<and>
    fr_covered (rc_state (recovery_run ops c)) < g \<and> g \<le> fr_generation (rc_state (recovery_run ops c))"
  using assms
proof (induction ops arbitrary: c)
  case Nil
  then show ?case by (simp add: same_binding_def)
next
  case (Cons op ops)
  then have b: "same_binding (rc_state c) (rc_state (recovery_do op c))"
    using recovery_do_bound by simp
  moreover have "fr_covered (rc_state (recovery_do op c)) < g"
    using Cons.prems recovery_do_covered_below by simp
  moreover have "g \<le> fr_generation (rc_state (recovery_do op c))"
    using Cons.prems recovery_do_generation_mono [of op c] by simp
  ultimately show ?case
    using Cons.prems Cons.IH [of "recovery_do op c"] by (auto simp: same_binding_def)
qed

text \<open>
  C28. A folder invalidation is never lost. Once generation g has been marked on an initialized
  binding that has not fetched it, every later snapshot of the same binding, for every replica
  epoch, reports the connection as pending, whatever marks, claims, finishes, differences and
  fetches follow, until a fetch whose captured generation is at least g is acknowledged.
\<close>

theorem invalidation_not_lost:
  assumes bound: "fr_owner (rc_state c) = owner" "fr_session (rc_state c) = session" "fr_initialized (rc_state c)"
    and fresh: "fr_covered (rc_state c) < g"
    and marked: "MarkDialogFilterRecovery owner session g e c = (ok, c')"
    and run: "stays_bound ops c'" "list_all (fetches_before g) ops"
  shows "ok \<and> (\<exists>generation covered first.
    DialogFilterRecoverySnapshot owner session e' (recovery_run ops c') = Some (generation, covered, first, True) \<and>
    g \<le> generation \<and> covered < g)"
proof -
  have c': "c' = recovery_do (MarkGen owner session g e) c" and ok
    using marked bound by (simp_all add: MarkDialogFilterRecovery_def Let_def)
  have b: "same_binding (rc_state c) (rc_state c')"
    unfolding c' using bound by (intro recovery_do_bound) simp_all
  have "fr_covered (rc_state c') < g"
    unfolding c' using bound fresh by (intro recovery_do_covered_below) simp_all
  moreover have "g \<le> fr_generation (rc_state c')"
    unfolding c' using bound by (auto simp: MarkDialogFilterRecovery_def Let_def)
  ultimately have r: "same_binding (rc_state c') (rc_state (recovery_run ops c')) \<and>
      fr_covered (rc_state (recovery_run ops c')) < g \<and> g \<le> fr_generation (rc_state (recovery_run ops c'))"
    using recovery_run_pending run b by (simp add: same_binding_def)
  then have "fr_covered (rc_state (recovery_run ops c')) < max (fr_generation (rc_state (recovery_run ops c'))) e'"
    by (meson less_le_trans max.coboundedI1)
  with r b bound \<open>ok\<close> show ?thesis
    by (simp add: DialogFilterRecoverySnapshot_def Let_def same_binding_def)
qed

definition bound_cell :: recovery_cell where
  "bound_cell = EnsureDialogFilterRecoveryBinding 7 9 4 new_recovery_cell"

theorem invalidation_not_lost_witness:
  "\<exists>generation covered first.
     DialogFilterRecoverySnapshot 7 9 0
       (recovery_run [AckDiff 7 9 True, Claim 7 9 0 100, AckFetch 7 9 5 0]
          (snd (MarkDialogFilterRecovery 7 9 6 4 bound_cell))) = Some (generation, covered, first, True) \<and>
     6 \<le> generation \<and> covered < 6"
proof -
  have m: "MarkDialogFilterRecovery 7 9 6 4 bound_cell = (True, snd (MarkDialogFilterRecovery 7 9 6 4 bound_cell))"
    by (simp add: bound_cell_def recovery_defs new_recovery_cell_def zero_recovery_def Let_def)
  show ?thesis
    using invalidation_not_lost [of bound_cell 7 9 6 4 True "snd (MarkDialogFilterRecovery 7 9 6 4 bound_cell)"
        "[AckDiff 7 9 True, Claim 7 9 0 100, AckFetch 7 9 5 0]" 0, OF _ _ _ _ m]
    by (simp add: bound_cell_def recovery_defs new_recovery_cell_def zero_recovery_def Let_def)
qed

section \<open>Attempts are bounded and spaced\<close>

fun spaced :: "int \<Rightarrow> gtime \<Rightarrow> gtime list \<Rightarrow> bool" where
  "spaced attempts next [] \<longleftrightarrow> True"
| "spaced attempts next (t # ts) \<longleftrightarrow>
     attempts < 3 \<and> (attempts > 0 \<longrightarrow> next \<le> t) \<and>
     spaced (attempts + 1) (if attempts + 1 = 1 then t + 20 * second
                            else if attempts + 1 = 2 then t + 40 * second else 0) ts"

definition claim_open :: "int \<Rightarrow> int \<Rightarrow> generation \<Rightarrow> gtime \<Rightarrow> filter_recovery \<Rightarrow> bool" where
  "claim_open owner session e now s \<longleftrightarrow>
     fr_owner s = owner \<and> fr_session s = session \<and> fr_initialized s \<and> fr_pushEligible s \<and> \<not> fr_inFlight s \<and>
     uncovered e s \<and> fr_attempts s < 3 \<and> (fr_attempts s > 0 \<longrightarrow> fr_nextAttempt s \<le> now)"

definition claimed_state :: "gtime \<Rightarrow> 64 word \<Rightarrow> filter_recovery \<Rightarrow> filter_recovery" where
  "claimed_state now n s = s\<lparr>fr_cycle := True, fr_attempts := fr_attempts s + 1, fr_inFlight := True, fr_claimID := n,
     fr_nextAttempt := (if fr_attempts s + 1 = 1 then now + 20 * second
                        else if fr_attempts s + 1 = 2 then now + 40 * second else 0)\<rparr>"

lemma claim_eq:
  "ClaimDialogFilterRecoveryAttempt owner session e now c =
     (if claim_open owner session e now (rc_state c)
      then (Some (rc_claims c + 1),
            \<lparr>rc_state = claimed_state now (rc_claims c + 1) (rc_state c), rc_claims = rc_claims c + 1\<rparr>)
      else (None, c))"
proof (cases "claim_open owner session e now (rc_state c)")
  case True
  then have "\<not> (fr_owner (rc_state c) \<noteq> owner \<or> fr_session (rc_state c) \<noteq> session \<or> \<not> fr_initialized (rc_state c) \<or>
        \<not> fr_pushEligible (rc_state c) \<or> fr_inFlight (rc_state c))"
    and "\<not> (max (fr_generation (rc_state c)) e \<le> fr_covered (rc_state c) \<or> fr_attempts (rc_state c) \<ge> 3)"
    and "\<not> (fr_attempts (rc_state c) > 0 \<and> now < fr_nextAttempt (rc_state c))"
    unfolding claim_open_def uncovered_def not_le [symmetric] by auto
  then show ?thesis
    unfolding ClaimDialogFilterRecoveryAttempt_def claimed_state_def Let_def by (simp only: True if_True if_False)
next
  case False
  then consider "fr_owner (rc_state c) \<noteq> owner \<or> fr_session (rc_state c) \<noteq> session \<or> \<not> fr_initialized (rc_state c) \<or>
        \<not> fr_pushEligible (rc_state c) \<or> fr_inFlight (rc_state c)"
    | "max (fr_generation (rc_state c)) e \<le> fr_covered (rc_state c) \<or> fr_attempts (rc_state c) \<ge> 3"
    | "fr_attempts (rc_state c) > 0 \<and> now < fr_nextAttempt (rc_state c)"
    unfolding claim_open_def uncovered_def not_less [symmetric] by blast
  then show ?thesis
    unfolding ClaimDialogFilterRecoveryAttempt_def Let_def
    by cases (simp_all only: False if_True if_False if_cancel simp_thms)
qed

lemma claim_granted:
  assumes "fst (ClaimDialogFilterRecoveryAttempt owner session e now c) \<noteq> None"
  shows "fr_attempts (rc_state c) < 3 \<and>
    (fr_attempts (rc_state c) > 0 \<longrightarrow> fr_nextAttempt (rc_state c) \<le> now) \<and>
    fr_attempts (rc_state (recovery_do (Claim owner session e now) c)) = fr_attempts (rc_state c) + 1 \<and>
    fr_nextAttempt (rc_state (recovery_do (Claim owner session e now) c)) =
      (if fr_attempts (rc_state c) + 1 = 1 then now + 20 * second
       else if fr_attempts (rc_state c) + 1 = 2 then now + 40 * second else 0)"
  using assms by (auto simp: claim_eq claim_open_def claimed_state_def split: if_splits)

lemma claim_refused:
  assumes "fst (ClaimDialogFilterRecoveryAttempt owner session e now c) = None"
  shows "recovery_do (Claim owner session e now) c = c"
  using assms by (simp add: claim_eq split: if_splits)

lemma uncovered_keeps_attempts:
  assumes "stays_uncovered (op # ops) c" and "\<nexists>owner session e now. op = Claim owner session e now"
  shows "fr_attempts (rc_state (recovery_do op c)) = fr_attempts (rc_state c) \<and>
    fr_nextAttempt (rc_state (recovery_do op c)) = fr_nextAttempt (rc_state c)"
  using assms by (cases op) (auto simp: recovery_defs uncovered_def Let_def less_max_iff_disj not_less [symmetric])

lemma granted_times_spaced:
  assumes "stays_uncovered ops c"
  shows "spaced (fr_attempts (rc_state c)) (fr_nextAttempt (rc_state c)) (granted_times ops c)"
  using assms
proof (induction ops arbitrary: c)
  case (Cons op ops)
  have ih: "spaced (fr_attempts (rc_state (recovery_do op c))) (fr_nextAttempt (rc_state (recovery_do op c)))
              (granted_times ops (recovery_do op c))"
    using Cons by simp
  show ?case
  proof (cases "\<exists>owner session e now. op = Claim owner session e now")
    case True
    then obtain owner session e now where op: "op = Claim owner session e now" by blast
    show ?thesis
    proof (cases "fst (ClaimDialogFilterRecoveryAttempt owner session e now c) = None")
      case True
      with claim_refused [OF True] ih op show ?thesis by simp
    next
      case False
      with claim_granted [OF False] ih op show ?thesis by simp
    qed
  next
    case False
    with uncovered_keeps_attempts [OF Cons.prems] have
      "fr_attempts (rc_state (recovery_do op c)) = fr_attempts (rc_state c)"
      "fr_nextAttempt (rc_state (recovery_do op c)) = fr_nextAttempt (rc_state c)" by blast+
    with ih False show ?thesis by (cases op) auto
  qed
qed simp

lemma spaced_three:
  assumes "spaced 0 n ts"
  shows "length ts \<le> 3 \<and> (1 < length ts \<longrightarrow> ts ! 0 + 20 * second \<le> ts ! 1) \<and>
    (2 < length ts \<longrightarrow> ts ! 1 + 40 * second \<le> ts ! 2)"
proof (cases ts)
  case (Cons a as)
  note ts = Cons
  show ?thesis
  proof (cases as)
    case (Cons b bs)
    show ?thesis
      using assms ts Cons by (cases bs; cases "tl bs") auto
  qed (use ts in simp)
qed simp

text \<open>
  Recovery pushes are bounded and spaced. While an invalidation stays uncovered on one binding,
  whatever is marked, claimed, finished and acknowledged in between, at most three push attempts
  are granted: the second at least 20 seconds after the first and the third at least 40 seconds
  after the second.
\<close>

theorem recovery_attempts_bounded:
  assumes "stays_uncovered ops c" and "fr_attempts (rc_state c) = 0" and "ts = granted_times ops c"
  shows "length ts \<le> 3 \<and> (1 < length ts \<longrightarrow> ts ! 0 + 20 * second \<le> ts ! 1) \<and>
    (2 < length ts \<longrightarrow> ts ! 1 + 40 * second \<le> ts ! 2)"
  using granted_times_spaced [OF assms(1)] assms(2,3) by (intro spaced_three) auto

definition nudge_ops :: "recovery_op list" where
  "nudge_ops = [AckDiff 7 9 True, Claim 7 9 0 100, Finish 7 9 1, Claim 7 9 0 200,
     Claim 7 9 0 (100 + 20 * second), Claim 7 9 0 (100 + 90 * second), Finish 7 9 2,
     Claim 7 9 0 (100 + 90 * second), Finish 7 9 3, Claim 7 9 0 (100 + 900 * second)]"

definition nudge_cell :: recovery_cell where
  "nudge_cell = snd (MarkDialogFilterRecovery 7 9 6 4 bound_cell)"

lemmas nudge_defs = nudge_cell_def bound_cell_def new_recovery_cell_def zero_recovery_def recovery_defs

theorem recovery_attempts_bounded_witness:
  "granted_times nudge_ops nudge_cell = [100, 100 + 20 * second, 100 + 90 * second] \<and>
   (let ts = granted_times nudge_ops nudge_cell in
    length ts \<le> 3 \<and> (1 < length ts \<longrightarrow> ts ! 0 + 20 * second \<le> ts ! 1) \<and>
    (2 < length ts \<longrightarrow> ts ! 1 + 40 * second \<le> ts ! 2))"
proof
  show "granted_times nudge_ops nudge_cell = [100, 100 + 20 * second, 100 + 90 * second]"
    by (simp add: nudge_ops_def nudge_defs Let_def)
  have "stays_uncovered nudge_ops nudge_cell"
    by (simp add: nudge_ops_def nudge_defs Let_def uncovered_def)
  moreover have "fr_attempts (rc_state nudge_cell) = 0"
    by (simp add: nudge_defs Let_def)
  ultimately show "let ts = granted_times nudge_ops nudge_cell in
    length ts \<le> 3 \<and> (1 < length ts \<longrightarrow> ts ! 0 + 20 * second \<le> ts ! 1) \<and>
    (2 < length ts \<longrightarrow> ts ! 1 + 40 * second \<le> ts ! 2)"
    unfolding Let_def using recovery_attempts_bounded by blast
qed

section \<open>One attempt in flight\<close>

text \<open>
  While a claim is in flight no other attempt is granted, and finishing under a claim identifier
  other than the current one changes nothing: a push that was scheduled before a rebind cannot
  release the attempt of the binding that replaced it.
\<close>

lemma claim_in_flight:
  assumes "ClaimDialogFilterRecoveryAttempt owner session e now c = (Some n, c')"
  shows "fr_inFlight (rc_state c') \<and> fr_claimID (rc_state c') = n \<and> n = rc_claims c + 1 \<and> rc_claims c' = n \<and>
    same_binding (rc_state c) (rc_state c') \<and>
    fst (ClaimDialogFilterRecoveryAttempt owner' session' e' now' c') = None"
  using assms by (auto simp: claim_eq claim_open_def claimed_state_def same_binding_def split: if_splits)

lemma finish_stale:
  "fr_claimID (rc_state c) \<noteq> n \<Longrightarrow> FinishDialogFilterRecoveryAttempt owner session n c = c"
  by (simp add: FinishDialogFilterRecoveryAttempt_def Let_def)

lemma finish_keeps_budget:
  "fr_covered (rc_state (FinishDialogFilterRecoveryAttempt owner session n c)) = fr_covered (rc_state c) \<and>
   fr_attempts (rc_state (FinishDialogFilterRecoveryAttempt owner session n c)) = fr_attempts (rc_state c)"
  by (simp add: FinishDialogFilterRecoveryAttempt_def Let_def)

end
