(* ===== verification/Fixed_Window.thy ===== *)
theory Fixed_Window
  imports Go_Prelude
begin

text \<open>
  The fixed-window contract that the server's rate limits share: a window opens at the first call
  it counts, grants up to a limit, and is replaced by the first granted call at or after its end.
  A limiter serves many kinds of calls; \<open>mine\<close> says which of them one window counts, and an
  expired window may be forgotten. \<open>fixed_window\<close> states the contract and proves what it means
  over a whole sequence of calls: no span as long as the window holds more than twice the limit.
  The discovery limiter's two windows, the per-connection method budget and the stored rate-limit
  rows are interpretations.
\<close>

fun fw_run :: "('e \<Rightarrow> gtime \<Rightarrow> 's \<Rightarrow> bool \<times> 's) \<Rightarrow> ('e \<Rightarrow> bool) \<Rightarrow> ('e \<times> gtime) list \<Rightarrow> 's \<Rightarrow> gtime list" where
  "fw_run allow mine [] s = []"
| "fw_run allow mine ((e, t) # es) s =
     (let (ok, s') = allow e t s in (if ok \<and> mine e then [t] else []) @ fw_run allow mine es s')"

definition in_span :: "gtime \<Rightarrow> gduration \<Rightarrow> gtime list \<Rightarrow> nat" where
  "in_span a w ts = length (filter (\<lambda>x. a \<le> x \<and> x < a + w) ts)"

lemma in_span_simps [simp]:
  "in_span a w [] = 0"
  "in_span a w (ts @ us) = in_span a w ts + in_span a w us"
  by (simp_all add: in_span_def)

lemma in_span_single: "in_span a w [t] = (if a \<le> t \<and> t < a + w then 1 else 0)"
  by (simp add: in_span_def)

lemma length_filter_le_mono:
  "(\<And>x. x \<in> set xs \<Longrightarrow> P x \<Longrightarrow> Q x) \<Longrightarrow> length (filter P xs) \<le> length (filter Q xs)"
  by (induction xs) auto

lemma length_filter_split:
  assumes "\<And>x. x \<in> set xs \<Longrightarrow> P x \<Longrightarrow> Q x \<or> R x"
  shows "length (filter P xs) \<le> length (filter Q xs) + length (filter R xs)"
  using assms
proof (induction xs)
  case (Cons x xs)
  have "length (filter P xs) \<le> length (filter Q xs) + length (filter R xs)"
    by (rule Cons.IH) (use Cons.prems in auto)
  with Cons.prems [of x] show ?case by auto
qed simp

locale fixed_window =
  fixes allow :: "'e \<Rightarrow> gtime \<Rightarrow> 's \<Rightarrow> bool \<times> 's"
    and mine :: "'e \<Rightarrow> bool"
    and ok_state :: "'s \<Rightarrow> bool"
    and start :: "'s \<Rightarrow> gtime"
    and calls :: "'s \<Rightarrow> int"
    and limit :: int
    and window :: gduration
  assumes limit_pos: "0 < limit"
    and window_pos: "0 < window"
    and keeps_ok: "ok_state s \<Longrightarrow> ok_state (snd (allow e now s))"
    and opened: "ok_state s \<Longrightarrow> mine e \<Longrightarrow> fst (allow e now s) \<Longrightarrow> start s = 0 \<or> start s + window \<le> now \<Longrightarrow>
        start (snd (allow e now s)) = now \<and> calls (snd (allow e now s)) = 1"
    and counted: "ok_state s \<Longrightarrow> mine e \<Longrightarrow> fst (allow e now s) \<Longrightarrow> start s \<noteq> 0 \<Longrightarrow> now < start s + window \<Longrightarrow>
        calls s < limit \<and> start (snd (allow e now s)) = start s \<and> calls (snd (allow e now s)) = calls s + 1"
    and uncounted: "ok_state s \<Longrightarrow> \<not> (mine e \<and> fst (allow e now s)) \<Longrightarrow>
        start (snd (allow e now s)) = start s \<and> calls s \<le> calls (snd (allow e now s)) \<or>
        start (snd (allow e now s)) = 0 \<and> (start s = 0 \<or> start s + window \<le> now)"
begin

text \<open>
  What holds of a limiter at time T and the log of the calls it granted: the current window counts
  its own grants, the span just before it (or before T, when no window is open) holds at most a
  limit's worth, and every window-long span at most two.
\<close>

definition recent :: "gtime \<Rightarrow> gtime list \<Rightarrow> int" where
  "recent t lg = int (length (filter (\<lambda>x. t - window < x \<and> x < t) lg))"

definition log_inv :: "'s \<Rightarrow> gtime list \<Rightarrow> gtime \<Rightarrow> bool" where
  "log_inv s lg T \<longleftrightarrow>
     (if start s = 0 then (\<forall>x \<in> set lg. x < T) \<and> recent T lg \<le> limit
      else start s \<le> T \<and> (\<forall>x \<in> set lg. x < start s + window) \<and>
           int (length (filter (\<lambda>x. start s \<le> x) lg)) \<le> min limit (calls s) \<and>
           recent (start s) lg \<le> limit) \<and>
     (\<forall>a. int (in_span a window lg) \<le> 2 * limit)"

lemma log_inv_span: "log_inv s lg T \<Longrightarrow> int (in_span a window lg) \<le> 2 * limit"
  by (simp add: log_inv_def)

lemma recent_later:
  assumes "\<forall>x \<in> set lg. x < T" and "T \<le> now"
  shows "recent now lg \<le> recent T lg"
  unfolding recent_def of_nat_le_iff by (rule length_filter_le_mono) (use assms in auto)

text \<open>At the end of a window its grants are recent ones, and no other is.\<close>

lemma expired_recent:
  assumes "log_inv s lg T" and "T \<le> now" and "start s = 0 \<or> start s + window \<le> now"
  shows "(\<forall>x \<in> set lg. x < now) \<and> recent now lg \<le> limit"
proof (cases "start s = 0")
  case True
  with assms recent_later [of lg T now] show ?thesis by (force simp: log_inv_def)
next
  case False
  with assms have e: "start s + window \<le> now" and old: "\<forall>x \<in> set lg. x < start s + window"
    and cur: "int (length (filter (\<lambda>x. start s \<le> x) lg)) \<le> limit" by (simp_all add: log_inv_def)
  have "length (filter (\<lambda>x. now - window < x \<and> x < now) lg) \<le> length (filter (\<lambda>x. start s \<le> x) lg)"
    by (rule length_filter_le_mono) (use e in auto)
  moreover have "\<forall>x \<in> set lg. x < now" using old e by force
  ultimately show ?thesis using cur by (simp add: recent_def)
qed

lemma log_inv_opened:
  assumes "log_inv s lg T" and "T \<le> now" and "start s = 0 \<or> start s + window \<le> now"
    and "0 < now" and "start s' = now" and "calls s' = 1"
  shows "log_inv s' (lg @ [now]) now"
proof -
  note span = log_inv_span [OF assms(1)]
  from expired_recent [OF assms(1-3)] have before: "\<forall>x \<in> set lg. x < now" and rec: "recent now lg \<le> limit"
    by blast+
  then have "filter (\<lambda>x. now \<le> x) lg = []" by (force simp: filter_empty_conv)
  moreover have "\<forall>x \<in> set (lg @ [now]). x < now + window"
    using before window_pos by force
  moreover have "int (in_span a window (lg @ [now])) \<le> 2 * limit" for a
  proof (cases "a \<le> now \<and> now < a + window")
    case True
    have "length (filter (\<lambda>x. a \<le> x \<and> x < a + window) lg) \<le>
        length (filter (\<lambda>x. now - window < x \<and> x < now) lg)"
      by (rule length_filter_le_mono) (use True before in auto)
    with rec limit_pos show ?thesis by (simp add: in_span_def recent_def)
  next
    case False
    with span show ?thesis by (auto simp: in_span_single)
  qed
  moreover have "recent now (lg @ [now]) \<le> limit" using rec by (simp add: recent_def)
  ultimately show ?thesis using assms(4-6) limit_pos by (simp add: log_inv_def)
qed

lemma log_inv_counted:
  assumes inv: "log_inv s lg T" and st: "start s \<noteq> 0" "now < start s + window" "T \<le> now"
    and "calls s < limit" and "start s' = start s" and "calls s' = calls s + 1"
  shows "log_inv s' (lg @ [now]) now"
proof -
  from inv st have old: "\<forall>x \<in> set lg. x < start s + window" and le: "start s \<le> now"
    and cur: "int (length (filter (\<lambda>x. start s \<le> x) lg)) \<le> calls s"
    and prev: "recent (start s) lg \<le> limit"
    and span: "\<forall>a. int (in_span a window lg) \<le> 2 * limit" by (simp_all add: log_inv_def)
  have "int (in_span a window (lg @ [now])) \<le> 2 * limit" for a
  proof (cases "a \<le> now \<and> now < a + window")
    case True
    have "length (filter (\<lambda>x. a \<le> x \<and> x < a + window) lg) \<le>
        length (filter (\<lambda>x. start s - window < x \<and> x < start s) lg) + length (filter (\<lambda>x. start s \<le> x) lg)"
      by (rule length_filter_split) (use True le in auto)
    with cur prev assms(5) True show ?thesis by (simp add: in_span_def recent_def)
  next
    case False
    with span show ?thesis by (auto simp: in_span_single)
  qed
  moreover have "\<forall>x \<in> set (lg @ [now]). x < start s + window" using old st by simp
  moreover have "recent (start s) (lg @ [now]) \<le> limit" using prev le by (simp add: recent_def)
  ultimately show ?thesis using assms(5-7) le st cur by (simp add: log_inv_def)
qed

lemma log_inv_uncounted:
  assumes inv: "log_inv s lg T" and T: "T \<le> now"
    and "start s' = start s \<and> calls s \<le> calls s' \<or> start s' = 0 \<and> (start s = 0 \<or> start s + window \<le> now)"
  shows "log_inv s' lg now"
proof (cases "start s' = 0")
  case True
  with assms(3) have "start s = 0 \<or> start s + window \<le> now" by auto
  from expired_recent [OF inv T this] True log_inv_span [OF inv] show ?thesis
    by (simp add: log_inv_def)
next
  case False
  with assms(3) have "start s' = start s" "calls s \<le> calls s'" by auto
  with False inv T show ?thesis by (simp add: log_inv_def)
qed

lemma log_inv_step:
  assumes "ok_state s" and inv: "log_inv s lg T" and T: "T \<le> now" and pos: "0 < now"
    and step: "allow e now s = (ok, s')"
  shows "log_inv s' (lg @ (if ok \<and> mine e then [now] else [])) now"
proof (cases "ok \<and> mine e")
  case True
  then have g: "mine e" "fst (allow e now s)" and s': "snd (allow e now s) = s'" using step by simp_all
  show ?thesis
  proof (cases "start s = 0 \<or> start s + window \<le> now")
    case over: True
    from opened [OF assms(1) g over] log_inv_opened [OF inv T over pos] True show ?thesis
      by (simp add: s')
  next
    case False
    then have l: "start s \<noteq> 0" "now < start s + window" by simp_all
    from counted [OF assms(1) g l] log_inv_counted [OF inv l T] True show ?thesis
      by (simp add: s')
  qed
next
  case False
  with uncounted [OF assms(1), of e now] step
  have "start s' = start s \<and> calls s \<le> calls s' \<or> start s' = 0 \<and> (start s = 0 \<or> start s + window \<le> now)"
    by auto
  from log_inv_uncounted [OF inv T this] False show ?thesis by auto
qed

lemma fw_run_inv:
  assumes "ok_state s" and "log_inv s lg T" and "sorted (map snd es)"
    and "\<forall>t \<in> set (map snd es). T \<le> t \<and> 0 < t"
  shows "int (in_span a window (lg @ fw_run allow mine es s)) \<le> 2 * limit"
  using assms
proof (induction es arbitrary: s lg T)
  case Nil
  then show ?case by (simp add: log_inv_span del: in_span_simps(2))
next
  case (Cons et es)
  obtain e t where et: "et = (e, t)" by fastforce
  obtain ok s' where st: "allow e t s = (ok, s')" by fastforce
  have inv': "log_inv s' (lg @ (if ok \<and> mine e then [t] else [])) t"
    by (rule log_inv_step [OF Cons.prems(1,2) _ _ st]) (use Cons.prems(4) et in simp_all)
  have ok': "ok_state s'" using keeps_ok [OF Cons.prems(1), of e t] st by simp
  have "\<forall>x \<in> set (map snd es). t \<le> x \<and> 0 < x" using Cons.prems(3,4) et by simp
  from Cons.IH [OF ok' inv' _ this] Cons.prems(3) show ?case by (simp add: et st)
qed

lemma fw_bound:
  assumes "ok_state s" and "start s = 0" and "sorted (map snd es)" and "\<forall>(e, t) \<in> set es. 0 < t"
  shows "int (in_span a window (fw_run allow mine es s)) \<le> 2 * limit"
proof -
  have "log_inv s [] 0" using assms(2) limit_pos by (simp add: log_inv_def recent_def)
  moreover have "\<forall>t \<in> set (map snd es). 0 \<le> t \<and> 0 < t" using assms(4) by fastforce
  ultimately show ?thesis using fw_run_inv [of s "[]" 0 es a] assms(1,3) by simp
qed

end

end
