(* ===== verification/Method_Budget.thy ===== *)
theory Method_Budget
  imports Fixed_Window
begin

text \<open>
  What one connection may spend on methods the server does not implement
  (internal/mtproto/unimplemented.go), the log sampler that thins the lines they produce
  (internal/mtproto/proxyproto.go) and the two fallback handlers that charge the budget and write
  the lines (internal/api/unhandled.go). The schema's name table, \<open>tg.TypesMap\<close>, is the parameter
  \<open>typeName\<close>; a map of samplers is a finite map of their values.
\<close>

section \<open>The log sampler\<close>

record log_sampler =
  ls_last :: int
  ls_dropped :: int

definition new_sampler :: log_sampler where
  "new_sampler = \<lparr>ls_last = 0, ls_dropped = 0\<rparr>"

definition unixNano :: "gtime \<Rightarrow> int" where
  "unixNano t = t - 62135596800 * second"

text \<open>
  \<open>won\<close> says whether the caller's compare-and-swap of \<open>last\<close> succeeded; on a connection's own
  sampler, which one goroutine uses, it always does.
\<close>

definition sampler_allow :: "bool \<Rightarrow> gtime \<Rightarrow> gduration \<Rightarrow> log_sampler \<Rightarrow> (int \<times> bool) \<times> log_sampler" where
  "sampler_allow won now interval s =
     (let n = unixNano now in
      if n - ls_last s < interval \<or> \<not> won then ((0, False), s\<lparr>ls_dropped := ls_dropped s + 1\<rparr>)
      else ((ls_dropped s, True), \<lparr>ls_last = n, ls_dropped = 0\<rparr>))"

definition sampler_flush :: "bool \<Rightarrow> gtime \<Rightarrow> log_sampler \<Rightarrow> (int \<times> bool) \<times> log_sampler" where
  "sampler_flush won now s =
     (if \<not> won then ((0, False), s)
      else ((ls_dropped s, ls_dropped s > 0), \<lparr>ls_last = unixNano now, ls_dropped = 0\<rparr>))"

section \<open>The budget\<close>

definition unimplementedWindow :: gduration where "unimplementedWindow = 60 * second"
definition unimplementedAnswerBudget :: int where "unimplementedAnswerBudget = 64"
definition unimplementedCloseAt :: int where "unimplementedCloseAt = 256"
definition unimplementedLogInterval :: gduration where "unimplementedLogInterval = 10 * second"
definition unimplementedMethodLogLimit :: nat where "unimplementedMethodLogLimit = 32"

datatype verdict = UnimplementedAnswer | UnimplementedFloodWait | UnimplementedClose

record langpack_budget =
  lp_started :: gtime
  lp_calls :: int

record unimplemented_budget =
  ub_started :: gtime
  ub_calls :: int
  ub_methods :: "(string, log_sampler) fmap"
  ub_log :: log_sampler
  ub_closeLineWritten :: bool

definition new_budget :: unimplemented_budget where
  "new_budget = \<lparr>ub_started = 0, ub_calls = 0, ub_methods = fmempty, ub_log = new_sampler, ub_closeLineWritten = False\<rparr>"

definition chargeConnectionBudget :: "gtime \<times> int \<Rightarrow> gtime \<Rightarrow> verdict \<times> gtime \<times> int" where
  "chargeConnectionBudget b now =
     (let (started, calls) = b in
      if unimplementedWindow \<le> 0 then (UnimplementedAnswer, started, calls)
      else
        let (started, calls) = (if is_zero_time started \<or> time_sub now started \<ge> unimplementedWindow
                                then (now, 0) else (started, calls));
            calls = calls + 1
        in (if unimplementedCloseAt > 0 \<and> calls \<ge> unimplementedCloseAt then UnimplementedClose
            else if unimplementedAnswerBudget > 0 \<and> calls > unimplementedAnswerBudget then UnimplementedFloodWait
            else UnimplementedAnswer, started, calls))"

definition unimplemented_charge :: "gtime \<Rightarrow> unimplemented_budget \<Rightarrow> verdict \<times> unimplemented_budget" where
  "unimplemented_charge now b =
     (let (v, started, calls) = chargeConnectionBudget (ub_started b, ub_calls b) now
      in (v, b\<lparr>ub_started := started, ub_calls := calls\<rparr>))"

definition langpack_charge :: "gtime \<Rightarrow> langpack_budget \<Rightarrow> verdict \<times> langpack_budget" where
  "langpack_charge now b =
     (let (v, started, calls) = chargeConnectionBudget (lp_started b, lp_calls b) now
      in (v, \<lparr>lp_started = started, lp_calls = calls\<rparr>))"

definition logAllow :: "string \<Rightarrow> gtime \<Rightarrow> unimplemented_budget \<Rightarrow> (int \<times> bool) \<times> unimplemented_budget" where
  "logAllow meth now b =
     (case fmlookup (ub_methods b) meth of
        Some sampler \<Rightarrow>
          (let (r, sampler') = sampler_allow True now unimplementedLogInterval sampler
           in (r, b\<lparr>ub_methods := fmupd meth sampler' (ub_methods b)\<rparr>))
      | None \<Rightarrow>
          if msize (ub_methods b) < unimplementedMethodLogLimit
          then let (r, sampler') = sampler_allow True now unimplementedLogInterval new_sampler
               in (r, b\<lparr>ub_methods := fmupd meth sampler' (ub_methods b)\<rparr>)
          else let (r, sampler') = sampler_allow True now unimplementedLogInterval (ub_log b)
               in (r, b\<lparr>ub_log := sampler'\<rparr>))"

definition method_dropped :: "(string, log_sampler) fmap \<Rightarrow> int" where
  "method_dropped ms = (\<Sum>k \<in> fmdom' ms. ls_dropped (the (fmlookup ms k)))"

text \<open>Flushing every sampler of the map: the order of the loop does not matter, since each flush is its own.\<close>

definition logFlush :: "gtime \<Rightarrow> unimplemented_budget \<Rightarrow> (int \<times> bool) \<times> unimplemented_budget" where
  "logFlush now b =
     (let ((suppressed, owed), lg) = sampler_flush True now (ub_log b);
          flushed = fmmap (sampler_flush True now) (ub_methods b)
      in ((suppressed + (\<Sum>k \<in> fmdom' flushed. fst (fst (the (fmlookup flushed k)))),
           owed \<or> (\<exists>k \<in> fmdom' flushed. snd (fst (the (fmlookup flushed k))))),
          b\<lparr>ub_log := lg, ub_methods := fmmap snd flushed\<rparr>))"

definition logClose :: "gtime \<Rightarrow> unimplemented_budget \<Rightarrow> (int \<times> bool) \<times> unimplemented_budget" where
  "logClose now b =
     (if ub_closeLineWritten b then ((0, False), b)
      else let ((suppressed, owed), b') = logFlush now b
           in ((suppressed, True), b'\<lparr>ub_closeLineWritten := True\<rparr>))"

section \<open>The fallback handlers\<close>

datatype rpc_answer = METHOD_NOT_IMPL | METHOD_NOT_IMPL_FLOOD | AUTH_KEY_UNREGISTERED | METHOD_NOT_IMPL_BURST

record log_line =
  ll_typeID :: "32 word option"
  ll_method :: string
  ll_error :: rpc_answer
  ll_suppressed :: int

record unknown_request =
  uq_userID :: int
  uq_provisional :: bool
  uq_peekID :: "32 word option"

definition methodName :: "(32 word \<Rightarrow> string option) \<Rightarrow> 32 word \<Rightarrow> string" where
  "methodName typeName tid = (case typeName tid of Some name \<Rightarrow> name | None \<Rightarrow> ''unknown'')"

definition unknown_line :: "32 word option \<Rightarrow> string \<Rightarrow> rpc_answer \<Rightarrow> int \<times> bool \<Rightarrow> log_line list" where
  "unknown_line tid meth e r =
     (if snd r then [\<lparr>ll_typeID = tid, ll_method = meth, ll_error = e, ll_suppressed = fst r\<rparr>] else [])"

definition handleUnknown ::
  "(32 word \<Rightarrow> string option) \<Rightarrow> gtime \<Rightarrow> unknown_request \<Rightarrow> unimplemented_budget \<Rightarrow>
     rpc_answer \<times> log_line list \<times> unimplemented_budget" where
  "handleUnknown typeName now req b =
     (let (v, b) = unimplemented_charge now b;
          isClose = (v = UnimplementedClose);
          answer = (if v = UnimplementedFloodWait then METHOD_NOT_IMPL_FLOOD else METHOD_NOT_IMPL)
      in case uq_peekID req of
        None \<Rightarrow>
          if isClose then let (r, b) = logClose now b
            in (METHOD_NOT_IMPL_BURST, unknown_line None ''unknown'' METHOD_NOT_IMPL_BURST r, b)
          else let (r, b) = logAllow ''unknown'' now b
            in (answer, unknown_line None ''unknown'' answer r, b)
      | Some tid \<Rightarrow>
          let meth = methodName typeName tid in
          if isClose then let (r, b) = logClose now b
            in (METHOD_NOT_IMPL_BURST, unknown_line (Some tid) meth METHOD_NOT_IMPL_BURST r, b)
          else let (r, b) = logAllow meth now b
            in (answer, unknown_line (Some tid) meth answer r, b))"

text \<open>
  The gated handler ignores a peek failure: \<open>PeekID\<close> then returns the id 0, under which the line is
  written.
\<close>

definition handleUnknownGated ::
  "(32 word \<Rightarrow> string option) \<Rightarrow> gtime \<Rightarrow> unknown_request \<Rightarrow> unimplemented_budget \<Rightarrow>
     rpc_answer \<times> log_line list \<times> unimplemented_budget" where
  "handleUnknownGated typeName now req b =
     (if uq_userID req \<noteq> 0 \<and> uq_provisional req then
        let (v, b) = unimplemented_charge now b;
            answer = (if v = UnimplementedFloodWait then METHOD_NOT_IMPL_FLOOD else AUTH_KEY_UNREGISTERED);
            tid = (case uq_peekID req of Some tid \<Rightarrow> tid | None \<Rightarrow> 0);
            meth = methodName typeName tid
        in if v = UnimplementedClose then let (r, b) = logClose now b
             in (METHOD_NOT_IMPL_BURST, unknown_line (Some tid) meth METHOD_NOT_IMPL_BURST r, b)
           else let (r, b) = logAllow meth now b
             in (answer, unknown_line (Some tid) meth answer r, b)
      else handleUnknown typeName now req b)"

definition FlushUnimplementedLog :: "gtime \<Rightarrow> unimplemented_budget \<Rightarrow> int option \<times> unimplemented_budget" where
  "FlushUnimplementedLog now b =
     (let ((suppressed, ok), b) = logFlush now b in (if ok then Some suppressed else None, b))"

text \<open>The calls of one connection, served one after another until one of them ends it.\<close>

fun unknown_calls ::
  "(32 word \<Rightarrow> string option) \<Rightarrow> (unknown_request \<times> gtime) list \<Rightarrow> unimplemented_budget \<Rightarrow>
     rpc_answer list \<times> log_line list \<times> unimplemented_budget" where
  "unknown_calls typeName [] b = ([], [], b)"
| "unknown_calls typeName ((req, now) # rs) b =
     (let (a, ls, b) = handleUnknownGated typeName now req b in
      if a = METHOD_NOT_IMPL_BURST then ([a], ls, b)
      else let (as, ls', b) = unknown_calls typeName rs b in (a # as, ls @ ls', b))"


section \<open>The rate of answers\<close>

definition budget_allow :: "unit \<Rightarrow> gtime \<Rightarrow> gtime \<times> int \<Rightarrow> bool \<times> gtime \<times> int" where
  "budget_allow u now b = (let (v, b') = chargeConnectionBudget b now in (v = UnimplementedAnswer, b'))"

lemmas budget_consts = unimplementedWindow_def unimplementedAnswerBudget_def unimplementedCloseAt_def
  is_zero_time_def time_sub_def

interpretation cbw: fixed_window budget_allow "\<lambda>_. True" "\<lambda>_. True" fst snd unimplementedAnswerBudget unimplementedWindow
  by unfold_locales
    (auto simp: budget_allow_def chargeConnectionBudget_def budget_consts Let_def case_prod_unfold split: if_splits)

definition ordinary :: "rpc_answer \<Rightarrow> bool" where
  "ordinary a \<longleftrightarrow> a = METHOD_NOT_IMPL \<or> a = AUTH_KEY_UNREGISTERED"

text \<open>The times of the calls of a connection that were answered as if there were no bound.\<close>

definition answered_times :: "(unknown_request \<times> gtime) list \<Rightarrow> rpc_answer list \<Rightarrow> gtime list" where
  "answered_times rs as = map (snd \<circ> fst) (filter (ordinary \<circ> snd) (zip rs as))"

lemma logAllow_keeps_window:
  "logAllow meth now b = (r, b') \<Longrightarrow>
     ub_started b' = ub_started b \<and> ub_calls b' = ub_calls b \<and> ub_closeLineWritten b' = ub_closeLineWritten b"
  by (auto simp: logAllow_def case_prod_unfold Let_def split: option.splits if_splits)

lemma logClose_keeps_window:
  "logClose now b = (r, b') \<Longrightarrow> ub_started b' = ub_started b \<and> ub_calls b' = ub_calls b"
  by (auto simp: logClose_def logFlush_def case_prod_unfold Let_def split: if_splits)

text \<open>What a fallback call does, in terms of the verdict: the two handlers differ in one answer only.\<close>

definition unknown_reply ::
  "32 word option \<Rightarrow> string \<Rightarrow> rpc_answer \<Rightarrow> verdict \<Rightarrow> gtime \<Rightarrow> unimplemented_budget \<Rightarrow>
     rpc_answer \<times> log_line list \<times> unimplemented_budget" where
  "unknown_reply tid meth plain v now b =
     (let a = (case v of UnimplementedClose \<Rightarrow> METHOD_NOT_IMPL_BURST | UnimplementedFloodWait \<Rightarrow> METHOD_NOT_IMPL_FLOOD
               | UnimplementedAnswer \<Rightarrow> plain);
          (r, b') = (if v = UnimplementedClose then logClose now b else logAllow meth now b)
      in (a, unknown_line tid meth a r, b'))"

lemma handleUnknown_reply:
  assumes "unimplemented_charge now b = (v, b1)"
  shows "\<exists>tid meth. handleUnknown typeName now req b = unknown_reply tid meth METHOD_NOT_IMPL v now b1"
proof (cases "uq_peekID req")
  case None
  with assms have "handleUnknown typeName now req b = unknown_reply None ''unknown'' METHOD_NOT_IMPL v now b1"
    by (cases v) (simp_all add: handleUnknown_def unknown_reply_def Let_def)
  then show ?thesis by blast
next
  case (Some i)
  with assms have "handleUnknown typeName now req b =
      unknown_reply (Some i) (methodName typeName i) METHOD_NOT_IMPL v now b1"
    by (cases v) (simp_all add: handleUnknown_def unknown_reply_def Let_def)
  then show ?thesis by blast
qed

lemma handleUnknownGated_reply:
  assumes "unimplemented_charge now b = (v, b1)"
  shows "\<exists>tid meth plain. ordinary plain \<and>
    handleUnknownGated typeName now req b = unknown_reply tid meth plain v now b1"
proof (cases "uq_userID req \<noteq> 0 \<and> uq_provisional req")
  case True
  define i where "i = (case uq_peekID req of Some i \<Rightarrow> i | None \<Rightarrow> 0)"
  have "handleUnknownGated typeName now req b =
      unknown_reply (Some i) (methodName typeName i) AUTH_KEY_UNREGISTERED v now b1"
    unfolding handleUnknownGated_def i_def [symmetric] using assms True
    by (cases v) (simp_all add: unknown_reply_def Let_def)
  then show ?thesis unfolding ordinary_def by blast
next
  case False
  then have "handleUnknownGated typeName now req b = handleUnknown typeName now req b"
    unfolding handleUnknownGated_def by (rule if_not_P)
  with handleUnknown_reply [OF assms] show ?thesis unfolding ordinary_def by metis
qed


lemma handleUnknownGated_elim:
  assumes "handleUnknownGated typeName now req b = (a, ls, b')"
  obtains v b1 tid meth r where "unimplemented_charge now b = (v, b1)"
    and "ls = unknown_line tid meth a r"
    and "a = METHOD_NOT_IMPL_BURST \<longleftrightarrow> v = UnimplementedClose"
    and "ordinary a \<longleftrightarrow> v = UnimplementedAnswer"
    and "(if v = UnimplementedClose then logClose now b1 else logAllow meth now b1) = (r, b')"
proof -
  obtain v b1 where c: "unimplemented_charge now b = (v, b1)" by fastforce
  obtain tid meth plain where p: "ordinary plain"
    and h: "handleUnknownGated typeName now req b = unknown_reply tid meth plain v now b1"
    using handleUnknownGated_reply [OF c] by blast
  obtain r b2 where l: "(if v = UnimplementedClose then logClose now b1 else logAllow meth now b1) = (r, b2)"
    by fastforce
  with h assms have e: "b2 = b'" "ls = unknown_line tid meth a r"
    and a: "a = (case v of UnimplementedClose \<Rightarrow> METHOD_NOT_IMPL_BURST | UnimplementedFloodWait \<Rightarrow> METHOD_NOT_IMPL_FLOOD
               | UnimplementedAnswer \<Rightarrow> plain)"
    by (simp_all add: unknown_reply_def l Let_def)
  show thesis
    by (rule that [OF c e(2)]) (use a p l e in \<open>auto simp: ordinary_def split: verdict.splits\<close>)
qed

lemma handleUnknownGated_charges:
  assumes "handleUnknownGated typeName now req b = (a, ls, b')"
  shows "budget_allow () now (ub_started b, ub_calls b) = (ordinary a, ub_started b', ub_calls b')"
proof -
  from assms obtain v b1 tid meth r where c: "unimplemented_charge now b = (v, b1)"
    and o: "ordinary a \<longleftrightarrow> v = UnimplementedAnswer"
    and l: "(if v = UnimplementedClose then logClose now b1 else logAllow meth now b1) = (r, b')"
    by (rule handleUnknownGated_elim)
  have "ub_started b' = ub_started b1" "ub_calls b' = ub_calls b1"
    using l logClose_keeps_window [of now b1 r b'] logAllow_keeps_window [of meth now b1 r b']
    by (simp_all split: if_splits)
  with c o show ?thesis
    by (auto simp: unimplemented_charge_def budget_allow_def case_prod_unfold Let_def)
qed

lemma answered_prefix:
  "\<exists>rest. answered_times rs (fst (unknown_calls typeName rs b)) @ rest =
     fw_run budget_allow (\<lambda>_. True) (map (\<lambda>(q, t). ((), t)) rs) (ub_started b, ub_calls b)"
proof (induction rs arbitrary: b)
  case (Cons qt rs)
  obtain req now where qt: "qt = (req, now)" by fastforce
  obtain a ls b' where h: "handleUnknownGated typeName now req b = (a, ls, b')"
    using prod_cases3 by blast
  note ch = handleUnknownGated_charges [OF h]
  obtain rest where ih: "answered_times rs (fst (unknown_calls typeName rs b')) @ rest =
      fw_run budget_allow (\<lambda>_. True) (map (\<lambda>(q, t). ((), t)) rs) (ub_started b', ub_calls b')"
    using Cons.IH by blast
  show ?case
  proof (cases "a = METHOD_NOT_IMPL_BURST")
    case True
    then have "\<not> ordinary a" by (simp add: ordinary_def)
    with True show ?thesis by (simp add: qt h answered_times_def)
  next
    case False
    then have "answered_times (qt # rs) (fst (unknown_calls typeName (qt # rs) b)) =
        (if ordinary a then [now] else []) @ answered_times rs (fst (unknown_calls typeName rs b'))"
      by (simp add: qt h answered_times_def case_prod_unfold Let_def)
    moreover have "fw_run budget_allow (\<lambda>_. True) (map (\<lambda>(q, t). ((), t)) (qt # rs)) (ub_started b, ub_calls b) =
        (if ordinary a then [now] else []) @ answered_times rs (fst (unknown_calls typeName rs b')) @ rest"
      by (simp add: qt ch ih)
    ultimately show ?thesis by auto
  qed
qed (simp add: answered_times_def)

text \<open>
  A connection cannot loop on methods the server does not implement. Whatever it calls and
  whenever, as long as the clock does not run backwards, no span of 60 seconds holds more than
  twice the budget of 64 calls answered in the ordinary way; every other call of the span is told
  to wait or ends the connection.
\<close>

theorem unimplemented_rate_bound:
  assumes "sorted (map snd rs)" and "\<forall>(q, t) \<in> set rs. 0 < t"
  shows "int (in_span a unimplementedWindow (answered_times rs (fst (unknown_calls typeName rs new_budget))))
    \<le> 2 * unimplementedAnswerBudget"
proof -
  let ?es = "map (\<lambda>(q, t). ((), t)) rs"
  have m: "map snd ?es = map snd rs" by (induction rs) auto
  have "int (in_span a unimplementedWindow (fw_run budget_allow (\<lambda>_. True) ?es (0, 0))) \<le> 2 * unimplementedAnswerBudget"
    by (rule cbw.fw_bound) (use assms m in \<open>auto simp del: map_map\<close>)
  moreover obtain rest where
    "answered_times rs (fst (unknown_calls typeName rs new_budget)) @ rest = fw_run budget_allow (\<lambda>_. True) ?es (0, 0)"
    using answered_prefix [of rs typeName new_budget] by (auto simp: new_budget_def)
  ultimately show ?thesis by (metis in_span_simps(2) le_add1 of_nat_le_iff order_trans)
qed

theorem unimplemented_rate_bound_witness:
  "int (in_span 5 unimplementedWindow
     (answered_times [(\<lparr>uq_userID = 0, uq_provisional = False, uq_peekID = Some 7\<rparr>, 10)]
       (fst (unknown_calls (\<lambda>_. None) [(\<lparr>uq_userID = 0, uq_provisional = False, uq_peekID = Some 7\<rparr>, 10)] new_budget))))
   \<le> 2 * unimplementedAnswerBudget"
  by (rule unimplemented_rate_bound) simp_all

section \<open>No call goes unreported\<close>

definition pending_lines :: "unimplemented_budget \<Rightarrow> int" where
  "pending_lines b = ls_dropped (ub_log b) + method_dropped (ub_methods b)"

definition samplers_ok :: "unimplemented_budget \<Rightarrow> bool" where
  "samplers_ok b \<longleftrightarrow> 0 \<le> ls_dropped (ub_log b) \<and> (\<forall>k s. fmlookup (ub_methods b) k = Some s \<longrightarrow> 0 \<le> ls_dropped s)"

lemma method_dropped_upd:
  "method_dropped (fmupd k s ms) =
     method_dropped ms - (case fmlookup ms k of Some s' \<Rightarrow> ls_dropped s' | None \<Rightarrow> 0) + ls_dropped s"
proof -
  let ?f = "\<lambda>k. ls_dropped (the (fmlookup ms k))"
  have "method_dropped (fmupd k s ms) = ls_dropped s + sum ?f (fmdom' ms - {k})"
    unfolding method_dropped_def by (auto simp: sum.insert_remove intro!: sum.cong split: if_splits)
  moreover have "method_dropped ms = sum ?f (fmdom' ms - {k}) + (case fmlookup ms k of Some s' \<Rightarrow> ls_dropped s' | None \<Rightarrow> 0)"
    unfolding method_dropped_def
    by (auto simp: sum_diff1 fmlookup_dom'_iff split: option.splits)
  ultimately show ?thesis by simp
qed

lemma sampler_allow_account:
  "sampler_allow won now i s = ((n, ok), s') \<Longrightarrow> 0 \<le> ls_dropped s \<Longrightarrow>
     ls_dropped s' + (if ok then n + 1 else 0) = ls_dropped s + 1 \<and> 0 \<le> ls_dropped s'"
  by (auto simp: sampler_allow_def Let_def split: if_splits)

lemma logAllow_account:
  assumes "logAllow meth now b = ((n, ok), b')" and "samplers_ok b"
  shows "pending_lines b' + (if ok then n + 1 else 0) = pending_lines b + 1 \<and> samplers_ok b'"
proof (cases "fmlookup (ub_methods b) meth")
  case None
  show ?thesis
  proof (cases "msize (ub_methods b) < unimplementedMethodLogLimit")
    case True
    obtain s' where s: "sampler_allow True now unimplementedLogInterval new_sampler = ((n, ok), s')"
      and b': "b' = b\<lparr>ub_methods := fmupd meth s' (ub_methods b)\<rparr>"
      using assms(1) None True by (auto simp: logAllow_def Let_def split: prod.splits)
    from sampler_allow_account [OF s] assms(2) show ?thesis
      by (auto simp: b' pending_lines_def samplers_ok_def method_dropped_upd None new_sampler_def)
  next
    case False
    obtain s' where s: "sampler_allow True now unimplementedLogInterval (ub_log b) = ((n, ok), s')"
      and b': "b' = b\<lparr>ub_log := s'\<rparr>"
      using assms(1) None False by (auto simp: logAllow_def Let_def split: prod.splits)
    from sampler_allow_account [OF s] assms(2) show ?thesis
      by (auto simp: b' pending_lines_def samplers_ok_def)
  qed
next
  case (Some s0)
  obtain s' where s: "sampler_allow True now unimplementedLogInterval s0 = ((n, ok), s')"
    and b': "b' = b\<lparr>ub_methods := fmupd meth s' (ub_methods b)\<rparr>"
    using assms(1) Some by (auto simp: logAllow_def Let_def split: prod.splits)
  from sampler_allow_account [OF s] assms(2) Some show ?thesis
    by (auto simp: b' pending_lines_def samplers_ok_def method_dropped_upd)
qed

lemma logFlush_account:
  assumes "logFlush now b = ((n, owed), b')" and ok: "samplers_ok b"
  shows "n = pending_lines b \<and> pending_lines b' = 0 \<and> samplers_ok b' \<and> (owed \<longleftrightarrow> 0 < n)"
proof -
  let ?ms = "ub_methods b"
  have b': "b' = b\<lparr>ub_log := \<lparr>ls_last = unixNano now, ls_dropped = 0\<rparr>,
      ub_methods := fmmap (\<lambda>s. \<lparr>ls_last = unixNano now, ls_dropped = 0\<rparr>) ?ms\<rparr>"
    using assms(1) by (auto simp: logFlush_def sampler_flush_def Let_def fmap.map_comp comp_def)
  have n: "n = pending_lines b"
    using assms(1) by (auto simp: logFlush_def sampler_flush_def pending_lines_def method_dropped_def Let_def
        fmlookup_dom'_iff intro!: sum.cong)
  have nn: "\<forall>k \<in> fmdom' ?ms. 0 \<le> ls_dropped (the (fmlookup ?ms k))"
    using ok by (auto simp: samplers_ok_def fmlookup_dom'_iff)
  have "owed \<longleftrightarrow> 0 < ls_dropped (ub_log b) \<or> (\<exists>k \<in> fmdom' ?ms. 0 < ls_dropped (the (fmlookup ?ms k)))"
  proof -
    have "(\<exists>k \<in> fmdom' ?ms. snd (fst (the (map_option (sampler_flush True now) (fmlookup ?ms k))))) \<longleftrightarrow>
        (\<exists>k \<in> fmdom' ?ms. 0 < ls_dropped (the (fmlookup ?ms k)))"
      by (rule bex_cong) (auto simp: sampler_flush_def fmlookup_dom'_iff)
    with assms(1) show ?thesis
      by (simp add: logFlush_def sampler_flush_def [of True now "ub_log b"] Let_def)
  qed
  moreover have "0 < method_dropped ?ms \<longleftrightarrow> (\<exists>k \<in> fmdom' ?ms. 0 < ls_dropped (the (fmlookup ?ms k)))"
  proof
    assume "0 < method_dropped ?ms"
    then show "\<exists>k \<in> fmdom' ?ms. 0 < ls_dropped (the (fmlookup ?ms k))"
      unfolding method_dropped_def using sum_nonpos [of "fmdom' ?ms" "\<lambda>k. ls_dropped (the (fmlookup ?ms k))"]
      by (force simp: not_less)
  next
    assume "\<exists>k \<in> fmdom' ?ms. 0 < ls_dropped (the (fmlookup ?ms k))"
    then obtain k where "k \<in> fmdom' ?ms" "0 < ls_dropped (the (fmlookup ?ms k))" by blast
    then show "0 < method_dropped ?ms"
      unfolding method_dropped_def using nn by (intro sum_pos2 [of _ k]) simp_all
  qed
  moreover have "0 \<le> method_dropped ?ms" unfolding method_dropped_def using nn by (simp add: sum_nonneg)
  moreover have "0 \<le> ls_dropped (ub_log b)" using ok by (simp add: samplers_ok_def)
  ultimately have "owed \<longleftrightarrow> 0 < n" unfolding n pending_lines_def by linarith
  moreover have "pending_lines b' = 0"
    by (auto simp: b' pending_lines_def method_dropped_def fmlookup_dom'_iff intro!: sum.neutral)
  moreover have "samplers_ok b'" by (auto simp: b' samplers_ok_def)
  ultimately show ?thesis using n by blast
qed

text \<open>The calls a connection's lines stand for: each line is its own call and the ones behind it.\<close>

definition reported :: "log_line list \<Rightarrow> int" where
  "reported ls = (\<Sum>l \<leftarrow> ls. 1 + ll_suppressed l)"

lemma handleUnknownGated_account:
  assumes "handleUnknownGated typeName now req b = (a, ls, b')" and "samplers_ok b" and "\<not> ub_closeLineWritten b"
  shows "pending_lines b' + reported ls = pending_lines b + 1 \<and> samplers_ok b' \<and>
    (a \<noteq> METHOD_NOT_IMPL_BURST \<longrightarrow> \<not> ub_closeLineWritten b')"
proof -
  from assms(1) obtain v b1 tid meth r where c: "unimplemented_charge now b = (v, b1)"
    and ls: "ls = unknown_line tid meth a r"
    and v: "a = METHOD_NOT_IMPL_BURST \<longleftrightarrow> v = UnimplementedClose"
    and l: "(if v = UnimplementedClose then logClose now b1 else logAllow meth now b1) = (r, b')"
    by (rule handleUnknownGated_elim)
  have b1: "samplers_ok b1" "\<not> ub_closeLineWritten b1" "pending_lines b1 = pending_lines b"
    using c assms(2,3)
    by (auto simp: unimplemented_charge_def samplers_ok_def pending_lines_def case_prod_unfold Let_def)
  have rep: "reported ls = (if snd r then fst r + 1 else 0)"
    by (simp add: ls unknown_line_def reported_def)
  show ?thesis
  proof (cases "v = UnimplementedClose")
    case True
    obtain n owed b2 where f: "logFlush now b1 = ((n, owed), b2)" using prod_cases3 by (metis surj_pair)
    with l True b1 have "r = (n, True)" "b' = b2\<lparr>ub_closeLineWritten := True\<rparr>"
      by (simp_all add: logClose_def)
    with logFlush_account [OF f b1(1)] b1 rep True v show ?thesis
      by (auto simp: pending_lines_def samplers_ok_def)
  next
    case False
    obtain n ok where r: "r = (n, ok)" by fastforce
    with l False have la: "logAllow meth now b1 = ((n, ok), b')" by simp
    from logAllow_account [OF la b1(1)] logAllow_keeps_window [OF la] b1 rep r show ?thesis by (simp split: if_splits)
  qed
qed

lemma unknown_calls_account:
  assumes "unknown_calls typeName rs b = (as, ls, b')" and "samplers_ok b" and "\<not> ub_closeLineWritten b"
  shows "pending_lines b' + reported ls = pending_lines b + int (length as) \<and> samplers_ok b'"
  using assms
proof (induction rs arbitrary: b as ls b')
  case Nil
  then show ?case by (simp add: reported_def)
next
  case (Cons qt rs)
  obtain req now where qt: "qt = (req, now)" by fastforce
  obtain a l1 b1 where h: "handleUnknownGated typeName now req b = (a, l1, b1)"
    using prod_cases3 by blast
  note ac = handleUnknownGated_account [OF h Cons.prems(2,3)]
  show ?case
  proof (cases "a = METHOD_NOT_IMPL_BURST")
    case True
    with Cons.prems(1) ac show ?thesis by (auto simp: qt h)
  next
    case False
    obtain as2 l2 b2 where u: "unknown_calls typeName rs b1 = (as2, l2, b2)" using prod_cases3 by blast
    with Cons.prems(1) False have e: "as = a # as2" "ls = l1 @ l2" "b' = b2" by (simp_all add: qt h)
    from Cons.IH [OF u] ac False show ?thesis by (simp add: e reported_def)
  qed
qed

text \<open>
  Sampling loses no call. Over the whole life of a connection, the calls to unimplemented
  methods it was served are exactly those its log lines stand for, one for the line and one for
  each suppressed call it carries, together with the count the final flush writes. Only the lines
  are thinned, through up to 32 tracked method names and the shared sampler, never the count, on
  connections that go quiet as on those that are closed for exceeding the ceiling.
\<close>

theorem unimplemented_log_conserves:
  assumes "unknown_calls typeName rs new_budget = (as, ls, b)" and "FlushUnimplementedLog now b = (line, b')"
  shows "int (length as) = reported ls + (case line of Some n \<Rightarrow> n | None \<Rightarrow> 0)"
proof -
  have start: "samplers_ok new_budget" "\<not> ub_closeLineWritten new_budget" "pending_lines new_budget = 0"
    by (simp_all add: samplers_ok_def new_budget_def new_sampler_def pending_lines_def method_dropped_def)
  from unknown_calls_account [OF assms(1) start(1,2)] start(3)
  have ac: "pending_lines b + reported ls = int (length as)" and ok: "samplers_ok b" by simp_all
  obtain n owed b2 where f: "logFlush now b = ((n, owed), b2)" by (metis surj_pair)
  from logFlush_account [OF f ok] have "n = pending_lines b" "owed \<longleftrightarrow> 0 < n" by simp_all
  moreover have "0 \<le> pending_lines b"
    using ok by (auto simp: pending_lines_def samplers_ok_def method_dropped_def fmlookup_dom'_iff intro!: add_nonneg_nonneg sum_nonneg)
  moreover have "line = (if owed then Some n else None)"
    using assms(2) f by (simp add: FlushUnimplementedLog_def)
  ultimately show ?thesis using ac by simp
qed

definition unknown_burst :: "(unknown_request \<times> gtime) list" where
  "unknown_burst = [(\<lparr>uq_userID = 0, uq_provisional = False, uq_peekID = Some 7\<rparr>, 63000000000 * second),
     (\<lparr>uq_userID = 5, uq_provisional = True, uq_peekID = Some 7\<rparr>, 63000000000 * second + 1),
     (\<lparr>uq_userID = 0, uq_provisional = False, uq_peekID = None\<rparr>, 63000000000 * second + 2)]"

theorem unimplemented_log_conserves_witness:
  "(let (as, ls, b) = unknown_calls (\<lambda>_. None) unknown_burst new_budget;
        (line, b') = FlushUnimplementedLog 63000000001000000000 b
    in int (length as) = reported ls + (case line of Some n \<Rightarrow> n | None \<Rightarrow> 0))"
proof -
  obtain as ls b where u: "unknown_calls (\<lambda>_. None) unknown_burst new_budget = (as, ls, b)" using prod_cases3 by blast
  obtain line b' where f: "FlushUnimplementedLog 63000000001000000000 b = (line, b')" by fastforce
  show ?thesis using unimplemented_log_conserves [OF u f] by (simp add: u f)
qed

end
