(* ===== verification/Conn.thy ===== *)
theory Conn
  imports Net_Addr Barrier_Inv Rpc_Outcomes Filter_Recovery Method_Budget
begin

text \<open>
  One served connection (internal/mtproto/send.go, system_lang_code.go, unimplemented.go): the
  barriers, the outcome ring, the folder recovery and the method budgets of the other theories,
  together with the session, owner and key they belong to, and the operations that bind a
  connection and write to it. Each runs under the connection's write lock or on its one serve
  goroutine, hence in one step. Encoding and the transport are the flags of a \<open>send_env\<close>.
\<close>

record conn =
  cn_session :: int
  cn_barrier :: barrier
  cn_binding :: "int \<times> int"
  cn_created :: "int list"
  cn_langHint :: string
  cn_unimplemented :: unimplemented_budget
  cn_langpack :: langpack_budget
  cn_pendingLogin :: bool
  cn_pendingLoginAt :: int
  cn_recovery :: recovery_cell
  cn_outcomes :: outcome_ring

definition newConn :: conn where
  "newConn = \<lparr>cn_session = 0, cn_barrier = new_barrier, cn_binding = (0, 0), cn_created = [], cn_langHint = [],
     cn_unimplemented = new_budget, cn_langpack = \<lparr>lp_started = 0, lp_calls = 0\<rparr>, cn_pendingLogin = False,
     cn_pendingLoginAt = 0, cn_recovery = new_recovery_cell, cn_outcomes = resetRPCOutcomesLocked\<rparr>"

section \<open>Binding\<close>

definition setOwner :: "int \<Rightarrow> conn \<Rightarrow> conn" where
  "setOwner userID c =
     (if br_owner (cn_barrier c) = userID then c
      else c\<lparr>cn_barrier := barrier_setOwner userID (cn_barrier c), cn_binding := (userID, cn_session c),
             cn_recovery := resetDialogFilterRecoveryLocked userID (cn_session c) (cn_recovery c),
             cn_outcomes := resetRPCOutcomesLocked\<rparr>)"

definition setKey :: "int \<Rightarrow> conn \<Rightarrow> conn" where
  "setKey keyID c =
     (let keyChanged = br_authKeyID (cn_barrier c) \<noteq> keyID;
          c = c\<lparr>cn_barrier := barrier_setKey keyID (cn_barrier c)\<rparr> in
      if keyChanged
      then c\<lparr>cn_recovery := resetDialogFilterRecoveryLocked (br_owner (cn_barrier c)) (cn_session c) (cn_recovery c),
             cn_outcomes := resetRPCOutcomesLocked\<rparr>
      else c)"

definition setSession :: "int \<Rightarrow> conn \<Rightarrow> conn" where
  "setSession sid c =
     (let changed = cn_session c \<noteq> sid;
          c = c\<lparr>cn_session := sid, cn_binding := (br_owner (cn_barrier c), sid)\<rparr> in
      if changed
      then c\<lparr>cn_recovery := resetDialogFilterRecoveryLocked (br_owner (cn_barrier c)) sid (cn_recovery c),
             cn_outcomes := resetRPCOutcomesLocked\<rparr>
      else c)"

definition DialogFilterRecoveryBinding :: "conn \<Rightarrow> int \<times> int" where
  "DialogFilterRecoveryBinding c = cn_binding c"

definition LastPushedPts :: "conn \<Rightarrow> int" where
  "LastPushedPts c = br_lastPushedPts (cn_barrier c)"

section \<open>Marks of the serve goroutine\<close>

definition markCreated :: "int \<Rightarrow> conn \<Rightarrow> bool \<times> conn" where
  "markCreated session c =
     (if session \<in> set (cn_created c) then (True, c) else (False, c\<lparr>cn_created := session # cn_created c\<rparr>))"

definition PendingLogin :: "conn \<Rightarrow> bool" where
  "PendingLogin c = cn_pendingLogin c"

definition MarkPendingLogin :: "gtime \<Rightarrow> conn \<Rightarrow> conn" where
  "MarkPendingLogin now c =
     (if cn_pendingLogin c then c else c\<lparr>cn_pendingLogin := True, cn_pendingLoginAt := unixNano now\<rparr>)"

definition pendingLoginSince :: "conn \<Rightarrow> gtime" where
  "pendingLoginSince c =
     (let n = cn_pendingLoginAt c in if n = 0 then 0 else n + 62135596800 * second)"

definition maxSystemLangCodeHintBytes :: nat where
  "maxSystemLangCodeHintBytes = 32"

definition hint_char :: "char \<Rightarrow> bool" where
  "hint_char ch \<longleftrightarrow>
     (let n = of_char ch :: nat in
      (65 \<le> n \<and> n \<le> 90) \<or> (97 \<le> n \<and> n \<le> 122) \<or> (48 \<le> n \<and> n \<le> 57) \<or> n = 45 \<or> n = 95)"

definition setSystemLangCodeHint :: "string \<Rightarrow> conn \<Rightarrow> conn" where
  "setSystemLangCodeHint hint c =
     (if length hint > maxSystemLangCodeHintBytes then c\<lparr>cn_langHint := []\<rparr>
      else if \<not> list_all hint_char hint then c\<lparr>cn_langHint := []\<rparr>
      else c\<lparr>cn_langHint := hint\<rparr>)"

definition ChargeUnimplemented :: "gtime \<Rightarrow> conn \<Rightarrow> verdict \<times> conn" where
  "ChargeUnimplemented now c =
     (let (v, b) = unimplemented_charge now (cn_unimplemented c) in (v, c\<lparr>cn_unimplemented := b\<rparr>))"

definition ChargeLangpack :: "gtime \<Rightarrow> conn \<Rightarrow> verdict \<times> conn" where
  "ChargeLangpack now c = (let (v, b) = langpack_charge now (cn_langpack c) in (v, c\<lparr>cn_langpack := b\<rparr>))"

definition LogUnimplemented :: "string \<Rightarrow> gtime \<Rightarrow> conn \<Rightarrow> (int \<times> bool) \<times> conn" where
  "LogUnimplemented meth now c =
     (let (r, b) = logAllow meth now (cn_unimplemented c) in (r, c\<lparr>cn_unimplemented := b\<rparr>))"

definition LogUnimplementedClose :: "gtime \<Rightarrow> conn \<Rightarrow> (int \<times> bool) \<times> conn" where
  "LogUnimplementedClose now c =
     (let (r, b) = logClose now (cn_unimplemented c) in (r, c\<lparr>cn_unimplemented := b\<rparr>))"

section \<open>Writes\<close>

text \<open>The closed set of results an RPC is traced under, and how an error maps to it.\<close>

datatype rpc_class = RPCResultSuccess | RPCResultInvalidRequest | RPCResultUnauthenticated | RPCResultUnauthorized
  | RPCResultRateLimited | RPCResultDeadline | RPCResultInternal | RPCResultTransportFailure

datatype go_error = DeadlineExceeded | Canceled | EOF | ClosedPipe | NetClosed | TgError int string | OtherError

definition ClassifyRPCError :: "go_error option \<Rightarrow> rpc_class" where
  "ClassifyRPCError err =
     (case err of
        None \<Rightarrow> RPCResultSuccess
      | Some DeadlineExceeded \<Rightarrow> RPCResultDeadline
      | Some Canceled \<Rightarrow> RPCResultTransportFailure
      | Some EOF \<Rightarrow> RPCResultTransportFailure
      | Some ClosedPipe \<Rightarrow> RPCResultTransportFailure
      | Some NetClosed \<Rightarrow> RPCResultTransportFailure
      | Some (TgError code typ) \<Rightarrow>
          if code = 420 \<or> typ = ''FLOOD_WAIT'' then RPCResultRateLimited
          else if code = 401 then RPCResultUnauthenticated
          else if code = 403 then RPCResultUnauthorized
          else if code = 400 then RPCResultInvalidRequest
          else RPCResultInternal
      | Some OtherError \<Rightarrow> RPCResultInternal)"

text \<open>A request; the empty result class of the source is \<open>None\<close>, the buffer is what is left to decode.\<close>

record request =
  rq_authKeyID :: "64 word"
  rq_userID :: int
  rq_provisional :: bool
  rq_clientAddr :: addr
  rq_session :: int
  rq_msgID :: int
  rq_buf :: "byte list"
  rq_method :: string
  rq_result :: "rpc_class option"

record send_env =
  se_encodes :: bool
  se_envelope :: bool
  se_sends :: bool

datatype send_error = EncodeResult | EncodeEnvelope | SendFailed

definition sendResult ::
  "send_env \<Rightarrow> (barrier \<Rightarrow> barrier) \<Rightarrow> request \<Rightarrow> conn \<Rightarrow> send_error option \<times> request \<times> conn" where
  "sendResult env onSuccess req c =
     (if \<not> se_encodes env then (Some EncodeResult, req\<lparr>rq_result := Some RPCResultInternal\<rparr>, c)
      else if \<not> se_envelope env then (Some EncodeEnvelope, req\<lparr>rq_result := Some RPCResultInternal\<rparr>, c)
      else if \<not> se_sends env then (Some SendFailed, req\<lparr>rq_result := Some RPCResultTransportFailure\<rparr>, c)
      else
        let req = (if rq_result req = None then req\<lparr>rq_result := Some RPCResultSuccess\<rparr> else req);
            c = c\<lparr>cn_outcomes := recordRPCOutcome (cn_session c) (rq_msgID req) (rq_session req)
                                   (rq_result req = Some RPCResultSuccess) (cn_outcomes c)\<rparr>
        in (None, req, c\<lparr>cn_barrier := onSuccess (cn_barrier c)\<rparr>))"

definition SendResult :: "send_env \<Rightarrow> request \<Rightarrow> conn \<Rightarrow> send_error option \<times> request \<times> conn" where
  "SendResult env req c = sendResult env (\<lambda>b. b) req c"

definition SendResultAndMarkRPCUpdate ::
  "send_env \<Rightarrow> request \<Rightarrow> int \<Rightarrow> int \<Rightarrow> int \<Rightarrow> conn \<Rightarrow> send_error option \<times> request \<times> conn" where
  "SendResultAndMarkRPCUpdate env req owner authKeyID pts c =
     sendResult env (\<lambda>b. snd (markRPCResultLocked owner authKeyID pts b)) req c"

definition SendErr :: "send_env \<Rightarrow> request \<Rightarrow> go_error \<Rightarrow> conn \<Rightarrow> send_error option \<times> request \<times> conn" where
  "SendErr env req e c = SendResult env (req\<lparr>rq_result := Some (ClassifyRPCError (Some e))\<rparr>) c"

definition PushDialogFilterRecovery :: "push_env \<Rightarrow> int \<Rightarrow> int \<Rightarrow> 64 word \<Rightarrow> conn \<Rightarrow> push_result" where
  "PushDialogFilterRecovery env owner session claimID c =
     (let state = rc_state (cn_recovery c) in
      if \<not> pe_encodes env then PushEncodeFailed
      else if pe_ctxDone env then PushNotAttempted
      else if br_owner (cn_barrier c) \<noteq> owner \<or> cn_session c \<noteq> session \<or> fr_owner state \<noteq> owner \<or>
              fr_session state \<noteq> session \<or> \<not> fr_initialized state \<or> \<not> fr_inFlight state \<or> fr_claimID state \<noteq> claimID
      then PushNotOwner
      else if \<not> pe_sends env then PushSendFailed
      else Pushed)"

section \<open>Everything that happens to a connection\<close>

datatype conn_op =
    SetOwner int
  | SetKey int
  | SetSession int
  | MarkCreated int
  | MarkPending gtime
  | SetHint string
  | ChargeUnimpl gtime
  | ChargeLang gtime
  | LogLine string gtime
  | LogClose gtime
  | Reply send_env request
  | ReplyMark send_env request int int int
  | ReplyErr send_env request go_error
  | BarrierOp barrier_op
  | RecoveryOp recovery_op

text \<open>The barrier and recovery operations other code may call; binding goes through the connection.\<close>

fun callable :: "conn_op \<Rightarrow> bool" where
  "callable (BarrierOp (Rebind u)) = False"
| "callable (BarrierOp (Rekey k)) = False"
| "callable (BarrierOp (Result owner key pts)) = False"
| "callable (RecoveryOp (Reset owner session)) = False"
| "callable op = True"

fun conn_do :: "conn_op \<Rightarrow> conn \<Rightarrow> conn" where
  "conn_do (SetOwner u) c = setOwner u c"
| "conn_do (SetKey k) c = setKey k c"
| "conn_do (SetSession s) c = setSession s c"
| "conn_do (MarkCreated s) c = snd (markCreated s c)"
| "conn_do (MarkPending now) c = MarkPendingLogin now c"
| "conn_do (SetHint h) c = setSystemLangCodeHint h c"
| "conn_do (ChargeUnimpl now) c = snd (ChargeUnimplemented now c)"
| "conn_do (ChargeLang now) c = snd (ChargeLangpack now c)"
| "conn_do (LogLine meth now) c = snd (LogUnimplemented meth now c)"
| "conn_do (LogClose now) c = snd (LogUnimplementedClose now c)"
| "conn_do (Reply env req) c = snd (snd (SendResult env req c))"
| "conn_do (ReplyMark env req owner key pts) c = snd (snd (SendResultAndMarkRPCUpdate env req owner key pts c))"
| "conn_do (ReplyErr env req e) c = snd (snd (SendErr env req e c))"
| "conn_do (BarrierOp op) c = c\<lparr>cn_barrier := snd (barrier_do op (cn_barrier c))\<rparr>"
| "conn_do (RecoveryOp op) c = c\<lparr>cn_recovery := recovery_do op (cn_recovery c)\<rparr>"

fun conn_run :: "conn_op list \<Rightarrow> conn \<Rightarrow> conn" where
  "conn_run [] c = c"
| "conn_run (op # ops) c = conn_run ops (conn_do op c)"


section \<open>What every connection keeps\<close>

definition outcomes_ok :: "int \<Rightarrow> outcome_ring \<Rightarrow> bool" where
  "outcomes_ok session r \<longleftrightarrow> ring_wf r \<and> (\<forall>x \<in> set (history r). oc_session x = session \<and> 0 < oc_msgID x)"

definition budget_ok :: "unimplemented_budget \<Rightarrow> bool" where
  "budget_ok b \<longleftrightarrow> 0 \<le> ub_calls b \<and> msize (ub_methods b) \<le> unimplementedMethodLogLimit \<and> samplers_ok b"

definition attempts_ok :: "recovery_cell \<Rightarrow> bool" where
  "attempts_ok r \<longleftrightarrow> 0 \<le> fr_attempts (rc_state r) \<and> fr_attempts (rc_state r) \<le> 3"

definition hint_ok :: "string \<Rightarrow> bool" where
  "hint_ok h \<longleftrightarrow> length h \<le> maxSystemLangCodeHintBytes \<and> list_all hint_char h"

definition conn_wf :: "conn \<Rightarrow> bool" where
  "conn_wf c \<longleftrightarrow>
     barrier_wf (cn_barrier c) \<and> outcomes_ok (cn_session c) (cn_outcomes c) \<and>
     cn_binding c = (br_owner (cn_barrier c), cn_session c) \<and> hint_ok (cn_langHint c) \<and>
     budget_ok (cn_unimplemented c) \<and> attempts_ok (cn_recovery c) \<and> distinct (cn_created c)"

lemma outcomes_ok_reset [simp]: "outcomes_ok s resetRPCOutcomesLocked"
  by (simp add: outcomes_ok_def ring_wf_reset)

lemma recordRPCOutcome_ignored: "msgID \<le> 0 \<or> session \<noteq> s \<Longrightarrow> recordRPCOutcome s msgID session ok r = r"
  by (auto simp: recordRPCOutcome_def)

lemma outcomes_ok_record: "outcomes_ok s r \<Longrightarrow> outcomes_ok s (recordRPCOutcome s msgID session ok r)"
proof (cases "0 < msgID \<and> session = s")
  case True
  assume "outcomes_ok s r"
  with True history_record [of r msgID s ok] show ?thesis
    by (auto simp: outcomes_ok_def dest: in_set_takeD)
qed (simp add: recordRPCOutcome_ignored not_less)

lemma attempts_ok_reset [simp]: "attempts_ok (resetDialogFilterRecoveryLocked u s r)"
  by (simp add: attempts_ok_def resetDialogFilterRecoveryLocked_def zero_recovery_def)

lemma attempts_ok_do:
  assumes "attempts_ok r"
  shows "attempts_ok (recovery_do op r)"
proof (cases op)
  case (Claim owner session e now)
  with assms show ?thesis
    by (auto simp: attempts_ok_def claim_eq claim_open_def claimed_state_def)
next
  case (AckFetch owner session captured e)
  with assms show ?thesis by (simp add: attempts_ok_def AcknowledgeDialogFilterFetch_def Let_def)
next
  case (MarkGen owner session g e)
  with assms show ?thesis by (simp add: attempts_ok_def MarkDialogFilterRecovery_def Let_def zero_recovery_def)
qed (use assms in \<open>simp_all add: attempts_ok_def EnsureDialogFilterRecoveryBinding_def FinishDialogFilterRecoveryAttempt_def
      AcknowledgeDialogFilterDifference_def resetDialogFilterRecoveryLocked_def zero_recovery_def Let_def\<close>)

lemma budget_ok_charge: "budget_ok b \<Longrightarrow> budget_ok (snd (unimplemented_charge now b))"
  by (auto simp: budget_ok_def unimplemented_charge_def chargeConnectionBudget_def samplers_ok_def Let_def
      case_prod_unfold)

lemma budget_ok_log:
  assumes "budget_ok b"
  shows "budget_ok (snd (logAllow meth now b))"
proof -
  obtain n ok b' where l: "logAllow meth now b = ((n, ok), b')" by (metis surj_pair)
  have "msize (ub_methods b') \<le> unimplementedMethodLogLimit"
    using l assms by (auto simp: logAllow_def budget_ok_def msize_upd case_prod_unfold Let_def split: option.splits if_splits)
  with l logAllow_account [OF l] logAllow_keeps_window [OF l] assms show ?thesis by (simp add: budget_ok_def)
qed

lemma msize_fmmap: "msize (fmmap f m) = msize m"
  by (simp add: msize_def)

lemma logFlush_keeps:
  "ub_calls (snd (logFlush now b)) = ub_calls b"
  "msize (ub_methods (snd (logFlush now b))) = msize (ub_methods b)"
  by (simp_all add: logFlush_def case_prod_unfold Let_def msize_fmmap)

lemma budget_ok_closed: "budget_ok (b\<lparr>ub_closeLineWritten := x\<rparr>) = budget_ok b"
  by (simp add: budget_ok_def samplers_ok_def)

lemma budget_ok_close:
  assumes "budget_ok b"
  shows "budget_ok (snd (logClose now b))"
proof (cases "ub_closeLineWritten b")
  case False
  obtain n owed b' where f: "logFlush now b = ((n, owed), b')" by (metis surj_pair)
  have "samplers_ok b" using assms by (simp add: budget_ok_def)
  from logFlush_account [OF f this] have "samplers_ok b'" by blast
  with logFlush_keeps [of now b] f assms have "budget_ok b'" by (simp add: budget_ok_def)
  then show ?thesis using False f by (simp add: logClose_def budget_ok_closed)
qed (use assms in \<open>simp add: logClose_def\<close>)

lemma hint_ok_set: "hint_ok (cn_langHint (setSystemLangCodeHint h c))"
  by (simp add: setSystemLangCodeHint_def hint_ok_def)

text \<open>Only rebinding and rekeying change whom a barrier belongs to.\<close>

lemma spec_do_owner:
  "bs_owner (snd (spec_mark owner key pts a)) = bs_owner a"
  "bs_owner (snd (spec_begin owner key pts a)) = bs_owner a"
  "bs_owner (snd (spec_set_pts owner key pts a)) = bs_owner a"
  "bs_owner (snd (spec_set_pts_of r pts a)) = bs_owner a"
  "bs_owner (snd (spec_clear owner key a)) = bs_owner a"
  "bs_owner (snd (spec_clear_of r a)) = bs_owner a"
  "bs_owner (snd (spec_result owner key pts a)) = bs_owner a"
  "bs_owner (spec_rekey key a) = bs_owner a"
  "bs_owner (snd (spec_push env owner pts a)) = bs_owner a"
  "bs_owner (snd (spec_push_at env owner expected pts a)) = bs_owner a"
  by (simp_all add: spec_mark_def spec_raise_def spec_pop_def spec_begin_def spec_set_pts_def spec_set_pts_of_def spec_clear_def
      spec_clear_of_def spec_result_def spec_rekey_def spec_reset_def spec_push_def spec_push_at_def Let_def
      case_prod_unfold split: list.split option.split)

lemma barrier_do_owner:
  assumes "barrier_wf b" and "\<And>u. op \<noteq> Rebind u"
  shows "br_owner (snd (barrier_do op b)) = br_owner b"
proof -
  obtain out b' where d: "barrier_do op b = (out, b')" by fastforce
  have "bs_owner (snd (spec_do op (spec_of b))) = bs_owner (spec_of b)"
    using assms(2) by (cases op) (auto simp: spec_do_owner map_prod_def case_prod_unfold)
  with barrier_refines_step(2) [OF assms(1) d] show ?thesis by (simp add: d flip: spec_of_fields(1))
qed


lemma result_wf:
  assumes "barrier_wf b"
  shows "barrier_wf (snd (markRPCResultLocked owner key pts b))"
    and "br_owner (snd (markRPCResultLocked owner key pts b)) = br_owner b"
  using barrier_refines_step(1) [OF assms, of "Result owner key pts"] barrier_do_owner [OF assms, of "Result owner key pts"]
  by (auto simp: map_prod_def case_prod_unfold)

lemma conn_wf_sendResult:
  assumes "conn_wf c" and "\<And>b. barrier_wf b \<Longrightarrow> barrier_wf (f b) \<and> br_owner (f b) = br_owner b"
  shows "conn_wf (snd (snd (sendResult env f req c)))"
  using assms outcomes_ok_record by (simp add: sendResult_def conn_wf_def Let_def)

lemma setOwner_wf: "conn_wf c \<Longrightarrow> conn_wf (setOwner u c)"
  by (simp add: conn_wf_def setOwner_def barrier_setOwner_def clear_barriers_def barrier_wf_def)

lemma setKey_wf: "conn_wf c \<Longrightarrow> conn_wf (setKey k c)"
  by (simp add: conn_wf_def setKey_def barrier_setKey_def clear_barriers_def barrier_wf_def Let_def)

lemma setSession_wf: "conn_wf c \<Longrightarrow> conn_wf (setSession s c)"
  by (auto simp: conn_wf_def setSession_def Let_def)

lemma conn_do_wf:
  assumes wf: "conn_wf c" and "callable op"
  shows "conn_wf (conn_do op c)"
proof (cases op)
  case (ReplyMark env req owner key pts)
  then show ?thesis
    by (simp add: SendResultAndMarkRPCUpdate_def conn_wf_sendResult wf result_wf)
next
  case (BarrierOp bop)
  obtain out b' where d: "barrier_do bop (cn_barrier c) = (out, b')" by fastforce
  have nr: "bop \<noteq> Rebind u" for u using assms(2) BarrierOp by auto
  have "barrier_wf (cn_barrier c)" using wf by (simp add: conn_wf_def)
  from barrier_refines_step(1) [OF this d] barrier_do_owner [OF this nr] d wf
  show ?thesis by (simp add: BarrierOp conn_wf_def)
next
  case (Reply env req)
  then show ?thesis by (simp add: SendResult_def conn_wf_sendResult wf)
next
  case (ReplyErr env req e)
  then show ?thesis by (simp add: SendResult_def SendErr_def conn_wf_sendResult wf)
next
  case (SetOwner u)
  then show ?thesis by (simp add: setOwner_wf wf)
next
  case (SetKey k)
  then show ?thesis by (simp add: setKey_wf wf)
next
  case (SetSession s)
  then show ?thesis by (simp add: setSession_wf wf)
qed (use wf in \<open>simp_all add: markCreated_def MarkPendingLogin_def setSystemLangCodeHint_def hint_ok_def conn_wf_def
      budget_ok_charge budget_ok_log budget_ok_close attempts_ok_do ChargeUnimplemented_def ChargeLangpack_def
      LogUnimplemented_def LogUnimplementedClose_def case_prod_unfold Let_def\<close>)

lemma newConn_wf: "conn_wf newConn"
  by (simp add: conn_wf_def newConn_def barrier_wf_def new_barrier_def hint_ok_def budget_ok_def new_budget_def
      samplers_ok_def new_sampler_def attempts_ok_def new_recovery_cell_def zero_recovery_def)

lemma conn_run_wf: "conn_wf c \<Longrightarrow> list_all callable ops \<Longrightarrow> conn_wf (conn_run ops c)"
  by (induction ops arbitrary: c) (simp_all add: conn_do_wf)

text \<open>
  C26. A served connection is always well formed. Whatever sequence of bindings, replies, pushes,
  marks, charges and recovery steps it goes through, its barrier slices stay aligned and belong to
  its current owner and key, its outcome ring is in range and holds only results of its current
  session, the listener's copy of the binding names its current owner and session, its language
  hint is at most 32 permitted characters, it tracks at most 32 method names, and it is within its
  three recovery attempts.
\<close>

theorem conn_well_formed:
  assumes "list_all callable ops" and "c = conn_run ops newConn"
  shows "barrier_wf (cn_barrier c) \<and> outcomes_ok (cn_session c) (cn_outcomes c) \<and>
    DialogFilterRecoveryBinding c = (br_owner (cn_barrier c), cn_session c) \<and>
    length (cn_langHint c) \<le> 32 \<and> list_all hint_char (cn_langHint c) \<and>
    msize (ub_methods (cn_unimplemented c)) \<le> 32 \<and> attempts_ok (cn_recovery c)"
  using conn_run_wf [OF newConn_wf assms(1)] assms(2)
  by (simp add: conn_wf_def DialogFilterRecoveryBinding_def hint_ok_def budget_ok_def maxSystemLangCodeHintBytes_def
      unimplementedMethodLogLimit_def)

definition demo_request :: "int \<Rightarrow> int \<Rightarrow> byte list \<Rightarrow> request" where
  "demo_request session msgID buf = \<lparr>rq_authKeyID = 9, rq_userID = 7, rq_provisional = False, rq_clientAddr = NoAddr,
     rq_session = session, rq_msgID = msgID, rq_buf = buf, rq_method = [], rq_result = None\<rparr>"

definition demo_ops :: "conn_op list" where
  "demo_ops = [SetKey 9, SetSession 5, SetOwner 7, SetHint ''en-US'', BarrierOp (Begin 7 9 0),
     Reply \<lparr>se_encodes = True, se_envelope = True, se_sends = True\<rparr> (demo_request 5 3 [])]"

theorem conn_well_formed_witness:
  "list_all callable demo_ops \<and> barrier_wf (cn_barrier (conn_run demo_ops newConn)) \<and>
   DialogFilterRecoveryBinding (conn_run demo_ops newConn) = (br_owner (cn_barrier (conn_run demo_ops newConn)), cn_session (conn_run demo_ops newConn))"
proof -
  have c: "list_all callable demo_ops" by (simp add: demo_ops_def)
  from conn_well_formed [OF c refl] c show ?thesis by simp
qed

section \<open>Dependencies across bindings\<close>

text \<open>
  The results a connection has sent since it last changed owner, key or session, newest first: what
  \<open>invokeAfterMsg\<close> may depend on. A result counts once it is on the wire, if it carries a message
  id and belongs to the connection's session.
\<close>

definition replied :: "send_env \<Rightarrow> request \<Rightarrow> conn \<Rightarrow> rpc_outcome list \<Rightarrow> rpc_outcome list" where
  "replied env req c lg =
     (if se_encodes env \<and> se_envelope env \<and> se_sends env \<and> 0 < rq_msgID req \<and> rq_session req = cn_session c
      then \<lparr>oc_msgID = rq_msgID req, oc_session = rq_session req,
            oc_success = (rq_result req = None \<or> rq_result req = Some RPCResultSuccess)\<rparr> # lg
      else lg)"

fun log_after :: "conn_op \<Rightarrow> conn \<Rightarrow> rpc_outcome list \<Rightarrow> rpc_outcome list" where
  "log_after (SetOwner u) c lg = (if br_owner (cn_barrier c) = u then lg else [])"
| "log_after (SetKey k) c lg = (if br_authKeyID (cn_barrier c) = k then lg else [])"
| "log_after (SetSession s) c lg = (if cn_session c = s then lg else [])"
| "log_after (Reply env req) c lg = replied env req c lg"
| "log_after (ReplyMark env req owner key pts) c lg = replied env req c lg"
| "log_after (ReplyErr env req e) c lg = replied env (req\<lparr>rq_result := Some (ClassifyRPCError (Some e))\<rparr>) c lg"
| "log_after op c lg = lg"

fun result_log :: "conn_op list \<Rightarrow> conn \<Rightarrow> rpc_outcome list \<Rightarrow> rpc_outcome list" where
  "result_log [] c lg = lg"
| "result_log (op # ops) c lg = result_log ops (conn_do op c) (log_after op c lg)"

lemma replied_history:
  assumes "ring_wf (cn_outcomes c)" and "history (cn_outcomes c) = take 64 lg"
  shows "history (cn_outcomes (snd (snd (sendResult env f req c)))) = take 64 (replied env req c lg)"
proof (cases "0 < rq_msgID req \<and> rq_session req = cn_session c")
  case True
  have "take 64 (x # take 64 lg) = take 64 (x # lg)" for x :: rpc_outcome
    by (simp add: take_Cons' min_def)
  with True assms history_record(2) [OF assms(1), of "rq_msgID req" "cn_session c"] show ?thesis
    by (cases "rq_result req") (auto simp: sendResult_def replied_def Let_def)
next
  case False
  then have "recordRPCOutcome (cn_session c) (rq_msgID req) (rq_session req) ok (cn_outcomes c) = cn_outcomes c" for ok
    by (simp add: recordRPCOutcome_ignored not_less)
  with False assms show ?thesis by (auto simp: sendResult_def replied_def Let_def)
qed

lemma log_after_history:
  assumes wf: "conn_wf c" and h: "history (cn_outcomes c) = take 64 lg"
  shows "history (cn_outcomes (conn_do op c)) = take 64 (log_after op c lg)"
proof -
  have r: "ring_wf (cn_outcomes c)" using wf by (simp add: conn_wf_def outcomes_ok_def)
  note rep = replied_history [OF r h]
  show ?thesis
  proof (cases op)
    case (Reply env req)
    then show ?thesis by (simp add: SendResult_def rep)
  next
    case (ReplyMark env req owner key pts)
    then show ?thesis by (simp add: SendResultAndMarkRPCUpdate_def rep)
  next
    case (ReplyErr env req e)
    then show ?thesis using rep [of env "\<lambda>b. b" "req\<lparr>rq_result := Some (ClassifyRPCError (Some e))\<rparr>"]
      by (simp add: SendErr_def SendResult_def)
  qed (use h in \<open>simp_all add: setOwner_def setKey_def setSession_def ring_wf_reset markCreated_def MarkPendingLogin_def
        setSystemLangCodeHint_def ChargeUnimplemented_def ChargeLangpack_def LogUnimplemented_def LogUnimplementedClose_def
        case_prod_unfold Let_def\<close>)
qed

lemma result_log_history:
  assumes "conn_wf c" and "history (cn_outcomes c) = take 64 lg" and "list_all callable ops"
  shows "history (cn_outcomes (conn_run ops c)) = take 64 (result_log ops c lg)"
  using assms
proof (induction ops arbitrary: c lg)
  case (Cons op ops)
  then show ?case
    using Cons.IH [OF conn_do_wf [OF Cons.prems(1), of op] log_after_history [OF Cons.prems(1,2)]] by simp
qed simp

lemma dependency_from_log:
  assumes "list_all callable ops" and "c = conn_run ops newConn"
  shows "RPCDependencyOutcome (cn_session c) session dependency current (cn_outcomes c) =
    (if 0 < dependency \<and> dependency < current \<and> session = cn_session c
     then case find (\<lambda>x. oc_msgID x = dependency) (take 64 (result_log ops newConn [])) of
            None \<Rightarrow> (False, False) | Some x \<Rightarrow> (True, oc_success x)
     else (False, False))"
proof -
  have wf: "conn_wf c" using conn_run_wf [OF newConn_wf assms(1)] assms(2) by simp
  then have r: "ring_wf (cn_outcomes c)" and s: "\<forall>x \<in> set (history (cn_outcomes c)). oc_session x = cn_session c"
    by (simp_all add: conn_wf_def outcomes_ok_def)
  have h: "history (cn_outcomes c) = take 64 (result_log ops newConn [])"
    unfolding assms(2) by (rule result_log_history [OF newConn_wf _ assms(1)]) (simp add: newConn_def ring_wf_reset)
  have "find (\<lambda>x. oc_msgID x = dependency \<and> oc_session x = cn_session c) (history (cn_outcomes c)) =
      find (\<lambda>x. oc_msgID x = dependency) (history (cn_outcomes c))"
    by (rule find_cong [OF refl]) (use s in auto)
  with search_history [OF r, of 0 "or_size (cn_outcomes c)"] h show ?thesis
    by (auto simp: RPCDependencyOutcome_def)
qed

text \<open>
  C12. A dependency is satisfied only by a result of the same binding. Whatever a connection goes
  through, asking for the outcome of an earlier message answers exactly from the last 64 results
  written since the connection last changed its owner, key or session: a result from before a
  re-login, a key change or a new session is never found, and one that was not written is not
  either.
\<close>

theorem dependency_same_binding:
  assumes "list_all callable ops" and "c = conn_run ops newConn"
  shows "RPCDependencyOutcome (cn_session c) session dependency current (cn_outcomes c) =
    (if 0 < dependency \<and> dependency < current \<and> session = cn_session c
     then case find (\<lambda>x. oc_msgID x = dependency) (take 64 (result_log ops newConn [])) of
            None \<Rightarrow> (False, False) | Some x \<Rightarrow> (True, oc_success x)
     else (False, False))"
  by (rule dependency_from_log [OF assms])

theorem dependency_same_binding_witness:
  "RPCDependencyOutcome 5 5 3 8 (cn_outcomes (conn_run demo_ops newConn)) = (True, True) \<and>
   RPCDependencyOutcome 6 6 3 8 (cn_outcomes (conn_run (demo_ops @ [SetSession 6]) newConn)) = (False, False)"
proof -
  have c: "list_all callable demo_ops" "list_all callable (demo_ops @ [SetSession 6])" by (simp_all add: demo_ops_def)
  have s: "cn_session (conn_run demo_ops newConn) = 5" "cn_session (conn_run (demo_ops @ [SetSession 6]) newConn) = 6"
    by (simp_all add: demo_ops_def setKey_def setOwner_def setSession_def setSystemLangCodeHint_def newConn_def new_barrier_def
        SendResult_def sendResult_def demo_request_def Let_def)
  have l: "result_log demo_ops newConn [] = [\<lparr>oc_msgID = 3, oc_session = 5, oc_success = True\<rparr>]"
    "result_log (demo_ops @ [SetSession 6]) newConn [] = []"
    by (simp_all add: demo_ops_def setKey_def setOwner_def setSession_def setSystemLangCodeHint_def newConn_def new_barrier_def
        SendResult_def sendResult_def replied_def demo_request_def barrier_setKey_def barrier_setOwner_def clear_barriers_def Let_def)
  show ?thesis
    using dependency_same_binding [OF c(1) refl, of 5 3 8] dependency_same_binding [OF c(2) refl, of 6 3 8] s l by simp
qed

end
