(* ===== verification/Dispatch.thy ===== *)
theory Dispatch
  imports Conn
begin

text \<open>
  Peeling the invocation wrappers off a request and routing it to its handler
  (internal/mtproto/dispatch.go). gotd's generated decoders are the fields of a \<open>tl_codec\<close>: peeking a
  constructor id, which id is which wrapper, and decoding a wrapper up to its query. The query itself
  is decoded by the source's own \<open>peekIDObject\<close>. The loops are partial functions, \<open>None\<close> standing for
  a loop that never returns; that they do return is proved.
\<close>

datatype invoke_wrapper = InvokeWithLayer | InitConnection | InvokeWithoutUpdates | InvokeAfterMsg | InvokeAfterMsgs
  | InvokeWithTakeout | InvokeWithGooglePlayIntegrity | InvokeWithBusinessConnection | InvokeWithReCaptcha
  | InvokeWithApnsSecret | InvokeWithMessagesRange

text \<open>The fields of a decoded wrapper that the source reads.\<close>

record wrapper_fields =
  wf_msgID :: int
  wf_systemLangCode :: string

record tl_codec =
  tc_peek :: "byte list \<Rightarrow> 32 word option"
  tc_kind :: "32 word \<Rightarrow> invoke_wrapper option"
  tc_fields :: "invoke_wrapper \<Rightarrow> byte list \<Rightarrow> (wrapper_fields \<times> byte list) option"

text \<open>What is relied on of gotd: a wrapper that decodes has consumed at least its constructor id.\<close>

definition consuming :: "tl_codec \<Rightarrow> bool" where
  "consuming codec \<longleftrightarrow> (\<forall>w b f rest. tc_fields codec w b = Some (f, rest) \<longrightarrow> length rest < length b)"

datatype dispatch_error = PeekError | DecodeError | BudgetClosed | RefusedWithoutConn | UnexpectedType "32 word"
  | HandlerError go_error | ReplyError send_error

type_synonym handled = "dispatch_error option \<times> request \<times> conn option"
type_synonym handler = "conn option \<Rightarrow> request \<Rightarrow> handled"

section \<open>Decoding\<close>

definition peekIDObject_Decode :: "tl_codec \<Rightarrow> byte list \<Rightarrow> 32 word option" where
  "peekIDObject_Decode codec b = tc_peek codec b"

definition wrapper_decode :: "tl_codec \<Rightarrow> invoke_wrapper \<Rightarrow> byte list \<Rightarrow> (wrapper_fields \<times> 32 word \<times> byte list) option" where
  "wrapper_decode codec w b =
     (case tc_fields codec w b of
        None \<Rightarrow> None
      | Some (f, rest) \<Rightarrow> map_option (\<lambda>tid. (f, tid, rest)) (peekIDObject_Decode codec rest))"

definition isInvokeWrapper :: "tl_codec \<Rightarrow> 32 word \<Rightarrow> bool" where
  "isInvokeWrapper codec tid \<longleftrightarrow> tc_kind codec tid \<noteq> None"

definition unpackInitConnection ::
  "tl_codec \<Rightarrow> conn option \<Rightarrow> byte list \<Rightarrow> (conn option \<times> 32 word \<times> byte list) option" where
  "unpackInitConnection codec c b =
     map_option (\<lambda>(f, tid, rest). (map_option (setSystemLangCodeHint (wf_systemLangCode f)) c, tid, rest))
       (wrapper_decode codec InitConnection b)"

section \<open>The plain wrappers\<close>

partial_function (option) unpack_loop ::
  "tl_codec \<Rightarrow> handler \<Rightarrow> 32 word \<Rightarrow> conn option \<Rightarrow> request \<Rightarrow> handled option" where
  "unpack_loop codec nxt tid c req =
     (case tc_kind codec tid of
        Some InvokeWithLayer \<Rightarrow>
          (case wrapper_decode codec InvokeWithLayer (rq_buf req) of
             None \<Rightarrow> Some (Some DecodeError, req, c)
           | Some (f, tid, rest) \<Rightarrow> unpack_loop codec nxt tid c (req\<lparr>rq_buf := rest\<rparr>))
      | Some InitConnection \<Rightarrow>
          (case unpackInitConnection codec c (rq_buf req) of
             None \<Rightarrow> Some (Some DecodeError, req, c)
           | Some (c, tid, rest) \<Rightarrow> unpack_loop codec nxt tid c (req\<lparr>rq_buf := rest\<rparr>))
      | Some InvokeWithoutUpdates \<Rightarrow>
          (case wrapper_decode codec InvokeWithoutUpdates (rq_buf req) of
             None \<Rightarrow> Some (Some DecodeError, req, c)
           | Some (f, tid, rest) \<Rightarrow> unpack_loop codec nxt tid c (req\<lparr>rq_buf := rest\<rparr>))
      | _ \<Rightarrow> Some (nxt c req))"

definition UnpackInvoke :: "tl_codec \<Rightarrow> handler \<Rightarrow> conn option \<Rightarrow> request \<Rightarrow> handled option" where
  "UnpackInvoke codec nxt c req =
     (case tc_peek codec (rq_buf req) of
        None \<Rightarrow> Some (Some PeekError, req, c)
      | Some tid \<Rightarrow> unpack_loop codec nxt tid c req)"

section \<open>Dependencies\<close>

datatype refusal = InvokeAfterMsgWaitTimeout | InvokeAfterMsgWaitFailed

record refusal_env =
  re_now :: gtime
  re_send :: send_env
  re_onRefusal :: "(conn option \<Rightarrow> request \<Rightarrow> 32 word \<Rightarrow> refusal \<Rightarrow> verdict \<Rightarrow> handled) option"

definition send_refusal :: "refusal_env \<Rightarrow> request \<Rightarrow> go_error \<Rightarrow> conn \<Rightarrow> handled" where
  "send_refusal env req e c =
     (let (err, req, c) = SendErr (re_send env) req e c in (map_option ReplyError err, req, Some c))"

definition refuse :: "refusal_env \<Rightarrow> 32 word \<Rightarrow> refusal \<Rightarrow> bool \<Rightarrow> conn option \<Rightarrow> request \<Rightarrow> handled" where
  "refuse env innerID reason charge c req =
     (let (v, c) = (case c of
            Some k \<Rightarrow> if charge then (let (v, k) = ChargeUnimplemented (re_now env) k in (v, Some k))
                      else (UnimplementedAnswer, c)
          | None \<Rightarrow> (UnimplementedAnswer, None)) in
      case re_onRefusal env of
        Some f \<Rightarrow> f c req innerID reason v
      | None \<Rightarrow>
          (case c of
             None \<Rightarrow> (Some RefusedWithoutConn, req, None)
           | Some k \<Rightarrow>
               if reason = InvokeAfterMsgWaitFailed then send_refusal env req (TgError 400 ''MSG_WAIT_FAILED'') k
               else case v of
                 UnimplementedClose \<Rightarrow> (Some BudgetClosed, req, Some k)
               | UnimplementedFloodWait \<Rightarrow> send_refusal env req (TgError 420 ''FLOOD_WAIT'') k
               | UnimplementedAnswer \<Rightarrow> send_refusal env req (TgError 400 ''MSG_WAIT_TIMEOUT'') k))"

partial_function (option) enclosedInvokeMethodID ::
  "tl_codec \<Rightarrow> 32 word \<Rightarrow> byte list \<Rightarrow> (32 word \<times> byte list) option option" where
  "enclosedInvokeMethodID codec tid b =
     (case tc_kind codec tid of
        None \<Rightarrow> Some (Some (tid, b))
      | Some w \<Rightarrow>
          (case wrapper_decode codec w b of
             None \<Rightarrow> Some None
           | Some (f, tid, rest) \<Rightarrow> enclosedInvokeMethodID codec tid rest))"

definition refuseUnsupported ::
  "tl_codec \<Rightarrow> refusal_env \<Rightarrow> 32 word \<Rightarrow> conn option \<Rightarrow> request \<Rightarrow> handled option" where
  "refuseUnsupported codec env innerID c req =
     (if isInvokeWrapper codec innerID
      then case enclosedInvokeMethodID codec innerID (rq_buf req) of
             None \<Rightarrow> None
           | Some None \<Rightarrow> Some (Some DecodeError, req, c)
           | Some (Some (leaf, rest)) \<Rightarrow> Some (refuse env leaf InvokeAfterMsgWaitTimeout True c (req\<lparr>rq_buf := rest\<rparr>))
      else Some (refuse env innerID InvokeAfterMsgWaitTimeout True c req))"

text \<open>The decision on one \<open>invokeAfterMsg\<close> whose query is \<open>tid\<close>: \<open>None\<close> continues the loop.\<close>

definition after_msg ::
  "tl_codec \<Rightarrow> refusal_env \<Rightarrow> int \<Rightarrow> 32 word \<Rightarrow> conn option \<Rightarrow> request \<Rightarrow> handled option option" where
  "after_msg codec env dependency tid c req =
     (if isInvokeWrapper codec tid then Some (refuseUnsupported codec env tid c req)
      else case c of
        None \<Rightarrow> Some (Some (refuse env tid InvokeAfterMsgWaitTimeout True c req))
      | Some k \<Rightarrow>
          if dependency \<le> 0 \<or> dependency \<ge> rq_msgID req
          then Some (Some (refuse env tid InvokeAfterMsgWaitTimeout True c req))
          else
            let (found, success) =
                  RPCDependencyOutcome (cn_session k) (rq_session req) dependency (rq_msgID req) (cn_outcomes k) in
            if \<not> found then Some (Some (refuse env tid InvokeAfterMsgWaitTimeout True c req))
            else if \<not> success then Some (Some (refuse env tid InvokeAfterMsgWaitFailed False c req))
            else None)"

text \<open>One turn of the loop: what the request is answered with, or the id, connection and request to go on with.\<close>

definition after_step ::
  "tl_codec \<Rightarrow> refusal_env \<Rightarrow> handler \<Rightarrow> 32 word \<Rightarrow> conn option \<Rightarrow> request \<Rightarrow>
   handled option + 32 word \<times> conn option \<times> request" where
  "after_step codec env nxt tid c req =
     (case tc_kind codec tid of
        None \<Rightarrow> Inl (Some (nxt c req))
      | Some w \<Rightarrow>
          if w = InitConnection then
            (case unpackInitConnection codec c (rq_buf req) of
               None \<Rightarrow> Inl (Some (Some DecodeError, req, c))
             | Some (c, tid, rest) \<Rightarrow> Inr (tid, c, req\<lparr>rq_buf := rest\<rparr>))
          else
            (case wrapper_decode codec w (rq_buf req) of
               None \<Rightarrow> Inl (Some (Some DecodeError, req, c))
             | Some (f, tid, rest) \<Rightarrow>
                 let req = req\<lparr>rq_buf := rest\<rparr> in
                 if w = InvokeWithLayer \<or> w = InvokeWithoutUpdates then Inr (tid, c, req)
                 else if w = InvokeAfterMsg
                 then (case after_msg codec env (wf_msgID f) tid c req of
                         Some r \<Rightarrow> Inl r
                       | None \<Rightarrow> Inr (tid, c, req))
                 else Inl (refuseUnsupported codec env tid c req)))"

partial_function (option) after_loop ::
  "tl_codec \<Rightarrow> refusal_env \<Rightarrow> handler \<Rightarrow> 32 word \<Rightarrow> conn option \<Rightarrow> request \<Rightarrow> handled option" where
  "after_loop codec env nxt tid c req =
     (case after_step codec env nxt tid c req of
        Inl r \<Rightarrow> r
      | Inr (tid, c, req) \<Rightarrow> after_loop codec env nxt tid c req)"

definition UnpackInvokeWithAfterMsg ::
  "tl_codec \<Rightarrow> refusal_env \<Rightarrow> handler \<Rightarrow> conn option \<Rightarrow> request \<Rightarrow> handled option" where
  "UnpackInvokeWithAfterMsg codec env nxt c req =
     (case tc_peek codec (rq_buf req) of
        None \<Rightarrow> Some (Some PeekError, req, c)
      | Some tid \<Rightarrow> after_loop codec env nxt tid c req)"

section \<open>The loops return\<close>

lemma wrapper_decode_shrinks:
  assumes "consuming codec" and "wrapper_decode codec w b = Some (f, tid, rest)"
  shows "length rest < length b"
  using assms by (auto simp: wrapper_decode_def consuming_def split: option.splits)

lemma unpackInitConnection_shrinks:
  assumes "consuming codec" and "unpackInitConnection codec c b = Some (c', tid, rest)"
  shows "length rest < length b"
  using assms wrapper_decode_shrinks by (fastforce simp: unpackInitConnection_def)

lemma unpack_loop_returns:
  assumes "consuming codec"
  shows "unpack_loop codec nxt tid c req \<noteq> None"
proof (induction "length (rq_buf req)" arbitrary: tid c req rule: less_induct)
  case less
  have rec: "unpack_loop codec nxt tid' c' (req\<lparr>rq_buf := rest\<rparr>) \<noteq> None"
    if "length rest < length (rq_buf req)" for tid' c' rest
    using less [of "req\<lparr>rq_buf := rest\<rparr>"] that by simp
  have plain: "(case wrapper_decode codec w (rq_buf req) of None \<Rightarrow> Some (Some DecodeError, req, c)
      | Some (f, tid, rest) \<Rightarrow> unpack_loop codec nxt tid c (req\<lparr>rq_buf := rest\<rparr>)) \<noteq> None" for w
    using rec wrapper_decode_shrinks [OF assms] by (auto iff del: not_None_eq split: option.splits)
  have init: "(case unpackInitConnection codec c (rq_buf req) of None \<Rightarrow> Some (Some DecodeError, req, c)
      | Some (c, tid, rest) \<Rightarrow> unpack_loop codec nxt tid c (req\<lparr>rq_buf := rest\<rparr>)) \<noteq> None"
    using rec unpackInitConnection_shrinks [OF assms] by (auto iff del: not_None_eq split: option.splits)
  show ?case
  proof (cases "tc_kind codec tid")
    case (Some w)
    then show ?thesis
      by (subst unpack_loop.simps, cases w) (simp_all add: plain init del: not_None_eq)
  qed (simp add: unpack_loop.simps)
qed

lemma enclosedInvokeMethodID_returns:
  assumes "consuming codec"
  shows "enclosedInvokeMethodID codec tid b \<noteq> None"
proof (induction "length b" arbitrary: tid b rule: less_induct)
  case less
  show ?case
  proof (cases "tc_kind codec tid")
    case (Some w)
    show ?thesis
    proof (cases "wrapper_decode codec w b")
      case (Some d)
      obtain f tid' rest where d: "d = (f, tid', rest)" by (cases d)
      with Some wrapper_decode_shrinks [OF assms] have "length rest < length b" by simp
      from less [OF this] Some d \<open>tc_kind codec tid = Some w\<close> show ?thesis
        by (subst enclosedInvokeMethodID.simps) (simp del: not_None_eq)
    qed (simp add: enclosedInvokeMethodID.simps Some)
  qed (simp add: enclosedInvokeMethodID.simps)
qed

lemma refuseUnsupported_returns:
  assumes "consuming codec"
  shows "refuseUnsupported codec env tid c req \<noteq> None"
  using enclosedInvokeMethodID_returns [OF assms, of tid "rq_buf req"]
  by (auto iff del: not_None_eq simp: refuseUnsupported_def split: option.splits)

lemma after_msg_returns:
  assumes "consuming codec" and "after_msg codec env d tid c req = Some r"
  shows "r \<noteq> None"
  using assms(2) refuseUnsupported_returns [OF assms(1)]
  by (auto iff del: not_None_eq simp: after_msg_def Let_def split: if_splits option.splits prod.splits)

lemma after_step_returns:
  assumes "consuming codec" and "after_step codec env nxt tid c req = Inl r"
  shows "r \<noteq> None"
  using assms(2) refuseUnsupported_returns [OF assms(1)] after_msg_returns [OF assms(1)]
  by (auto iff del: not_None_eq simp: after_step_def Let_def split: if_splits option.splits prod.splits)

lemma after_step_shrinks:
  assumes "consuming codec" and "after_step codec env nxt tid c req = Inr (tid', c', req')"
  shows "length (rq_buf req') < length (rq_buf req)"
  using assms(2) wrapper_decode_shrinks [OF assms(1)] unpackInitConnection_shrinks [OF assms(1)]
  by (auto iff del: not_None_eq simp: after_step_def Let_def split: if_splits option.splits prod.splits)

lemma after_loop_returns:
  assumes "consuming codec"
  shows "after_loop codec env nxt tid c req \<noteq> None"
proof (induction "length (rq_buf req)" arbitrary: tid c req rule: less_induct)
  case less
  show ?case
  proof (cases "after_step codec env nxt tid c req")
    case (Inl r)
    then show ?thesis using after_step_returns [OF assms Inl] by (simp add: after_loop.simps del: not_None_eq)
  next
    case (Inr n)
    obtain tid' c' req' where n: "n = (tid', c', req')" by (cases n)
    with Inr after_step_shrinks [OF assms] have "length (rq_buf req') < length (rq_buf req)" by simp
    from less [OF this] Inr n show ?thesis by (subst after_loop.simps) (simp del: not_None_eq)
  qed
qed

text \<open>
  C27. Unwrapping always ends. However deeply a request nests its invocation wrappers, both
  unwrapping loops and the walk to the leaf constructor return, whatever the handler and the refusal
  callback do: a request is always answered, refused or failed, never spun on.
\<close>

theorem unwrapping_returns:
  assumes "consuming codec"
  shows "(\<exists>r. UnpackInvoke codec nxt c req = Some r) \<and> (\<exists>r. UnpackInvokeWithAfterMsg codec env nxt c req = Some r) \<and>
    (\<exists>r. enclosedInvokeMethodID codec tid b = Some r)"
  using unpack_loop_returns [OF assms] after_loop_returns [OF assms] enclosedInvokeMethodID_returns [OF assms]
  by (auto simp: UnpackInvoke_def UnpackInvokeWithAfterMsg_def simp del: split_paired_Ex split: option.splits)

definition demo_codec :: tl_codec where
  "demo_codec = \<lparr>
     tc_peek = (\<lambda>b. case b of [] \<Rightarrow> None | x # _ \<Rightarrow> Some (ucast x)),
     tc_kind = (\<lambda>tid. if tid = 1 then Some InvokeWithLayer else if tid = 2 then Some InitConnection
                     else if tid = 3 then Some InvokeAfterMsg else if tid = 4 then Some InvokeAfterMsgs else None),
     tc_fields = (\<lambda>w b. case b of
         x # d # rest \<Rightarrow> Some (\<lparr>wf_msgID = uint d, wf_systemLangCode = ''en''\<rparr>, rest)
       | _ \<Rightarrow> None)\<rparr>"

definition demo_send :: send_env where
  "demo_send = \<lparr>se_encodes = True, se_envelope = True, se_sends = True\<rparr>"

definition demo_env :: refusal_env where
  "demo_env = \<lparr>re_now = 1, re_send = demo_send, re_onRefusal = None\<rparr>"

definition demo_handler :: handler where
  "demo_handler c req =
     (case c of
        None \<Rightarrow> (Some RefusedWithoutConn, req, c)
      | Some k \<Rightarrow> (let (err, req, k) = SendResult demo_send req k in (map_option ReplyError err, req, Some k)))"

lemma demo_codec_consuming: "consuming demo_codec"
  by (auto simp: consuming_def demo_codec_def split: list.splits)

theorem unwrapping_returns_witness:
  "consuming demo_codec \<and> (\<exists>r. UnpackInvokeWithAfterMsg demo_codec demo_env demo_handler None (demo_request 5 8 [1, 1, 2, 2, 3, 3, 7]) = Some r)"
  using unwrapping_returns [OF demo_codec_consuming] demo_codec_consuming by blast

section \<open>What reaches a handler\<close>

text \<open>
  The requests that are let through: the plain wrappers peeled, and \<open>invokeAfterMsg\<close> only directly
  around a method, on a dependency that is older than the request and recorded as successful for its
  session. The list collects the dependencies.
\<close>

inductive accepted :: "tl_codec \<Rightarrow> 32 word \<Rightarrow> conn option \<Rightarrow> request \<Rightarrow> int list \<Rightarrow> conn option \<Rightarrow> request \<Rightarrow> bool"
  for codec where
  arrived: "tc_kind codec tid = None \<Longrightarrow> accepted codec tid c req [] c req"
| peeled: "\<lbrakk>tc_kind codec tid = Some w; w = InvokeWithLayer \<or> w = InvokeWithoutUpdates;
     wrapper_decode codec w (rq_buf req) = Some (f, tid', rest);
     accepted codec tid' c (req\<lparr>rq_buf := rest\<rparr>) ds c' req'\<rbrakk> \<Longrightarrow> accepted codec tid c req ds c' req'"
| initialised: "\<lbrakk>tc_kind codec tid = Some InitConnection;
     unpackInitConnection codec c (rq_buf req) = Some (c1, tid', rest);
     accepted codec tid' c1 (req\<lparr>rq_buf := rest\<rparr>) ds c' req'\<rbrakk> \<Longrightarrow> accepted codec tid c req ds c' req'"
| after: "\<lbrakk>tc_kind codec tid = Some InvokeAfterMsg;
     wrapper_decode codec InvokeAfterMsg (rq_buf req) = Some (f, tid', rest); tc_kind codec tid' = None;
     RPCDependencyOutcome (cn_session k) (rq_session req) (wf_msgID f) (rq_msgID req) (cn_outcomes k) = (True, True)\<rbrakk>
     \<Longrightarrow> accepted codec tid (Some k) req [wf_msgID f] (Some k) (req\<lparr>rq_buf := rest\<rparr>)"

lemma setSystemLangCodeHint_keeps:
  "cn_session (setSystemLangCodeHint h k) = cn_session k" "cn_outcomes (setSystemLangCodeHint h k) = cn_outcomes k"
  by (simp_all add: setSystemLangCodeHint_def)

lemma accepted_dependencies:
  assumes "accepted codec tid c req ds c' req'"
  shows "length ds \<le> 1 \<and> (\<forall>k. c = Some k \<longrightarrow> list_all (\<lambda>d. RPCDependencyOutcome (cn_session k) (rq_session req) d (rq_msgID req) (cn_outcomes k)
        = (True, True)) ds)"
  using assms
proof (induction rule: accepted.induct)
  case (initialised tid c req c1 tid' rest ds c' req')
  then obtain h where "c1 = map_option (setSystemLangCodeHint h) c"
    by (auto simp: unpackInitConnection_def)
  with initialised show ?case by (auto simp: setSystemLangCodeHint_keeps)
qed auto

lemma after_msg_None:
  assumes "after_msg codec env d tid c req = None"
  shows "\<exists>k. c = Some k \<and> tc_kind codec tid = None \<and>
    RPCDependencyOutcome (cn_session k) (rq_session req) d (rq_msgID req) (cn_outcomes k) = (True, True)"
  using assms by (auto simp: after_msg_def isInvokeWrapper_def Let_def split: if_splits option.splits prod.splits)

text \<open>A turn that goes on does so for every handler, and extends any accepted rest.\<close>

lemma after_step_next:
  assumes "after_step codec env nxt tid c req = Inr (tid', c', req')"
  shows "after_step codec env nxt' tid c req = Inr (tid', c', req')"
  using assms by (auto simp: after_step_def Let_def split: if_splits option.splits prod.splits)

lemma after_step_end:
  assumes "after_step codec env nxt tid c req = Inl r"
  shows "(tc_kind codec tid = None \<and> r = Some (nxt c req)) \<or> (\<forall>nxt'. after_step codec env nxt' tid c req = Inl r)"
  using assms by (auto simp: after_step_def Let_def split: if_splits option.splits prod.splits)

lemma after_step_accepted:
  assumes step: "after_step codec env nxt tid c req = Inr (tid', c', req')"
    and rest: "accepted codec tid' c' req' ds c2 req2"
  shows "\<exists>ds'. accepted codec tid c req ds' c2 req2"
proof -
  obtain w where w: "tc_kind codec tid = Some w" using step by (auto simp: after_step_def split: option.splits)
  consider "w = InitConnection" | "w = InvokeWithLayer \<or> w = InvokeWithoutUpdates" | "w = InvokeAfterMsg"
    using step w by (auto simp: after_step_def Let_def split: if_splits option.splits prod.splits)
  then show ?thesis
  proof cases
    case 1
    then obtain b where "unpackInitConnection codec c (rq_buf req) = Some (c', tid', b)" and "req' = req\<lparr>rq_buf := b\<rparr>"
      using step w by (auto simp: after_step_def split: option.splits)
    with 1 w rest show ?thesis by (metis accepted.initialised)
  next
    case 2
    then obtain f b where "wrapper_decode codec w (rq_buf req) = Some (f, tid', b)" and "req' = req\<lparr>rq_buf := b\<rparr>" and "c' = c"
      using step w by (auto simp: after_step_def Let_def split: option.splits)
    with 2 w rest show ?thesis by (metis accepted.peeled)
  next
    case 3
    then obtain f b where d: "wrapper_decode codec InvokeAfterMsg (rq_buf req) = Some (f, tid', b)"
        and r: "req' = req\<lparr>rq_buf := b\<rparr>" "c' = c"
        and n: "after_msg codec env (wf_msgID f) tid' c (req\<lparr>rq_buf := b\<rparr>) = None"
      using step w by (auto simp: after_step_def Let_def split: option.splits)
    from after_msg_None [OF n] obtain k where k: "c = Some k" "tc_kind codec tid' = None"
        "RPCDependencyOutcome (cn_session k) (rq_session req) (wf_msgID f) (rq_msgID req) (cn_outcomes k) = (True, True)"
      by auto
    from rest k(2) have "ds = []" "c2 = c'" "req2 = req'" by (auto elim: accepted.cases)
    with accepted.after [OF _ d k(2,3)] w 3 r k(1) show ?thesis by auto
  qed
qed

lemma find_SomeD: "find P xs = Some x \<Longrightarrow> x \<in> set xs \<and> P x"
  by (induction xs) (auto split: if_splits)

lemma after_loop_accepted:
  assumes "consuming codec" and "after_loop codec env nxt tid c req = Some r"
  shows "(\<exists>ds c' req'. accepted codec tid c req ds c' req' \<and> r = nxt c' req') \<or>
    (\<forall>nxt'. after_loop codec env nxt' tid c req = Some r)"
  using assms(2)
proof (induction "length (rq_buf req)" arbitrary: tid c req rule: less_induct)
  case less
  show ?case
  proof (cases "after_step codec env nxt tid c req")
    case (Inl x)
    then have x: "x = Some r" using less.prems by (simp add: after_loop.simps)
    from after_step_end [OF Inl] show ?thesis
    proof
      assume "tc_kind codec tid = None \<and> x = Some (nxt c req)"
      with x accepted.arrived show ?thesis by blast
    next
      assume "\<forall>nxt'. after_step codec env nxt' tid c req = Inl x"
      with x show ?thesis by (simp add: after_loop.simps)
    qed
  next
    case (Inr n)
    obtain tid' c' req' where n: "n = (tid', c', req')" by (cases n)
    note step = Inr [unfolded n]
    have go: "after_loop codec env h tid c req = after_loop codec env h tid' c' req'" for h
      by (subst after_loop.simps) (simp add: after_step_next [OF step])
    from less.hyps [OF after_step_shrinks [OF assms(1) step]] less.prems go
    have "(\<exists>ds c2 req2. accepted codec tid' c' req' ds c2 req2 \<and> r = nxt c2 req2) \<or>
        (\<forall>nxt'. after_loop codec env nxt' tid' c' req' = Some r)" by simp
    with go after_step_accepted [OF step] show ?thesis by metis
  qed
qed

text \<open>
  C11. A handler runs behind \<open>invokeAfterMsg\<close> only after what it waits for. On any connection, a
  wrapped request is either answered without the handler having any say, or reaches it through plain
  wrappers and at most one \<open>invokeAfterMsg\<close>, directly around the method, whose dependency is older
  than the request and is one of the last 64 results this connection wrote under its current owner,
  key and session, a successful one.
\<close>

theorem handler_after_dependency:
  assumes "consuming codec" and "list_all callable ops" and "k = conn_run ops newConn"
  shows "\<exists>r. UnpackInvokeWithAfterMsg codec env nxt (Some k) req = Some r \<and>
    ((\<forall>nxt'. UnpackInvokeWithAfterMsg codec env nxt' (Some k) req = Some r) \<or>
     (\<exists>tid ds c' req'. tc_peek codec (rq_buf req) = Some tid \<and> accepted codec tid (Some k) req ds c' req' \<and>
        r = nxt c' req' \<and> length ds \<le> 1 \<and>
        list_all (\<lambda>d. d < rq_msgID req \<and> rq_session req = cn_session k \<and>
          (\<exists>x \<in> set (take 64 (result_log ops newConn [])). oc_msgID x = d \<and> oc_success x)) ds))"
proof (cases "tc_peek codec (rq_buf req)")
  case (Some tid)
  then have u: "UnpackInvokeWithAfterMsg codec env h (Some k) req = after_loop codec env h tid (Some k) req" for h
    by (simp add: UnpackInvokeWithAfterMsg_def)
  obtain r where r: "after_loop codec env nxt tid (Some k) req = Some r"
    using after_loop_returns [OF assms(1)] by blast
  have dep: "d < rq_msgID req \<and> rq_session req = cn_session k \<and>
      (\<exists>x \<in> set (take 64 (result_log ops newConn [])). oc_msgID x = d \<and> oc_success x)"
    if "RPCDependencyOutcome (cn_session k) (rq_session req) d (rq_msgID req) (cn_outcomes k) = (True, True)" for d
    using that dependency_from_log [OF assms(2,3), of "rq_session req" d "rq_msgID req"]
    by (auto dest: find_SomeD split: if_splits option.splits)
  from after_loop_accepted [OF assms(1) r] show ?thesis
  proof
    assume "\<exists>ds c' req'. accepted codec tid (Some k) req ds c' req' \<and> r = nxt c' req'"
    then obtain ds c' req' where a: "accepted codec tid (Some k) req ds c' req'" "r = nxt c' req'" by blast
    from accepted_dependencies [OF a(1)] have "length ds \<le> 1"
      and "list_all (\<lambda>d. RPCDependencyOutcome (cn_session k) (rq_session req) d (rq_msgID req) (cn_outcomes k) = (True, True)) ds"
      by simp_all
    then have "list_all (\<lambda>d. d < rq_msgID req \<and> rq_session req = cn_session k \<and>
      (\<exists>x \<in> set (take 64 (result_log ops newConn [])). oc_msgID x = d \<and> oc_success x)) ds"
      by (elim list.pred_mono_strong) (rule dep)
    with a Some r \<open>length ds \<le> 1\<close> show ?thesis unfolding u by blast
  qed (use u r in auto)
qed (simp add: UnpackInvokeWithAfterMsg_def)

text \<open>A request that is let through, and one that waits on a message never answered.\<close>

lemma demo_outcomes:
  "RPCDependencyOutcome (cn_session (conn_run demo_ops newConn)) 5 3 8 (cn_outcomes (conn_run demo_ops newConn)) = (True, True)"
  "RPCDependencyOutcome (cn_session (conn_run demo_ops newConn)) 5 4 8 (cn_outcomes (conn_run demo_ops newConn)) = (False, False)"
  by code_simp+

lemma demo_through:
  "UnpackInvokeWithAfterMsg demo_codec demo_env h (Some (conn_run demo_ops newConn)) (demo_request 5 8 [1, 0, 3, 3, 7]) =
     Some (h (Some (conn_run demo_ops newConn)) (demo_request 5 8 [7]))"
  using demo_outcomes(1)
  by (simp add: UnpackInvokeWithAfterMsg_def after_loop.simps after_step_def after_msg_def wrapper_decode_def
      peekIDObject_Decode_def isInvokeWrapper_def demo_codec_def demo_request_def)

theorem handler_after_dependency_witness:
  "consuming demo_codec \<and> list_all callable demo_ops \<and>
   (\<exists>r. UnpackInvokeWithAfterMsg demo_codec demo_env demo_handler (Some (conn_run demo_ops newConn)) (demo_request 5 8 [1, 0, 3, 3, 7]) = Some r \<and>
      r = demo_handler (Some (conn_run demo_ops newConn)) (demo_request 5 8 [7]))"
proof -
  have c: "list_all callable demo_ops" by (simp add: demo_ops_def)
  from handler_after_dependency [OF demo_codec_consuming c refl, of demo_env demo_handler "demo_request 5 8 [1, 0, 3, 3, 7]"]
  obtain r where "UnpackInvokeWithAfterMsg demo_codec demo_env demo_handler (Some (conn_run demo_ops newConn))
      (demo_request 5 8 [1, 0, 3, 3, 7]) = Some r" by blast
  with demo_through [of demo_handler] demo_codec_consuming c show ?thesis by simp
qed

end
