(* ===== verification/Rpc_Trace.thy ===== *)
theory Rpc_Trace
  imports Dispatch
begin

text \<open>
  The dispatcher's routing table with its fixed method names (internal/mtproto/dispatch.go) and the
  bounded recorder of RPC spans (internal/mtproto/rpc_trace.go). gotd's registry of constructor
  names is the argument \<open>types\<close>. The recorder is a machine of three parties: goroutines that record a
  span in two steps, since the check that tracing is on and the send to the queue can be separated
  by a shutdown; the one that closes it; and the worker that exports.
\<close>

section \<open>Method names\<close>

definition UnknownRPCMethod :: string where "UnknownRPCMethod = ''unknown''"
definition maxRPCTraceMethodLength :: nat where "maxRPCTraceMethodLength = 64"
definition RPCSpanName :: string where "RPCSpanName = ''telegram.rpc.server''"
definition defaultRPCTraceQueueCapacity :: int where "defaultRPCTraceQueueCapacity = 64"

definition compiledMethodNames :: "(32 word \<times> string) list \<Rightarrow> (32 word \<times> string) list" where
  "compiledMethodNames types =
     [(tid, takeWhile (\<lambda>ch. ch \<noteq> CHR ''#'') name). (tid, name) \<leftarrow> types,
        CHR ''#'' \<in> set name \<and> CHR ''.'' \<in> set (takeWhile (\<lambda>ch. ch \<noteq> CHR ''#'') name)]"

definition compiledMethodName :: "(32 word \<times> string) list \<Rightarrow> 32 word \<Rightarrow> string" where
  "compiledMethodName types tid =
     (case map_of (compiledMethodNames types) tid of None \<Rightarrow> [] | Some name \<Rightarrow> name)"

definition compiledMethodVocabulary :: "(32 word \<times> string) list \<Rightarrow> string list" where
  "compiledMethodVocabulary types = ''messages.revokeExportedChatInvite'' # map snd (compiledMethodNames types)"

definition sanitizeRPCMethod :: "(32 word \<times> string) list \<Rightarrow> string \<Rightarrow> string" where
  "sanitizeRPCMethod types meth =
     (if meth = [] \<or> meth = UnknownRPCMethod \<or> length meth > maxRPCTraceMethodLength \<or> CHR ''.'' \<notin> set meth
      then UnknownRPCMethod
      else if meth \<notin> set (compiledMethodVocabulary types) then UnknownRPCMethod
      else if list_ex (\<lambda>ch. of_char ch < (33 :: nat) \<or> of_char ch > (126 :: nat)) meth then UnknownRPCMethod
      else meth)"

section \<open>Routing\<close>

record dispatcher =
  dp_reqs :: "(32 word, handler) fmap"
  dp_methods :: "(32 word, string) fmap"
  dp_fallback :: "handler option"

definition NewDispatcher :: dispatcher where
  "NewDispatcher = \<lparr>dp_reqs = fmempty, dp_methods = fmempty, dp_fallback = None\<rparr>"

definition HandleNamed :: "(32 word \<times> string) list \<Rightarrow> 32 word \<Rightarrow> string \<Rightarrow> handler \<Rightarrow> dispatcher \<Rightarrow> dispatcher" where
  "HandleNamed types tid name h d =
     (let canonical = sanitizeRPCMethod types name in
      d\<lparr>dp_reqs := fmupd tid h (dp_reqs d),
        dp_methods := (if canonical \<noteq> UnknownRPCMethod then fmupd tid canonical (dp_methods d)
                       else fmdrop tid (dp_methods d))\<rparr>)"

definition Handle :: "(32 word \<times> string) list \<Rightarrow> 32 word \<Rightarrow> handler \<Rightarrow> dispatcher \<Rightarrow> dispatcher" where
  "Handle types tid h d = HandleNamed types tid (compiledMethodName types tid) h d"

definition Fallback :: "handler \<Rightarrow> dispatcher \<Rightarrow> dispatcher" where
  "Fallback h d = d\<lparr>dp_fallback := Some h\<rparr>"

definition dispatcher_OnMessage :: "tl_codec \<Rightarrow> dispatcher \<Rightarrow> handler" where
  "dispatcher_OnMessage codec d c req =
     (case tc_peek codec (rq_buf req) of
        None \<Rightarrow> (Some PeekError, req, c)
      | Some tid \<Rightarrow>
          let req = req\<lparr>rq_method := (case fmlookup (dp_methods d) tid of
                                        None \<Rightarrow> UnknownRPCMethod
                                      | Some name \<Rightarrow> if name = [] then UnknownRPCMethod else name)\<rparr> in
          case fmlookup (dp_reqs d) tid of
            Some h \<Rightarrow> h c req
          | None \<Rightarrow> (case dp_fallback d of
                      Some h \<Rightarrow> h c req
                    | None \<Rightarrow> (Some (UnexpectedType tid), req, c)))"

section \<open>Spans\<close>

record rpc_span =
  sp_name :: string
  sp_method :: string
  sp_duration :: gduration
  sp_result :: rpc_class

text \<open>\<open>sanitizeRPCResult\<close> is the identity on the closed type of result classes.\<close>

definition sanitizeRPCSpan :: "(32 word \<times> string) list \<Rightarrow> rpc_span \<Rightarrow> rpc_span" where
  "sanitizeRPCSpan types span =
     span\<lparr>sp_name := RPCSpanName, sp_method := sanitizeRPCMethod types (sp_method span),
          sp_duration := (if sp_duration span < 0 then 0 else sp_duration span)\<rparr>"

definition requestRPCMethod :: "request \<Rightarrow> string" where
  "requestRPCMethod req = (if rq_method req \<noteq> [] then rq_method req else UnknownRPCMethod)"

definition requestRPCResult :: "bool \<Rightarrow> request \<Rightarrow> go_error option \<Rightarrow> rpc_class" where
  "requestRPCResult expired req err =
     (case rq_result req of
        Some r \<Rightarrow>
          if r = RPCResultInternal \<and> expired then RPCResultDeadline
          else if err \<noteq> None \<and> r = RPCResultSuccess then ClassifyRPCError err
          else r
      | None \<Rightarrow> if expired then RPCResultDeadline else ClassifyRPCError err)"

record span_handle =
  sh_started :: gtime
  sh_finished :: bool

section \<open>The recorder\<close>

datatype export_result = ExportOk | ExportError | ExportPanic

datatype worker = Waiting | Received rpc_span | Exporting rpc_span | LastExport rpc_span | Draining
  | DrainReceived rpc_span | Done

record tracer =
  tr_capacity :: nat
  tr_queue :: "rpc_span list"
  tr_active :: bool
  tr_stop :: bool
  tr_exported :: int
  tr_dropped :: int
  tr_exporterErrors :: int
  tr_exporterPanics :: int
  tr_worker :: worker

text \<open>\<open>None\<close> is the disabled tracer of a missing exporter.\<close>

definition NewRPCTracer :: "bool \<Rightarrow> int \<Rightarrow> tracer option" where
  "NewRPCTracer exporter capacity =
     (if \<not> exporter then None
      else Some \<lparr>tr_capacity = nat (if capacity \<le> 0 then defaultRPCTraceQueueCapacity else capacity), tr_queue = [],
        tr_active = True, tr_stop = False, tr_exported = 0, tr_dropped = 0, tr_exporterErrors = 0,
        tr_exporterPanics = 0, tr_worker = Waiting\<rparr>)"

definition Enabled :: "tracer option \<Rightarrow> bool" where
  "Enabled t \<longleftrightarrow> (case t of None \<Rightarrow> False | Some t \<Rightarrow> tr_active t)"

definition span_Start :: "gtime \<Rightarrow> tracer option \<Rightarrow> span_handle option" where
  "span_Start now t = (if \<not> Enabled t then None else Some \<lparr>sh_started = now, sh_finished = False\<rparr>)"

text \<open>The span \<open>Finish\<close> hands to \<open>Record\<close>, if any, and the handle afterwards.\<close>

definition span_Finish ::
  "gtime \<Rightarrow> span_handle option \<Rightarrow> string \<Rightarrow> rpc_class \<Rightarrow> rpc_span option \<times> span_handle option" where
  "span_Finish now handle meth result =
     (case handle of
        None \<Rightarrow> (None, None)
      | Some h \<Rightarrow>
          if sh_finished h then (None, Some h)
          else (Some \<lparr>sp_name = RPCSpanName, sp_method = meth,
                  sp_duration = max (time_sub now (sh_started h)) 0, sp_result = result\<rparr>,
                Some (h\<lparr>sh_finished := True\<rparr>)))"

text \<open>\<open>Record\<close> once tracing was seen on: sanitise and send, or count the drop.\<close>

definition Record_send :: "(32 word \<times> string) list \<Rightarrow> rpc_span \<Rightarrow> tracer \<Rightarrow> tracer" where
  "Record_send types span t =
     (let span = sanitizeRPCSpan types span in
      if length (tr_queue t) < tr_capacity t then t\<lparr>tr_queue := tr_queue t @ [span]\<rparr>
      else t\<lparr>tr_dropped := tr_dropped t + 1\<rparr>)"

definition export_span :: "export_result \<Rightarrow> tracer \<Rightarrow> tracer" where
  "export_span r t =
     (case r of
        ExportOk \<Rightarrow> t\<lparr>tr_exported := tr_exported t + 1\<rparr>
      | ExportError \<Rightarrow> t\<lparr>tr_exporterErrors := tr_exporterErrors t + 1\<rparr>
      | ExportPanic \<Rightarrow> t\<lparr>tr_exporterPanics := tr_exporterPanics t + 1\<rparr>)"

text \<open>
  The tracer with what surrounds it: the recorders that have seen tracing on and not yet sent, and
  as ghosts the number of spans ever begun, the spans an export was finished for and those given up.
\<close>

record trace_sys =
  ts_tracer :: tracer
  ts_recorders :: "rpc_span list"
  ts_begun :: int
  ts_handed :: "rpc_span list"
  ts_abandoned :: int

definition trace_start :: "tracer \<Rightarrow> trace_sys" where
  "trace_start t = \<lparr>ts_tracer = t, ts_recorders = [], ts_begun = 0, ts_handed = [], ts_abandoned = 0\<rparr>"

definition set_worker :: "worker \<Rightarrow> trace_sys \<Rightarrow> trace_sys" where
  "set_worker w s = s\<lparr>ts_tracer := (ts_tracer s)\<lparr>tr_worker := w\<rparr>\<rparr>"

definition dequeue :: "trace_sys \<Rightarrow> trace_sys" where
  "dequeue s = s\<lparr>ts_tracer := (ts_tracer s)\<lparr>tr_queue := tl (tr_queue (ts_tracer s))\<rparr>\<rparr>"

definition finish_export :: "rpc_span \<Rightarrow> export_result \<Rightarrow> trace_sys \<Rightarrow> trace_sys" where
  "finish_export span r s = s\<lparr>ts_tracer := export_span r (ts_tracer s), ts_handed := span # ts_handed s\<rparr>"

inductive trace_step :: "(32 word \<times> string) list \<Rightarrow> trace_sys \<Rightarrow> trace_sys \<Rightarrow> bool" for types where
  check: "Enabled (Some (ts_tracer s)) \<Longrightarrow>
     trace_step types s (s\<lparr>ts_recorders := span # ts_recorders s, ts_begun := ts_begun s + 1\<rparr>)"
| send: "span \<in> set (ts_recorders s) \<Longrightarrow>
     trace_step types s (s\<lparr>ts_recorders := remove1 span (ts_recorders s), ts_tracer := Record_send types span (ts_tracer s)\<rparr>)"
| deactivate: "trace_step types s (s\<lparr>ts_tracer := (ts_tracer s)\<lparr>tr_active := False\<rparr>\<rparr>)"
| stop: "\<not> tr_active (ts_tracer s) \<Longrightarrow> trace_step types s (s\<lparr>ts_tracer := (ts_tracer s)\<lparr>tr_stop := True\<rparr>\<rparr>)"
| receive: "tr_worker (ts_tracer s) = Waiting \<Longrightarrow> tr_queue (ts_tracer s) = span # q \<Longrightarrow>
     trace_step types s (set_worker (Received span) (dequeue s))"
| inspect: "tr_worker (ts_tracer s) = Received span \<Longrightarrow>
     trace_step types s (set_worker (if tr_active (ts_tracer s) then Exporting span else LastExport span) s)"
| exported: "tr_worker (ts_tracer s) = Exporting span \<Longrightarrow>
     trace_step types s (set_worker Waiting (finish_export span r s))"
| exported_last: "tr_worker (ts_tracer s) = LastExport span \<Longrightarrow>
     trace_step types s (set_worker Draining (finish_export span r s))"
| halt: "tr_worker (ts_tracer s) = Waiting \<Longrightarrow> tr_stop (ts_tracer s) \<Longrightarrow> trace_step types s (set_worker Draining s)"
| drain_receive: "tr_worker (ts_tracer s) = Draining \<Longrightarrow> tr_queue (ts_tracer s) = span # q \<Longrightarrow>
     trace_step types s (set_worker (DrainReceived span) (dequeue s))"
| drain_export: "tr_worker (ts_tracer s) = DrainReceived span \<Longrightarrow>
     trace_step types s (set_worker Draining (finish_export span r s))"
| drain_expired: "tr_worker (ts_tracer s) = DrainReceived span \<Longrightarrow>
     trace_step types s (set_worker Done s \<lparr>ts_abandoned := ts_abandoned s + 1\<rparr>)"
| drain_empty: "tr_worker (ts_tracer s) = Draining \<Longrightarrow> tr_queue (ts_tracer s) = [] \<Longrightarrow>
     trace_step types s (set_worker Done s)"

section \<open>What is recorded\<close>

definition printable :: "string \<Rightarrow> bool" where
  "printable = list_all (\<lambda>ch. (33 :: nat) \<le> of_char ch \<and> of_char ch \<le> (126 :: nat))"

definition fixed_method :: "(32 word \<times> string) list \<Rightarrow> string \<Rightarrow> bool" where
  "fixed_method types meth \<longleftrightarrow> meth = UnknownRPCMethod \<or>
     meth \<in> set (compiledMethodVocabulary types) \<and> length meth \<le> maxRPCTraceMethodLength \<and> printable meth"

definition redacted :: "(32 word \<times> string) list \<Rightarrow> rpc_span \<Rightarrow> bool" where
  "redacted types span \<longleftrightarrow> sp_name span = RPCSpanName \<and> fixed_method types (sp_method span) \<and> 0 \<le> sp_duration span"

fun worker_span :: "worker \<Rightarrow> rpc_span list" where
  "worker_span (Received span) = [span]"
| "worker_span (Exporting span) = [span]"
| "worker_span (LastExport span) = [span]"
| "worker_span (DrainReceived span) = [span]"
| "worker_span w = []"

definition trace_inv :: "(32 word \<times> string) list \<Rightarrow> nat \<Rightarrow> trace_sys \<Rightarrow> bool" where
  "trace_inv types cap s \<longleftrightarrow>
     (let t = ts_tracer s in
      tr_capacity t = cap \<and> length (tr_queue t) \<le> cap \<and>
      list_all (redacted types) (tr_queue t) \<and> list_all (redacted types) (worker_span (tr_worker t)) \<and>
      list_all (redacted types) (ts_handed s) \<and>
      int (length (ts_handed s)) = tr_exported t + tr_exporterErrors t + tr_exporterPanics t \<and>
      ts_begun s = int (length (ts_recorders s) + length (tr_queue t) + length (worker_span (tr_worker t))) +
        tr_exported t + tr_exporterErrors t + tr_exporterPanics t + tr_dropped t + ts_abandoned s \<and>
      0 \<le> ts_abandoned s \<and> ts_abandoned s \<le> (if tr_worker t = Done then 1 else 0))"

lemma sanitizeRPCMethod_fixed: "fixed_method types (sanitizeRPCMethod types meth)"
  by (auto simp: fixed_method_def sanitizeRPCMethod_def printable_def list_all_iff list_ex_iff not_less)

lemma sanitizeRPCSpan_redacted: "redacted types (sanitizeRPCSpan types span)"
  by (simp add: redacted_def sanitizeRPCSpan_def sanitizeRPCMethod_fixed)

lemma Record_send_parts:
  "tr_capacity (Record_send types span t) = tr_capacity t"
  "tr_worker (Record_send types span t) = tr_worker t"
  "tr_exported (Record_send types span t) = tr_exported t"
  "tr_exporterErrors (Record_send types span t) = tr_exporterErrors t"
  "tr_exporterPanics (Record_send types span t) = tr_exporterPanics t"
  "length (tr_queue t) \<le> tr_capacity t \<Longrightarrow> length (tr_queue (Record_send types span t)) \<le> tr_capacity t"
  "list_all (redacted types) (tr_queue t) \<Longrightarrow> list_all (redacted types) (tr_queue (Record_send types span t))"
  "int (length (tr_queue (Record_send types span t))) + tr_dropped (Record_send types span t) =
     int (length (tr_queue t)) + tr_dropped t + 1"
  by (simp_all add: Record_send_def sanitizeRPCSpan_redacted Let_def)

lemma trace_step_inv:
  assumes "trace_step types s t" and "trace_inv types cap s"
  shows "trace_inv types cap t"
  using assms
proof cases
  case (send span)
  have "int (length (ts_recorders s)) = int (length (remove1 span (ts_recorders s))) + 1"
    using length_pos_if_in_set [OF send(2)] unfolding length_remove1 if_P [OF send(2)] by linarith
  with send assms(2) Record_send_parts [where types = types and span = span and t = "ts_tracer s"] show ?thesis
    by (simp add: trace_inv_def Let_def)
next
  case (inspect span)
  with assms(2) show ?thesis by (simp add: trace_inv_def set_worker_def Let_def)
next
  case (exported span r)
  with assms(2) show ?thesis
    by (cases r) (simp_all add: trace_inv_def set_worker_def finish_export_def export_span_def Let_def)
next
  case (exported_last span r)
  with assms(2) show ?thesis
    by (cases r) (simp_all add: trace_inv_def set_worker_def finish_export_def export_span_def Let_def)
next
  case (drain_export span r)
  with assms(2) show ?thesis
    by (cases r) (simp_all add: trace_inv_def set_worker_def finish_export_def export_span_def Let_def)
qed (simp_all add: trace_inv_def set_worker_def dequeue_def Let_def)

lemma NewRPCTracer_inv:
  "NewRPCTracer True capacity = Some t \<Longrightarrow> trace_inv types (tr_capacity t) (trace_start t)"
  by (auto simp: NewRPCTracer_def trace_inv_def trace_start_def)

interpretation trm: invariant_machine "\<lambda>s. \<exists>t. tr_capacity t = cap \<and> NewRPCTracer True capacity = Some t \<and> s = trace_start t"
  "trace_step types" "trace_inv types cap" for types cap capacity
  by unfold_locales (auto intro: NewRPCTracer_inv trace_step_inv)

text \<open>
  C39. What tracing can reveal and hold is fixed. Whatever recorders, the worker and a shutdown do
  in whatever order, the queue never exceeds its capacity; every span an exporter is given carries
  the fixed name, a method that is \<open>unknown\<close> or a printable name of the compiled vocabulary of at most
  64 bytes, and a duration that is not negative, whatever the recorder passed; and every span begun is
  in flight, queued, held by the worker, exported, failed or counted as dropped, but for at most one
  that an expired shutdown gives up uncounted.
\<close>

theorem trace_redacted_and_accounted:
  assumes "NewRPCTracer True capacity = Some t0" and "reach (trace_step types) (trace_start t0) s" and "t = ts_tracer s"
  shows "int (length (tr_queue t)) \<le> (if capacity \<le> 0 then 64 else capacity) \<and> list_all (redacted types) (ts_handed s) \<and>
    int (length (ts_handed s)) = tr_exported t + tr_exporterErrors t + tr_exporterPanics t \<and>
    (\<exists>lost \<in> {0, 1}. ts_begun s = int (length (ts_recorders s) + length (tr_queue t) + length (worker_span (tr_worker t))) +
      tr_exported t + tr_exporterErrors t + tr_exporterPanics t + tr_dropped t + lost \<and> (lost = 1 \<longrightarrow> tr_worker t = Done))"
proof -
  have inv: "trace_inv types (tr_capacity t0) s"
    by (rule trm.reachable_inv [OF _ assms(2)]) (use assms(1) in auto)
  have cap: "int (tr_capacity t0) = (if capacity \<le> 0 then 64 else capacity)"
    using assms(1) by (auto simp: NewRPCTracer_def defaultRPCTraceQueueCapacity_def)
  from inv have "ts_abandoned s \<in> {0, 1} \<and> (ts_abandoned s = 1 \<longrightarrow> tr_worker t = Done)"
    by (auto simp: trace_inv_def Let_def assms(3) split: if_splits)
  with inv cap show ?thesis
    unfolding trace_inv_def Let_def assms(3) [symmetric] by (intro conjI bexI [of _ "ts_abandoned s"]) auto
qed

definition demo_span :: rpc_span where
  "demo_span = \<lparr>sp_name = ''x'', sp_method = ''+15550100'', sp_duration = - 5, sp_result = RPCResultSuccess\<rparr>"

definition demo_tracer :: tracer where
  "demo_tracer = the (NewRPCTracer True 2)"

definition demo_checked :: trace_sys where
  "demo_checked = (trace_start demo_tracer)\<lparr>ts_recorders := [demo_span], ts_begun := 1\<rparr>"

definition demo_sent :: trace_sys where
  "demo_sent = demo_checked\<lparr>ts_recorders := [], ts_tracer := Record_send [] demo_span demo_tracer\<rparr>"

lemma demo_trace: "reach (trace_step []) (trace_start demo_tracer) demo_sent"
proof -
  have a: "trace_step [] (trace_start demo_tracer) demo_checked"
    using trace_step.check [of "trace_start demo_tracer" "[]" demo_span]
    by (simp add: demo_checked_def trace_start_def Enabled_def demo_tracer_def NewRPCTracer_def)
  have b: "trace_step [] demo_checked demo_sent"
    using trace_step.send [of demo_span demo_checked "[]"]
    by (simp add: demo_sent_def demo_checked_def trace_start_def)
  from a b show ?thesis by (blast intro: reach.intros)
qed

theorem trace_redacted_and_accounted_witness:
  "NewRPCTracer True 2 = Some demo_tracer \<and> reach (trace_step []) (trace_start demo_tracer) demo_sent \<and>
   length (tr_queue (ts_tracer demo_sent)) = 1 \<and> int (length (tr_queue (ts_tracer demo_sent))) \<le> 2 \<and>
   map sp_method (tr_queue (ts_tracer demo_sent)) = [''unknown'']"
proof -
  have n: "NewRPCTracer True 2 = Some demo_tracer" by (simp add: demo_tracer_def NewRPCTracer_def)
  have "map sp_method (tr_queue (ts_tracer demo_sent)) = [''unknown'']"
    by (simp add: demo_sent_def demo_tracer_def NewRPCTracer_def Record_send_def demo_span_def sanitizeRPCSpan_def
        sanitizeRPCMethod_def UnknownRPCMethod_def Let_def)
  moreover from this have "length (tr_queue (ts_tracer demo_sent)) = 1" by (metis length_map length_Cons list.size(3) One_nat_def)
  ultimately show ?thesis using trace_redacted_and_accounted [OF n demo_trace refl] n demo_trace by simp
qed

section \<open>The names requests are traced under\<close>

datatype registration = Register "32 word" string handler | RegisterCompiled "32 word" handler | RegisterFallback handler

fun register :: "(32 word \<times> string) list \<Rightarrow> registration \<Rightarrow> dispatcher \<Rightarrow> dispatcher" where
  "register types (Register tid name h) d = HandleNamed types tid name h d"
| "register types (RegisterCompiled tid h) d = Handle types tid h d"
| "register types (RegisterFallback h) d = Fallback h d"

lemma registered_methods_fixed:
  assumes "d = fold (register types) regs NewDispatcher"
  shows "fmpred (\<lambda>_. fixed_method types) (dp_methods d)"
proof -
  have named: "fmpred (\<lambda>_. fixed_method types) (dp_methods (HandleNamed types tid name h d'))"
    if "fmpred (\<lambda>_. fixed_method types) (dp_methods d')" for tid name h d'
    using that sanitizeRPCMethod_fixed by (auto simp: HandleNamed_def Let_def intro: fmpred_upd)
  have "fmpred (\<lambda>_. fixed_method types) (dp_methods (fold (register types) regs d'))"
    if "fmpred (\<lambda>_. fixed_method types) (dp_methods d')" for d'
    using that
  proof (induction regs arbitrary: d')
    case (Cons r regs)
    then have "fmpred (\<lambda>_. fixed_method types) (dp_methods (register types r d'))"
      by (cases r) (simp_all add: named Handle_def Fallback_def)
    with Cons.IH show ?case by simp
  qed simp
  then show ?thesis using assms by (simp add: NewDispatcher_def)
qed

lemma dispatched_method_fixed:
  assumes "d = fold (register types) regs NewDispatcher"
  shows "(\<exists>err. dispatcher_OnMessage codec d c req = (Some err, req, c)) \<or>
    (\<exists>req'. fixed_method types (rq_method req') \<and> rq_buf req' = rq_buf req \<and>
       ((\<exists>h. dispatcher_OnMessage codec d c req = h c req' \<and> (h \<in> fmran' (dp_reqs d) \<or> dp_fallback d = Some h)) \<or>
        (\<exists>tid. dispatcher_OnMessage codec d c req = (Some (UnexpectedType tid), req', c))))"
proof (cases "tc_peek codec (rq_buf req)")
  case (Some tid)
  define req' where "req' = req\<lparr>rq_method := (case fmlookup (dp_methods d) tid of
      None \<Rightarrow> UnknownRPCMethod | Some name \<Rightarrow> if name = [] then UnknownRPCMethod else name)\<rparr>"
  have "fixed_method types (rq_method req')"
    using registered_methods_fixed [OF assms]
    by (auto simp: req'_def fixed_method_def fmpred_iff split: option.splits)
  moreover have "rq_buf req' = rq_buf req" by (simp add: req'_def)
  moreover have "dispatcher_OnMessage codec d c req =
      (case fmlookup (dp_reqs d) tid of Some h \<Rightarrow> h c req'
       | None \<Rightarrow> (case dp_fallback d of Some h \<Rightarrow> h c req' | None \<Rightarrow> (Some (UnexpectedType tid), req', c)))"
    unfolding dispatcher_OnMessage_def Some Let_def req'_def by (simp only: option.case)
  ultimately show ?thesis by (cases "fmlookup (dp_reqs d) tid"; cases "dp_fallback d") (auto intro: fmran'I)
qed (simp add: dispatcher_OnMessage_def)

end
