(* ===== verification/Slot_Pool.thy ===== *)
theory Slot_Pool
  imports Go_Prelude
begin

text \<open>
  The contract shared by the connection limiters of internal/mtproto: a pool counts, per key, the
  slots that connections hold, refuses a slot at its cap, and gets every slot back. The locale
  \<open>slot_pool\<close> states what a limiter promises; its lemmas say what the promise means for the
  population of connections that hold the slots, and are used through an interpretation on each
  limiter (per-network pre-auth connections, unbound auth keys, pending logins).
\<close>

section \<open>Populations\<close>

text \<open>
  \<open>m\<close> maps live connections to their own state and \<open>slot\<close> reads which slot that state holds.
\<close>

definition slot_at :: "('v \<Rightarrow> 'k option) \<Rightarrow> ('c, 'v) fmap \<Rightarrow> 'c \<Rightarrow> 'k option" where
  "slot_at slot m c = (case fmlookup m c of None \<Rightarrow> None | Some v \<Rightarrow> slot v)"

definition occupants :: "('v \<Rightarrow> 'k option) \<Rightarrow> ('c, 'v) fmap \<Rightarrow> 'k \<Rightarrow> nat" where
  "occupants slot m k = card {c. slot_at slot m c = Some k}"

lemma finite_slot_at [simp]: "finite {c. slot_at slot m c = Some k}"
  by (rule finite_subset [of _ "fset (fmdom m)"])
     (auto simp: slot_at_def intro: fmdomI split: option.splits)

lemma finite_slots [simp]: "finite {c. slot_at slot m c \<noteq> None}"
  by (rule finite_subset [of _ "fset (fmdom m)"])
     (auto simp: slot_at_def intro: fmdomI split: option.splits)

lemma slot_at_upd [simp]: "slot_at slot (fmupd c v m) c' = (if c' = c then slot v else slot_at slot m c')"
  by (simp add: slot_at_def)

lemma slot_at_drop [simp]: "slot_at slot (fmdrop c m) c' = (if c' = c then None else slot_at slot m c')"
  by (simp add: slot_at_def)

lemma occupants_empty [simp]: "occupants slot fmempty k = 0"
  by (simp add: occupants_def slot_at_def)

lemma occupants_take:
  assumes "slot_at slot m c = None" and "slot v = Some k"
  shows "occupants slot (fmupd c v m) k' = occupants slot m k' + (if k' = k then 1 else 0)"
proof -
  have "{c'. slot_at slot (fmupd c v m) c' = Some k'} =
      (if k' = k then insert c {c'. slot_at slot m c' = Some k'} else {c'. slot_at slot m c' = Some k'})"
    using assms by auto
  with assms(1) show ?thesis by (simp add: occupants_def)
qed

lemma occupants_cong: "(\<And>c. slot_at slot m c = slot_at slot m' c) \<Longrightarrow> occupants slot m k = occupants slot m' k"
  by (simp add: occupants_def)

lemma occupants_leave:
  assumes "slot_at slot m c = Some k"
  shows "occupants slot m k' = occupants slot (fmdrop c m) k' + (if k' = k then 1 else 0)"
proof (cases "k' = k")
  case True
  then have eq: "{c'. slot_at slot m c' = Some k'} = insert c {c'. slot_at slot (fmdrop c m) c' = Some k'}"
    using assms by auto
  have "card \<dots> = Suc (card {c'. slot_at slot (fmdrop c m) c' = Some k'})"
    by (rule card_insert_disjoint) (simp_all only: finite_slot_at, simp)
  with True eq show ?thesis by (simp add: occupants_def)
next
  case False
  then have "{c'. slot_at slot m c' = Some k'} = {c'. slot_at slot (fmdrop c m) c' = Some k'}"
    using assms by auto
  with False show ?thesis by (simp add: occupants_def)
qed

lemma occupants_give:
  assumes "slot v = None"
  shows "occupants slot (fmupd c v m) k = occupants slot (fmdrop c m) k"
  by (rule occupants_cong) (simp add: assms)

lemma occupants_drop_None:
  "slot_at slot m c = None \<Longrightarrow> occupants slot (fmdrop c m) k = occupants slot m k"
  by (rule occupants_cong) auto

lemma occupants_same:
  "slot v = slot_at slot m c \<Longrightarrow> occupants slot (fmupd c v m) k = occupants slot m k"
  by (rule occupants_cong) auto

text \<open>Over a finite set of keys, a bound per key bounds the whole population.\<close>

lemma occupants_sum_le:
  assumes "finite K" and "\<And>k. k \<in> K \<Longrightarrow> occupants slot m k \<le> n"
  shows "card {c. \<exists>k \<in> K. slot_at slot m c = Some k} \<le> card K * n"
proof -
  have "{c. \<exists>k \<in> K. slot_at slot m c = Some k} = (\<Union>k \<in> K. {c. slot_at slot m c = Some k})" by auto
  also have "card \<dots> \<le> (\<Sum>k \<in> K. card {c. slot_at slot m c = Some k})"
    by (rule card_UN_le [OF assms(1)])
  also have "\<dots> \<le> (\<Sum>k \<in> K. n)"
    by (rule sum_mono) (use assms(2) in \<open>auto simp: occupants_def\<close>)
  finally show ?thesis by simp
qed

section \<open>The limiter contract\<close>

definition pool_agrees ::
  "('s \<Rightarrow> 'k \<Rightarrow> int) \<Rightarrow> ('s \<Rightarrow> int) \<Rightarrow> ('v \<Rightarrow> 'k option) \<Rightarrow> 's \<Rightarrow> ('c, 'v) fmap \<Rightarrow> bool" where
  "pool_agrees held cap slot s m \<longleftrightarrow>
     (0 < cap s \<longrightarrow> (\<forall>k. held s k = int (occupants slot m k) \<and> held s k \<le> cap s))"

lemma pool_agreesD:
  assumes "pool_agrees held cap slot s m" and "0 < cap s"
  shows "held s k = int (occupants slot m k)" and "held s k \<le> cap s"
  using assms unfolding pool_agrees_def by blast+

lemma pool_agrees_bound:
  "pool_agrees held cap slot s m \<Longrightarrow> 0 < cap s \<Longrightarrow> int (occupants slot m k) \<le> cap s"
  by (metis pool_agrees_def)

lemma pool_agrees_cong:
  assumes "\<And>k. occupants slot m' k = occupants slot m k"
  shows "pool_agrees held cap slot s m' = pool_agrees held cap slot s m"
  by (simp add: pool_agrees_def assms)

lemma pool_agrees_state_cong:
  assumes "held s' = held s" and "cap s' = cap s"
  shows "pool_agrees held cap slot s' m = pool_agrees held cap slot s m"
  by (simp add: pool_agrees_def assms)

lemma pool_agrees_drop:
  "slot_at slot m c = None \<Longrightarrow> pool_agrees held cap slot s (fmdrop c m) = pool_agrees held cap slot s m"
  by (rule pool_agrees_cong) (rule occupants_drop_None)

lemma pool_agrees_same:
  "slot v = slot_at slot m c \<Longrightarrow> pool_agrees held cap slot s (fmupd c v m) = pool_agrees held cap slot s m"
  by (rule pool_agrees_cong) (rule occupants_same)

locale slot_pool =
  fixes held :: "'s \<Rightarrow> 'k \<Rightarrow> int"
    and cap :: "'s \<Rightarrow> int"
    and acquire :: "'k \<Rightarrow> 's \<Rightarrow> bool \<times> 's"
    and release :: "'k \<Rightarrow> 's \<Rightarrow> 's"
  assumes cap_acquire: "cap (snd (acquire k s)) = cap s"
    and cap_release: "cap (release k s) = cap s"
    and acquire_iff: "fst (acquire k s) \<longleftrightarrow> \<not> (0 < cap s \<and> cap s \<le> held s k)"
    and acquire_held: "0 < cap s \<Longrightarrow> fst (acquire k s) \<Longrightarrow>
        held (snd (acquire k s)) k' = held s k' + (if k' = k then 1 else 0)"
    and acquire_refused: "\<not> fst (acquire k s) \<Longrightarrow> snd (acquire k s) = s"
    and release_held: "0 < cap s \<Longrightarrow> 0 < held s k \<Longrightarrow>
        held (release k s) k' = held s k' - (if k' = k then 1 else 0)"
begin

lemma agrees_take:
  assumes "pool_agrees held cap slot s m" and "acquire k s = (True, s')"
    and "slot_at slot m c = None" and "slot v = Some k"
  shows "pool_agrees held cap slot s' (fmupd c v m)"
proof -
  have s': "s' = snd (acquire k s)" and ok: "fst (acquire k s)" using assms(2) by simp_all
  show ?thesis
    unfolding pool_agrees_def
  proof (intro impI allI conjI)
    fix k' assume c: "0 < cap s'"
    then have cs: "0 < cap s" by (simp add: s' cap_acquire)
    from acquire_held [OF cs ok, of k'] assms(1) cs
    show "held s' k' = int (occupants slot (fmupd c v m) k')"
      by (auto simp: s' pool_agrees_def occupants_take [OF assms(3,4)])
    from pool_agreesD(2) [OF assms(1) cs, of k'] acquire_held [OF cs ok, of k'] cs ok acquire_iff [of k s]
    show "held s' k' \<le> cap s'"
      by (auto simp: s' cap_acquire split: if_splits)
  qed
qed

lemma agrees_leave:
  assumes "pool_agrees held cap slot s m" and "slot_at slot m c = Some k"
  shows "pool_agrees held cap slot (release k s) (fmdrop c m)"
  unfolding pool_agrees_def
proof (intro impI allI conjI)
  fix k'
  assume "0 < cap (release k s)"
  then have cs: "0 < cap s" by (simp add: cap_release)
  note occ = occupants_leave [OF assms(2)]
  note h = pool_agreesD [OF assms(1) cs]
  have pos: "0 < held s k" using occ [of k] h(1) [of k] by simp
  show "held (release k s) k' = int (occupants slot (fmdrop c m) k')"
    using release_held [OF cs pos, of k'] h(1) [of k'] occ [of k'] by simp
  show "held (release k s) k' \<le> cap (release k s)"
    using release_held [OF cs pos, of k'] h(2) [of k'] by (simp add: cap_release split: if_splits)
qed

lemma agrees_give:
  assumes "pool_agrees held cap slot s m" and "slot_at slot m c = Some k" and "slot v = None"
  shows "pool_agrees held cap slot (release k s) (fmupd c v m)"
proof -
  have "occupants slot (fmupd c v m) k' = occupants slot (fmdrop c m) k'" for k'
    by (rule occupants_give) (rule assms(3))
  then have "pool_agrees held cap slot (release k s) (fmupd c v m) =
      pool_agrees held cap slot (release k s) (fmdrop c m)"
    by (rule pool_agrees_cong)
  with agrees_leave [OF assms(1,2)] show ?thesis by blast
qed

end

end
