(* ===== verification/Pre_Auth.thy ===== *)
theory Pre_Auth
  imports Slot_Pool Net_Addr
begin

text \<open>
  The bounds on connections that have not authenticated yet (internal/mtproto/preauth.go and
  \<open>SetPreAuthLimits\<close> of server.go): the limiter with its global and per-network counters, one
  connection's slot, and the population of slots that the accept loop admits, that are charged to
  a network once the client address is known, and that are cleared by the first authenticated
  frame or by the end of the connection.
\<close>

record preauth_limits =
  MaxConns :: int
  MaxConnsPerNet :: int
  Lifetime :: gduration

definition DefaultPreAuthLimits :: preauth_limits where
  "DefaultPreAuthLimits = \<lparr>MaxConns = 1024, MaxConnsPerNet = 64, Lifetime = 120 * second\<rparr>"

record preauth_limiter =
  pl_limits :: preauth_limits
  pl_conns :: int
  pl_perNet :: "(prefix, int) fmap"

definition newPreAuthLimiter :: "preauth_limits \<Rightarrow> preauth_limiter" where
  "newPreAuthLimiter lims = \<lparr>pl_limits = lims, pl_conns = 0, pl_perNet = fmempty\<rparr>"

datatype limits_error = NegativeMaxConns int | NegativeMaxConnsPerNet int | NegativeLifetime gduration

definition SetPreAuthLimits :: "preauth_limits \<Rightarrow> limits_error + preauth_limiter" where
  "SetPreAuthLimits l =
     (if MaxConns l < 0 then Inl (NegativeMaxConns (MaxConns l))
      else if MaxConnsPerNet l < 0 then Inl (NegativeMaxConnsPerNet (MaxConnsPerNet l))
      else if Lifetime l < 0 then Inl (NegativeLifetime (Lifetime l))
      else Inr (newPreAuthLimiter l))"

text \<open>
  A slot: the network it is charged to (\<open>NoPrefix\<close>, the zero \<open>netip.Prefix\<close>, when none), the
  deadline its armed timer fires at, and whether its \<open>sync.Once\<close> has run.
\<close>

record preauth_slot =
  ps_bucket :: prefix
  ps_timer :: "gtime option"
  ps_cleared :: bool

definition new_slot :: preauth_slot where
  "new_slot = \<lparr>ps_bucket = NoPrefix, ps_timer = None, ps_cleared = False\<rparr>"

definition admit :: "preauth_limiter \<Rightarrow> preauth_slot option \<times> preauth_limiter" where
  "admit l =
     (if MaxConns (pl_limits l) > 0 \<and> pl_conns l \<ge> MaxConns (pl_limits l) then (None, l)
      else (Some new_slot, l\<lparr>pl_conns := pl_conns l + 1\<rparr>))"

definition acquireNet :: "prefix \<Rightarrow> preauth_limiter \<Rightarrow> bool \<times> preauth_limiter" where
  "acquireNet bucket l =
     (if MaxConnsPerNet (pl_limits l) > 0 \<and> mget (pl_perNet l) bucket \<ge> MaxConnsPerNet (pl_limits l)
      then (False, l)
      else (True, l\<lparr>pl_perNet := minc bucket (pl_perNet l)\<rparr>))"

definition preauth_release :: "prefix \<Rightarrow> preauth_limiter \<Rightarrow> preauth_limiter" where
  "preauth_release bucket l =
     (let l1 = l\<lparr>pl_conns := pl_conns l - 1\<rparr> in
      if bucket = NoPrefix then l1
      else l1\<lparr>pl_perNet := mdec bucket (pl_perNet l1)\<rparr>)"

definition keyAddr :: "addr \<Rightarrow> preauth_slot \<Rightarrow> preauth_limiter \<Rightarrow> bool \<times> preauth_slot \<times> preauth_limiter" where
  "keyAddr a sl l =
     (case ip_bucket_key a of
        None \<Rightarrow> (True, sl, l)
      | Some bucket \<Rightarrow>
          (let (ok, l') = acquireNet bucket l in
           if \<not> ok then (False, sl, l') else (True, sl\<lparr>ps_bucket := bucket\<rparr>, l')))"

definition armLifetime :: "gtime \<Rightarrow> preauth_slot \<Rightarrow> preauth_limiter \<Rightarrow> preauth_slot" where
  "armLifetime now sl l =
     (if Lifetime (pl_limits l) \<le> 0 then sl
      else sl\<lparr>ps_timer := Some (now + Lifetime (pl_limits l))\<rparr>)"

definition slot_clear :: "preauth_slot option \<Rightarrow> preauth_limiter \<Rightarrow> preauth_slot option \<times> preauth_limiter" where
  "slot_clear s l =
     (case s of
        None \<Rightarrow> (None, l)
      | Some sl \<Rightarrow>
          if ps_cleared sl then (Some sl, l)
          else (Some (sl\<lparr>ps_timer := None, ps_cleared := True\<rparr>), preauth_release (ps_bucket sl) l))"

section \<open>The population of slots\<close>

record preauth_sys =
  pas_lim :: preauth_limiter
  pas_slots :: "(nat, preauth_slot) fmap"

inductive preauth_step :: "preauth_sys \<Rightarrow> preauth_sys \<Rightarrow> bool" where
  pa_accept: "fmlookup (pas_slots s) c = None \<Longrightarrow> admit (pas_lim s) = (Some sl, l') \<Longrightarrow>
    preauth_step s \<lparr>pas_lim = l', pas_slots = fmupd c (armLifetime now sl l') (pas_slots s)\<rparr>"
| pa_refuse: "admit (pas_lim s) = (None, l') \<Longrightarrow> preauth_step s (s\<lparr>pas_lim := l'\<rparr>)"
| pa_key: "fmlookup (pas_slots s) c = Some sl \<Longrightarrow> ps_bucket sl = NoPrefix \<Longrightarrow> \<not> ps_cleared sl \<Longrightarrow>
    keyAddr a sl (pas_lim s) = (ok, sl', l') \<Longrightarrow>
    preauth_step s \<lparr>pas_lim = l', pas_slots = fmupd c sl' (pas_slots s)\<rparr>"
| pa_clear: "fmlookup (pas_slots s) c = Some sl \<Longrightarrow> slot_clear (Some sl) (pas_lim s) = (Some sl', l') \<Longrightarrow>
    preauth_step s \<lparr>pas_lim = l', pas_slots = fmupd c sl' (pas_slots s)\<rparr>"
| pa_close: "fmlookup (pas_slots s) c = Some sl \<Longrightarrow> slot_clear (Some sl) (pas_lim s) = (Some sl', l') \<Longrightarrow>
    preauth_step s \<lparr>pas_lim = l', pas_slots = fmdrop c (pas_slots s)\<rparr>"

definition preauth_init :: "preauth_sys \<Rightarrow> bool" where
  "preauth_init s \<longleftrightarrow> (\<exists>lims. s = \<lparr>pas_lim = newPreAuthLimiter lims, pas_slots = fmempty\<rparr>)"

definition net_slot :: "preauth_slot \<Rightarrow> prefix option" where
  "net_slot sl = (if ps_cleared sl \<or> ps_bucket sl = NoPrefix then None else Some (ps_bucket sl))"

definition global_slot :: "preauth_slot \<Rightarrow> unit option" where
  "global_slot sl = (if ps_cleared sl then None else Some ())"

definition net_held :: "preauth_limiter \<Rightarrow> prefix \<Rightarrow> int" where
  "net_held l = mget (pl_perNet l)"

definition net_cap :: "preauth_limiter \<Rightarrow> int" where
  "net_cap l = MaxConnsPerNet (pl_limits l)"

definition global_held :: "preauth_limiter \<Rightarrow> unit \<Rightarrow> int" where
  "global_held l u = pl_conns l"

definition global_cap :: "preauth_limiter \<Rightarrow> int" where
  "global_cap l = MaxConns (pl_limits l)"

definition release_net :: "prefix \<Rightarrow> preauth_limiter \<Rightarrow> preauth_limiter" where
  "release_net bucket l = l\<lparr>pl_perNet := mdec bucket (pl_perNet l)\<rparr>"

definition release_global :: "unit \<Rightarrow> preauth_limiter \<Rightarrow> preauth_limiter" where
  "release_global u l = l\<lparr>pl_conns := pl_conns l - 1\<rparr>"

definition admit_global :: "unit \<Rightarrow> preauth_limiter \<Rightarrow> bool \<times> preauth_limiter" where
  "admit_global u l = (let (sl, l') = admit l in (sl \<noteq> None, l'))"

definition preauth_inv :: "preauth_sys \<Rightarrow> bool" where
  "preauth_inv s \<longleftrightarrow>
     counts_positive (pl_perNet (pas_lim s)) \<and>
     pool_agrees net_held net_cap net_slot (pas_lim s) (pas_slots s) \<and>
     pool_agrees global_held global_cap global_slot (pas_lim s) (pas_slots s)"

section \<open>Lemmas\<close>

lemmas pool_views = net_held_def net_cap_def global_held_def global_cap_def
  release_net_def release_global_def admit_global_def

interpretation netpool: slot_pool net_held net_cap acquireNet release_net
  by unfold_locales (auto simp: acquireNet_def pool_views mget_mdec)

interpretation globalpool: slot_pool global_held global_cap admit_global release_global
  by unfold_locales (auto simp: admit_def pool_views)

text \<open>Each pool looks only at its own part of the limiter.\<close>

lemma net_agrees_other:
  assumes "pl_perNet l' = pl_perNet l" and "pl_limits l' = pl_limits l"
  shows "pool_agrees net_held net_cap slot l' m = pool_agrees net_held net_cap slot l m"
  by (rule pool_agrees_state_cong) (simp_all add: pool_views assms)

lemma global_agrees_other:
  assumes "pl_conns l' = pl_conns l" and "pl_limits l' = pl_limits l"
  shows "pool_agrees global_held global_cap slot l' m = pool_agrees global_held global_cap slot l m"
  by (rule pool_agrees_state_cong) (simp_all add: pool_views assms fun_eq_iff)

lemma ip_bucket_key_valid: "ip_bucket_key a = Some p \<Longrightarrow> p \<noteq> NoPrefix"
  by (cases a) (auto simp: ip_bucket_key_def addr_valid_def ipv4_bucket_bits_def ipv6_bucket_bits_def
      Let_def split: if_splits)

lemma preauth_release_parts:
  "preauth_release b l =
     (if b = NoPrefix then release_global () l else release_net b (release_global () l))"
  by (simp add: preauth_release_def pool_views Let_def)

lemma armLifetime_slots [simp]:
  "net_slot (armLifetime now sl l) = net_slot sl" "global_slot (armLifetime now sl l) = global_slot sl"
  by (simp_all add: armLifetime_def net_slot_def global_slot_def)

lemma new_slot_slots [simp]: "net_slot new_slot = None" "global_slot new_slot = Some ()"
  by (simp_all add: new_slot_def net_slot_def global_slot_def)

lemma slot_clear_slots:
  "slot_clear (Some sl) l = (Some sl', l') \<Longrightarrow> net_slot sl' = None \<and> global_slot sl' = None"
  by (auto simp: slot_clear_def net_slot_def global_slot_def split: if_splits)

text \<open>Clearing a slot returns the global slot and, if it was charged, the network slot.\<close>

lemma slot_clear_agrees:
  assumes inv: "preauth_inv s" and c: "fmlookup (pas_slots s) c = Some sl"
    and cl: "slot_clear (Some sl) (pas_lim s) = (Some sl', l')"
  shows "preauth_inv \<lparr>pas_lim = l', pas_slots = fmupd c sl' (pas_slots s)\<rparr>"
proof -
  let ?m = "pas_slots s" and ?l = "pas_lim s"
  have atn: "slot_at net_slot ?m c = net_slot sl" and atg: "slot_at global_slot ?m c = global_slot sl"
    using c by (simp_all add: slot_at_def)
  from inv have net: "pool_agrees net_held net_cap net_slot ?l ?m"
    and glob: "pool_agrees global_held global_cap global_slot ?l ?m"
    and pos: "counts_positive (pl_perNet ?l)" by (simp_all add: preauth_inv_def)
  show ?thesis
  proof (cases "ps_cleared sl")
    case True
    with cl have "sl' = sl" "l' = ?l" by (simp_all add: slot_clear_def)
    with net glob pos atn atg show ?thesis by (simp add: preauth_inv_def pool_agrees_same)
  next
    case False
    with cl have l': "l' = preauth_release (ps_bucket sl) ?l" by (auto simp: slot_clear_def)
    note none = slot_clear_slots [OF cl]
    have g: "pool_agrees global_held global_cap global_slot (release_global () ?l) (fmupd c sl' ?m)"
      by (rule globalpool.agrees_give [OF glob]) (use False atg none in \<open>auto simp: global_slot_def\<close>)
    have n0: "pool_agrees net_held net_cap net_slot (release_global () ?l) ?m"
      using net by (subst net_agrees_other [of _ ?l]) (simp_all add: release_global_def)
    show ?thesis
    proof (cases "ps_bucket sl = NoPrefix")
      case True
      have eq: "net_slot sl' = slot_at net_slot ?m c" using True none atn by (simp add: net_slot_def)
      have "pool_agrees net_held net_cap net_slot (release_global () ?l) (fmupd c sl' ?m)"
        by (rule pool_agrees_same [OF eq, THEN iffD2]) (rule n0)
      with g True have "preauth_inv \<lparr>pas_lim = release_global () ?l, pas_slots = fmupd c sl' ?m\<rparr>"
        using pos by (simp add: preauth_inv_def) (simp add: release_global_def)
      with True show ?thesis by (simp add: l' preauth_release_parts)
    next
      case False2: False
      have n: "pool_agrees net_held net_cap net_slot (release_net (ps_bucket sl) (release_global () ?l)) (fmupd c sl' ?m)"
        by (rule netpool.agrees_give [OF n0]) (use False False2 atn none in \<open>auto simp: net_slot_def\<close>)
      have g2: "pool_agrees global_held global_cap global_slot
          (release_net (ps_bucket sl) (release_global () ?l)) (fmupd c sl' ?m)"
        using g by (subst global_agrees_other [of _ "release_global () ?l"]) (simp_all add: release_net_def)
      have "counts_positive (pl_perNet (release_net (ps_bucket sl) (release_global () ?l)))"
        using pos by (simp add: release_net_def release_global_def counts_positive_mdec)
      with n g2 False2 show ?thesis
        by (simp add: preauth_inv_def l' preauth_release_parts)
    qed
  qed
qed

lemma preauth_inv_drop:
  assumes "preauth_inv s" and "fmlookup (pas_slots s) c = Some sl"
    and "net_slot sl = None" and "global_slot sl = None"
  shows "preauth_inv (s\<lparr>pas_slots := fmdrop c (pas_slots s)\<rparr>)"
  using assms by (simp add: preauth_inv_def pool_agrees_drop slot_at_def)

lemma preauth_step_inv: "preauth_step s t \<Longrightarrow> preauth_inv s \<Longrightarrow> preauth_inv t"
proof (induction rule: preauth_step.induct)
  case (pa_accept s c sl l' now)
  let ?m = "pas_slots s" and ?l = "pas_lim s"
  have free: "slot_at net_slot ?m c = None" "slot_at global_slot ?m c = None"
    using pa_accept.hyps(1) by (simp_all add: slot_at_def)
  from pa_accept.hyps(2) have sl: "sl = new_slot" and l': "l' = ?l\<lparr>pl_conns := pl_conns ?l + 1\<rparr>"
    and acq: "admit_global () ?l = (True, l')"
    by (auto simp: admit_def admit_global_def split: if_splits)
  have "pool_agrees global_held global_cap global_slot l' (fmupd c (armLifetime now sl l') ?m)"
    by (rule globalpool.agrees_take [OF _ acq free(2)])
       (use pa_accept.prems sl in \<open>simp_all add: preauth_inv_def\<close>)
  moreover have "pool_agrees net_held net_cap net_slot l' (fmupd c (armLifetime now sl l') ?m)"
  proof -
    have eq: "net_slot (armLifetime now sl l') = slot_at net_slot ?m c"
      using free(1) sl by simp
    have "pool_agrees net_held net_cap net_slot l' ?m"
      using pa_accept.prems net_agrees_other [of l' ?l net_slot ?m] l' by (simp add: preauth_inv_def)
    then show ?thesis by (rule pool_agrees_same [OF eq, THEN iffD2])
  qed
  ultimately show ?case using pa_accept.prems l' by (simp add: preauth_inv_def)
next
  case (pa_refuse s l')
  then show ?case by (auto simp: admit_def split: if_splits)
next
  case (pa_key s c sl a ok sl' l')
  let ?m = "pas_slots s" and ?l = "pas_lim s"
  have atn: "slot_at net_slot ?m c = None" and atg: "slot_at global_slot ?m c = Some ()"
    using pa_key.hyps(1-3) by (simp_all add: slot_at_def net_slot_def global_slot_def)
  from pa_key.prems have net: "pool_agrees net_held net_cap net_slot ?l ?m"
    and glob: "pool_agrees global_held global_cap global_slot ?l ?m"
    and pos: "counts_positive (pl_perNet ?l)" by (simp_all add: preauth_inv_def)
  consider (same) "sl' = sl" "l' = ?l"
    | (took) b where "ip_bucket_key a = Some b" "acquireNet b ?l = (True, l')" "sl' = sl\<lparr>ps_bucket := b\<rparr>"
    using pa_key.hyps(4)
    by (auto simp: keyAddr_def acquireNet_def split: option.splits if_splits)
  then show ?case
  proof cases
    case same
    with net glob pos atn atg pa_key.hyps(1-3) show ?thesis
      by (simp add: preauth_inv_def pool_agrees_same slot_at_def)
  next
    case took
    have "pool_agrees net_held net_cap net_slot l' (fmupd c sl' ?m)"
      by (rule netpool.agrees_take [OF net took(2) atn])
         (use took pa_key.hyps(3) ip_bucket_key_valid in \<open>auto simp: net_slot_def\<close>)
    moreover have l': "l' = ?l\<lparr>pl_perNet := minc b (pl_perNet ?l)\<rparr>"
      using took(2) by (auto simp: acquireNet_def split: if_splits)
    moreover have "global_slot sl' = slot_at global_slot ?m c"
      using took(3) pa_key.hyps(3) atg by (simp add: global_slot_def)
    then have "pool_agrees global_held global_cap global_slot l' (fmupd c sl' ?m)"
      by (rule pool_agrees_same [THEN iffD2])
         (use glob global_agrees_other [of l' ?l global_slot ?m] l' in simp)
    ultimately show ?thesis using pos by (simp add: preauth_inv_def counts_positive_minc)
  qed
next
  case (pa_clear s c sl sl' l')
  then show ?case by (blast intro: slot_clear_agrees)
next
  case (pa_close s c sl sl' l')
  have "preauth_inv \<lparr>pas_lim = l', pas_slots = fmupd c sl' (pas_slots s)\<rparr>"
    by (rule slot_clear_agrees [OF pa_close.prems pa_close.hyps])
  from preauth_inv_drop [OF this, of c sl'] slot_clear_slots [OF pa_close.hyps(2)]
  show ?case by (simp add: fmdrop_fmupd_same)
qed

lemma preauth_init_inv: "preauth_init s \<Longrightarrow> preauth_inv s"
  by (auto simp: preauth_init_def preauth_inv_def newPreAuthLimiter_def pool_agrees_def pool_views)

interpretation pam: invariant_machine preauth_init preauth_step preauth_inv
  by unfold_locales (auto intro: preauth_init_inv preauth_step_inv)

section \<open>Properties\<close>

text \<open>
  C22. The worst case is the formula the code documents: at any moment the unauthenticated
  connections number exactly the global counter and at most \<open>MaxConns\<close>, and those coming from
  any k client networks number at most min(MaxConns, k * MaxConnsPerNet).
\<close>

theorem preauth_worst_case:
  assumes "preauth_init s0" and "reach preauth_step s0 s"
    and "0 < MaxConns (pl_limits (pas_lim s))" and "0 < MaxConnsPerNet (pl_limits (pas_lim s))"
    and "finite K"
  shows "pl_conns (pas_lim s) = int (card {c. slot_at global_slot (pas_slots s) c \<noteq> None}) \<and>
    pl_conns (pas_lim s) \<le> MaxConns (pl_limits (pas_lim s)) \<and>
    int (card {c. \<exists>k \<in> K. slot_at net_slot (pas_slots s) c = Some k}) \<le>
      min (MaxConns (pl_limits (pas_lim s))) (int (card K) * MaxConnsPerNet (pl_limits (pas_lim s)))"
proof -
  let ?m = "pas_slots s" and ?l = "pas_lim s"
  let ?live = "{c. slot_at global_slot ?m c \<noteq> None}"
  let ?inK = "{c. \<exists>k \<in> K. slot_at net_slot ?m c = Some k}"
  from pam.reachable_inv [OF assms(1,2)]
  have net: "pool_agrees net_held net_cap net_slot ?l ?m"
    and glob: "pool_agrees global_held global_cap global_slot ?l ?m" by (simp_all add: preauth_inv_def)
  have live: "?live = {c. slot_at global_slot ?m c = Some ()}" by auto
  from pool_agreesD [OF glob, of "()"] assms(3)
  have g: "pl_conns ?l = int (card ?live)" "pl_conns ?l \<le> MaxConns (pl_limits ?l)"
    unfolding live by (simp_all add: pool_views occupants_def)
  have sub: "?inK \<subseteq> ?live"
    by (auto simp: slot_at_def net_slot_def global_slot_def split: option.splits if_splits)
  have "finite ?live" unfolding live by simp
  then have "card ?inK \<le> card ?live" using sub by (rule card_mono)
  moreover have "card ?inK \<le> card K * nat (MaxConnsPerNet (pl_limits ?l))"
  proof (rule occupants_sum_le [OF assms(5)])
    fix k
    from pool_agrees_bound [OF net, of k] assms(4)
    show "occupants net_slot ?m k \<le> nat (MaxConnsPerNet (pl_limits ?l))"
      by (simp add: pool_views)
  qed
  then have "int (card ?inK) \<le> int (card K * nat (MaxConnsPerNet (pl_limits ?l)))"
    by (rule of_nat_mono)
  then have "int (card ?inK) \<le> int (card K) * MaxConnsPerNet (pl_limits ?l)"
    using assms(4) by simp
  ultimately show ?thesis using g by simp
qed

theorem preauth_worst_case_witness:
  "\<exists>s :: preauth_sys. pl_conns (pas_lim s) = 1 \<and>
     int (card {c. \<exists>k \<in> {P4 7 32}. slot_at net_slot (pas_slots s) c = Some k}) \<le> min 2 (int (card {P4 7 32}) * 1)"
proof -
  let ?lims = "\<lparr>MaxConns = 2, MaxConnsPerNet = 1, Lifetime = 0\<rparr>"
  let ?s0 = "\<lparr>pas_lim = newPreAuthLimiter ?lims, pas_slots = fmempty\<rparr>"
  let ?l1 = "\<lparr>pl_limits = ?lims, pl_conns = 1, pl_perNet = fmempty\<rparr>"
  let ?s1 = "\<lparr>pas_lim = ?l1, pas_slots = fmupd 0 (armLifetime 0 new_slot ?l1) fmempty\<rparr>"
  have "preauth_step ?s0 ?s1"
    using pa_accept [of ?s0 0 new_slot ?l1 0] by (simp add: admit_def newPreAuthLimiter_def)
  then have r: "reach preauth_step ?s0 ?s1" by (rule reach_one)
  have i: "preauth_init ?s0" by (auto simp: preauth_init_def)
  from preauth_worst_case [OF i r, of "{P4 7 32}"] show ?thesis
    by (intro exI [of _ ?s1]) simp
qed

text \<open>
  What a connection takes it gives back: admitting a socket, charging it to its network and
  clearing its slot restores the limiter exactly, map entries included, and clearing again, which
  the deferred cleanup does, changes nothing.
\<close>

theorem preauth_slot_roundtrip:
  assumes "counts_positive (pl_perNet l)" and "admit l = (Some sl, l1)"
    and "keyAddr a (armLifetime now sl l1) l1 = (ok, sl2, l2)"
    and "slot_clear (Some sl2) l2 = (sl3, l3)"
  shows "l3 = l \<and> slot_clear sl3 l3 = (sl3, l3) \<and> slot_clear None l = (None, l)"
proof -
  have l1: "l1 = l\<lparr>pl_conns := pl_conns l + 1\<rparr>" and sl: "sl = new_slot"
    using assms(2) by (auto simp: admit_def split: if_splits)
  have b0: "ps_bucket (armLifetime now sl l1) = NoPrefix" "\<not> ps_cleared (armLifetime now sl l1)"
    by (simp_all add: armLifetime_def sl new_slot_def)
  have "l3 = l"
  proof (cases "ok \<and> ip_bucket_key a \<noteq> None")
    case True
    then obtain b where b: "ip_bucket_key a = Some b" by blast
    with True assms(3) have sl2: "sl2 = (armLifetime now sl l1)\<lparr>ps_bucket := b\<rparr>"
      and l2: "l2 = l1\<lparr>pl_perNet := minc b (pl_perNet l1)\<rparr>"
      by (auto simp: keyAddr_def acquireNet_def split: if_splits prod.splits)
    have "\<not> ps_cleared sl2" "ps_bucket sl2 = b" using b0 sl2 by simp_all
    with assms(4) have "l3 = preauth_release b l2"
      by (auto simp: slot_clear_def split: if_splits)
    with ip_bucket_key_valid [OF b] mdec_minc [OF assms(1), of b] show ?thesis
      by (simp add: preauth_release_def Let_def l1 l2)
  next
    case False
    with assms(3) have "sl2 = armLifetime now sl l1" "l2 = l1"
      by (auto simp: keyAddr_def acquireNet_def split: option.splits if_splits prod.splits)
    with assms(4) b0 show ?thesis
      by (auto simp: slot_clear_def preauth_release_def l1 split: if_splits)
  qed
  moreover have "slot_clear sl3 l3 = (sl3, l3)"
    using assms(4) by (auto simp: slot_clear_def split: if_splits)
  ultimately show ?thesis by (simp add: slot_clear_def)
qed

theorem preauth_slot_roundtrip_witness:
  "counts_positive (pl_perNet (newPreAuthLimiter DefaultPreAuthLimits)) \<and>
   (let l = newPreAuthLimiter DefaultPreAuthLimits;
        (s, l1) = admit l;
        (ok, sl2, l2) = keyAddr (V4 7) (armLifetime 0 (the s) l1) l1;
        (sl3, l3) = slot_clear (Some sl2) l2
    in ok \<and> l2 \<noteq> l \<and> l3 = l)"
proof -
  let ?l = "newPreAuthLimiter DefaultPreAuthLimits"
  have c: "counts_positive (pl_perNet ?l)" by (simp add: newPreAuthLimiter_def)
  obtain l1 where a: "admit ?l = (Some new_slot, l1)"
    by (auto simp: admit_def newPreAuthLimiter_def DefaultPreAuthLimits_def)
  obtain ok sl2 l2 where k: "keyAddr (V4 7) (armLifetime 0 new_slot l1) l1 = (ok, sl2, l2)"
    by (metis prod_cases3)
  obtain sl3 l3 where cl: "slot_clear (Some sl2) l2 = (sl3, l3)" by (metis prod.exhaust)
  have b: "ip_bucket_key (V4 7) = Some (P4 7 32)"
    by (simp add: ip_bucket_key_def addr_valid_def ipv4_bucket_bits_def Let_def)
  have l1: "l1 = ?l\<lparr>pl_conns := 1\<rparr>"
    using a by (auto simp: admit_def newPreAuthLimiter_def DefaultPreAuthLimits_def)
  have "ok" "pl_conns l2 = 1"
    using k b unfolding l1
    by (auto simp: keyAddr_def acquireNet_def newPreAuthLimiter_def DefaultPreAuthLimits_def)
  moreover have "pl_conns ?l = 0" by (simp add: newPreAuthLimiter_def)
  ultimately have "ok \<and> l2 \<noteq> ?l" by auto
  with preauth_slot_roundtrip [OF c a k cl] c a k cl show ?thesis by simp
qed

end
