(* ===== verification/Frames.thy ===== *)
theory Frames
  imports Rpc_Trace Pre_Auth
begin

text \<open>
  What a decrypted frame does (internal/mtproto/handle.go): service messages are answered, a gzip
  packed request is unpacked, a container's messages are handled one after the other, everything
  else is dispatched. gotd's decoders are the fields of a \<open>frame_codec\<close>; the handler, the writes and
  the expiry of a request's deadline are those of a \<open>frame_env\<close>, each told how many messages of the
  frame came before, so that nothing relies on them behaving the same twice. The recursion into
  containers is the list of messages still to be handled: an error returns through every level, so
  what is left is the rest of the innermost container, then of the one around it.
\<close>

datatype service = Ping | PingDelayDisconnect | GetFutureSalts | MsgsAck | GZIP | MessageContainer

record frame_codec =
  fc_tl :: tl_codec
  fc_kind :: "32 word \<Rightarrow> service option"
  fc_plain :: "service \<Rightarrow> byte list \<Rightarrow> bool"
  fc_gzip :: "byte list \<Rightarrow> byte list option"
  fc_container :: "byte list \<Rightarrow> (int \<times> byte list) list option"

text \<open>
  What is relied on of gotd: a constructor id takes four bytes; a container is its constructor id and
  count, eight bytes, and each message in it has a header of sixteen bytes before its body.
\<close>

definition framed :: "frame_codec \<Rightarrow> bool" where
  "framed fc \<longleftrightarrow> (\<forall>b. tc_peek (fc_tl fc) b \<noteq> None \<longrightarrow> 4 \<le> length b) \<and>
     (\<forall>b ms. fc_container fc b = Some ms \<longrightarrow> 8 + sum_list (map (\<lambda>(_, body). 16 + length body) ms) \<le> length b)"

record frame_env =
  fe_handler :: "nat \<Rightarrow> handler"
  fe_sends :: "nat \<Rightarrow> bool"
  fe_send :: "nat \<Rightarrow> send_env"
  fe_expired :: "nat \<Rightarrow> bool"

datatype frame_error = FramePeek | FrameDecode service | WriteFailed | Dispatched dispatch_error
  | EncryptedDecode | Decrypt | UnboundKeyCap | SessionCreated

definition errInternalRPC :: go_error where
  "errInternalRPC = TgError 500 ''INTERNAL''"

text \<open>A handler works on the connection it is given; it cannot replace it by none.\<close>

definition conn_after :: "conn \<Rightarrow> conn option \<Rightarrow> conn" where
  "conn_after c r = (case r of None \<Rightarrow> c | Some k \<Rightarrow> k)"

definition answer_error :: "frame_env \<Rightarrow> nat \<Rightarrow> request \<Rightarrow> go_error \<Rightarrow> conn \<Rightarrow> frame_error option \<times> conn" where
  "answer_error env n req e c =
     (let (err, _, c) = SendErr (fe_send env n) req e c in (map_option (\<lambda>e. Dispatched (ReplyError e)) err, c))"

definition dispatchRPC :: "frame_env \<Rightarrow> nat \<Rightarrow> conn \<Rightarrow> request \<Rightarrow> frame_error option \<times> conn" where
  "dispatchRPC env n c req =
     (let (err, req, r) = fe_handler env n (Some c) req; c = conn_after c r in
      case err of
        None \<Rightarrow> (None, c)
      | Some (HandlerError (TgError code typ)) \<Rightarrow> answer_error env n req (TgError code typ) c
      | Some e \<Rightarrow> if fe_expired env n then answer_error env n req errInternalRPC c else (Some (Dispatched e), c))"

text \<open>A message of a container, under the frame's key, user, address and session.\<close>

definition container_request :: "request \<Rightarrow> int \<times> byte list \<Rightarrow> request" where
  "container_request req m =
     \<lparr>rq_authKeyID = rq_authKeyID req, rq_userID = rq_userID req, rq_provisional = rq_provisional req,
      rq_clientAddr = rq_clientAddr req, rq_session = rq_session req, rq_msgID = fst m, rq_buf = snd m,
      rq_method = [], rq_result = None\<rparr>"

text \<open>One message: its error, the connection and the request dispatched, or the messages of a container.\<close>

definition handle_message ::
  "frame_codec \<Rightarrow> frame_env \<Rightarrow> nat \<Rightarrow> conn \<Rightarrow> request \<Rightarrow> (frame_error option \<times> conn \<times> request list) + request list" where
  "handle_message fc env n c req =
     (let b = rq_buf req;
          rpc = (\<lambda>req. let (err, c) = dispatchRPC env n c req in Inl (err, c, [req]));
          answered = (if fe_sends env n then Inl (None, c, []) else Inl (Some WriteFailed, c, [])) in
      case tc_peek (fc_tl fc) b of
        None \<Rightarrow> Inl (Some FramePeek, c, [])
      | Some tid \<Rightarrow>
          (case fc_kind fc tid of
             None \<Rightarrow> rpc req
           | Some GZIP \<Rightarrow>
               (case fc_gzip fc b of
                  None \<Rightarrow> Inl (Some (FrameDecode GZIP), c, [])
                | Some body \<Rightarrow> rpc (req\<lparr>rq_buf := body\<rparr>))
           | Some MessageContainer \<Rightarrow>
               (case fc_container fc b of
                  None \<Rightarrow> Inl (Some (FrameDecode MessageContainer), c, [])
                | Some ms \<Rightarrow> Inr (map (container_request req) ms))
           | Some MsgsAck \<Rightarrow>
               if fc_plain fc MsgsAck b then Inl (None, c, []) else Inl (Some (FrameDecode MsgsAck), c, [])
           | Some s \<Rightarrow> if fc_plain fc s b then answered else Inl (Some (FrameDecode s), c, [])))"

partial_function (option) handle_loop ::
  "frame_codec \<Rightarrow> frame_env \<Rightarrow> nat \<Rightarrow> conn \<Rightarrow> request list \<Rightarrow> request list \<Rightarrow>
   (frame_error option \<times> conn \<times> request list) option" where
  "handle_loop fc env n c todo past =
     (case todo of
        [] \<Rightarrow> Some (None, c, past)
      | req # rest \<Rightarrow>
          (case handle_message fc env n c req of
             Inr ms \<Rightarrow> handle_loop fc env (n + 1) c (ms @ rest) past
           | Inl (Some err, c, ds) \<Rightarrow> Some (Some err, c, past @ ds)
           | Inl (None, c, ds) \<Rightarrow> handle_loop fc env (n + 1) c rest (past @ ds)))"

definition handle_frame ::
  "frame_codec \<Rightarrow> frame_env \<Rightarrow> conn \<Rightarrow> request \<Rightarrow> (frame_error option \<times> conn \<times> request list) option" where
  "handle_frame fc env c req = handle_loop fc env 0 c [req] []"

section \<open>The work of a frame is bounded by its size\<close>

definition msg_weight :: "request \<Rightarrow> nat" where
  "msg_weight req = 16 + length (rq_buf req)"

lemma container_weight:
  assumes "framed fc" and "fc_container fc (rq_buf req) = Some ms"
  shows "sum_list (map msg_weight (map (container_request req) ms)) + 24 \<le> msg_weight req"
proof -
  have "sum_list (map msg_weight (map (container_request req) ms)) = sum_list (map (\<lambda>(_, body). 16 + length body) ms)"
    by (induction ms) (auto simp: msg_weight_def container_request_def)
  with assms show ?thesis unfolding framed_def msg_weight_def by fastforce
qed

lemma handle_message_Inr:
  assumes "handle_message fc env n c req = Inr ms"
  shows "\<exists>xs. fc_container fc (rq_buf req) = Some xs \<and> ms = map (container_request req) xs"
  using assms by (auto simp: handle_message_def Let_def split: option.splits service.splits if_splits prod.splits)

text \<open>Key, user, address and session of a request: what a container cannot change.\<close>

definition identity :: "request \<Rightarrow> 64 word \<times> int \<times> bool \<times> addr \<times> int" where
  "identity req = (rq_authKeyID req, rq_userID req, rq_provisional req, rq_clientAddr req, rq_session req)"

lemma handle_message_Inl:
  assumes "framed fc" and "handle_message fc env n c req = Inl (err, c', ds)"
  shows "20 * length ds \<le> msg_weight req \<and> list_all (\<lambda>r. identity r = identity req) ds"
proof -
  have "ds = [] \<or> (\<exists>r. ds = [r] \<and> identity r = identity req) \<and> tc_peek (fc_tl fc) (rq_buf req) \<noteq> None"
    using assms(2)
    by (auto simp: handle_message_def identity_def Let_def split: option.splits service.splits if_splits prod.splits)
  then show ?thesis
  proof
    assume r: "(\<exists>r. ds = [r] \<and> identity r = identity req) \<and> tc_peek (fc_tl fc) (rq_buf req) \<noteq> None"
    then have "4 \<le> length (rq_buf req)" using assms(1) unfolding framed_def by blast
    with r show ?thesis by (auto simp: msg_weight_def)
  qed simp
qed

lemma handle_loop_bounded:
  assumes "framed fc"
  shows "\<exists>err c' ds. handle_loop fc env n c todo past = Some (err, c', past @ ds) \<and>
    20 * length ds \<le> sum_list (map msg_weight todo) \<and> set (map identity ds) \<subseteq> set (map identity todo)"
proof (induction "sum_list (map msg_weight todo)" arbitrary: n c todo past rule: less_induct)
  case less
  show ?case
  proof (cases todo)
    case (Cons req rest)
    show ?thesis
    proof (cases "handle_message fc env n c req")
      case (Inr ms)
      then obtain xs where xs: "fc_container fc (rq_buf req) = Some xs" "ms = map (container_request req) xs"
        using handle_message_Inr by blast
      have w: "sum_list (map msg_weight (ms @ rest)) + 24 \<le> sum_list (map msg_weight todo)"
        using container_weight [OF assms xs(1)] xs(2) Cons by simp
      have i: "set (map identity ms) \<subseteq> {identity req}" by (auto simp: xs(2) identity_def container_request_def)
      have e: "handle_loop fc env n c todo past = handle_loop fc env (n + 1) c (ms @ rest) past"
        by (subst handle_loop.simps) (simp add: Cons Inr)
      from less [of "ms @ rest" "n + 1" c past] w obtain err c' ds where
        r: "handle_loop fc env (n + 1) c (ms @ rest) past = Some (err, c', past @ ds)"
          "20 * length ds \<le> sum_list (map msg_weight (ms @ rest))" "set (map identity ds) \<subseteq> set (map identity (ms @ rest))"
        by auto
      moreover have "20 * length ds \<le> sum_list (map msg_weight todo)" using r(2) w by linarith
      moreover have "set (map identity ds) \<subseteq> set (map identity todo)" using r(3) i Cons by auto
      ultimately show ?thesis unfolding e by blast
    next
      case (Inl x)
      obtain err c1 ds where x: "x = (err, c1, ds)" by (cases x)
      note one = handle_message_Inl [OF assms Inl [unfolded x]]
      have i: "set (map identity ds) \<subseteq> {identity req}" using one by (auto simp: list_all_iff)
      show ?thesis
      proof (cases err)
        case None
        have e: "handle_loop fc env n c todo past = handle_loop fc env (n + 1) c1 rest (past @ ds)"
          by (subst handle_loop.simps) (simp add: Cons Inl x None)
        have w: "sum_list (map msg_weight todo) = msg_weight req + sum_list (map msg_weight rest)" by (simp add: Cons)
        moreover have "0 < msg_weight req" by (simp add: msg_weight_def)
        ultimately obtain err' c' ds' where
          r: "handle_loop fc env (n + 1) c1 rest (past @ ds) = Some (err', c', (past @ ds) @ ds')"
            "20 * length ds' \<le> sum_list (map msg_weight rest)" "set (map identity ds') \<subseteq> set (map identity rest)"
          using less [of rest "n + 1" c1 "past @ ds"] by auto
        have "handle_loop fc env n c todo past = Some (err', c', past @ (ds @ ds'))" using e r(1) by simp
        moreover have "20 * length (ds @ ds') \<le> sum_list (map msg_weight todo)" using one r(2) w by simp
        moreover have "set (map identity (ds @ ds')) \<subseteq> set (map identity todo)" using r(3) i Cons by auto
        ultimately show ?thesis by blast
      next
        case (Some e)
        have "handle_loop fc env n c todo past = Some (err, c1, past @ ds)"
          by (subst handle_loop.simps) (simp add: Cons Inl x Some)
        moreover have "20 * length ds \<le> sum_list (map msg_weight todo)" using one Cons by simp
        moreover have "set (map identity ds) \<subseteq> set (map identity todo)" using i Cons by auto
        ultimately show ?thesis by blast
      qed
    qed
  qed (simp add: handle_loop.simps)
qed

text \<open>
  C25. The work one frame can cause is bounded by its size. However its containers are nested and
  whatever handlers and writes do, handling a frame ends, dispatches at most one request for every
  twenty bytes of it, and every request dispatched carries the frame's own key, user, address and
  session.
\<close>

theorem frame_work_bounded:
  assumes "framed fc"
  shows "\<exists>err c' ds. handle_frame fc env c req = Some (err, c', ds) \<and>
    length ds \<le> (length (rq_buf req) + 16) div 20 \<and> list_all (\<lambda>r. identity r = identity req) ds"
proof -
  obtain err c' ds where r: "handle_loop fc env 0 c [req] [] = Some (err, c', [] @ ds)"
      "20 * length ds \<le> sum_list (map msg_weight [req])" "set (map identity ds) \<subseteq> set (map identity [req])"
    using handle_loop_bounded [OF assms] by blast
  have "length ds \<le> (length (rq_buf req) + 16) div 20"
    using r(2) by (simp add: msg_weight_def less_eq_div_iff_mult_less_eq)
  moreover have "list_all (\<lambda>r. identity r = identity req) ds" using r(3) by (auto simp: list_all_iff)
  ultimately show ?thesis using r(1) by (auto simp: handle_frame_def)
qed

text \<open>A container of two requests of four bytes each.\<close>

definition demo_frames :: frame_codec where
  "demo_frames = \<lparr>
     fc_tl = demo_codec\<lparr>tc_peek := (\<lambda>b. if length b < 4 then None else Some (ucast (hd b)))\<rparr>,
     fc_kind = (\<lambda>tid. if tid = 9 then Some MessageContainer else None),
     fc_plain = (\<lambda>s b. True),
     fc_gzip = (\<lambda>b. None),
     fc_container = (\<lambda>b. if length b < 48 then None else Some [(1, take 4 (drop 24 b)), (2, take 4 (drop 44 b))])\<rparr>"

definition demo_frame_env :: frame_env where
  "demo_frame_env = \<lparr>fe_handler = (\<lambda>n. demo_handler), fe_sends = (\<lambda>n. True), fe_send = (\<lambda>n. demo_send), fe_expired = (\<lambda>n. False)\<rparr>"

definition demo_container :: "byte list" where
  "demo_container = 9 # replicate 23 0 @ [7, 0, 0, 0] @ replicate 16 0 @ [8, 0, 0, 0]"

lemma demo_framed: "framed demo_frames"
  by (auto simp: framed_def demo_frames_def split: if_splits)

lemma demo_container_parts:
  "length demo_container = 48" "hd demo_container = 9"
  "take 4 (drop 24 demo_container) = [7, 0, 0, 0]" "take 4 (drop 44 demo_container) = [8, 0, 0, 0]"
  by code_simp+

lemma demo_container_runs:
  "map_option (\<lambda>(err, _, ds). (err, map rq_buf ds)) (handle_frame demo_frames demo_frame_env newConn (demo_request 5 8 demo_container)) =
     Some (None, [[7, 0, 0, 0], [8, 0, 0, 0]])"
  by (simp add: handle_frame_def handle_loop.simps handle_message_def demo_frames_def demo_container_parts demo_request_def
      container_request_def dispatchRPC_def demo_frame_env_def demo_handler_def SendResult_def sendResult_def demo_send_def
      conn_after_def Let_def)

theorem frame_work_bounded_witness:
  "framed demo_frames \<and>
   (\<exists>err c' ds. handle_frame demo_frames demo_frame_env newConn (demo_request 5 8 demo_container) = Some (err, c', ds) \<and>
      err = None \<and> map rq_buf ds = [[7, 0, 0, 0], [8, 0, 0, 0]] \<and> list_all (\<lambda>r. identity r = identity (demo_request 5 8 demo_container)) ds)"
proof -
  from frame_work_bounded [OF demo_framed, of demo_frame_env newConn "demo_request 5 8 demo_container"]
  obtain err c' ds where r: "handle_frame demo_frames demo_frame_env newConn (demo_request 5 8 demo_container) = Some (err, c', ds)"
      "list_all (\<lambda>r. identity r = identity (demo_request 5 8 demo_container)) ds" by blast
  with demo_container_runs demo_framed show ?thesis by simp
qed

end
