(* ===== verification/Unbound_Key.thy ===== *)
theory Unbound_Key
  imports Slot_Pool
begin

text \<open>
  The bound on connections held under an auth key nobody has signed in on
  (internal/mtproto/unboundkey.go): the limiter, one connection's hold, and the population of
  connections that charge, renegotiate, sign in and close against it.
\<close>

type_synonym auth_key_id = "64 word"

definition DefaultMaxConnsPerUnboundKey :: int where
  "DefaultMaxConnsPerUnboundKey = 8"

record unbound_limiter =
  ub_max :: int
  ub_conns :: "(auth_key_id, int) fmap"

definition newUnboundKeyLimiter :: "int \<Rightarrow> unbound_limiter" where
  "newUnboundKeyLimiter maxConns = \<lparr>ub_max = maxConns, ub_conns = fmempty\<rparr>"

definition unbound_acquire :: "auth_key_id \<Rightarrow> unbound_limiter \<Rightarrow> bool \<times> unbound_limiter" where
  "unbound_acquire k l =
     (if ub_max l > 0 \<and> mget (ub_conns l) k \<ge> ub_max l then (False, l)
      else (True, l\<lparr>ub_conns := minc k (ub_conns l)\<rparr>))"

definition unbound_release :: "auth_key_id \<Rightarrow> unbound_limiter \<Rightarrow> unbound_limiter" where
  "unbound_release k l = l\<lparr>ub_conns := mdec k (ub_conns l)\<rparr>"

record unbound_hold =
  uh_key :: auth_key_id
  uh_charged :: bool
  uh_signedIn :: bool

definition new_hold :: unbound_hold where
  "new_hold = \<lparr>uh_key = 0, uh_charged = False, uh_signedIn = False\<rparr>"

definition hold_release :: "unbound_hold \<Rightarrow> unbound_limiter \<Rightarrow> unbound_hold \<times> unbound_limiter" where
  "hold_release h l =
     (if \<not> uh_charged h then (h, l)
      else (h\<lparr>uh_charged := False\<rparr>, unbound_release (uh_key h) l))"

definition hold_charge ::
  "auth_key_id \<Rightarrow> int \<Rightarrow> unbound_hold \<Rightarrow> unbound_limiter \<Rightarrow> bool \<times> unbound_hold \<times> unbound_limiter" where
  "hold_charge k userID h l =
     (if uh_signedIn h then (True, h, l)
      else if userID \<noteq> 0 then
        (let (h', l') = hold_release (h\<lparr>uh_signedIn := True\<rparr>) l in (True, h', l'))
      else if uh_charged h \<and> uh_key h = k then (True, h, l)
      else (let (h1, l1) = hold_release h l;
                (ok, l2) = unbound_acquire k l1
            in if \<not> ok then (False, h1, l2)
               else (True, h1\<lparr>uh_key := k, uh_charged := True\<rparr>, l2)))"

section \<open>The population of connections\<close>

text \<open>
  A connection opens with an uncharged hold; each frame that decrypted charges it for the key the
  frame proved and the user that key resolves to; a refused charge or any other end of the
  connection runs the deferred release, and the connection is gone some time after it.
\<close>

record unbound_sys =
  us_lim :: unbound_limiter
  us_holds :: "(nat, unbound_hold) fmap"

inductive unbound_step :: "unbound_sys \<Rightarrow> unbound_sys \<Rightarrow> bool" where
  ub_open: "fmlookup (us_holds s) c = None \<Longrightarrow>
    unbound_step s (s\<lparr>us_holds := fmupd c new_hold (us_holds s)\<rparr>)"
| ub_frame: "fmlookup (us_holds s) c = Some h \<Longrightarrow> hold_charge k userID h (us_lim s) = (ok, h', l') \<Longrightarrow>
    unbound_step s \<lparr>us_lim = l', us_holds = fmupd c h' (us_holds s)\<rparr>"
| ub_release: "fmlookup (us_holds s) c = Some h \<Longrightarrow> hold_release h (us_lim s) = (h', l') \<Longrightarrow>
    unbound_step s \<lparr>us_lim = l', us_holds = fmupd c h' (us_holds s)\<rparr>"
| ub_close: "fmlookup (us_holds s) c = Some h \<Longrightarrow> hold_release h (us_lim s) = (h', l') \<Longrightarrow>
    unbound_step s \<lparr>us_lim = l', us_holds = fmdrop c (us_holds s)\<rparr>"

definition unbound_init :: "unbound_sys \<Rightarrow> bool" where
  "unbound_init s \<longleftrightarrow> (\<exists>n. s = \<lparr>us_lim = newUnboundKeyLimiter n, us_holds = fmempty\<rparr>)"

definition hold_slot :: "unbound_hold \<Rightarrow> auth_key_id option" where
  "hold_slot h = (if uh_charged h then Some (uh_key h) else None)"

abbreviation unbound_held :: "unbound_limiter \<Rightarrow> auth_key_id \<Rightarrow> int" where
  "unbound_held l \<equiv> mget (ub_conns l)"

definition unbound_inv :: "unbound_sys \<Rightarrow> bool" where
  "unbound_inv s \<longleftrightarrow>
     counts_positive (ub_conns (us_lim s)) \<and>
     pool_agrees unbound_held ub_max hold_slot (us_lim s) (us_holds s) \<and>
     (\<forall>c h. fmlookup (us_holds s) c = Some h \<longrightarrow> uh_signedIn h \<longrightarrow> \<not> uh_charged h)"

section \<open>Lemmas\<close>

lemma unbound_release_max [simp]: "ub_max (unbound_release k l) = ub_max l"
  by (simp add: unbound_release_def)

interpretation ukpool: slot_pool unbound_held ub_max unbound_acquire unbound_release
  by unfold_locales
     (auto simp: unbound_acquire_def unbound_release_def mget_mdec)

lemma counts_positive_acquire:
  "counts_positive (ub_conns l) \<Longrightarrow> unbound_acquire k l = (ok, l') \<Longrightarrow> counts_positive (ub_conns l')"
  by (auto simp: unbound_acquire_def counts_positive_minc split: if_splits)

lemma counts_positive_hold_release:
  "counts_positive (ub_conns l) \<Longrightarrow> hold_release h l = (h', l') \<Longrightarrow> counts_positive (ub_conns l')"
  by (auto simp: hold_release_def unbound_release_def counts_positive_mdec split: if_splits)

lemma hold_release_slot:
  "hold_release h l = (h', l') \<Longrightarrow> hold_slot h' = None \<and> \<not> uh_charged h' \<and> uh_signedIn h' = uh_signedIn h"
  by (auto simp: hold_release_def hold_slot_def split: if_splits)

lemma hold_release_agrees:
  assumes "pool_agrees unbound_held ub_max hold_slot l m" and "fmlookup m c = Some h"
    and "hold_release h l = (h', l')"
  shows "pool_agrees unbound_held ub_max hold_slot l' (fmupd c h' m)"
    and "pool_agrees unbound_held ub_max hold_slot l' (fmdrop c m)"
proof -
  have at: "slot_at hold_slot m c = hold_slot h" using assms(2) by (simp add: slot_at_def)
  have "pool_agrees unbound_held ub_max hold_slot l' (fmupd c h' m) \<and>
    pool_agrees unbound_held ub_max hold_slot l' (fmdrop c m)"
  proof (cases "uh_charged h")
    case True
    with assms(3) have l': "l' = unbound_release (uh_key h) l" and h': "hold_slot h' = None"
      by (auto simp: hold_release_def hold_slot_def)
    have "slot_at hold_slot m c = Some (uh_key h)" using at True by (simp add: hold_slot_def)
    with assms(1) h' show ?thesis
      unfolding l' by (blast intro: ukpool.agrees_give ukpool.agrees_leave)
  next
    case False
    with assms(3) have "l' = l" "h' = h" by (auto simp: hold_release_def)
    with assms(1) at False show ?thesis
      by (simp add: pool_agrees_same pool_agrees_drop hold_slot_def)
  qed
  then show "pool_agrees unbound_held ub_max hold_slot l' (fmupd c h' m)"
    and "pool_agrees unbound_held ub_max hold_slot l' (fmdrop c m)" by blast+
qed

text \<open>A hold that has signed in is never refused, and never becomes charged again.\<close>

lemma hold_charge_signedIn:
  "hold_charge k userID h l = (ok, h', l') \<Longrightarrow> uh_signedIn h \<or> userID \<noteq> 0 \<Longrightarrow>
    ok \<and> uh_signedIn h' \<and> (uh_charged h' \<longrightarrow> uh_signedIn h \<and> uh_charged h)"
  by (auto simp: hold_charge_def hold_release_def split: if_splits prod.splits)

lemma hold_charge_signs_in:
  "hold_charge k userID h l = (ok, h', l') \<Longrightarrow> uh_signedIn h' \<Longrightarrow> uh_signedIn h \<or> userID \<noteq> 0"
  by (auto simp: hold_charge_def hold_release_def Let_def split: if_splits prod.splits)

lemma hold_charge_cases [consumes 1, case_names stay sign refuse move]:
  assumes "hold_charge k userID h l = (ok, h', l')"
  obtains "h' = h" "l' = l"
    | "hold_release (h\<lparr>uh_signedIn := True\<rparr>) l = (h', l')"
    | l1 where "hold_release h l = (h', l1)" "unbound_acquire k l1 = (False, l')"
    | h1 l1 where "hold_release h l = (h1, l1)" "unbound_acquire k l1 = (True, l')"
        "h' = h1\<lparr>uh_key := k, uh_charged := True\<rparr>"
  using assms by (auto simp: hold_charge_def Let_def split: if_splits prod.splits)

lemma counts_positive_hold_charge:
  assumes "hold_charge k userID h l = (ok, h', l')" and "counts_positive (ub_conns l)"
  shows "counts_positive (ub_conns l')"
  using assms(1)
proof (cases rule: hold_charge_cases)
  case stay
  with assms(2) show ?thesis by simp
next
  case sign
  with assms(2) show ?thesis by (rule counts_positive_hold_release)
next
  case (refuse l1)
  from counts_positive_hold_release [OF assms(2) refuse(1)] refuse(2) show ?thesis
    by (rule counts_positive_acquire)
next
  case (move h1 l1)
  from counts_positive_hold_release [OF assms(2) move(1)] move(2) show ?thesis
    by (rule counts_positive_acquire)
qed

lemma hold_charge_agrees:
  assumes "pool_agrees unbound_held ub_max hold_slot l m" and "fmlookup m c = Some h"
    and "hold_charge k userID h l = (ok, h', l')"
  shows "pool_agrees unbound_held ub_max hold_slot l' (fmupd c h' m)"
proof -
  have at: "slot_at hold_slot m c = hold_slot h" using assms(2) by (simp add: slot_at_def)
  have keep: "pool_agrees unbound_held ub_max hold_slot l (fmupd c h m)"
    using assms(1) at by (simp add: pool_agrees_same)
  from assms(3) show ?thesis
  proof (cases rule: hold_charge_cases)
    case stay
    with keep show ?thesis by simp
  next
    case sign
    let ?h = "h\<lparr>uh_signedIn := True\<rparr>"
    have "pool_agrees unbound_held ub_max hold_slot l (fmupd c ?h m)"
      using assms(1) at by (simp add: pool_agrees_same hold_slot_def)
    from hold_release_agrees(1) [OF this _ sign, of c] show ?thesis by simp
  next
    case (refuse l1)
    have "l' = l1" using ukpool.acquire_refused [of k l1] refuse(2) by simp
    with hold_release_agrees(1) [OF assms(1,2) refuse(1)] show ?thesis by simp
  next
    case (move h1 l1)
    have rel: "pool_agrees unbound_held ub_max hold_slot l1 (fmupd c h1 m)"
      by (rule hold_release_agrees(1) [OF assms(1,2) move(1)])
    have "slot_at hold_slot (fmupd c h1 m) c = None"
      using hold_release_slot [OF move(1)] by simp
    from ukpool.agrees_take [OF rel move(2) this, of h'] move(3)
    show ?thesis by (simp add: hold_slot_def)
  qed
qed

lemma unbound_step_inv: "unbound_step s t \<Longrightarrow> unbound_inv s \<Longrightarrow> unbound_inv t"
proof (induction rule: unbound_step.induct)
  case (ub_open s c)
  then have "slot_at hold_slot (us_holds s) c = None" by (simp add: slot_at_def)
  with ub_open show ?case
    by (auto simp: unbound_inv_def new_hold_def hold_slot_def pool_agrees_same)
next
  case (ub_frame s c h k userID ok h' l')
  from ub_frame.prems have p: "pool_agrees unbound_held ub_max hold_slot (us_lim s) (us_holds s)"
    and n: "counts_positive (ub_conns (us_lim s))"
    and sg: "uh_signedIn h \<Longrightarrow> \<not> uh_charged h"
    using ub_frame.hyps(1) by (auto simp: unbound_inv_def)
  have "uh_signedIn h' \<longrightarrow> \<not> uh_charged h'"
    using hold_charge_signs_in [OF ub_frame.hyps(2)] hold_charge_signedIn [OF ub_frame.hyps(2)] sg by blast
  with hold_charge_agrees [OF p ub_frame.hyps] counts_positive_hold_charge [OF ub_frame.hyps(2) n]
    ub_frame.prems show ?case by (auto simp: unbound_inv_def)
next
  case (ub_release s c h h' l')
  then have p: "pool_agrees unbound_held ub_max hold_slot (us_lim s) (us_holds s)"
    and n: "counts_positive (ub_conns (us_lim s))" by (auto simp: unbound_inv_def)
  from hold_release_agrees(1) [OF p ub_release.hyps] counts_positive_hold_release [OF n ub_release.hyps(2)]
    hold_release_slot [OF ub_release.hyps(2)] ub_release.prems show ?case by (auto simp: unbound_inv_def)
next
  case (ub_close s c h h' l')
  then have p: "pool_agrees unbound_held ub_max hold_slot (us_lim s) (us_holds s)"
    and n: "counts_positive (ub_conns (us_lim s))" by (auto simp: unbound_inv_def)
  from hold_release_agrees(2) [OF p ub_close.hyps] counts_positive_hold_release [OF n ub_close.hyps(2)]
    ub_close.prems show ?case by (auto simp: unbound_inv_def)
qed

lemma unbound_init_inv: "unbound_init s \<Longrightarrow> unbound_inv s"
  by (auto simp: unbound_init_def unbound_inv_def newUnboundKeyLimiter_def pool_agrees_def)

interpretation ukm: invariant_machine unbound_init unbound_step unbound_inv
  by unfold_locales (auto intro: unbound_init_inv unbound_step_inv)

section \<open>Properties\<close>

text \<open>
  C21. However connections open, prove keys, renegotiate, sign in and close, the limiter's counter
  of a key is the number of live connections charged to that key, it never passes the cap, and the
  map keeps an entry only for keys with a live charge.
\<close>

theorem unbound_key_bound:
  assumes "unbound_init s0" and "reach unbound_step s0 s" and "0 < ub_max (us_lim s)"
  shows "mget (ub_conns (us_lim s)) k = int (occupants hold_slot (us_holds s) k) \<and>
         int (occupants hold_slot (us_holds s) k) \<le> ub_max (us_lim s) \<and>
         (k |\<in>| fmdom (ub_conns (us_lim s)) \<longleftrightarrow> 0 < occupants hold_slot (us_holds s) k)"
proof -
  have "unbound_inv s" by (rule ukm.reachable_inv [OF assms(1,2)])
  then have p: "pool_agrees unbound_held ub_max hold_slot (us_lim s) (us_holds s)"
    and n: "counts_positive (ub_conns (us_lim s))" by (auto simp: unbound_inv_def)
  from pool_agreesD [OF p assms(3), of k] counts_positive_dom [OF n, of k] show ?thesis by simp
qed

text \<open>Two connections race for the single slot of a key: the second is refused.\<close>

definition unbound_demo :: unbound_sys where
  "unbound_demo = \<lparr>us_lim = \<lparr>ub_max = 1, ub_conns = fmupd 5 1 fmempty\<rparr>,
     us_holds = fmupd 0 \<lparr>uh_key = 5, uh_charged = True, uh_signedIn = False\<rparr> (fmupd 0 new_hold fmempty)\<rparr>"

lemma unbound_demo_reach:
  "reach unbound_step \<lparr>us_lim = newUnboundKeyLimiter 1, us_holds = fmempty\<rparr> unbound_demo"
proof -
  let ?s0 = "\<lparr>us_lim = newUnboundKeyLimiter 1, us_holds = fmempty\<rparr>"
  let ?s1 = "?s0\<lparr>us_holds := fmupd 0 new_hold fmempty\<rparr>"
  have a: "unbound_step ?s0 ?s1"
    using ub_open [of ?s0 0] by simp
  have "hold_charge 5 0 new_hold (newUnboundKeyLimiter 1) =
      (True, \<lparr>uh_key = 5, uh_charged = True, uh_signedIn = False\<rparr>, \<lparr>ub_max = 1, ub_conns = fmupd 5 1 fmempty\<rparr>)"
    by (simp add: hold_charge_def new_hold_def hold_release_def unbound_acquire_def
        newUnboundKeyLimiter_def minc_def)
  then have "unbound_step ?s1 unbound_demo"
    using ub_frame [of ?s1 0 new_hold 5 0] by (simp add: unbound_demo_def)
  with a show ?thesis by (blast intro: reach.intros)
qed

theorem unbound_key_bound_witness:
  "0 < ub_max (us_lim unbound_demo) \<and> int (occupants hold_slot (us_holds unbound_demo) 5) = 1"
proof -
  have i: "unbound_init \<lparr>us_lim = newUnboundKeyLimiter 1, us_holds = fmempty\<rparr>"
    by (auto simp: unbound_init_def)
  have c: "0 < ub_max (us_lim unbound_demo)" by (simp add: unbound_demo_def)
  from unbound_key_bound [OF i unbound_demo_reach c, of 5] show ?thesis
    by (simp add: unbound_demo_def)
qed

text \<open>
  Signing in takes a connection out from under the bound for good: the frame that resolves to
  a user is never refused, gives the connection's slot back, and every later charge, for any key,
  user and limiter, succeeds and changes nothing.
\<close>

theorem signed_in_never_refused:
  assumes "hold_charge k userID h l = (ok, h', l')" and "uh_signedIn h \<or> userID \<noteq> 0"
    and "uh_signedIn h \<longrightarrow> \<not> uh_charged h"
  shows "ok \<and> \<not> uh_charged h' \<and>
    l' = (if uh_charged h then unbound_release (uh_key h) l else l) \<and>
    (\<forall>k2 user2 l2. hold_charge k2 user2 h' l2 = (True, h', l2))"
  using assms by (auto simp: hold_charge_def hold_release_def split: if_splits)

theorem signed_in_never_refused_witness:
  "\<exists>h' l'. hold_charge 5 77 \<lparr>uh_key = 5, uh_charged = True, uh_signedIn = False\<rparr>
      \<lparr>ub_max = 1, ub_conns = fmupd 5 1 fmempty\<rparr> = (True, h', l') \<and> mget (ub_conns l') 5 = 0 \<and>
      hold_charge 9 0 h' l' = (True, h', l')"
proof -
  let ?h = "\<lparr>uh_key = 5, uh_charged = True, uh_signedIn = False\<rparr>"
  let ?l = "\<lparr>ub_max = 1, ub_conns = fmupd 5 1 fmempty\<rparr>"
  obtain ok h' l' where e: "hold_charge 5 77 ?h ?l = (ok, h', l')" by (metis prod_cases3)
  from signed_in_never_refused [OF e] e show ?thesis
    by (auto simp: unbound_release_def mget_mdec)
qed

end
