(* ===== verification/Pending_Login.thy ===== *)
theory Pending_Login
  imports Slot_Pool
begin

text \<open>
  The process-wide bound on connections waiting for the second factor of a login
  (internal/mtproto/pendinglogin.go). The compare-and-swap loop of \<open>acquire\<close> takes effect at
  its successful swap, so it is one atomic step of the model.
\<close>

definition DefaultMaxPendingLoginConns :: int where
  "DefaultMaxPendingLoginConns = 1024"

record pending_limiter =
  pn_max :: int
  pn_count :: int

definition newPendingLoginLimiter :: "int \<Rightarrow> pending_limiter" where
  "newPendingLoginLimiter maxConns = \<lparr>pn_max = maxConns, pn_count = 0\<rparr>"

definition pending_acquire :: "pending_limiter \<Rightarrow> bool \<times> pending_limiter" where
  "pending_acquire l =
     (if pn_max l \<le> 0 then (True, l)
      else if pn_count l \<ge> pn_max l then (False, l)
      else (True, l\<lparr>pn_count := pn_count l + 1\<rparr>))"

definition pending_release :: "pending_limiter \<Rightarrow> pending_limiter" where
  "pending_release l = (if pn_max l > 0 then l\<lparr>pn_count := pn_count l - 1\<rparr> else l)"

record pending_hold =
  ph_charged :: bool

definition pending_hold_acquire ::
  "pending_hold \<Rightarrow> pending_limiter \<Rightarrow> bool \<times> pending_hold \<times> pending_limiter" where
  "pending_hold_acquire h l =
     (if ph_charged h then (True, h, l)
      else (let (ok, l') = pending_acquire l in
            if \<not> ok then (False, h, l') else (True, h\<lparr>ph_charged := True\<rparr>, l')))"

definition pending_hold_release :: "pending_hold \<Rightarrow> pending_limiter \<Rightarrow> pending_hold \<times> pending_limiter" where
  "pending_hold_release h l =
     (if \<not> ph_charged h then (h, l)
      else (h\<lparr>ph_charged := False\<rparr>, pending_release l))"

section \<open>The population of connections\<close>

record pending_sys =
  pns_lim :: pending_limiter
  pns_holds :: "(nat, pending_hold) fmap"

inductive pending_step :: "pending_sys \<Rightarrow> pending_sys \<Rightarrow> bool" where
  pn_open: "fmlookup (pns_holds s) c = None \<Longrightarrow>
    pending_step s (s\<lparr>pns_holds := fmupd c \<lparr>ph_charged = False\<rparr> (pns_holds s)\<rparr>)"
| pn_marked: "fmlookup (pns_holds s) c = Some h \<Longrightarrow> pending_hold_acquire h (pns_lim s) = (ok, h', l') \<Longrightarrow>
    pending_step s \<lparr>pns_lim = l', pns_holds = fmupd c h' (pns_holds s)\<rparr>"
| pn_release: "fmlookup (pns_holds s) c = Some h \<Longrightarrow> pending_hold_release h (pns_lim s) = (h', l') \<Longrightarrow>
    pending_step s \<lparr>pns_lim = l', pns_holds = fmupd c h' (pns_holds s)\<rparr>"
| pn_close: "fmlookup (pns_holds s) c = Some h \<Longrightarrow> pending_hold_release h (pns_lim s) = (h', l') \<Longrightarrow>
    pending_step s \<lparr>pns_lim = l', pns_holds = fmdrop c (pns_holds s)\<rparr>"

definition pending_init :: "pending_sys \<Rightarrow> bool" where
  "pending_init s \<longleftrightarrow> (\<exists>n. s = \<lparr>pns_lim = newPendingLoginLimiter n, pns_holds = fmempty\<rparr>)"

definition pending_slot :: "pending_hold \<Rightarrow> unit option" where
  "pending_slot h = (if ph_charged h then Some () else None)"

definition pending_held :: "pending_limiter \<Rightarrow> unit \<Rightarrow> int" where
  "pending_held l u = pn_count l"

definition pending_inv :: "pending_sys \<Rightarrow> bool" where
  "pending_inv s \<longleftrightarrow> pool_agrees pending_held pn_max pending_slot (pns_lim s) (pns_holds s)"

section \<open>Lemmas\<close>

interpretation plpool: slot_pool pending_held pn_max "\<lambda>_. pending_acquire" "\<lambda>_. pending_release"
  by unfold_locales (auto simp: pending_acquire_def pending_release_def pending_held_def)

lemma pending_step_inv: "pending_step s t \<Longrightarrow> pending_inv s \<Longrightarrow> pending_inv t"
proof (induction rule: pending_step.induct)
  case (pn_open s c)
  then have "slot_at pending_slot (pns_holds s) c = None" by (simp add: slot_at_def)
  with pn_open show ?case by (simp add: pending_inv_def pending_slot_def pool_agrees_same)
next
  case (pn_marked s c h ok h' l')
  then have at: "slot_at pending_slot (pns_holds s) c = pending_slot h" by (simp add: slot_at_def)
  show ?case
  proof (cases "ph_charged h \<or> \<not> ok")
    case True
    with pn_marked.hyps(2) have "h' = h" "l' = pns_lim s"
      by (auto simp: pending_hold_acquire_def pending_acquire_def split: if_splits)
    with pn_marked.prems at show ?thesis by (simp add: pending_inv_def pool_agrees_same)
  next
    case False
    with pn_marked.hyps(2) have acq: "pending_acquire (pns_lim s) = (True, l')" and h': "ph_charged h'"
      by (auto simp: pending_hold_acquire_def split: if_splits prod.splits)
    from False at have "slot_at pending_slot (pns_holds s) c = None" by (simp add: pending_slot_def)
    from plpool.agrees_take [OF pn_marked.prems [unfolded pending_inv_def] acq this, of h'] h'
    show ?thesis by (simp add: pending_inv_def pending_slot_def)
  qed
next
  case (pn_release s c h h' l')
  then have at: "slot_at pending_slot (pns_holds s) c = pending_slot h" by (simp add: slot_at_def)
  show ?case
  proof (cases "ph_charged h")
    case True
    with pn_release.hyps(2) have l': "l' = pending_release (pns_lim s)" and h': "pending_slot h' = None"
      by (auto simp: pending_hold_release_def pending_slot_def)
    from True at have "slot_at pending_slot (pns_holds s) c = Some ()" by (simp add: pending_slot_def)
    with plpool.agrees_give [OF pn_release.prems [unfolded pending_inv_def]] h'
    show ?thesis unfolding l' by (simp add: pending_inv_def)
  next
    case False
    with pn_release.hyps(2) have "l' = pns_lim s" "h' = h" by (auto simp: pending_hold_release_def)
    with pn_release.prems at show ?thesis by (simp add: pending_inv_def pool_agrees_same)
  qed
next
  case (pn_close s c h h' l')
  then have at: "slot_at pending_slot (pns_holds s) c = pending_slot h" by (simp add: slot_at_def)
  show ?case
  proof (cases "ph_charged h")
    case True
    with pn_close.hyps(2) have "l' = pending_release (pns_lim s)" by (simp add: pending_hold_release_def)
    with plpool.agrees_leave [OF pn_close.prems [unfolded pending_inv_def], of c] True at
    show ?thesis by (simp add: pending_inv_def pending_slot_def)
  next
    case False
    with pn_close.hyps(2) have "l' = pns_lim s" by (simp add: pending_hold_release_def)
    with pn_close.prems False at show ?thesis
      by (simp add: pending_inv_def pool_agrees_drop pending_slot_def)
  qed
qed

lemma pending_init_inv: "pending_init s \<Longrightarrow> pending_inv s"
  by (auto simp: pending_init_def pending_inv_def newPendingLoginLimiter_def pool_agrees_def pending_held_def)

interpretation plm: invariant_machine pending_init pending_step pending_inv
  by unfold_locales (auto intro: pending_init_inv pending_step_inv)

section \<open>Properties\<close>

text \<open>
  The pending-login counter is the number of live connections that hold a pending slot, at
  most the configured cap, and closing every connection returns it to zero; marking a connection
  twice costs one slot.
\<close>

theorem pending_login_bound:
  assumes "pending_init s0" and "reach pending_step s0 s" and "0 < pn_max (pns_lim s)"
  shows "pn_count (pns_lim s) = int (card {c. \<exists>h. fmlookup (pns_holds s) c = Some h \<and> ph_charged h}) \<and>
         0 \<le> pn_count (pns_lim s) \<and> pn_count (pns_lim s) \<le> pn_max (pns_lim s) \<and>
         (pns_holds s = fmempty \<longrightarrow> pn_count (pns_lim s) = 0)"
proof -
  have "pool_agrees pending_held pn_max pending_slot (pns_lim s) (pns_holds s)"
    using plm.reachable_inv [OF assms(1,2)] by (simp add: pending_inv_def)
  from pool_agreesD [OF this assms(3), of "()"]
  have eq: "pn_count (pns_lim s) = int (occupants pending_slot (pns_holds s) ())"
    and le: "pn_count (pns_lim s) \<le> pn_max (pns_lim s)" by (simp_all add: pending_held_def)
  have "{c. slot_at pending_slot (pns_holds s) c = Some ()} =
      {c. \<exists>h. fmlookup (pns_holds s) c = Some h \<and> ph_charged h}"
    by (auto simp: slot_at_def pending_slot_def split: option.splits if_splits)
  with eq le show ?thesis by (auto simp: occupants_def)
qed

theorem pending_login_bound_witness:
  "pn_count (pns_lim \<lparr>pns_lim = \<lparr>pn_max = 1, pn_count = 1\<rparr>, pns_holds = fmupd 0 \<lparr>ph_charged = True\<rparr> (fmupd (0 :: nat) \<lparr>ph_charged = False\<rparr> fmempty)\<rparr>) = 1 \<and>
   1 = int (card {c. \<exists>h. fmlookup (fmupd 0 \<lparr>ph_charged = True\<rparr> (fmupd (0 :: nat) \<lparr>ph_charged = False\<rparr> fmempty)) c = Some h \<and> ph_charged h})"
proof -
  let ?s0 = "\<lparr>pns_lim = newPendingLoginLimiter 1, pns_holds = fmempty\<rparr>"
  let ?s1 = "?s0\<lparr>pns_holds := fmupd 0 \<lparr>ph_charged = False\<rparr> fmempty\<rparr>"
  let ?s2 = "\<lparr>pns_lim = \<lparr>pn_max = 1, pn_count = 1\<rparr>,
     pns_holds = fmupd 0 \<lparr>ph_charged = True\<rparr> (fmupd 0 \<lparr>ph_charged = False\<rparr> fmempty)\<rparr>"
  have "pending_step ?s0 ?s1" using pn_open [of ?s0 0] by simp
  moreover have "pending_step ?s1 ?s2"
    using pn_marked [of ?s1 0 "\<lparr>ph_charged = False\<rparr>" True "\<lparr>ph_charged = True\<rparr>" "\<lparr>pn_max = 1, pn_count = 1\<rparr>"]
    by (simp add: pending_hold_acquire_def pending_acquire_def newPendingLoginLimiter_def)
  ultimately have r: "reach pending_step ?s0 ?s2" by (blast intro: reach.intros)
  have i: "pending_init ?s0" by (auto simp: pending_init_def)
  from pending_login_bound [OF i r] show ?thesis by simp
qed

end
