(* ===== verification/Sessions.thy ===== *)
theory Sessions
  imports Go_Prelude
begin

text \<open>
  The live connections of each signed-in user (internal/mtproto/sessions.go): registration under
  the per-user cap, removal, the round-robin recovery snapshot and the counters the admin page
  reads. A connection is its identity, a natural number; the registry holds pointers and compares
  them, so nothing else of a connection matters here.
\<close>

type_synonym conn_id = nat
type_synonym user_id = int

record registry =
  sr_m :: "(user_id, conn_id list) fmap"
  sr_recovery :: "conn_id list"
  sr_cursor :: nat
  sr_total :: int

definition NewSessionRegistry :: registry where
  "NewSessionRegistry = \<lparr>sr_m = fmempty, sr_recovery = [], sr_cursor = 0, sr_total = 0\<rparr>"

definition MaxUserConns :: nat where
  "MaxUserConns = 20"

definition Conns :: "registry \<Rightarrow> user_id \<Rightarrow> conn_id list" where
  "Conns r u = (case fmlookup (sr_m r) u of None \<Rightarrow> [] | Some cs \<Rightarrow> cs)"

definition reg_Add :: "user_id \<Rightarrow> conn_id \<Rightarrow> registry \<Rightarrow> bool \<times> registry" where
  "reg_Add u c r =
     (if length (Conns r u) \<ge> MaxUserConns then (False, r)
      else (True, r\<lparr>sr_m := fmupd u (Conns r u @ [c]) (sr_m r),
                    sr_recovery := sr_recovery r @ [c],
                    sr_total := sr_total r + 1\<rparr>))"

definition remove_from_user :: "user_id \<Rightarrow> conn_id \<Rightarrow> registry \<Rightarrow> registry" where
  "remove_from_user u c r =
     (case find_index (\<lambda>x. x = c) (Conns r u) of
        None \<Rightarrow> r
      | Some i \<Rightarrow> r\<lparr>sr_m := fmupd u (remove_at i (Conns r u)) (sr_m r), sr_total := sr_total r - 1\<rparr>)"

definition remove_from_recovery :: "conn_id \<Rightarrow> registry \<Rightarrow> registry" where
  "remove_from_recovery c r =
     (case find_index (\<lambda>x. x = c) (sr_recovery r) of
        None \<Rightarrow> r
      | Some i \<Rightarrow>
          (let rest = remove_at i (sr_recovery r) in
           r\<lparr>sr_recovery := rest,
             sr_cursor := (if length rest = 0 then 0
                           else (if i < sr_cursor r then sr_cursor r - 1 else sr_cursor r) mod length rest)\<rparr>))"

definition reg_Remove :: "user_id \<Rightarrow> conn_id \<Rightarrow> registry \<Rightarrow> registry" where
  "reg_Remove u c r =
     (let r2 = remove_from_recovery c (remove_from_user u c r) in
      if length (Conns r2 u) = 0 then r2\<lparr>sr_m := fmdrop u (sr_m r2)\<rparr> else r2)"

definition DialogFilterRecoveryCandidates :: "int \<Rightarrow> registry \<Rightarrow> conn_id list \<times> registry" where
  "DialogFilterRecoveryCandidates limit r =
     (if limit \<le> 0 then ([], r)
      else (let n = length (sr_recovery r); count = min (nat limit) n in
            if count = 0 then ([], r)
            else (let start = sr_cursor r mod n in
                  (map (\<lambda>i. sr_recovery r ! ((start + i) mod n)) [0..<count],
                   r\<lparr>sr_cursor := (start + count) mod n\<rparr>))))"

definition TotalConns :: "registry \<Rightarrow> int" where
  "TotalConns r = sr_total r"

definition TotalSessions :: "registry \<Rightarrow> nat" where
  "TotalSessions r = msize (sr_m r)"

text \<open>Consecutive recovery ticks on a registry nobody changes in between.\<close>

fun recovery_ticks :: "nat \<Rightarrow> int \<Rightarrow> registry \<Rightarrow> conn_id list \<times> registry" where
  "recovery_ticks 0 limit r = ([], r)"
| "recovery_ticks (Suc k) limit r =
     (let (out, r1) = DialogFilterRecoveryCandidates limit r;
          (outs, r2) = recovery_ticks k limit r1
      in (out @ outs, r2))"

section \<open>Well-formed registries\<close>

text \<open>The connections listed under some user.\<close>

definition live_conns :: "registry \<Rightarrow> conn_id set" where
  "live_conns r = {c. \<exists>u. c \<in> set (Conns r u)}"

text \<open>
  Every connection is registered under at most one user, no entry is empty or over the cap, the
  recovery ring lists registered connections only, once each, and the connection counter is their
  number.
\<close>

definition reg_wf :: "registry \<Rightarrow> bool" where
  "reg_wf r \<longleftrightarrow>
     (\<forall>u. distinct (Conns r u) \<and> length (Conns r u) \<le> MaxUserConns \<and> fmlookup (sr_m r) u \<noteq> Some []) \<and>
     (\<forall>u v c. c \<in> set (Conns r u) \<longrightarrow> c \<in> set (Conns r v) \<longrightarrow> u = v) \<and>
     distinct (sr_recovery r) \<and> set (sr_recovery r) \<subseteq> live_conns r \<and>
     sr_total r = int (card (live_conns r)) \<and>
     sr_cursor r \<le> length (sr_recovery r) - 1"

lemma Conns_dom: "Conns r u \<noteq> [] \<Longrightarrow> u \<in> fset (fmdom (sr_m r))"
  by (auto simp: Conns_def fmlookup_dom_iff split: option.splits)

lemma finite_live_conns [simp]: "finite (live_conns r)"
proof -
  have "live_conns r \<subseteq> (\<Union>u \<in> fset (fmdom (sr_m r)). set (Conns r u))"
  proof
    fix c assume "c \<in> live_conns r"
    then obtain u where u: "c \<in> set (Conns r u)" unfolding live_conns_def by blast
    then have "u \<in> fset (fmdom (sr_m r))" by (intro Conns_dom) auto
    then show "c \<in> (\<Union>u \<in> fset (fmdom (sr_m r)). set (Conns r u))" using u by (rule UN_I)
  qed
  then show ?thesis by (rule finite_subset) simp
qed

lemma remove_at_find_index:
  "find_index (\<lambda>x. x = c) xs = Some i \<Longrightarrow> remove_at i xs = remove1 c xs"
proof (induction xs arbitrary: i)
  case (Cons x xs)
  show ?case
  proof (cases "x = c")
    case True
    with Cons.prems show ?thesis by (simp add: remove_at_def)
  next
    case False
    with Cons.prems obtain j where j: "find_index (\<lambda>x. x = c) xs = Some j" and i: "i = Suc j" by auto
    have "remove_at i (x # xs) = x # remove_at j xs" by (simp add: remove_at_def i)
    with Cons.IH [OF j] False show ?thesis by simp
  qed
qed simp

lemma find_index_eq_Some_mem: "find_index (\<lambda>x. x = c) xs = Some i \<Longrightarrow> c \<in> set xs"
  using find_index_SomeD [of "\<lambda>x. x = c" xs i] by auto

lemma find_index_eq_None: "find_index (\<lambda>x. x = c) xs = None \<longleftrightarrow> c \<notin> set xs"
  by (auto simp: find_index_None_iff)

lemma Conns_Add: "reg_Add u c r = (True, r') \<Longrightarrow> Conns r' v = (if v = u then Conns r u @ [c] else Conns r v)"
  by (auto simp: reg_Add_def Conns_def split: if_splits)

lemma Conns_Remove: "Conns (reg_Remove u c r) v = (if v = u then remove1 c (Conns r u) else Conns r v)"
proof -
  have rec [simp]: "sr_m (remove_from_recovery c q) = sr_m q" for q
    by (simp add: remove_from_recovery_def Let_def split: option.split)
  have usr: "Conns (remove_from_user u c r) v = (if v = u then remove1 c (Conns r u) else Conns r v)" for v
    using remove1_idem [of c "Conns r u"]
    by (auto simp: remove_from_user_def Conns_def find_index_eq_None remove_at_find_index
        split: option.splits)
  let ?r2 = "remove_from_recovery c (remove_from_user u c r)"
  have r2: "Conns ?r2 v = (if v = u then remove1 c (Conns r u) else Conns r v)" for v
    using usr [of v] by (simp add: Conns_def)
  show ?thesis
  proof (cases "length (Conns ?r2 u) = 0")
    case True
    then have "Conns (reg_Remove u c r) v = (if v = u then [] else Conns ?r2 v)"
      by (simp add: reg_Remove_def Let_def Conns_def)
    with True r2 [of u] r2 [of v] show ?thesis by auto
  next
    case False
    then have "reg_Remove u c r = ?r2" by (simp add: reg_Remove_def Let_def)
    with r2 show ?thesis by simp
  qed
qed

lemma recovery_Remove: "sr_recovery (reg_Remove u c r) = remove1 c (sr_recovery r)"
proof -
  have [simp]: "sr_recovery (remove_from_user u c r) = sr_recovery r"
    by (simp add: remove_from_user_def split: option.split)
  have "sr_recovery (remove_from_recovery c (remove_from_user u c r)) = remove1 c (sr_recovery r)"
    using remove1_idem [of c "sr_recovery r"]
    by (auto simp: remove_from_recovery_def Let_def find_index_eq_None remove_at_find_index
        split: option.split)
  then show ?thesis by (simp add: reg_Remove_def Let_def)
qed

lemma total_Remove:
  "sr_total (reg_Remove u c r) = sr_total r - (if c \<in> set (Conns r u) then 1 else 0)"
proof -
  have "sr_total (remove_from_recovery c q) = sr_total q" for q
    by (simp add: remove_from_recovery_def Let_def split: option.split)
  moreover have "sr_total (remove_from_user u c r) = sr_total r - (if c \<in> set (Conns r u) then 1 else 0)"
    by (auto simp: remove_from_user_def find_index_eq_None dest: find_index_eq_Some_mem split: option.split)
  ultimately show ?thesis by (simp add: reg_Remove_def Let_def)
qed

lemma mod_le_pred: "0 < n \<Longrightarrow> x mod n \<le> n - Suc 0" for n x :: nat
  using mod_less_divisor [of n x] by linarith

lemma cursor_Remove:
  assumes "sr_cursor r \<le> length (sr_recovery r) - 1"
  shows "sr_cursor (reg_Remove u c r) \<le> length (remove1 c (sr_recovery r)) - 1"
proof -
  let ?q = "remove_from_user u c r"
  have q [simp]: "sr_recovery ?q = sr_recovery r" "sr_cursor ?q = sr_cursor r"
    by (simp_all add: remove_from_user_def split: option.split)
  have "sr_cursor (remove_from_recovery c ?q) \<le> length (remove1 c (sr_recovery r)) - 1"
  proof (cases "find_index (\<lambda>x. x = c) (sr_recovery r)")
    case None
    with assms show ?thesis
      by (simp add: remove_from_recovery_def remove1_idem find_index_eq_None [THEN iffD1])
  next
    case (Some i)
    let ?rest = "remove1 c (sr_recovery r)"
    have "x mod length ?rest \<le> length ?rest - 1" if "?rest \<noteq> []" for x :: nat
      using that by (simp add: mod_le_pred)
    with Some show ?thesis
      by (simp add: remove_from_recovery_def Let_def remove_at_find_index)
  qed
  then show ?thesis by (simp add: reg_Remove_def Let_def)
qed

lemma no_empty_Remove:
  assumes "\<forall>v. fmlookup (sr_m r) v \<noteq> Some []"
  shows "fmlookup (sr_m (reg_Remove u c r)) v \<noteq> Some []"
proof -
  have rec [simp]: "sr_m (remove_from_recovery c q) = sr_m q" for q
    by (simp add: remove_from_recovery_def Let_def split: option.split)
  have other: "fmlookup (sr_m (remove_from_user u c r)) v = fmlookup (sr_m r) v" if "v \<noteq> u" for v
    using that by (simp add: remove_from_user_def split: option.split)
  show ?thesis
    using assms other [of v]
    by (auto simp: reg_Remove_def Let_def Conns_def split: if_splits option.splits)
qed

lemma reg_wf_New: "reg_wf NewSessionRegistry"
  by (simp add: reg_wf_def NewSessionRegistry_def Conns_def live_conns_def)

lemma live_conns_Add: "reg_Add u c r = (ok, r') \<Longrightarrow> live_conns r' = (if ok then insert c (live_conns r) else live_conns r)"
proof (cases ok)
  case True
  assume "reg_Add u c r = (ok, r')"
  with True Conns_Add [of u c r r'] have "x \<in> set (Conns r' v) \<longleftrightarrow> x \<in> set (Conns r v) \<or> x = c \<and> v = u" for x v by auto
  with True show ?thesis unfolding live_conns_def by auto
qed (auto simp: reg_Add_def split: if_splits)

lemma reg_wf_Add:
  assumes wf: "reg_wf r" and fresh: "c \<notin> live_conns r" and add: "reg_Add u c r = (ok, r')"
  shows "reg_wf r'"
proof (cases ok)
  case False
  with add wf show ?thesis by (auto simp: reg_Add_def split: if_splits)
next
  case True
  with add have r': "r' = r\<lparr>sr_m := fmupd u (Conns r u @ [c]) (sr_m r),
      sr_recovery := sr_recovery r @ [c], sr_total := sr_total r + 1\<rparr>"
    and room: "length (Conns r u) < MaxUserConns"
    by (auto simp: reg_Add_def split: if_splits)
  have conns: "Conns r' v = (if v = u then Conns r u @ [c] else Conns r v)" for v
    using Conns_Add [of u c r r'] add True by simp
  have live: "live_conns r' = insert c (live_conns r)" using live_conns_Add [OF add] True by simp
  have new: "c \<notin> set (Conns r v)" for v using fresh by (auto simp: live_conns_def)
  have "distinct (Conns r' v) \<and> length (Conns r' v) \<le> MaxUserConns \<and> fmlookup (sr_m r') v \<noteq> Some []" for v
    using wf room new [of u] conns [of v] by (auto simp: reg_wf_def r')
  moreover have "v = w" if "d \<in> set (Conns r' v)" "d \<in> set (Conns r' w)" for v w d
    using that wf new by (auto simp: reg_wf_def conns split: if_splits)
  moreover have "distinct (sr_recovery r')" "set (sr_recovery r') \<subseteq> live_conns r'" "sr_total r' = int (card (live_conns r'))"
    using wf fresh unfolding live by (auto simp: reg_wf_def r')
  moreover have "sr_cursor r' \<le> length (sr_recovery r') - 1" using wf by (auto simp: reg_wf_def r')
  ultimately show ?thesis unfolding reg_wf_def by blast
qed

text \<open>
  \<open>Remove\<close> is called by the connection's own goroutine with the user it registered under, and after a
  failed push with the user the push was for, who may have lost the connection by then. Whoever it
  names, the connection is off that user's list and off the ring.
\<close>

lemma live_conns_Remove:
  assumes "reg_wf r"
  shows "live_conns (reg_Remove u c r) = (if c \<in> set (Conns r u) then live_conns r - {c} else live_conns r)"
proof (cases "c \<in> set (Conns r u)")
  case True
  then have "c \<notin> set (Conns r v)" if "v \<noteq> u" for v using that assms unfolding reg_wf_def by blast
  moreover have "distinct (Conns r u)" using assms by (simp add: reg_wf_def)
  ultimately have "x \<in> set (Conns (reg_Remove u c r) v) \<longleftrightarrow> x \<in> set (Conns r v) \<and> x \<noteq> c" for x v
    by (auto simp: Conns_Remove)
  with True show ?thesis by (auto simp: live_conns_def)
next
  case False
  then have "Conns (reg_Remove u c r) v = Conns r v" for v by (simp add: Conns_Remove remove1_idem)
  with False show ?thesis by (simp add: live_conns_def)
qed

lemma reg_wf_Remove:
  assumes wf: "reg_wf r"
  shows "reg_wf (reg_Remove u c r)"
proof -
  let ?r = "reg_Remove u c r"
  from wf have d: "distinct (Conns r v)" "length (Conns r v) \<le> MaxUserConns" for v
    by (simp_all add: reg_wf_def)
  have sub: "x \<in> set (Conns ?r v) \<Longrightarrow> x \<in> set (Conns r v)" for x v
    using notin_set_remove1 by (fastforce simp: Conns_Remove split: if_splits)
  have "distinct (Conns ?r v) \<and> length (Conns ?r v) \<le> MaxUserConns \<and> fmlookup (sr_m ?r) v \<noteq> Some []" for v
    using d [of v] no_empty_Remove [of r u c v] wf
    by (auto simp: Conns_Remove reg_wf_def length_remove1 intro: diff_le_self le_trans split: if_splits)
  moreover have "v = w" if "x \<in> set (Conns ?r v)" "x \<in> set (Conns ?r w)" for v w x
    using that [THEN sub] wf unfolding reg_wf_def by blast
  moreover have "distinct (sr_recovery ?r)" "set (sr_recovery ?r) \<subseteq> live_conns ?r"
    using wf by (auto simp: recovery_Remove live_conns_Remove [OF wf] reg_wf_def)
  moreover have "sr_total ?r = int (card (live_conns ?r))"
  proof (cases "c \<in> set (Conns r u)")
    case True
    then have c: "c \<in> live_conns r" by (auto simp: live_conns_def)
    then have "0 < card (live_conns r)" by (auto simp: card_gt_0_iff)
    then show ?thesis using True c wf by (simp add: total_Remove live_conns_Remove [OF wf] reg_wf_def of_nat_diff)
  qed (use wf in \<open>simp add: total_Remove live_conns_Remove reg_wf_def\<close>)
  moreover have "sr_cursor ?r \<le> length (sr_recovery ?r) - 1"
    using cursor_Remove [of r u c] wf by (simp add: recovery_Remove reg_wf_def)
  ultimately show ?thesis unfolding reg_wf_def by blast
qed

section \<open>Round robin\<close>

lemma candidates_fields [simp]:
  "sr_recovery (snd (DialogFilterRecoveryCandidates limit r)) = sr_recovery r"
  "sr_m (snd (DialogFilterRecoveryCandidates limit r)) = sr_m r"
  "sr_total (snd (DialogFilterRecoveryCandidates limit r)) = sr_total r"
  by (simp_all add: DialogFilterRecoveryCandidates_def Let_def)

lemma reg_wf_Candidates: "reg_wf r \<Longrightarrow> reg_wf (snd (DialogFilterRecoveryCandidates limit r))"
proof -
  assume wf: "reg_wf r"
  let ?r = "snd (DialogFilterRecoveryCandidates limit r)"
  have "sr_cursor ?r \<le> length (sr_recovery r) - 1"
  proof -
    have "x mod length (sr_recovery r) \<le> length (sr_recovery r) - 1" if "sr_recovery r \<noteq> []" for x :: nat
      using that by (simp add: mod_le_pred)
    with wf show ?thesis
      by (auto simp: DialogFilterRecoveryCandidates_def Let_def reg_wf_def)
  qed
  moreover have "Conns ?r v = Conns r v" for v by (simp add: Conns_def)
  ultimately show ?thesis using wf by (simp add: reg_wf_def live_conns_def)
qed

text \<open>One tick reads the next \<open>count\<close> connections of the ring.\<close>

definition ring :: "conn_id list \<Rightarrow> nat \<Rightarrow> nat \<Rightarrow> conn_id list" where
  "ring xs a k = map (\<lambda>i. xs ! ((a + i) mod length xs)) [0..<k]"

lemma length_ring [simp]: "length (ring xs a k) = k"
  by (simp add: ring_def)

lemma ring_append: "ring xs a (j + k) = ring xs a j @ ring xs (a + j) k"
  by (induction k) (simp_all add: ring_def add.assoc)

lemma ring_mod [simp]: "ring xs (a mod length xs) k = ring xs a k"
  by (simp add: ring_def mod_add_left_eq)

lemma ring_covers:
  assumes "xs \<noteq> []" and "length xs \<le> k"
  shows "set (ring xs a k) = set xs"
proof
  let ?n = "length xs"
  have n: "0 < ?n" using assms(1) by simp
  show "set (ring xs a k) \<subseteq> set xs"
    using n by (auto simp: ring_def)
  show "set xs \<subseteq> set (ring xs a k)"
  proof
    fix x assume "x \<in> set xs"
    then obtain j where j: "j < ?n" "x = xs ! j" by (auto simp: in_set_conv_nth)
    define i where "i = (j + (?n - a mod ?n)) mod ?n"
    have i: "i < k" using n assms(2) by (auto simp: i_def intro: less_le_trans [OF mod_less_divisor])
    have "(a + i) mod ?n = (a mod ?n + (j + (?n - a mod ?n))) mod ?n"
      by (simp add: i_def mod_add_left_eq mod_add_right_eq)
    also have "a mod ?n + (j + (?n - a mod ?n)) = j + ?n"
      using mod_less_divisor [OF n, of a] by simp
    finally have "(a + i) mod ?n = j" using j(1) by simp
    with i j(2) show "x \<in> set (ring xs a k)" by (force simp: ring_def)
  qed
qed

lemma candidates_ring:
  assumes "0 < limit" and "sr_recovery r \<noteq> []"
  defines "n \<equiv> length (sr_recovery r)"
  shows "DialogFilterRecoveryCandidates limit r =
    (ring (sr_recovery r) (sr_cursor r) (min (nat limit) n),
     r\<lparr>sr_cursor := (sr_cursor r + min (nat limit) n) mod n\<rparr>)"
  using assms
  by (simp add: DialogFilterRecoveryCandidates_def Let_def ring_def mod_add_left_eq min_def)

lemma recovery_ticks_ring:
  assumes "0 < limit" and "sr_recovery r \<noteq> []"
  shows "fst (recovery_ticks k limit r) =
    ring (sr_recovery r) (sr_cursor r) (k * min (nat limit) (length (sr_recovery r)))"
  using assms
proof (induction k arbitrary: r)
  case 0
  then show ?case by (simp add: ring_def)
next
  case (Suc k)
  let ?c = "min (nat limit) (length (sr_recovery r))"
  let ?r = "r\<lparr>sr_cursor := (sr_cursor r + ?c) mod length (sr_recovery r)\<rparr>"
  have "fst (recovery_ticks k limit ?r) = ring (sr_recovery r) (sr_cursor r + ?c) (k * ?c)"
    using Suc.IH [of ?r] Suc.prems by simp
  then show ?case
    using Suc.prems by (simp add: candidates_ring ring_append case_prod_unfold)
qed

section \<open>The registry under its callers\<close>

text \<open>
  Beside the registry, \<open>strayed\<close> remembers the connections that a removal naming another user than
  theirs has hit since they were registered.
\<close>

record registry_run =
  rr_reg :: registry
  rr_strayed :: "conn_id set"

inductive registry_step :: "registry_run \<Rightarrow> registry_run \<Rightarrow> bool" where
  rs_add: "c \<notin> live_conns (rr_reg s) \<Longrightarrow> reg_Add u c (rr_reg s) = (ok, r') \<Longrightarrow>
    registry_step s \<lparr>rr_reg = r', rr_strayed = (if ok then rr_strayed s - {c} else rr_strayed s)\<rparr>"
| rs_remove: "registry_step s \<lparr>rr_reg = reg_Remove u c (rr_reg s),
    rr_strayed = (if c \<notin> set (Conns (rr_reg s) u) \<and> c \<in> live_conns (rr_reg s) then insert c (rr_strayed s) else rr_strayed s)\<rparr>"
| rs_tick: "registry_step s (s\<lparr>rr_reg := snd (DialogFilterRecoveryCandidates limit (rr_reg s))\<rparr>)"

definition new_run :: registry_run where
  "new_run = \<lparr>rr_reg = NewSessionRegistry, rr_strayed = {}\<rparr>"

definition run_ok :: "registry_run \<Rightarrow> bool" where
  "run_ok s \<longleftrightarrow> reg_wf (rr_reg s) \<and> set (sr_recovery (rr_reg s)) = live_conns (rr_reg s) - rr_strayed s"

lemma registry_step_ok:
  assumes "registry_step s t" and ok: "run_ok s"
  shows "run_ok t"
proof -
  have wf: "reg_wf (rr_reg s)" and ring: "set (sr_recovery (rr_reg s)) = live_conns (rr_reg s) - rr_strayed s"
    using ok by (simp_all add: run_ok_def)
  from assms(1) show ?thesis
  proof cases
    case (rs_add c u added r')
    then have "sr_recovery r' = (if added then sr_recovery (rr_reg s) @ [c] else sr_recovery (rr_reg s))"
      by (auto simp: reg_Add_def split: if_splits)
    then have "set (sr_recovery r') = live_conns r' - (if added then rr_strayed s - {c} else rr_strayed s)"
      using ring rs_add(2) live_conns_Add [OF rs_add(3)] by auto
    with rs_add reg_wf_Add [OF wf] show ?thesis by (simp add: run_ok_def)
  next
    case (rs_remove u c)
    have "distinct (sr_recovery (rr_reg s))" using wf by (simp add: reg_wf_def)
    then have "set (sr_recovery (reg_Remove u c (rr_reg s))) = set (sr_recovery (rr_reg s)) - {c}" by (simp add: recovery_Remove)
    then show ?thesis using rs_remove ring reg_wf_Remove [OF wf, of u c] by (auto simp: run_ok_def live_conns_Remove [OF wf])
  next
    case (rs_tick limit)
    have "live_conns (snd (DialogFilterRecoveryCandidates limit (rr_reg s))) = live_conns (rr_reg s)"
      by (simp add: live_conns_def Conns_def)
    with rs_tick ring reg_wf_Candidates [OF wf] show ?thesis by (simp add: run_ok_def)
  qed
qed

interpretation regm: invariant_machine "\<lambda>s. s = new_run" registry_step run_ok
proof
  fix s assume "s = new_run"
  then show "run_ok s"
    by (simp add: run_ok_def new_run_def reg_wf_New) (simp add: NewSessionRegistry_def live_conns_def Conns_def)
qed (rule registry_step_ok)

section \<open>Properties\<close>

text \<open>
  C23. Over any interleaving of registrations, removals and recovery ticks, where a removal may name
  any user (a failed push names the user it was for, who may have lost the connection since), no user
  holds more than twenty connections, a connection is listed under at most one user, the connection
  total is the number of listed connections, and a user counts as a session exactly while holding
  one. The recovery ring lists once each exactly the listed connections that no removal naming a
  user they are not listed under has hit since they were registered.
\<close>

theorem registry_consistent:
  assumes "reach registry_step new_run s" and "r = rr_reg s"
  shows "length (Conns r u) \<le> MaxUserConns \<and> distinct (Conns r u) \<and>
    (c \<in> set (Conns r u) \<and> c \<in> set (Conns r v) \<longrightarrow> u = v) \<and>
    distinct (sr_recovery r) \<and> (c \<in> set (sr_recovery r) \<longleftrightarrow> (\<exists>w. c \<in> set (Conns r w)) \<and> c \<notin> rr_strayed s) \<and>
    TotalConns r = int (card {d. \<exists>w. d \<in> set (Conns r w)}) \<and>
    TotalSessions r = card {w. Conns r w \<noteq> []}"
proof -
  have wf: "reg_wf r" and ring: "set (sr_recovery r) = live_conns r - rr_strayed s"
    using regm.reachable_inv [OF refl assms(1)] assms(2) by (simp_all add: run_ok_def)
  then have "{w. Conns r w \<noteq> []} = fset (fmdom (sr_m r))"
    by (auto simp: reg_wf_def Conns_def fmlookup_dom_iff split: option.splits)
  then have "TotalSessions r = card {w. Conns r w \<noteq> []}"
    by (simp add: TotalSessions_def msize_def fcard.rep_eq)
  moreover have "c \<in> set (sr_recovery r) \<longleftrightarrow> (\<exists>w. c \<in> set (Conns r w)) \<and> c \<notin> rr_strayed s"
    using ring by (auto simp: live_conns_def)
  ultimately show ?thesis using wf unfolding reg_wf_def TotalConns_def live_conns_def by blast
qed

text \<open>A connection moves from user 7 to user 8; then the removal for a push to 7 that failed arrives.\<close>

definition late_removal :: registry_run where
  "late_removal = \<lparr>rr_reg = reg_Remove 7 1 (snd (reg_Add 8 1 NewSessionRegistry)), rr_strayed = {1}\<rparr>"

lemma late_removal_reached: "reach registry_step new_run late_removal"
proof -
  let ?s = "\<lparr>rr_reg = snd (reg_Add 8 1 NewSessionRegistry), rr_strayed = {}\<rparr>"
  have "registry_step new_run ?s"
    using rs_add [of 1 new_run 8 True "snd (reg_Add 8 1 NewSessionRegistry)"]
    by (simp add: new_run_def live_conns_def NewSessionRegistry_def reg_Add_def Conns_def MaxUserConns_def)
  moreover have "registry_step ?s late_removal"
  proof -
    have "1 \<notin> set (Conns (rr_reg ?s) 7)" "1 \<in> set (Conns (rr_reg ?s) 8)"
      by (simp_all add: NewSessionRegistry_def reg_Add_def Conns_def MaxUserConns_def)
    then have "1 \<notin> set (Conns (rr_reg ?s) 7) \<and> 1 \<in> live_conns (rr_reg ?s)" unfolding live_conns_def by blast
    with rs_remove [of ?s 7 1] show ?thesis by (simp only: late_removal_def registry_run.simps if_True simp_thms)
  qed
  ultimately show ?thesis by (blast intro: reach.intros)
qed

theorem registry_consistent_witness:
  "1 \<in> set (Conns (rr_reg late_removal) 8) \<and> 1 \<notin> set (sr_recovery (rr_reg late_removal)) \<and>
   TotalConns (rr_reg late_removal) = int (card {d. \<exists>w. d \<in> set (Conns (rr_reg late_removal) w)})"
proof -
  have "1 \<in> set (Conns (rr_reg late_removal) 8)" "1 \<in> rr_strayed late_removal"
    unfolding late_removal_def registry_run.simps Conns_Remove
    by (simp_all add: reg_Add_def Conns_def NewSessionRegistry_def MaxUserConns_def)
  with registry_consistent [OF late_removal_reached refl, of 8 1 8] show ?thesis by blast
qed

text \<open>
  Recovery is fair: on a registry that does not change, k consecutive ticks of the bounded
  snapshot visit every connection as soon as k times the limit reaches their number, wherever the
  cursor stood, and no tick returns more than the limit.
\<close>

theorem recovery_visits_all:
  assumes "0 < limit" and "length (sr_recovery r) \<le> k * nat limit" and "0 < k"
  shows "set (fst (recovery_ticks k limit r)) = set (sr_recovery r) \<and>
    length (fst (DialogFilterRecoveryCandidates limit r)) \<le> nat limit"
proof (cases "sr_recovery r = []")
  case True
  then have "recovery_ticks j limit r = ([], r)" for j
    by (induction j) (simp_all add: DialogFilterRecoveryCandidates_def)
  with True show ?thesis by (simp add: DialogFilterRecoveryCandidates_def)
next
  case False
  let ?n = "length (sr_recovery r)"
  have "?n \<le> k * min (nat limit) ?n"
    using assms(2,3) by (auto simp: min_def)
  then have "set (ring (sr_recovery r) (sr_cursor r) (k * min (nat limit) ?n)) = set (sr_recovery r)"
    by (rule ring_covers [OF False])
  with False assms(1) show ?thesis
    by (simp add: recovery_ticks_ring candidates_ring)
qed

theorem recovery_visits_all_witness:
  "let r = \<lparr>sr_m = fmempty, sr_recovery = [10, 20, 30], sr_cursor = 2, sr_total = 3\<rparr> in
   set (fst (recovery_ticks 2 2 r)) = {10, 20, 30}"
  using recovery_visits_all [of 2 "\<lparr>sr_m = fmempty, sr_recovery = [10, 20, 30], sr_cursor = 2, sr_total = 3\<rparr>" 2]
  by simp

end
