(* ===== verification/Serve.thy ===== *)
theory Serve
  imports Frames Unbound_Key Pending_Login Sessions
begin

text \<open>
  The server as a whole (internal/mtproto/server.go, handle.go): any number of connections, each run
  by its own goroutine through \<open>serveSocket\<close>, \<open>serveConn\<close> and \<open>rpcHandle\<close>, sharing the session
  registry and the three limiters. A goroutine is a program point; a step of the machine is one
  operation on shared state, or one on the connection, so that connections interleave between any two
  of them. What the network, the key store and the handlers answer is left open: every rule that
  depends on it may fire. Handlers and deliveries act on a connection through its own operations, at
  any time; a delivery whose write failed also takes the connection off the registry, some time later
  (internal/api/notify.go).
\<close>

section \<open>Accepting\<close>

text \<open>Errors of the listener, by what the accept loop tells apart.\<close>

datatype accept_error = EMFILE | ENFILE | ECONNABORTED | ECONNRESET | AcceptTimeout | ListenerClosed | OtherAccept

definition minAcceptBackoff :: gduration where "minAcceptBackoff = 5000000"
definition maxAcceptBackoff :: gduration where "maxAcceptBackoff = second"

definition isTransientAccept :: "accept_error \<Rightarrow> bool" where
  "isTransientAccept e \<longleftrightarrow> e = EMFILE \<or> e = ENFILE \<or> e = ECONNABORTED \<or> e = ECONNRESET \<or> e = AcceptTimeout"

definition nextAcceptBackoff :: "gduration \<Rightarrow> gduration" where
  "nextAcceptBackoff d =
     (if d = 0 then minAcceptBackoff else if d * 2 > maxAcceptBackoff then maxAcceptBackoff else d * 2)"

text \<open>
  What the accept loop does with one result of \<open>Accept\<close>: return, fail, wait and retry, drop the
  socket at the global cap or hand it to its goroutine with a slot. The last component is the backoff.
\<close>

datatype accept_outcome = ServeReturns | ServeFails | RetryAfter gduration | DropSocket | ServeSocket preauth_slot

definition accept_one ::
  "accept_error option \<Rightarrow> bool \<Rightarrow> gduration \<Rightarrow> preauth_limiter \<Rightarrow> accept_outcome \<times> gduration \<times> preauth_limiter" where
  "accept_one err cancelled backoff l =
     (case err of
        Some e \<Rightarrow>
          if e = ListenerClosed then (ServeReturns, backoff, l)
          else if isTransientAccept e
          then (let backoff = nextAcceptBackoff backoff in
                (if cancelled then ServeReturns else RetryAfter backoff, backoff, l))
          else (ServeFails, backoff, l)
      | None \<Rightarrow>
          (case admit l of
             (None, l) \<Rightarrow> (DropSocket, 0, l)
           | (Some sl, l) \<Rightarrow> (ServeSocket sl, 0, l)))"

lemma backoff_doubles: "(nextAcceptBackoff ^^ Suc n) 0 = min (minAcceptBackoff * 2 ^ n) maxAcceptBackoff"
proof (induction n)
  case 0
  show ?case by (simp add: nextAcceptBackoff_def minAcceptBackoff_def maxAcceptBackoff_def)
next
  case (Suc n)
  have pos: "0 < minAcceptBackoff * 2 ^ n" by (simp add: minAcceptBackoff_def)
  have step: "nextAcceptBackoff d = min (d * 2) maxAcceptBackoff" if "0 < d" for d
    using that by (simp add: nextAcceptBackoff_def min_def)
  have "(nextAcceptBackoff ^^ Suc (Suc n)) 0 = nextAcceptBackoff (min (minAcceptBackoff * 2 ^ n) maxAcceptBackoff)"
    using Suc by simp
  also have "\<dots> = min (minAcceptBackoff * 2 ^ Suc n) maxAcceptBackoff"
    using step [of "min (minAcceptBackoff * 2 ^ n) maxAcceptBackoff"] pos by (simp add: maxAcceptBackoff_def min_def)
  finally show ?case .
qed

text \<open>Retries of a listener that keeps failing wait between 5 ms and a second, and nothing but the listener ends serving.\<close>

lemma accept_keeps_serving:
  assumes "accept_one err cancelled b l = (out, b', l')" and "b = 0 \<or> minAcceptBackoff \<le> b"
  shows "(out = ServeReturns \<or> out = ServeFails \<longrightarrow> err \<noteq> None) \<and>
    (\<forall>d. out = RetryAfter d \<longrightarrow> minAcceptBackoff \<le> d \<and> d \<le> maxAcceptBackoff \<and> b' = d) \<and>
    (b' = 0 \<or> minAcceptBackoff \<le> b')"
  using assms
  by (auto simp: accept_one_def nextAcceptBackoff_def minAcceptBackoff_def maxAcceptBackoff_def Let_def
      split: option.splits if_splits prod.splits)

section \<open>State\<close>

text \<open>Where \<open>bind\<close> returns to: the key exchange, the last-seen update of a frame, or the deferred cleanup.\<close>

datatype after_bind = ToExchange | ToTouch auth_key_id | ToExit

datatype pc =
    Accepted | Negotiating | Reading | Exchanging
  | Resolving auth_key_id
  | Handling auth_key_id int
  | Authenticated auth_key_id int int
  | BeforeDispatch auth_key_id int
  | Running auth_key_id int
  | Ran auth_key_id int
  | Charging auth_key_id int
  | Bind int after_bind
  | Unregister int after_bind
  | Register int after_bind
  | Disown
  | Touching auth_key_id
  | Releasing | ReleasingHold | Closed

text \<open>
  \<open>sv_failed\<close> lists the users a push to this connection has failed for: the transport is closed, and
  the goroutine of each such push still has to report it.
\<close>

record serving =
  sv_conn :: conn
  sv_slot :: preauth_slot
  sv_hold :: unbound_hold
  sv_pending :: pending_hold
  sv_registered :: int
  sv_pendingObserved :: bool
  sv_pendingDeadline :: gtime
  sv_lastTouch :: gtime
  sv_failed :: "int list"
  sv_pc :: pc

record server =
  s_registry :: registry
  s_unboundKeys :: unbound_limiter
  s_pendingLogins :: pending_limiter
  s_preAuth :: preauth_limiter
  s_conns :: "(conn_id, serving) fmap"

definition new_serving :: "preauth_slot \<Rightarrow> serving" where
  "new_serving sl = \<lparr>sv_conn = newConn, sv_slot = sl, sv_hold = new_hold, sv_pending = \<lparr>ph_charged = False\<rparr>,
     sv_registered = 0, sv_pendingObserved = False, sv_pendingDeadline = 0, sv_lastTouch = 0, sv_failed = [], sv_pc = Accepted\<rparr>"

section \<open>The steps of a frame\<close>

definition resume :: "after_bind \<Rightarrow> pc" where
  "resume a = (case a of ToExchange \<Rightarrow> Exchanging | ToTouch k \<Rightarrow> Touching k | ToExit \<Rightarrow> Closed)"

text \<open>\<open>bind\<close>, cut where it touches the registry.\<close>

definition bind_owner :: "int \<Rightarrow> after_bind \<Rightarrow> serving \<Rightarrow> serving" where
  "bind_owner userID a v =
     (if userID = sv_registered v then v\<lparr>sv_pc := resume a\<rparr>
      else v\<lparr>sv_conn := setOwner userID (sv_conn v), sv_pc := Unregister userID a\<rparr>)"

definition bind_unregister :: "conn_id \<Rightarrow> int \<Rightarrow> after_bind \<Rightarrow> registry \<times> serving \<Rightarrow> registry \<times> serving" where
  "bind_unregister me userID a = (\<lambda>(r, v).
     (if sv_registered v \<noteq> 0 then reg_Remove (sv_registered v) me r else r,
      v\<lparr>sv_registered := 0, sv_pc := Register userID a\<rparr>))"

definition bind_register :: "conn_id \<Rightarrow> int \<Rightarrow> after_bind \<Rightarrow> registry \<times> serving \<Rightarrow> registry \<times> serving" where
  "bind_register me userID a = (\<lambda>(r, v).
     if userID \<noteq> 0
     then (let (ok, r) = reg_Add userID me r in
           if \<not> ok then (r, v\<lparr>sv_pc := Disown\<rparr>)
           else (r, v\<lparr>sv_registered := userID, sv_pc := resume a\<rparr>))
     else (r, v\<lparr>sv_pc := resume a\<rparr>))"

text \<open>The callback that reserves the unbound-key hold once a frame's MAC has verified.\<close>

definition before_dispatch ::
  "auth_key_id \<Rightarrow> int \<Rightarrow> unbound_hold \<Rightarrow> unbound_limiter \<Rightarrow> bool \<times> unbound_hold \<times> unbound_limiter" where
  "before_dispatch k userID h l =
     (if uh_signedIn h \<or> userID \<noteq> 0 \<or> (uh_charged h \<and> uh_key h = k) then (True, h, l)
      else hold_charge k userID h l)"

text \<open>The claim of a pending-login slot after a frame that marked the connection.\<close>

definition claim_pending ::
  "gduration \<Rightarrow> gtime \<Rightarrow> auth_key_id \<Rightarrow> int \<Rightarrow> serving \<times> pending_limiter \<Rightarrow> serving \<times> pending_limiter" where
  "claim_pending lifetime now k userID = (\<lambda>(v, l).
     if \<not> sv_pendingObserved v \<and> PendingLogin (sv_conn v)
     then (let (ok, h, l) = pending_hold_acquire (sv_pending v) l;
               v = v\<lparr>sv_pendingObserved := True, sv_pending := h\<rparr> in
           if \<not> ok then (v\<lparr>sv_pc := Releasing\<rparr>, l)
           else (let since = (if pendingLoginSince (sv_conn v) = 0 then now else pendingLoginSince (sv_conn v)) in
                 (v\<lparr>sv_pendingDeadline := since + lifetime, sv_pc := Charging k userID\<rparr>, l)))
     else (v\<lparr>sv_pc := Charging k userID\<rparr>, l))"

text \<open>
  The user the post-dispatch charge is made for: the binding read again for a session that was
  unbound and not yet signed in, \<open>reread\<close> being \<open>None\<close> when the key is gone, else the frame's.
\<close>

definition charge_user :: "int \<Rightarrow> int option \<Rightarrow> unbound_hold \<Rightarrow> int" where
  "charge_user userID reread h =
     (if userID = 0 \<and> \<not> uh_signedIn h then (case reread of None \<Rightarrow> userID | Some u \<Rightarrow> u) else userID)"

definition charge_frame ::
  "auth_key_id \<Rightarrow> int \<Rightarrow> int option \<Rightarrow> serving \<times> unbound_limiter \<Rightarrow> serving \<times> unbound_limiter" where
  "charge_frame k userID reread = (\<lambda>(v, l).
     let (ok, h, l) = hold_charge k (charge_user userID reread (sv_hold v)) (sv_hold v) l in
     (v\<lparr>sv_hold := h, sv_pc := (if ok then Bind userID (ToTouch k) else Releasing)\<rparr>, l))"

definition touchInterval :: gduration where
  "touchInterval = 60 * second"

definition touch :: "gtime \<Rightarrow> gtime \<Rightarrow> bool \<times> gtime" where
  "touch now prev = (if time_sub now prev < touchInterval then (False, prev) else (True, now))"

text \<open>The deadline \<open>read\<close> waits under.\<close>

definition read_deadline :: "gtime \<Rightarrow> gduration \<Rightarrow> gtime \<Rightarrow> gtime" where
  "read_deadline now readTimeout deadline = (if deadline = 0 then now + readTimeout else deadline)"

text \<open>
  What a delivery does with the outcome of its push, which it acts on after the write lock is
  released. Closing the transport shows in the model as the connection failing; once the connection
  has ended it is listed nowhere, and the removal finds nothing.
\<close>

definition handlePushFailure :: "int \<Rightarrow> conn_id \<Rightarrow> push_result \<Rightarrow> registry \<Rightarrow> registry" where
  "handlePushFailure owner c result r = (if result = PushSendFailed then reg_Remove owner c r else r)"

section \<open>The machine\<close>

text \<open>What handlers, replies and deliveries may do to a connection: everything but bind it.\<close>

fun handler_op :: "conn_op \<Rightarrow> bool" where
  "handler_op (SetOwner u) = False"
| "handler_op (SetKey k) = False"
| "handler_op (SetSession s) = False"
| "handler_op op = callable op"

text \<open>The points an error of the network, the key store or a handler ends the connection from.\<close>

fun may_fail :: "pc \<Rightarrow> bool" where
  "may_fail Reading = True"
| "may_fail Exchanging = True"
| "may_fail (Resolving k) = True"
| "may_fail (Handling k u) = True"
| "may_fail (Running k u) = True"
| "may_fail (Charging k u) = True"
| "may_fail p = False"

abbreviation put :: "conn_id \<Rightarrow> serving \<Rightarrow> server \<Rightarrow> server" where
  "put me v s \<equiv> s\<lparr>s_conns := fmupd me v (s_conns s)\<rparr>"

inductive serve_step :: "gduration \<Rightarrow> server \<Rightarrow> server \<Rightarrow> bool" for lifetime where
  accept: "fmlookup (s_conns s) me = None \<Longrightarrow> admit (s_preAuth s) = (Some sl, l) \<Longrightarrow>
    serve_step lifetime s (put me (new_serving (armLifetime now sl l)) (s\<lparr>s_preAuth := l\<rparr>))"
| key_addr: "fmlookup (s_conns s) me = Some v \<Longrightarrow> sv_pc v = Accepted \<Longrightarrow>
    keyAddr a (sv_slot v) (s_preAuth s) = (ok, sl, l) \<Longrightarrow>
    serve_step lifetime s (put me (v\<lparr>sv_slot := sl, sv_pc := (if ok then Negotiating else Closed)\<rparr>) (s\<lparr>s_preAuth := l\<rparr>))"
| refused: "fmlookup (s_conns s) me = Some v \<Longrightarrow> sv_pc v = Accepted \<or> sv_pc v = Negotiating \<Longrightarrow>
    serve_step lifetime s (put me (v\<lparr>sv_pc := Closed\<rparr>) s)"
| negotiated: "fmlookup (s_conns s) me = Some v \<Longrightarrow> sv_pc v = Negotiating \<Longrightarrow>
    serve_step lifetime s (put me (v\<lparr>sv_pc := Reading\<rparr>) s)"
| failed: "fmlookup (s_conns s) me = Some v \<Longrightarrow> may_fail (sv_pc v) \<Longrightarrow>
    serve_step lifetime s (put me (v\<lparr>sv_pc := Releasing\<rparr>) s)"
| exchange: "fmlookup (s_conns s) me = Some v \<Longrightarrow> sv_pc v = Reading \<Longrightarrow>
    serve_step lifetime s (put me (v\<lparr>sv_pc := Bind 0 ToExchange\<rparr>) s)"
| exchanged: "fmlookup (s_conns s) me = Some v \<Longrightarrow> sv_pc v = Exchanging \<Longrightarrow>
    serve_step lifetime s (put me (v\<lparr>sv_pc := Reading\<rparr>) s)"
| encrypted: "fmlookup (s_conns s) me = Some v \<Longrightarrow> sv_pc v = Reading \<and> k \<noteq> 0 \<or> sv_pc v = Exchanging \<Longrightarrow>
    serve_step lifetime s (put me (v\<lparr>sv_pc := Resolving k\<rparr>) s)"
| unknown_key: "fmlookup (s_conns s) me = Some v \<Longrightarrow> sv_pc v = Resolving k \<Longrightarrow>
    serve_step lifetime s (put me (v\<lparr>sv_pc := (if sv_registered v \<noteq> 0 then Releasing else Reading)\<rparr>) s)"
| resolved: "fmlookup (s_conns s) me = Some v \<Longrightarrow> sv_pc v = Resolving k \<Longrightarrow>
    serve_step lifetime s (put me (v\<lparr>sv_conn := setKey (sint k) (sv_conn v), sv_pc := Handling k userID\<rparr>) s)"
| decrypted: "fmlookup (s_conns s) me = Some v \<Longrightarrow> sv_pc v = Handling k userID \<Longrightarrow>
    slot_clear (Some (sv_slot v)) (s_preAuth s) = (Some sl, l) \<Longrightarrow>
    serve_step lifetime s (put me (v\<lparr>sv_slot := sl, sv_pc := Authenticated k userID sid\<rparr>) (s\<lparr>s_preAuth := l\<rparr>))"
| session: "fmlookup (s_conns s) me = Some v \<Longrightarrow> sv_pc v = Authenticated k userID sid \<Longrightarrow>
    serve_step lifetime s (put me (v\<lparr>sv_conn := setSession sid (sv_conn v), sv_pc := BeforeDispatch k userID\<rparr>) s)"
| reserve: "fmlookup (s_conns s) me = Some v \<Longrightarrow> sv_pc v = BeforeDispatch k userID \<Longrightarrow>
    before_dispatch k userID (sv_hold v) (s_unboundKeys s) = (ok, h, l) \<Longrightarrow>
    serve_step lifetime s (put me (v\<lparr>sv_hold := h, sv_pc := (if ok then Running k userID else Releasing)\<rparr>) (s\<lparr>s_unboundKeys := l\<rparr>))"
| ran: "fmlookup (s_conns s) me = Some v \<Longrightarrow> sv_pc v = Running k userID \<Longrightarrow>
    serve_step lifetime s (put me (v\<lparr>sv_pc := Ran k userID\<rparr>) s)"
| pending: "fmlookup (s_conns s) me = Some v \<Longrightarrow> sv_pc v = Ran k userID \<Longrightarrow>
    claim_pending lifetime now k userID (v, s_pendingLogins s) = (v', l) \<Longrightarrow>
    serve_step lifetime s (put me v' (s\<lparr>s_pendingLogins := l\<rparr>))"
| charge: "fmlookup (s_conns s) me = Some v \<Longrightarrow> sv_pc v = Charging k userID \<Longrightarrow>
    charge_frame k userID reread (v, s_unboundKeys s) = (v', l) \<Longrightarrow>
    serve_step lifetime s (put me v' (s\<lparr>s_unboundKeys := l\<rparr>))"
| bind_owner: "fmlookup (s_conns s) me = Some v \<Longrightarrow> sv_pc v = Bind userID a \<Longrightarrow>
    serve_step lifetime s (put me (bind_owner userID a v) s)"
| bind_unregister: "fmlookup (s_conns s) me = Some v \<Longrightarrow> sv_pc v = Unregister userID a \<Longrightarrow>
    bind_unregister me userID a (s_registry s, v) = (r, v') \<Longrightarrow>
    serve_step lifetime s (put me v' (s\<lparr>s_registry := r\<rparr>))"
| bind_register: "fmlookup (s_conns s) me = Some v \<Longrightarrow> sv_pc v = Register userID a \<Longrightarrow>
    bind_register me userID a (s_registry s, v) = (r, v') \<Longrightarrow>
    serve_step lifetime s (put me v' (s\<lparr>s_registry := r\<rparr>))"
| disown: "fmlookup (s_conns s) me = Some v \<Longrightarrow> sv_pc v = Disown \<Longrightarrow>
    serve_step lifetime s (put me (v\<lparr>sv_conn := setOwner 0 (sv_conn v), sv_pc := Releasing\<rparr>) s)"
| touched: "fmlookup (s_conns s) me = Some v \<Longrightarrow> sv_pc v = Touching k \<Longrightarrow>
    serve_step lifetime s (put me (v\<lparr>sv_lastTouch := snd (touch now (sv_lastTouch v)), sv_pc := Reading\<rparr>) s)"
| release_pending: "fmlookup (s_conns s) me = Some v \<Longrightarrow> sv_pc v = Releasing \<Longrightarrow>
    pending_hold_release (sv_pending v) (s_pendingLogins s) = (h, l) \<Longrightarrow>
    serve_step lifetime s (put me (v\<lparr>sv_pending := h, sv_pc := ReleasingHold\<rparr>) (s\<lparr>s_pendingLogins := l\<rparr>))"
| release_hold: "fmlookup (s_conns s) me = Some v \<Longrightarrow> sv_pc v = ReleasingHold \<Longrightarrow>
    hold_release (sv_hold v) (s_unboundKeys s) = (h, l) \<Longrightarrow>
    serve_step lifetime s (put me (v\<lparr>sv_hold := h, sv_pc := Bind 0 ToExit\<rparr>) (s\<lparr>s_unboundKeys := l\<rparr>))"
| gone: "fmlookup (s_conns s) me = Some v \<Longrightarrow> sv_pc v = Closed \<Longrightarrow>
    slot_clear (Some (sv_slot v)) (s_preAuth s) = (Some sl, l) \<Longrightarrow>
    serve_step lifetime s (s\<lparr>s_preAuth := l, s_conns := fmdrop me (s_conns s)\<rparr>)"
| handler: "fmlookup (s_conns s) me = Some v \<Longrightarrow> handler_op op \<Longrightarrow>
    serve_step lifetime s (put me (v\<lparr>sv_conn := conn_do op (sv_conn v)\<rparr>) s)"
| push_failed: "fmlookup (s_conns s) me = Some v \<Longrightarrow> fst (PushTo env u pts (cn_barrier (sv_conn v))) = PushSendFailed \<Longrightarrow>
    serve_step lifetime s (put me (v\<lparr>sv_failed := u # sv_failed v\<rparr>) s)"
| push_dropped: "fmlookup (s_conns s) me = Some v \<Longrightarrow> u \<in> set (sv_failed v) \<Longrightarrow>
    serve_step lifetime s (s\<lparr>s_registry := handlePushFailure u me PushSendFailed (s_registry s)\<rparr>)"
| recovery_tick: "serve_step lifetime s (s\<lparr>s_registry := snd (DialogFilterRecoveryCandidates limit (s_registry s))\<rparr>)"

definition serve_start :: "server \<Rightarrow> bool" where
  "serve_start s \<longleftrightarrow> (\<exists>n m lims. s = \<lparr>s_registry = NewSessionRegistry, s_unboundKeys = newUnboundKeyLimiter n,
     s_pendingLogins = newPendingLoginLimiter m, s_preAuth = newPreAuthLimiter lims, s_conns = fmempty\<rparr>)"

section \<open>What the server keeps\<close>

abbreviation owner_of :: "serving \<Rightarrow> int" where
  "owner_of v \<equiv> br_owner (cn_barrier (sv_conn v))"

text \<open>The connection's owner against the user it is registered under.\<close>

fun owner_ok :: "pc \<Rightarrow> int \<Rightarrow> int \<Rightarrow> bool" where
  "owner_ok (Unregister u a) ow reg \<longleftrightarrow> ow = u"
| "owner_ok (Register u a) ow reg \<longleftrightarrow> ow = u \<and> reg = 0"
| "owner_ok Disown ow reg \<longleftrightarrow> reg = 0"
| "owner_ok p ow reg \<longleftrightarrow> ow = reg"

text \<open>The points before anything was taken or after everything was given back.\<close>

fun nothing_held :: "pc \<Rightarrow> bool" where
  "nothing_held Accepted = True"
| "nothing_held Negotiating = True"
| "nothing_held (Bind u a) = (a = ToExit)"
| "nothing_held (Unregister u a) = (a = ToExit)"
| "nothing_held (Register u a) = (a = ToExit)"
| "nothing_held Closed = True"
| "nothing_held p = False"

fun exit_ok :: "pc \<Rightarrow> int \<Rightarrow> bool" where
  "exit_ok (Bind u a) reg \<longleftrightarrow> (a = ToExit \<longrightarrow> u = 0)"
| "exit_ok (Unregister u a) reg \<longleftrightarrow> (a = ToExit \<longrightarrow> u = 0)"
| "exit_ok (Register u a) reg \<longleftrightarrow> (a = ToExit \<longrightarrow> u = 0)"
| "exit_ok p reg \<longleftrightarrow> (p = Accepted \<or> p = Negotiating \<or> p = Closed \<longrightarrow> reg = 0)"

definition serving_ok :: "serving \<Rightarrow> bool" where
  "serving_ok v \<longleftrightarrow>
     conn_wf (sv_conn v) \<and> owner_ok (sv_pc v) (owner_of v) (sv_registered v) \<and> exit_ok (sv_pc v) (sv_registered v) \<and>
     (nothing_held (sv_pc v) \<or> sv_pc v = ReleasingHold \<longrightarrow> \<not> ph_charged (sv_pending v)) \<and>
     (nothing_held (sv_pc v) \<longrightarrow> \<not> uh_charged (sv_hold v)) \<and>
     (sv_pc v = Accepted \<longrightarrow> ps_bucket (sv_slot v) = NoPrefix \<and> \<not> ps_cleared (sv_slot v))"

definition serve_inv :: "server \<Rightarrow> bool" where
  "serve_inv s \<longleftrightarrow>
     (\<forall>me v. fmlookup (s_conns s) me = Some v \<longrightarrow> serving_ok v) \<and> reg_wf (s_registry s) \<and>
     (\<forall>me u. me \<in> set (Conns (s_registry s) u) \<longrightarrow>
        (\<exists>v. fmlookup (s_conns s) me = Some v \<and> sv_registered v = u \<and> u \<noteq> 0)) \<and>
     (\<forall>me v. fmlookup (s_conns s) me = Some v \<and> sv_registered v \<noteq> 0 \<and> sv_registered v \<notin> set (sv_failed v) \<longrightarrow>
        me \<in> set (Conns (s_registry s) (sv_registered v)))"

lemma serve_invD:
  assumes "serve_inv s"
  shows "reg_wf (s_registry s)"
    and "me \<in> set (Conns (s_registry s) u) \<Longrightarrow> \<exists>v. fmlookup (s_conns s) me = Some v \<and> sv_registered v = u \<and> u \<noteq> 0"
    and "fmlookup (s_conns s) me = Some v \<Longrightarrow> sv_registered v = u \<Longrightarrow> u \<noteq> 0 \<Longrightarrow> u \<notin> set (sv_failed v) \<Longrightarrow>
      me \<in> set (Conns (s_registry s) u)"
  using assms unfolding serve_inv_def by blast+

lemma setOwner_owner [simp]: "br_owner (cn_barrier (setOwner u c)) = u"
  by (simp add: setOwner_def barrier_setOwner_def clear_barriers_def)

lemma setKey_owner [simp]: "br_owner (cn_barrier (setKey k c)) = br_owner (cn_barrier c)"
  by (simp add: setKey_def barrier_setKey_def clear_barriers_def Let_def)

lemma setSession_owner [simp]: "br_owner (cn_barrier (setSession x c)) = br_owner (cn_barrier c)"
  by (simp add: setSession_def Let_def)

lemma sendResult_owner:
  assumes "conn_wf c" and "\<And>b. barrier_wf b \<Longrightarrow> br_owner (f b) = br_owner b"
  shows "br_owner (cn_barrier (snd (snd (sendResult env f req c)))) = br_owner (cn_barrier c)"
  using assms by (simp add: sendResult_def conn_wf_def Let_def)

lemma handler_op_callable: "handler_op op \<Longrightarrow> callable op"
  by (cases op rule: handler_op.cases) simp_all

lemma handler_op_owner:
  assumes wf: "conn_wf c" and h: "handler_op op"
  shows "br_owner (cn_barrier (conn_do op c)) = br_owner (cn_barrier c)"
proof (cases op)
  case (BarrierOp bop)
  then have "\<And>u. bop \<noteq> Rebind u" using h by auto
  with BarrierOp wf show ?thesis by (simp add: conn_wf_def barrier_do_owner)
next
  case (ReplyMark env req owner key pts)
  then show ?thesis by (simp add: SendResultAndMarkRPCUpdate_def sendResult_owner [OF wf] result_wf)
next
  case (Reply env req)
  then show ?thesis by (simp add: SendResult_def sendResult_owner [OF wf])
next
  case (ReplyErr env req e)
  then show ?thesis by (simp add: SendErr_def SendResult_def sendResult_owner [OF wf])
qed (use h in \<open>simp_all add: markCreated_def MarkPendingLogin_def setSystemLangCodeHint_def ChargeUnimplemented_def
      ChargeLangpack_def LogUnimplemented_def LogUnimplementedClose_def case_prod_unfold Let_def\<close>)

text \<open>A step of one connection that keeps what the registry lists of the others.\<close>

lemma serve_inv_update:
  assumes inv: "serve_inv s" and v': "serving_ok v'" and r: "reg_wf r"
    and others: "\<And>c u. c \<noteq> me \<Longrightarrow> c \<in> set (Conns r u) \<longleftrightarrow> c \<in> set (Conns (s_registry s) u)"
    and listed: "\<And>u. me \<in> set (Conns r u) \<Longrightarrow> sv_registered v' = u \<and> u \<noteq> 0"
    and own: "sv_registered v' \<noteq> 0 \<Longrightarrow> sv_registered v' \<notin> set (sv_failed v') \<Longrightarrow> me \<in> set (Conns r (sv_registered v'))"
  shows "serve_inv (put me v' (s\<lparr>s_registry := r\<rparr>))"
proof -
  have "\<exists>v. fmlookup (fmupd me v' (s_conns s)) c = Some v \<and> sv_registered v = u \<and> u \<noteq> 0" if "c \<in> set (Conns r u)" for c u
    using that others [of c u] listed [of u] serve_invD(2) [OF inv, of c u] by (cases "c = me") auto
  moreover have "c \<in> set (Conns r (sv_registered v))"
    if "fmlookup (fmupd me v' (s_conns s)) c = Some v" "sv_registered v \<noteq> 0" "sv_registered v \<notin> set (sv_failed v)" for c v
    using that others [of c "sv_registered v"] own serve_invD(3) [OF inv, of c v] by (cases "c = me") auto
  moreover have "serving_ok v" if "fmlookup (fmupd me v' (s_conns s)) c = Some v" for c v
    using that v' inv by (cases "c = me") (auto simp: serve_inv_def)
  ultimately show ?thesis using r unfolding serve_inv_def by simp
qed

text \<open>A step that leaves the registry and the connection's registration alone.\<close>

lemma serve_inv_put:
  assumes "serve_inv s" and "fmlookup (s_conns s) me = Some v" and "serving_ok v'" and "sv_registered v' = sv_registered v"
    and "set (sv_failed v) \<subseteq> set (sv_failed v')"
  shows "serve_inv (put me v' s)"
proof -
  have "serve_inv (put me v' (s\<lparr>s_registry := s_registry s\<rparr>))"
  proof (rule serve_inv_update [OF assms(1,3) serve_invD(1) [OF assms(1)] refl])
    show "sv_registered v' = u \<and> u \<noteq> 0" if "me \<in> set (Conns (s_registry s) u)" for u
      using serve_invD(2) [OF assms(1) that] assms(2,4) by auto
    show "me \<in> set (Conns (s_registry s) (sv_registered v'))" if "sv_registered v' \<noteq> 0" "sv_registered v' \<notin> set (sv_failed v')"
      using that assms(4,5) serve_invD(3) [OF assms(1,2)] by auto
  qed
  then show ?thesis by simp
qed

lemma serve_inv_limiters [simp]:
  "serve_inv (s\<lparr>s_unboundKeys := x, s_conns := m\<rparr>) = serve_inv (s\<lparr>s_conns := m\<rparr>)"
  "serve_inv (s\<lparr>s_pendingLogins := y, s_conns := m\<rparr>) = serve_inv (s\<lparr>s_conns := m\<rparr>)"
  "serve_inv (s\<lparr>s_preAuth := z, s_conns := m\<rparr>) = serve_inv (s\<lparr>s_conns := m\<rparr>)"
  by (simp_all add: serve_inv_def)

lemma serve_inv_serving: "serve_inv s \<Longrightarrow> fmlookup (s_conns s) me = Some v \<Longrightarrow> serving_ok v"
  by (simp add: serve_inv_def)

lemma serve_inv_accept:
  assumes "serve_inv s" and "fmlookup (s_conns s) me = None" and "admit l = (Some sl, l')"
  shows "serve_inv (put me (new_serving (armLifetime now sl l')) (s\<lparr>s_preAuth := x\<rparr>))"
proof -
  have "serving_ok (new_serving (armLifetime now sl l'))"
    using assms(3) newConn_wf
    by (auto simp: serving_ok_def new_serving_def new_hold_def admit_def armLifetime_def new_slot_def newConn_def
        new_barrier_def split: if_splits)
  moreover have "sv_registered (new_serving (armLifetime now sl l')) = 0" by (simp add: new_serving_def)
  moreover have "me \<notin> set (Conns (s_registry s) u)" for u using serve_invD(2) [OF assms(1), of me u] assms(2) by auto
  ultimately have "serve_inv (put me (new_serving (armLifetime now sl l')) (s\<lparr>s_registry := s_registry s\<rparr>))"
    by (intro serve_inv_update [OF assms(1) _ serve_invD(1) [OF assms(1)]]) auto
  then show ?thesis by simp
qed

lemma serve_inv_gone:
  assumes "serve_inv s" and "fmlookup (s_conns s) me = Some v" and "sv_pc v = Closed"
  shows "serve_inv (s\<lparr>s_preAuth := x, s_conns := fmdrop me (s_conns s)\<rparr>)"
proof -
  have "sv_registered v = 0" using serve_inv_serving [OF assms(1,2)] assms(3) by (simp add: serving_ok_def)
  then have "me \<notin> set (Conns (s_registry s) u)" for u using serve_invD(2) [OF assms(1), of me u] assms(2) by auto
  then have "c \<noteq> me" if "c \<in> set (Conns (s_registry s) u)" for c u using that by blast
  with assms(1) show ?thesis unfolding serve_inv_def by (auto split: if_splits)
qed

lemma serve_inv_unregister:
  assumes inv: "serve_inv s" and v: "fmlookup (s_conns s) me = Some v" and pc: "sv_pc v = Unregister userID a"
    and b: "bind_unregister me userID a (s_registry s, v) = (r, v')"
  shows "serve_inv (put me v' (s\<lparr>s_registry := r\<rparr>))"
proof -
  let ?w = "sv_registered v"
  have r: "r = (if ?w \<noteq> 0 then reg_Remove ?w me (s_registry s) else s_registry s)"
    and v': "v' = v\<lparr>sv_registered := 0, sv_pc := Register userID a\<rparr>" using b by (auto simp: bind_unregister_def)
  note wf = serve_invD(1) [OF inv]
  have "serving_ok v'" using serve_inv_serving [OF inv v] pc by (simp add: serving_ok_def v')
  moreover have "reg_wf r" using wf reg_wf_Remove [OF wf] by (simp add: r)
  moreover have "c \<in> set (Conns r u) \<longleftrightarrow> c \<noteq> me \<and> c \<in> set (Conns (s_registry s) u)" for c u
  proof (cases "u = ?w \<and> ?w \<noteq> 0")
    case True
    moreover have "distinct (Conns (s_registry s) u)" using wf by (simp add: reg_wf_def)
    ultimately show ?thesis by (auto simp: r Conns_Remove)
  next
    case False
    then have "Conns r u = Conns (s_registry s) u" by (auto simp: r Conns_Remove)
    moreover have "me \<notin> set (Conns (s_registry s) u)" using False v serve_invD(2) [OF inv, of me u] by auto
    ultimately show ?thesis by auto
  qed
  ultimately show ?thesis by (intro serve_inv_update [OF inv]) (auto simp: v')
qed

text \<open>A removal reported by a failed push takes the connection off that user's list and no other.\<close>

lemma serve_inv_dropped:
  assumes inv: "serve_inv s" and v: "fmlookup (s_conns s) me = Some v" and u: "u \<in> set (sv_failed v)"
  shows "serve_inv (s\<lparr>s_registry := handlePushFailure u me PushSendFailed (s_registry s)\<rparr>)"
proof -
  let ?r = "reg_Remove u me (s_registry s)"
  note wf = serve_invD(1) [OF inv]
  have sub: "c \<in> set (Conns ?r w) \<Longrightarrow> c \<in> set (Conns (s_registry s) w)" for c w
    using notin_set_remove1 by (fastforce simp: Conns_Remove split: if_splits)
  have kept: "c \<in> set (Conns (s_registry s) w) \<Longrightarrow> c \<noteq> me \<or> w \<noteq> u \<Longrightarrow> c \<in> set (Conns ?r w)" for c w
    by (auto simp: Conns_Remove)
  have "c \<in> set (Conns ?r (sv_registered x))"
    if x: "fmlookup (s_conns s) c = Some x" "sv_registered x \<noteq> 0" "sv_registered x \<notin> set (sv_failed x)" for c x
  proof (rule kept [OF serve_invD(3) [OF inv x(1) refl x(2,3)]])
    show "c \<noteq> me \<or> sv_registered x \<noteq> u" using x(1,3) v u by auto
  qed
  moreover have "\<exists>x. fmlookup (s_conns s) c = Some x \<and> sv_registered x = w \<and> w \<noteq> 0" if "c \<in> set (Conns ?r w)" for c w
    using serve_invD(2) [OF inv sub [OF that]] .
  ultimately show ?thesis using inv reg_wf_Remove [OF wf] unfolding serve_inv_def by (auto simp: handlePushFailure_def)
qed

lemma resume_cases:
  "exit_ok (resume a) 0" "resume a \<noteq> Accepted" "resume a \<noteq> ReleasingHold" "nothing_held (resume a) \<longleftrightarrow> a = ToExit"
  "owner_ok (resume a) ow reg \<longleftrightarrow> ow = reg" "a \<noteq> ToExit \<Longrightarrow> exit_ok (resume a) reg"
  by (cases a; simp add: resume_def)+

lemma serve_inv_register:
  assumes inv: "serve_inv s" and v: "fmlookup (s_conns s) me = Some v" and pc: "sv_pc v = Register userID a"
    and b: "bind_register me userID a (s_registry s, v) = (r, v')"
  shows "serve_inv (put me v' (s\<lparr>s_registry := r\<rparr>))"
proof -
  note wf = serve_invD(1) [OF inv]
  have ok: "serving_ok v" by (rule serve_inv_serving [OF inv v])
  then have reg: "sv_registered v = 0" "owner_of v = userID" "a = ToExit \<longrightarrow> userID = 0"
    using pc by (simp_all add: serving_ok_def)
  obtain added r1 where add: "reg_Add userID me (s_registry s) = (added, r1)" by fastforce
  show ?thesis
  proof (cases "userID \<noteq> 0 \<and> added")
    case True
    then have v': "v' = v\<lparr>sv_registered := userID, sv_pc := resume a\<rparr>" and r: "r = r1"
      using b add by (auto simp: bind_register_def)
    have free: "me \<notin> live_conns (s_registry s)"
      using v reg(1) serve_invD(2) [OF inv, of me] by (auto simp: live_conns_def)
    have "reg_wf r" using reg_wf_Add [OF wf free add] r by simp
    moreover have "serving_ok v'"
      using ok pc reg True resume_cases(6) [of a userID] by (auto simp: serving_ok_def v' resume_cases)
    moreover have "c \<in> set (Conns r u) \<longleftrightarrow> (c = me \<and> u = userID) \<or> c \<in> set (Conns (s_registry s) u)" for c u
      using Conns_Add [of userID me "s_registry s" r1] add True by (auto simp: r)
    ultimately show ?thesis
      using True free by (intro serve_inv_update [OF inv]) (auto simp: v' live_conns_def)
  next
    case False
    then have r: "r = s_registry s" and v': "sv_registered v' = sv_registered v" "serving_ok v'" "sv_failed v' = sv_failed v"
      using b add ok pc reg
      by (auto simp: bind_register_def reg_Add_def serving_ok_def resume_cases split: if_splits)
    from serve_inv_put [OF inv v v'(2,1)] v'(3) show ?thesis by (simp add: r)
  qed
qed

lemma claim_pending_ok:
  assumes "claim_pending lifetime now k userID (v, l) = (v', l')" and "serving_ok v" and "sv_pc v = Ran k userID"
  shows "serving_ok v' \<and> sv_registered v' = sv_registered v \<and> sv_failed v' = sv_failed v"
  using assms by (auto simp: claim_pending_def serving_ok_def Let_def split: if_splits prod.splits)

lemma charge_frame_ok:
  assumes "charge_frame k userID reread (v, l) = (v', l')" and "serving_ok v" and "sv_pc v = Charging k userID"
  shows "serving_ok v' \<and> sv_registered v' = sv_registered v \<and> sv_failed v' = sv_failed v"
  using assms by (auto simp: charge_frame_def serving_ok_def Let_def split: if_splits prod.splits)

lemma bind_owner_ok:
  assumes "serving_ok v" and "sv_pc v = Bind userID a"
  shows "serving_ok (bind_owner userID a v) \<and> sv_registered (bind_owner userID a v) = sv_registered v \<and>
    sv_failed (bind_owner userID a v) = sv_failed v"
  using assms by (cases a) (auto simp: bind_owner_def serving_ok_def setOwner_wf resume_def)

lemma release_ok:
  assumes "serving_ok v"
  shows "sv_pc v = Releasing \<Longrightarrow> pending_hold_release (sv_pending v) l = (h, l') \<Longrightarrow>
      serving_ok (v\<lparr>sv_pending := h, sv_pc := ReleasingHold\<rparr>)"
    and "sv_pc v = ReleasingHold \<Longrightarrow> hold_release (sv_hold v) l2 = (h2, l2') \<Longrightarrow>
      serving_ok (v\<lparr>sv_hold := h2, sv_pc := Bind 0 ToExit\<rparr>)"
  using assms by (auto simp: serving_ok_def pending_hold_release_def hold_release_def split: if_splits)

lemma failed_ok:
  assumes "serving_ok v" and "may_fail (sv_pc v)"
  shows "serving_ok (v\<lparr>sv_pc := Releasing\<rparr>)"
  using assms by (cases "sv_pc v") (simp_all add: serving_ok_def)

lemma serve_step_inv:
  assumes step: "serve_step lifetime s t" and inv: "serve_inv s"
  shows "serve_inv t"
  using step
proof cases
  case (accept me sl l now)
  then show ?thesis using serve_inv_accept [OF inv] by simp
next
  case (gone me v sl l)
  then show ?thesis using serve_inv_gone [OF inv] by simp
next
  case (bind_unregister me v userID a r v')
  then show ?thesis using serve_inv_unregister [OF inv] by simp
next
  case (bind_register me v userID a r v')
  then show ?thesis using serve_inv_register [OF inv] by simp
next
  case (pending me v k userID now v' l)
  with claim_pending_ok [OF pending(4) serve_inv_serving [OF inv pending(2)]] serve_inv_put [OF inv pending(2)]
  show ?thesis by simp
next
  case (charge me v k userID reread v' l)
  with charge_frame_ok [OF charge(4) serve_inv_serving [OF inv charge(2)]] serve_inv_put [OF inv charge(2)]
  show ?thesis by simp
next
  case (bind_owner me v userID a)
  with bind_owner_ok [OF serve_inv_serving [OF inv bind_owner(2)]] serve_inv_put [OF inv bind_owner(2)]
  show ?thesis by simp
next
  case (release_pending me v h l)
  with release_ok(1) [OF serve_inv_serving [OF inv release_pending(2)]] serve_inv_put [OF inv release_pending(2)]
  show ?thesis by simp
next
  case (release_hold me v h l)
  with release_ok(2) [OF serve_inv_serving [OF inv release_hold(2)]] serve_inv_put [OF inv release_hold(2)]
  show ?thesis by simp
next
  case (failed me v)
  with failed_ok [OF serve_inv_serving [OF inv failed(2)]] serve_inv_put [OF inv failed(2)] show ?thesis by simp
next
  case (handler me v op)
  have ok: "serving_ok v" by (rule serve_inv_serving [OF inv handler(2)])
  then have "serving_ok (v\<lparr>sv_conn := conn_do op (sv_conn v)\<rparr>)"
    using handler(3) by (simp add: serving_ok_def handler_op_owner conn_do_wf handler_op_callable)
  with handler serve_inv_put [OF inv handler(2)] show ?thesis by simp
next
  case (push_failed me v env u pts)
  have "serving_ok (v\<lparr>sv_failed := u # sv_failed v\<rparr>)" using serve_inv_serving [OF inv push_failed(2)] by (simp add: serving_ok_def)
  from serve_inv_put [OF inv push_failed(2) this] push_failed(1) show ?thesis by (simp add: subset_insertI)
next
  case (push_dropped me v u)
  then show ?thesis using serve_inv_dropped [OF inv] by simp
next
  case (recovery_tick limit)
  with inv show ?thesis
    by (simp add: serve_inv_def reg_wf_Candidates Conns_def)
next
  case (key_addr me v a ok sl l)
  with serve_inv_serving [OF inv key_addr(2)] serve_inv_put [OF inv key_addr(2)] show ?thesis by (simp add: serving_ok_def)
next
  case (refused me v)
  with serve_inv_serving [OF inv refused(2)] serve_inv_put [OF inv refused(2)] show ?thesis by (auto simp: serving_ok_def)
next
  case (negotiated me v)
  with serve_inv_serving [OF inv negotiated(2)] serve_inv_put [OF inv negotiated(2)] show ?thesis by (simp add: serving_ok_def)
next
  case (exchange me v)
  with serve_inv_serving [OF inv exchange(2)] serve_inv_put [OF inv exchange(2)] show ?thesis by (simp add: serving_ok_def)
next
  case (exchanged me v)
  with serve_inv_serving [OF inv exchanged(2)] serve_inv_put [OF inv exchanged(2)] show ?thesis by (simp add: serving_ok_def)
next
  case (encrypted me v k)
  with serve_inv_serving [OF inv encrypted(2)] serve_inv_put [OF inv encrypted(2)] show ?thesis by (auto simp: serving_ok_def)
next
  case (unknown_key me v k)
  with serve_inv_serving [OF inv unknown_key(2)] serve_inv_put [OF inv unknown_key(2)] show ?thesis by (simp add: serving_ok_def)
next
  case (resolved me v k userID)
  with serve_inv_serving [OF inv resolved(2)] serve_inv_put [OF inv resolved(2)] show ?thesis by (simp add: serving_ok_def setKey_wf)
next
  case (decrypted me v k userID sl l sid)
  with serve_inv_serving [OF inv decrypted(2)] serve_inv_put [OF inv decrypted(2)] show ?thesis by (simp add: serving_ok_def)
next
  case (session me v k userID sid)
  with serve_inv_serving [OF inv session(2)] serve_inv_put [OF inv session(2)] show ?thesis by (simp add: serving_ok_def setSession_wf)
next
  case (reserve me v k userID ok h l)
  with serve_inv_serving [OF inv reserve(2)] serve_inv_put [OF inv reserve(2)] show ?thesis by (simp add: serving_ok_def)
next
  case (ran me v k userID)
  with serve_inv_serving [OF inv ran(2)] serve_inv_put [OF inv ran(2)] show ?thesis by (simp add: serving_ok_def)
next
  case (disown me v)
  with serve_inv_serving [OF inv disown(2)] serve_inv_put [OF inv disown(2)] show ?thesis by (simp add: serving_ok_def setOwner_wf)
next
  case (touched me v k now)
  with serve_inv_serving [OF inv touched(2)] serve_inv_put [OF inv touched(2)] show ?thesis by (simp add: serving_ok_def)
qed

section \<open>The limiters as the server uses them\<close>

text \<open>
  A machine whose steps are, seen through \<open>abs\<close>, steps of another or nothing at all reaches only
  what the other reaches.
\<close>

locale stuttering_refinement = invariant_machine start step inv
  for start :: "'s \<Rightarrow> bool" and step :: "'s \<Rightarrow> 's \<Rightarrow> bool" and inv :: "'s \<Rightarrow> bool" +
  fixes abs :: "'s \<Rightarrow> 'a"
    and astep :: "'a \<Rightarrow> 'a \<Rightarrow> bool"
  assumes refines: "step s t \<Longrightarrow> inv s \<Longrightarrow> abs t = abs s \<or> astep (abs s) (abs t)"
begin

lemma reach_abs:
  assumes "reach step s t" and "start s"
  shows "reach astep (abs s) (abs t)"
  using assms
proof (induction rule: reach.induct)
  case (reach_step s t u)
  then have "inv t" by (blast intro: reachable_inv)
  with refines [OF reach_step.hyps(2)] reach_step show ?case by (metis reach.reach_step)
qed (rule reach.reach_refl)

end

definition unbound_of :: "server \<Rightarrow> unbound_sys" where
  "unbound_of s = \<lparr>us_lim = s_unboundKeys s, us_holds = fmmap sv_hold (s_conns s)\<rparr>"

definition pending_of :: "server \<Rightarrow> pending_sys" where
  "pending_of s = \<lparr>pns_lim = s_pendingLogins s, pns_holds = fmmap sv_pending (s_conns s)\<rparr>"

definition preauth_of :: "server \<Rightarrow> preauth_sys" where
  "preauth_of s = \<lparr>pas_lim = s_preAuth s, pas_slots = fmmap sv_slot (s_conns s)\<rparr>"

lemma fmmap_upd [simp]: "fmmap f (fmupd k v m) = fmupd k (f v) (fmmap f m)"
  by (rule fmap_ext) simp

lemma fmupd_same: "fmlookup m k = Some v \<Longrightarrow> f v' = f v \<Longrightarrow> fmupd k (f v') (fmmap f m) = fmmap f m"
  by (rule fmap_ext) auto

lemma unbound_refines:
  assumes "serve_step lifetime s t" and "serve_inv s"
  shows "unbound_of t = unbound_of s \<or> unbound_step (unbound_of s) (unbound_of t)"
  using assms(1)
proof cases
  case (accept me sl l now)
  with ub_open [of "unbound_of s" me] show ?thesis by (simp add: unbound_of_def new_serving_def)
next
  case (reserve me v k userID ok h l)
  show ?thesis
  proof (cases "uh_signedIn (sv_hold v) \<or> userID \<noteq> 0 \<or> (uh_charged (sv_hold v) \<and> uh_key (sv_hold v) = k)")
    case True
    with reserve have "h = sv_hold v" "l = s_unboundKeys s" by (auto simp: before_dispatch_def)
    with reserve show ?thesis by (simp add: unbound_of_def fmupd_same)
  next
    case False
    note c = reserve(4) [unfolded before_dispatch_def if_not_P [OF False]]
    show ?thesis using reserve(1,2) c ub_frame [of "unbound_of s" me "sv_hold v" k userID ok h l]
      by (simp add: unbound_of_def)
  qed
next
  case (charge me v k userID reread v' l)
  then obtain ok h where "hold_charge k (charge_user userID reread (sv_hold v)) (sv_hold v) (s_unboundKeys s) = (ok, h, l)"
    and "sv_hold v' = h" by (auto simp: charge_frame_def Let_def split: prod.splits)
  with charge ub_frame [of "unbound_of s" me "sv_hold v" k _ ok h l] show ?thesis by (simp add: unbound_of_def)
next
  case (release_hold me v h l)
  with ub_release [of "unbound_of s" me "sv_hold v" h l] show ?thesis by (simp add: unbound_of_def)
next
  case (gone me v sl l)
  then have h: "hold_release (sv_hold v) (us_lim (unbound_of s)) = (sv_hold v, us_lim (unbound_of s))"
    using serve_inv_serving [OF assms(2) gone(2)] by (simp add: serving_ok_def hold_release_def)
  have l: "fmlookup (us_holds (unbound_of s)) me = Some (sv_hold v)" using gone(2) by (simp add: unbound_of_def)
  have "unbound_of t = \<lparr>us_lim = us_lim (unbound_of s), us_holds = fmdrop me (us_holds (unbound_of s))\<rparr>"
    by (simp add: unbound_of_def gone(1))
  then show ?thesis using ub_close [OF l h] by (simp only: simp_thms)
next
  case (pending me v k userID now v' l)
  then have "sv_hold v' = sv_hold v" by (auto simp: claim_pending_def Let_def split: if_splits prod.splits)
  with pending show ?thesis by (simp add: unbound_of_def fmupd_same)
next
  case (bind_unregister me v userID a r v')
  then have "sv_hold v' = sv_hold v" by (auto simp: bind_unregister_def)
  with bind_unregister show ?thesis by (simp add: unbound_of_def fmupd_same)
next
  case (bind_register me v userID a r v')
  then have "sv_hold v' = sv_hold v" by (auto simp: bind_register_def split: if_splits prod.splits)
  with bind_register show ?thesis by (simp add: unbound_of_def fmupd_same)
qed (auto simp: bind_owner_def unbound_of_def fmupd_same)

lemma pending_refines:
  assumes "serve_step lifetime s t" and "serve_inv s"
  shows "pending_of t = pending_of s \<or> pending_step (pending_of s) (pending_of t)"
  using assms(1)
proof cases
  case (accept me sl l now)
  with pn_open [of "pending_of s" me] show ?thesis by (simp add: pending_of_def new_serving_def)
next
  case (pending me v k userID now v' l)
  show ?thesis
  proof (cases "\<not> sv_pendingObserved v \<and> PendingLogin (sv_conn v)")
    case True
    then obtain ok h where "pending_hold_acquire (sv_pending v) (s_pendingLogins s) = (ok, h, l)" and "sv_pending v' = h"
      using pending by (auto simp: claim_pending_def Let_def split: prod.splits if_splits)
    with pending pn_marked [of "pending_of s" me "sv_pending v" ok h l] show ?thesis by (simp add: pending_of_def)
  next
    case False
    then have "sv_pending v' = sv_pending v" "l = s_pendingLogins s" using pending by (auto simp: claim_pending_def)
    with pending show ?thesis by (simp add: pending_of_def fmupd_same)
  qed
next
  case (release_pending me v h l)
  with pn_release [of "pending_of s" me "sv_pending v" h l] show ?thesis by (simp add: pending_of_def)
next
  case (gone me v sl l)
  then have h: "pending_hold_release (sv_pending v) (pns_lim (pending_of s)) = (sv_pending v, pns_lim (pending_of s))"
    using serve_inv_serving [OF assms(2) gone(2)] by (simp add: serving_ok_def pending_hold_release_def)
  have l: "fmlookup (pns_holds (pending_of s)) me = Some (sv_pending v)" using gone(2) by (simp add: pending_of_def)
  have "pending_of t = \<lparr>pns_lim = pns_lim (pending_of s), pns_holds = fmdrop me (pns_holds (pending_of s))\<rparr>"
    by (simp add: pending_of_def gone(1))
  then show ?thesis using pn_close [OF l h] by (simp only: simp_thms)
next
  case (charge me v k userID reread v' l)
  then have "sv_pending v' = sv_pending v" by (auto simp: charge_frame_def Let_def split: prod.splits)
  with charge show ?thesis by (simp add: pending_of_def fmupd_same)
next
  case (bind_unregister me v userID a r v')
  then have "sv_pending v' = sv_pending v" by (auto simp: bind_unregister_def)
  with bind_unregister show ?thesis by (simp add: pending_of_def fmupd_same)
next
  case (bind_register me v userID a r v')
  then have "sv_pending v' = sv_pending v" by (auto simp: bind_register_def split: if_splits prod.splits)
  with bind_register show ?thesis by (simp add: pending_of_def fmupd_same)
qed (auto simp: bind_owner_def pending_of_def fmupd_same)

lemma preauth_refines:
  assumes "serve_step lifetime s t" and "serve_inv s"
  shows "preauth_of t = preauth_of s \<or> preauth_step (preauth_of s) (preauth_of t)"
  using assms(1)
proof cases
  case (accept me sl l now)
  with pa_accept [of "preauth_of s" me sl l now] show ?thesis by (simp add: preauth_of_def new_serving_def)
next
  case (key_addr me v a ok sl l)
  then have "ps_bucket (sv_slot v) = NoPrefix \<and> \<not> ps_cleared (sv_slot v)"
    using serve_inv_serving [OF assms(2) key_addr(2)] by (simp add: serving_ok_def)
  with key_addr pa_key [of "preauth_of s" me "sv_slot v" a ok sl l] show ?thesis by (simp add: preauth_of_def)
next
  case (decrypted me v k userID sl l sid)
  with pa_clear [of "preauth_of s" me "sv_slot v" sl l] show ?thesis by (simp add: preauth_of_def)
next
  case (gone me v sl l)
  with pa_close [of "preauth_of s" me "sv_slot v" sl l] show ?thesis by (simp add: preauth_of_def)
next
  case (pending me v k userID now v' l)
  then have "sv_slot v' = sv_slot v" by (auto simp: claim_pending_def Let_def split: if_splits prod.splits)
  with pending show ?thesis by (simp add: preauth_of_def fmupd_same)
next
  case (charge me v k userID reread v' l)
  then have "sv_slot v' = sv_slot v" by (auto simp: charge_frame_def Let_def split: prod.splits)
  with charge show ?thesis by (simp add: preauth_of_def fmupd_same)
next
  case (bind_unregister me v userID a r v')
  then have "sv_slot v' = sv_slot v" by (auto simp: bind_unregister_def)
  with bind_unregister show ?thesis by (simp add: preauth_of_def fmupd_same)
next
  case (bind_register me v userID a r v')
  then have "sv_slot v' = sv_slot v" by (auto simp: bind_register_def split: if_splits prod.splits)
  with bind_register show ?thesis by (simp add: preauth_of_def fmupd_same)
qed (auto simp: bind_owner_def preauth_of_def fmupd_same)

lemma serve_start_inv: "serve_start s \<Longrightarrow> serve_inv s"
  using reg_wf_New by (auto simp: serve_start_def serve_inv_def NewSessionRegistry_def Conns_def)

interpretation svm: invariant_machine serve_start "serve_step lifetime" serve_inv for lifetime
  by unfold_locales (auto intro: serve_start_inv serve_step_inv)

interpretation svu: stuttering_refinement serve_start "serve_step lifetime" serve_inv unbound_of unbound_step for lifetime
  by unfold_locales (rule unbound_refines)

interpretation svp: stuttering_refinement serve_start "serve_step lifetime" serve_inv pending_of pending_step for lifetime
  by unfold_locales (rule pending_refines)

interpretation sva: stuttering_refinement serve_start "serve_step lifetime" serve_inv preauth_of preauth_step for lifetime
  by unfold_locales (rule preauth_refines)

lemma serve_start_parts:
  assumes "serve_start s"
  shows "unbound_init (unbound_of s)" "pending_init (pending_of s)" "preauth_init (preauth_of s)"
  using assms
  by (auto simp: serve_start_def unbound_of_def unbound_init_def pending_of_def pending_init_def preauth_of_def preauth_init_def)

section \<open>Properties\<close>

text \<open>
  C6. The served connections stay within every bound at once. However the goroutines of any number
  of connections interleave through accepting, key exchange, authentication, dispatch, sign-in,
  rebinding, failed pushes and every way of ending, the connections held against one unbound key, the
  connections between the steps of a two-factor login and the unauthenticated connections are each
  within their cap, and the counters the three limiters decide by are exactly those numbers. A user
  has at most twenty connections listed, and every live connection registered under the user is
  among them unless a push to it for that user has failed; such a connection is closed already and
  may be off the list while its goroutine unwinds.
\<close>

theorem server_within_bounds:
  assumes "serve_start s0" and "reach (serve_step lifetime) s0 s"
    and "0 < ub_max (s_unboundKeys s)" and "0 < pn_max (s_pendingLogins s)" and "0 < MaxConns (pl_limits (s_preAuth s))"
  shows "mget (ub_conns (s_unboundKeys s)) k =
      int (card {me. \<exists>v. fmlookup (s_conns s) me = Some v \<and> uh_charged (sv_hold v) \<and> uh_key (sv_hold v) = k}) \<and>
    mget (ub_conns (s_unboundKeys s)) k \<le> ub_max (s_unboundKeys s) \<and>
    pn_count (s_pendingLogins s) = int (card {me. \<exists>v. fmlookup (s_conns s) me = Some v \<and> ph_charged (sv_pending v)}) \<and>
    pn_count (s_pendingLogins s) \<le> pn_max (s_pendingLogins s) \<and>
    pl_conns (s_preAuth s) = int (card {me. \<exists>v. fmlookup (s_conns s) me = Some v \<and> \<not> ps_cleared (sv_slot v)}) \<and>
    pl_conns (s_preAuth s) \<le> MaxConns (pl_limits (s_preAuth s)) \<and>
    length (Conns (s_registry s) u) \<le> 20 \<and>
    (u \<noteq> 0 \<longrightarrow> card {me. \<exists>v. fmlookup (s_conns s) me = Some v \<and> sv_registered v = u \<and> u \<notin> set (sv_failed v)} \<le> 20)"
proof -
  have u: "unbound_inv (unbound_of s)"
    by (rule ukm.reachable_inv [OF serve_start_parts(1) [OF assms(1)] svu.reach_abs [OF assms(2,1)]])
  have p: "pending_inv (pending_of s)"
    by (rule plm.reachable_inv [OF serve_start_parts(2) [OF assms(1)] svp.reach_abs [OF assms(2,1)]])
  have a: "preauth_inv (preauth_of s)"
    by (rule pam.reachable_inv [OF serve_start_parts(3) [OF assms(1)] sva.reach_abs [OF assms(2,1)]])
  have i: "serve_inv s" by (rule svm.reachable_inv [OF assms(1,2)])
  have cu: "slot_at hold_slot (fmmap sv_hold (s_conns s)) me = Some k \<longleftrightarrow>
      (\<exists>v. fmlookup (s_conns s) me = Some v \<and> uh_charged (sv_hold v) \<and> uh_key (sv_hold v) = k)" for me
    by (auto simp: slot_at_def hold_slot_def split: option.splits)
  have cp: "slot_at pending_slot (fmmap sv_pending (s_conns s)) me = Some () \<longleftrightarrow>
      (\<exists>v. fmlookup (s_conns s) me = Some v \<and> ph_charged (sv_pending v))" for me
    by (auto simp: slot_at_def pending_slot_def split: option.splits)
  have ca: "slot_at global_slot (fmmap sv_slot (s_conns s)) me = Some () \<longleftrightarrow>
      (\<exists>v. fmlookup (s_conns s) me = Some v \<and> \<not> ps_cleared (sv_slot v))" for me
    by (auto simp: slot_at_def global_slot_def split: option.splits)
  from pool_agreesD [of unbound_held ub_max hold_slot "s_unboundKeys s" "fmmap sv_hold (s_conns s)" k] u assms(3)
  have 1: "mget (ub_conns (s_unboundKeys s)) k = int (occupants hold_slot (fmmap sv_hold (s_conns s)) k)"
      "mget (ub_conns (s_unboundKeys s)) k \<le> ub_max (s_unboundKeys s)"
    by (simp_all add: unbound_inv_def unbound_of_def)
  from pool_agreesD [of pending_held pn_max pending_slot "s_pendingLogins s" "fmmap sv_pending (s_conns s)" "()"] p assms(4)
  have 2: "pn_count (s_pendingLogins s) = int (occupants pending_slot (fmmap sv_pending (s_conns s)) ())"
      "pn_count (s_pendingLogins s) \<le> pn_max (s_pendingLogins s)"
    by (simp_all add: pending_inv_def pending_of_def pending_held_def)
  from pool_agreesD [of global_held global_cap global_slot "s_preAuth s" "fmmap sv_slot (s_conns s)" "()"] a assms(5)
  have 3: "pl_conns (s_preAuth s) = int (occupants global_slot (fmmap sv_slot (s_conns s)) ())"
      "pl_conns (s_preAuth s) \<le> MaxConns (pl_limits (s_preAuth s))"
    by (simp_all add: preauth_inv_def preauth_of_def pool_views)
  from i have 4: "length (Conns (s_registry s) u) \<le> 20" by (simp add: serve_inv_def reg_wf_def MaxUserConns_def)
  have "card {me. \<exists>v. fmlookup (s_conns s) me = Some v \<and> sv_registered v = u \<and> u \<notin> set (sv_failed v)} \<le> 20" if "u \<noteq> 0"
  proof -
    have "{me. \<exists>v. fmlookup (s_conns s) me = Some v \<and> sv_registered v = u \<and> u \<notin> set (sv_failed v)} \<subseteq> set (Conns (s_registry s) u)"
      using that serve_invD(3) [OF i] by blast
    then have "card {me. \<exists>v. fmlookup (s_conns s) me = Some v \<and> sv_registered v = u \<and> u \<notin> set (sv_failed v)} \<le> card (set (Conns (s_registry s) u))"
      by (rule card_mono [OF finite_set])
    with card_length [of "Conns (s_registry s) u"] 4 show ?thesis by linarith
  qed
  with 1 2 3 4 show ?thesis by (simp add: occupants_def cu cp ca)
qed


section \<open>A run\<close>

text \<open>A connection is accepted and keyed, and waits for its first frame.\<close>

definition demo_limits :: preauth_limits where
  "demo_limits = \<lparr>MaxConns = 2, MaxConnsPerNet = 1, Lifetime = 0\<rparr>"

definition demo_server :: server where
  "demo_server = \<lparr>s_registry = NewSessionRegistry, s_unboundKeys = newUnboundKeyLimiter 1,
     s_pendingLogins = newPendingLoginLimiter 1, s_preAuth = newPreAuthLimiter demo_limits, s_conns = fmempty\<rparr>"

definition demo_accepted :: server where
  "demo_accepted = put 0 (new_serving new_slot) (demo_server\<lparr>s_preAuth := (newPreAuthLimiter demo_limits)\<lparr>pl_conns := 1\<rparr>\<rparr>)"

lemma demo_server_start: "serve_start demo_server"
  by (auto simp: serve_start_def demo_server_def)

lemma demo_server_reach: "reach (serve_step 0) demo_server demo_accepted"
proof (rule reach_one)
  let ?l = "(newPreAuthLimiter demo_limits)\<lparr>pl_conns := 1\<rparr>"
  have "admit (s_preAuth demo_server) = (Some new_slot, ?l)"
    by (simp add: admit_def demo_server_def newPreAuthLimiter_def demo_limits_def)
  moreover have "fmlookup (s_conns demo_server) 0 = None" by (simp add: demo_server_def)
  moreover have "armLifetime 0 new_slot ?l = new_slot" by (simp add: armLifetime_def newPreAuthLimiter_def demo_limits_def)
  ultimately show "serve_step 0 demo_server demo_accepted"
    using serve_step.accept [of demo_server 0 new_slot ?l 0 0] by (simp add: demo_accepted_def)
qed

theorem server_within_bounds_witness:
  "pl_conns (s_preAuth demo_accepted) = 1 \<and>
   1 = int (card {me. \<exists>v. fmlookup (s_conns demo_accepted) me = Some v \<and> \<not> ps_cleared (sv_slot v)})"
proof -
  have caps: "0 < ub_max (s_unboundKeys demo_accepted)" "0 < pn_max (s_pendingLogins demo_accepted)"
      "0 < MaxConns (pl_limits (s_preAuth demo_accepted))" "pl_conns (s_preAuth demo_accepted) = 1"
    by (simp_all add: demo_accepted_def demo_server_def newUnboundKeyLimiter_def newPendingLoginLimiter_def
        newPreAuthLimiter_def demo_limits_def)
  from server_within_bounds [OF demo_server_start demo_server_reach caps(1,2,3), of 0 0] caps(4) show ?thesis by simp
qed






end
