(* ===== verification/Discovery.thy ===== *)
theory Discovery
  imports Net_Addr
begin

text \<open>
  The discovery preflight wire format (internal/discovery/discovery.go): the fixed-width request,
  the bounded response that carries the server's DC id and RSA identity, and their strict parsers.

  The DER coding of a key is the standard library's (\<open>crypto/x509\<close>) and is a parameter of the
  model: \<open>marshal\<close> is \<open>MarshalPKIXPublicKey\<close> on an RSA key and \<open>parse\<close> is
  \<open>ParsePKIXPublicKey\<close>, which may also return a key of another algorithm.
\<close>

section \<open>Byte order\<close>

definition put_be :: "nat \<Rightarrow> nat \<Rightarrow> byte list" where
  "put_be k n = map (\<lambda>i. of_nat (n div 256 ^ (k - 1 - i))) [0..<k]"

lemma length_put_be [simp]: "length (put_be k n) = k"
  by (simp add: put_be_def)

lemma put_be_Suc: "put_be (Suc k) n = put_be k (n div 256) @ [of_nat n]"
proof -
  have "n div 256 ^ (k - i) = n div 256 div 256 ^ (k - 1 - i)" if "i < k" for i
  proof -
    from that have "k - i = Suc (k - 1 - i)" by simp
    then show ?thesis by (simp add: div_mult2_eq)
  qed
  then show ?thesis by (simp add: put_be_def)
qed

lemma unat_of_nat_byte: "unat (of_nat n :: byte) = n mod 256"
  by (simp add: unsigned_of_nat take_bit_eq_mod)

lemma be_nat_put_be: "be_nat (put_be k n) = n mod 256 ^ k"
proof (induction k arbitrary: n)
  case 0
  then show ?case by (simp add: put_be_def)
next
  case (Suc k)
  have "n mod (256 * 256 ^ k) = 256 * (n div 256 mod 256 ^ k) + n mod 256"
    by (rule mod_mult2_eq)
  with Suc.IH [of "n div 256"] show ?case
    by (simp add: put_be_Suc unat_of_nat_byte)
qed

lemma put_be_be_nat: "length bs = k \<Longrightarrow> put_be k (be_nat bs) = bs"
  using be_nat_inject [of "put_be k (be_nat bs)" bs] be_nat_lt [of bs]
  by (simp add: be_nat_put_be)

text \<open>\<open>xs[a:b]\<close>.\<close>

definition slice :: "nat \<Rightarrow> nat \<Rightarrow> 'a list \<Rightarrow> 'a list" where
  "slice a b xs = take (b - a) (drop a xs)"

definition ascii :: "string \<Rightarrow> byte list" where
  "ascii s = map (\<lambda>c. of_nat (of_char c)) s"

section \<open>Constants and keys\<close>

definition RequestMagic :: "byte list" where
  "RequestMagic = ascii ''telegramd-key-v1''"

definition ResponseMagic :: "byte list" where
  "ResponseMagic = ascii ''telegramd-key-r1''"

definition NonceSize :: nat where
  "NonceSize = 32"

definition MaxSPKILength :: nat where
  "MaxSPKILength = 4096"

definition RequestMagicSize :: nat where
  "RequestMagicSize = length RequestMagic"

definition ResponseMagicSize :: nat where
  "ResponseMagicSize = length ResponseMagic"

text \<open>An \<open>rsa.PublicKey\<close>; a nil pointer is \<open>None\<close>.\<close>

record rsa_key =
  rsa_N :: "int option"
  rsa_E :: int

datatype any_key = RSAKey rsa_key | OtherKey

datatype disc_error =
    BadNonce
  | BadDCID int
  | NilKey
  | BadModulus
  | BadExponent
  | MarshalFailed
  | BadSPKILength nat
  | NotAKey
  | NotRSA
  | NotCanonical
  | TooShort nat
  | BadMagic
  | BadBodyLength nat
  | BadBody

definition ValidatePublicKey :: "rsa_key option \<Rightarrow> disc_error option" where
  "ValidatePublicKey pub =
     (case pub of
        None \<Rightarrow> Some NilKey
      | Some k \<Rightarrow>
          (case rsa_N k of
             None \<Rightarrow> Some NilKey
           | Some N \<Rightarrow>
               if N \<le> 0 \<or> \<not> (2 ^ 2047 \<le> N \<and> N < 2 ^ 2048) \<or> N mod 2 = 0 then Some BadModulus
               else if rsa_E k < 3 \<or> rsa_E k mod 2 = 0 \<or> rsa_E k > 2 ^ 31 - 1 then Some BadExponent
               else None))"

definition ValidateDCID :: "int \<Rightarrow> disc_error option" where
  "ValidateDCID dcID = (if dcID \<le> 0 \<or> dcID > 2 ^ 31 - 1 then Some (BadDCID dcID) else None)"

definition MarshalSPKI ::
  "(rsa_key \<Rightarrow> byte list option) \<Rightarrow> rsa_key option \<Rightarrow> disc_error + byte list" where
  "MarshalSPKI marshal pub =
     (case ValidatePublicKey pub of
        Some e \<Rightarrow> Inl e
      | None \<Rightarrow> (case marshal (the pub) of None \<Rightarrow> Inl MarshalFailed | Some der \<Rightarrow> Inr der))"

definition ParseSPKI ::
  "(rsa_key \<Rightarrow> byte list option) \<Rightarrow> (byte list \<Rightarrow> any_key option) \<Rightarrow> byte list \<Rightarrow> disc_error + rsa_key" where
  "ParseSPKI marshal parse der =
     (if length der < 1 \<or> length der > MaxSPKILength then Inl (BadSPKILength (length der))
      else case parse der of
             None \<Rightarrow> Inl NotAKey
           | Some OtherKey \<Rightarrow> Inl NotRSA
           | Some (RSAKey pub) \<Rightarrow>
               (case ValidatePublicKey (Some pub) of
                  Some e \<Rightarrow> Inl e
                | None \<Rightarrow>
                    (case marshal pub of
                       None \<Rightarrow> Inl MarshalFailed
                     | Some canonical \<Rightarrow> if canonical \<noteq> der then Inl NotCanonical else Inr pub)))"

section \<open>Requests and responses\<close>

definition BuildPreflightRequest :: "byte list \<Rightarrow> disc_error + byte list" where
  "BuildPreflightRequest nonce =
     (if length nonce \<noteq> NonceSize then Inl BadNonce else Inr (RequestMagic @ nonce))"

definition BuildPreflightResponse ::
  "(rsa_key \<Rightarrow> byte list option) \<Rightarrow> int \<Rightarrow> rsa_key option \<Rightarrow> byte list \<Rightarrow> disc_error + byte list" where
  "BuildPreflightResponse marshal dcID pub nonce =
     (if length nonce \<noteq> NonceSize then Inl BadNonce
      else case ValidateDCID dcID of
             Some e \<Rightarrow> Inl e
           | None \<Rightarrow>
               (case MarshalSPKI marshal pub of
                  Inl e \<Rightarrow> Inl e
                | Inr der \<Rightarrow>
                    if length der < 1 \<or> length der > MaxSPKILength then Inl (BadSPKILength (length der))
                    else Inr (ResponseMagic @ nonce @ put_be 4 (6 + length der) @
                              put_be 4 (nat (dcID mod 2 ^ 32)) @ put_be 2 (length der) @ der)))"

text \<open>\<open>int(int32(x))\<close> for an unsigned 32-bit x.\<close>

definition from_int32 :: "nat \<Rightarrow> int" where
  "from_int32 x = (if x < 2 ^ 31 then int x else int x - 2 ^ 32)"

definition ParsePreflightResponse ::
  "(rsa_key \<Rightarrow> byte list option) \<Rightarrow> (byte list \<Rightarrow> any_key option) \<Rightarrow> byte list \<Rightarrow> byte list \<Rightarrow>
     disc_error + int \<times> rsa_key" where
  "ParsePreflightResponse marshal parse response nonce =
     (if length response < ResponseMagicSize + NonceSize + 4 + 6 then Inl (TooShort (length response))
      else if take ResponseMagicSize response \<noteq> ResponseMagic then Inl BadMagic
      else if length nonce \<noteq> NonceSize \<or>
              slice ResponseMagicSize (ResponseMagicSize + NonceSize) response \<noteq> nonce then Inl BadNonce
      else
        let offset = ResponseMagicSize + NonceSize;
            bodyLen = be_nat (slice offset (offset + 4) response);
            offset = offset + 4
        in if bodyLen < 6 \<or> bodyLen > MaxSPKILength + 6 then Inl (BadBodyLength bodyLen)
           else if length response - offset \<noteq> bodyLen then Inl BadBody
           else
             let dcID = from_int32 (be_nat (slice offset (offset + 4) response));
                 offset = offset + 4
             in case ValidateDCID dcID of
                  Some e \<Rightarrow> Inl e
                | None \<Rightarrow>
                    let spkiLen = be_nat (slice offset (offset + 2) response);
                        offset = offset + 2
                    in if spkiLen < 1 \<or> spkiLen > MaxSPKILength \<or> bodyLen \<noteq> 6 + spkiLen
                       then Inl (BadSPKILength spkiLen)
                       else case ParseSPKI marshal parse (slice offset (offset + spkiLen) response) of
                              Inl e \<Rightarrow> Inl e
                            | Inr pub \<Rightarrow> Inr (dcID, pub))"

section \<open>Lemmas\<close>

lemma disc_sizes [simp]:
  "length RequestMagic = 16" "length ResponseMagic = 16"
  by (simp_all add: RequestMagic_def ResponseMagic_def ascii_def)

lemmas disc_consts = NonceSize_def MaxSPKILength_def RequestMagicSize_def ResponseMagicSize_def

text \<open>A response, cut at its field boundaries.\<close>

lemma take_drop_join: "take k (drop n xs) @ drop (n + k) xs = drop n xs"
  by (metis append_take_drop_id drop_drop add.commute)

lemma response_fields:
  assumes "58 \<le> length response"
  obtains m n b d l der where "response = m @ n @ b @ d @ l @ der"
    "length m = 16" "length n = 32" "length b = 4" "length d = 4" "length l = 2"
proof
  show "response = take 16 response @ take 32 (drop 16 response) @ take 4 (drop 48 response) @
      take 4 (drop 52 response) @ take 2 (drop 56 response) @ drop 58 response"
    using take_drop_join [of 2 56 response] take_drop_join [of 4 52 response]
      take_drop_join [of 4 48 response] take_drop_join [of 32 16 response] by simp
qed (use assms in simp_all)

lemma parse_fields:
  assumes "length m = 16" "length n = 32" "length b = 4" "length d = 4" "length l = 2"
  shows "ParsePreflightResponse marshal parse (m @ n @ b @ d @ l @ der) nonce = Inr (dcID, pub) \<longleftrightarrow>
    m = ResponseMagic \<and> n = nonce \<and> be_nat b = 6 + length der \<and> dcID = from_int32 (be_nat d) \<and>
    ValidateDCID dcID = None \<and> be_nat l = length der \<and> ParseSPKI marshal parse der = Inr pub"
proof -
  let ?r = "m @ n @ b @ d @ l @ der"
  have sl: "take 16 ?r = m" "slice 16 48 ?r = n" "slice 48 52 ?r = b" "slice 52 56 ?r = d"
      "slice 56 58 ?r = l" "slice 58 (58 + k) ?r = take k der" "length ?r = 58 + length der" for k
    using assms by (simp_all add: slice_def)
  have spki: "ParseSPKI marshal parse der = Inr pub \<Longrightarrow> der \<noteq> [] \<and> length der \<le> 4096"
    by (auto simp: ParseSPKI_def MaxSPKILength_def split: if_splits)
  have nums: "(16 :: nat) + 32 = 48" "(48 :: nat) + 4 = 52" "(52 :: nat) + 4 = 56" "(56 :: nat) + 2 = 58"
      "(52 :: nat) + 6 = 58" "(4096 :: nat) + 6 = 4102" by simp_all
  have eq: "ParsePreflightResponse marshal parse ?r nonce =
      (if m \<noteq> ResponseMagic then Inl BadMagic
       else if length nonce \<noteq> 32 \<or> n \<noteq> nonce then Inl BadNonce
       else if be_nat b < 6 \<or> be_nat b > 4102 then Inl (BadBodyLength (be_nat b))
       else if 6 + length der \<noteq> be_nat b then Inl BadBody
       else case ValidateDCID (from_int32 (be_nat d)) of
              Some e \<Rightarrow> Inl e
            | None \<Rightarrow>
                if be_nat l < 1 \<or> be_nat l > 4096 \<or> be_nat b \<noteq> 6 + be_nat l
                then Inl (BadSPKILength (be_nat l))
                else case ParseSPKI marshal parse (take (be_nat l) der) of
                       Inl e \<Rightarrow> Inl e
                     | Inr pub \<Rightarrow> Inr (from_int32 (be_nat d), pub))"
    unfolding ParsePreflightResponse_def Let_def disc_consts disc_sizes
    unfolding nums sl sl(6) by simp
  show ?thesis
  proof (cases "m = ResponseMagic \<and> n = nonce \<and> be_nat b = 6 + length der \<and> be_nat l = length der \<and>
      ValidateDCID (from_int32 (be_nat d)) = None \<and> der \<noteq> [] \<and> length der \<le> 4096")
    case True
    then have "ParsePreflightResponse marshal parse ?r nonce =
        (case ParseSPKI marshal parse der of Inl e \<Rightarrow> Inl e | Inr pub \<Rightarrow> Inr (from_int32 (be_nat d), pub))"
      unfolding eq using assms(2) by simp
    with True show ?thesis by (auto split: sum.split)
  next
    case False
    then have "ParsePreflightResponse marshal parse ?r nonce \<noteq> Inr (dcID, pub)"
      unfolding eq by (auto split: option.split)
    with False spki show ?thesis by blast
  qed
qed

lemma build_fields:
  "BuildPreflightResponse marshal dcID (Some pub) nonce = Inr r \<longleftrightarrow>
    (\<exists>der. r = ResponseMagic @ nonce @ put_be 4 (6 + length der) @ put_be 4 (nat (dcID mod 2 ^ 32)) @
              put_be 2 (length der) @ der \<and>
      length nonce = 32 \<and> ValidateDCID dcID = None \<and> ValidatePublicKey (Some pub) = None \<and>
      marshal pub = Some der \<and> der \<noteq> [] \<and> length der \<le> 4096)"
  by (auto simp: BuildPreflightResponse_def MarshalSPKI_def disc_consts Suc_le_eq
      split: option.splits sum.splits if_splits)

lemma ParseSPKI_Inr_iff:
  "ParseSPKI marshal parse der = Inr pub \<longleftrightarrow>
    der \<noteq> [] \<and> length der \<le> 4096 \<and> parse der = Some (RSAKey pub) \<and>
    ValidatePublicKey (Some pub) = None \<and> marshal pub = Some der"
  by (auto simp: ParseSPKI_def MaxSPKILength_def Suc_le_eq
      split: if_splits option.splits any_key.splits)

lemma dcid_wire:
  assumes "length d = 4" and "ValidateDCID dcID = None"
  shows "dcID = from_int32 (be_nat d) \<longleftrightarrow> d = put_be 4 (nat (dcID mod 2 ^ 32))"
proof -
  have r: "0 < dcID" "dcID \<le> 2 ^ 31 - 1" using assms(2) by (auto simp: ValidateDCID_def split: if_splits)
  have lt: "be_nat d < 2 ^ 32" using be_nat_lt [of d] assms(1) by simp
  have m: "nat (dcID mod 2 ^ 32) = nat dcID" using r by simp
  have "be_nat (put_be 4 (nat dcID)) = nat dcID" using r by (simp add: be_nat_put_be)
  then have "d = put_be 4 (nat dcID) \<longleftrightarrow> be_nat d = nat dcID"
    using put_be_be_nat [OF assms(1)] by metis
  also have "\<dots> \<longleftrightarrow> dcID = from_int32 (be_nat d)"
    using r lt by (auto simp: from_int32_def)
  finally show ?thesis unfolding m by blast
qed

lemma length_wire:
  assumes "length b = k" and "n < 256 ^ k"
  shows "be_nat b = n \<longleftrightarrow> b = put_be k n"
  using put_be_be_nat [OF assms(1)] be_nat_put_be [of k n] assms(2) by (metis mod_less)

section \<open>Properties\<close>

text \<open>
  The preflight parser is the exact inverse of the builder: a response parses, under the nonce
  of the request, to a DC id and a key precisely when it is the one byte string the server builds
  for them. So every response the server can send is understood, nothing else is accepted, and a
  response answers at most one nonce. The only fact used about the key coding is that parsing a
  marshalled RSA key gives the key back.
\<close>

theorem preflight_response_exact:
  assumes x509: "\<And>k der. marshal k = Some der \<Longrightarrow> parse der = Some (RSAKey k)"
  shows "(ParsePreflightResponse marshal parse response nonce = Inr (dcID, pub)) =
         (BuildPreflightResponse marshal dcID (Some pub) nonce = Inr response) \<and>
         (ParsePreflightResponse marshal parse response nonce = Inr (dcID, pub) \<longrightarrow>
          ParsePreflightResponse marshal parse response nonce' = Inr (dcID', pub') \<longrightarrow> nonce' = nonce)"
proof (cases "58 \<le> length response")
  case False
  then have "ParsePreflightResponse marshal parse response nonce \<noteq> Inr (dcID, pub)"
    by (simp add: ParsePreflightResponse_def disc_consts)
  moreover have "BuildPreflightResponse marshal dcID (Some pub) nonce \<noteq> Inr response"
    using False by (auto simp: build_fields)
  ultimately show ?thesis by blast
next
  case True
  then obtain m n b d l der where r: "response = m @ n @ b @ d @ l @ der"
    and len: "length m = 16" "length n = 32" "length b = 4" "length d = 4" "length l = 2"
    by (rule response_fields)
  note parse = parse_fields [OF len, of marshal parse der, folded r]
  have build: "BuildPreflightResponse marshal dcID (Some pub) nonce = Inr response \<longleftrightarrow>
      m = ResponseMagic \<and> n = nonce \<and> b = put_be 4 (6 + length der) \<and>
      d = put_be 4 (nat (dcID mod 2 ^ 32)) \<and> l = put_be 2 (length der) \<and>
      ValidateDCID dcID = None \<and> ValidatePublicKey (Some pub) = None \<and>
      marshal pub = Some der \<and> der \<noteq> [] \<and> length der \<le> 4096"
    using len by (auto simp: build_fields r append_eq_append_conv)
  have "ParsePreflightResponse marshal parse response nonce = Inr (dcID, pub) \<longleftrightarrow>
      BuildPreflightResponse marshal dcID (Some pub) nonce = Inr response"
  proof (cases "length der \<le> 4096 \<and> ValidateDCID dcID = None")
    case ok: True
    then have "6 + length der < 256 ^ 4" "length der < 256 ^ 2" by simp_all
    from length_wire [OF len(3) this(1)] length_wire [OF len(5) this(2)]
    have e: "be_nat b = 6 + length der \<longleftrightarrow> b = put_be 4 (6 + length der)"
        "be_nat l = length der \<longleftrightarrow> l = put_be 2 (length der)" .
    have "dcID = from_int32 (be_nat d) \<longleftrightarrow> d = put_be 4 (nat (dcID mod 2 ^ 32))"
      by (rule dcid_wire [OF len(4)]) (use ok in simp)
    with e show ?thesis unfolding parse build ParseSPKI_Inr_iff using x509 [of pub der] by blast
  next
    case False
    then show ?thesis unfolding parse build ParseSPKI_Inr_iff by blast
  qed
  moreover have uniq: "ParsePreflightResponse marshal parse response x = Inr y \<Longrightarrow> x = n" for x y
    using parse [of x "fst y" "snd y"] by simp
  ultimately show ?thesis by (auto dest!: uniq)
qed

text \<open>A key coding of fixed width, and a DC 2 server answering a zero nonce with it.\<close>

definition demo_marshal :: "rsa_key \<Rightarrow> byte list option" where
  "demo_marshal k =
     (case rsa_N k of
        None \<Rightarrow> None
      | Some N \<Rightarrow> if 0 \<le> N \<and> N < 256 ^ 256 \<and> 0 \<le> rsa_E k \<and> rsa_E k < 256 ^ 4
                  then Some (put_be 256 (nat N) @ put_be 4 (nat (rsa_E k))) else None)"

definition demo_parse :: "byte list \<Rightarrow> any_key option" where
  "demo_parse der =
     (if length der = 260
      then Some (RSAKey \<lparr>rsa_N = Some (int (be_nat (take 256 der))), rsa_E = int (be_nat (drop 256 der))\<rparr>)
      else None)"

lemma demo_x509: "demo_marshal k = Some der \<Longrightarrow> demo_parse der = Some (RSAKey k)"
proof -
  assume "demo_marshal k = Some der"
  then obtain N where N: "rsa_N k = Some N" "0 \<le> N" "N < 256 ^ 256" "0 \<le> rsa_E k" "rsa_E k < 256 ^ 4"
    and der: "der = put_be 256 (nat N) @ put_be 4 (nat (rsa_E k))"
    by (auto simp: demo_marshal_def split: option.splits if_splits)
  have "nat N < 256 ^ 256" "nat (rsa_E k) < 256 ^ 4" using N by (simp_all add: nat_less_iff)
  then have "be_nat (put_be 256 (nat N)) = nat N" "be_nat (put_be 4 (nat (rsa_E k))) = nat (rsa_E k)"
    by (simp_all add: be_nat_put_be del: power_numeral)
  with N show ?thesis by (cases k) (simp add: demo_parse_def der)
qed

theorem preflight_response_exact_witness:
  "\<exists>response. ParsePreflightResponse demo_marshal demo_parse response (replicate 32 0) =
     Inr (2, \<lparr>rsa_N = Some (2 ^ 2047 + 1), rsa_E = 65537\<rparr>)"
proof -
  let ?k = "\<lparr>rsa_N = Some (2 ^ 2047 + 1), rsa_E = 65537\<rparr>"
  have "(2 :: int) ^ 2047 + 1 < 256 ^ 256 \<and> ((2 :: int) ^ 2047 + 1) mod 2 = 1" by simp
  then have v: "ValidatePublicKey (Some ?k) = None" "ValidateDCID 2 = None"
    by (simp_all add: ValidatePublicKey_def ValidateDCID_def)
  obtain der where "demo_marshal ?k = Some der" "length der = 260" by (simp add: demo_marshal_def)
  then obtain r where "BuildPreflightResponse demo_marshal 2 (Some ?k) (replicate 32 0) = Inr r"
    using v by (force simp: build_fields)
  with preflight_response_exact [of demo_marshal demo_parse r "replicate 32 0" 2 ?k] demo_x509
  show ?thesis by blast
qed

end
