(* ===== verification/Srp.thy ===== *)
theory Srp
  imports Discovery
begin

text \<open>
  The server side of the SRP-6a cloud-password protocol (internal/srp/srp.go) over Telegram's fixed
  2048-bit group. \<open>big.Int\<close> values are natural numbers. The protocol hash is an argument \<open>H\<close>, of
  which only the 32 bytes of its result are used, and the random secret exponent is an argument,
  \<open>None\<close> standing for a failing random source. The client, which is not part of the server, is the
  one of the published protocol.
\<close>

section \<open>Parameters and encodings\<close>

definition srp_G :: nat where
  "srp_G = 3"

text \<open>The hexadecimal literal of the prime, line by line; a line has 64 digits.\<close>

definition primeHex :: "nat list" where
  "primeHex =
    [0xC71CAEB9C6B1C9048E6C522F70F13F73980D40238E3E21C14934D037563D930F,
     0x48198A0AA7C14058229493D22530F4DBFA336F6E0AC925139543AED44CCE7C37,
     0x20FD51F69458705AC68CD4FE6B6B13ABDC9746512969328454F18FAF8C595F64,
     0x2477FE96BB2A941D5BCD1D4AC8CC49880708FA9B378E3C4F3A9060BEE67CF9A4,
     0xA4A695811051907E162753B56B0F6B410DBA74D8A84B2A14B3144E0EF1284754,
     0xFD17ED950D5965B4B9DD46582DB1178D169C6BC465B0D6FF9CA3928FEF5B9AE4,
     0xE418FC15E83EBEA0F87FA9FF5EED70050DED2849F47BF959D956850CE929851F,
     0x0D8115F635B105EE2E4E15D04B2454BF6F4FADF034B10403119CD8E3B92FCC5B]"

definition srp_p :: nat where
  "srp_p = foldl (\<lambda>acc w. acc * 2 ^ 256 + w) 0 primeHex"

definition PadLen :: nat where
  "PadLen = 256"

text \<open>\<open>big.Int.Bytes\<close>: big-endian without leading zeros. \<open>SetBytes\<close> is \<open>be_nat\<close>, \<open>Exp\<close> the power modulo.\<close>

fun big_Bytes :: "nat \<Rightarrow> byte list" where
  "big_Bytes n = (if n = 0 then [] else big_Bytes (n div 256) @ [of_nat n])"

declare big_Bytes.simps [simp del]

definition big_Exp :: "nat \<Rightarrow> nat \<Rightarrow> nat \<Rightarrow> nat" where
  "big_Exp x y n = x ^ y mod n"

definition srp_pad :: "byte list \<Rightarrow> byte list" where
  "srp_pad b = (if length b \<ge> PadLen then drop (length b - PadLen) b else replicate (PadLen - length b) 0 @ b)"

definition srp_xor :: "byte list \<Rightarrow> byte list \<Rightarrow> byte list" where
  "srp_xor a b = map (\<lambda>(x, y). xor x y) (zip a b)"

definition srp_hash :: "(byte list \<Rightarrow> byte list) \<Rightarrow> byte list list \<Rightarrow> byte list" where
  "srp_hash H parts = H (concat parts)"

definition pBytes :: "byte list" where
  "pBytes = srp_pad (big_Bytes srp_p)"

definition gBytes :: "byte list" where
  "gBytes = srp_pad (big_Bytes srp_G)"

definition srp_k :: "(byte list \<Rightarrow> byte list) \<Rightarrow> nat" where
  "srp_k H = be_nat (srp_hash H [pBytes, gBytes])"

definition hpXorHg :: "(byte list \<Rightarrow> byte list) \<Rightarrow> byte list" where
  "hpXorHg H = srp_xor (srp_hash H [pBytes]) (srp_hash H [gBytes])"

section \<open>The server\<close>

definition ValidVerifier :: "byte list \<Rightarrow> bool" where
  "ValidVerifier verifier \<longleftrightarrow> (let v = be_nat verifier in v > 0 \<and> v < srp_p)"

datatype srp_error = RandFailed | DegenerateB

definition Challenge :: "(byte list \<Rightarrow> byte list) \<Rightarrow> byte list option \<Rightarrow> byte list \<Rightarrow> srp_error + byte list \<times> byte list" where
  "Challenge H secret verifier =
     (case secret of
        None \<Rightarrow> Inl RandFailed
      | Some buf \<Rightarrow>
          (let b = be_nat buf;
               v = be_nat verifier;
               gb = big_Exp srp_G b srp_p;
               B = (srp_k H * v + gb) mod srp_p in
           if B = 0 then Inl DegenerateB else Inr (srp_pad (big_Bytes B), srp_pad (big_Bytes b))))"

definition Verify ::
  "(byte list \<Rightarrow> byte list) \<Rightarrow> byte list \<Rightarrow> byte list \<Rightarrow> byte list \<Rightarrow> byte list \<Rightarrow> byte list \<Rightarrow> byte list \<Rightarrow> byte list \<Rightarrow> bool" where
  "Verify H verifier salt1 salt2 aPub m1 bPub bSecret =
     (if length aPub \<noteq> PadLen \<or> length m1 \<noteq> 32 then False
      else let A = be_nat aPub in
        if A mod srp_p = 0 then False
        else let padA = srp_pad aPub; padB = srp_pad bPub; u = be_nat (srp_hash H [padA, padB]) in
          if u = 0 then False
          else let v = be_nat verifier;
                   b = be_nat bSecret;
                   vu = big_Exp v u srp_p;
                   base = A * vu mod srp_p;
                   S = big_Exp base b srp_p;
                   kSess = srp_hash H [srp_pad (big_Bytes S)];
                   expected = srp_hash H [hpXorHg H, srp_hash H [salt1], srp_hash H [salt2], padA, padB, kSess] in
               expected = m1)"

section \<open>The client\<close>

text \<open>
  The published client: from the password exponent x and a secret a it sends A = g^a and the hash
  over S = (B - k g^x)^(a + u x), all modulo p.
\<close>

definition client_A :: "nat \<Rightarrow> byte list" where
  "client_A a = srp_pad (big_Bytes (big_Exp srp_G a srp_p))"

definition client_u :: "(byte list \<Rightarrow> byte list) \<Rightarrow> nat \<Rightarrow> byte list \<Rightarrow> nat" where
  "client_u H a bPub = be_nat (srp_hash H [client_A a, bPub])"

definition client_M1 :: "(byte list \<Rightarrow> byte list) \<Rightarrow> nat \<Rightarrow> nat \<Rightarrow> byte list \<Rightarrow> byte list \<Rightarrow> byte list \<Rightarrow> byte list" where
  "client_M1 H x a salt1 salt2 bPub =
     (let t = nat ((int (be_nat bPub) - int (srp_k H) * int (big_Exp srp_G x srp_p)) mod int srp_p);
          S = big_Exp t (a + client_u H a bPub * x) srp_p in
      srp_hash H [hpXorHg H, srp_hash H [salt1], srp_hash H [salt2], client_A a, bPub, srp_hash H [srp_pad (big_Bytes S)]])"

definition client_verifier :: "nat \<Rightarrow> byte list" where
  "client_verifier x = srp_pad (big_Bytes (big_Exp srp_G x srp_p))"

section \<open>Encodings\<close>

lemma be_nat_big_Bytes: "be_nat (big_Bytes n) = n"
proof (induction n rule: big_Bytes.induct)
  case (1 n)
  then show ?case by (subst big_Bytes.simps) (simp add: unat_of_nat_byte)
qed

lemma length_big_Bytes: "n < 256 ^ k \<Longrightarrow> length (big_Bytes n) \<le> k"
proof (induction k arbitrary: n)
  case 0
  then show ?case by (simp add: big_Bytes.simps)
next
  case (Suc k)
  then have "n div 256 < 256 ^ k" by (simp add: less_mult_imp_div_less mult.commute)
  with Suc.IH show ?case by (subst big_Bytes.simps) simp
qed

lemma be_nat_zeros: "be_nat (replicate k 0 @ bs) = be_nat bs"
proof (induction bs rule: rev_induct)
  case Nil
  show ?case by (induction k) (simp_all add: replicate_append_same [symmetric] del: replicate_append_same)
next
  case (snoc b bs)
  then show ?case by (simp flip: append_assoc)
qed

lemma length_srp_pad [simp]: "length (srp_pad b) = PadLen"
  by (simp add: srp_pad_def)

lemma srp_pad_id: "length b = PadLen \<Longrightarrow> srp_pad b = b"
  by (simp add: srp_pad_def)

lemma be_nat_srp_pad: "length b \<le> PadLen \<Longrightarrow> be_nat (srp_pad b) = be_nat b"
  by (auto simp: srp_pad_def be_nat_zeros)

lemma be_nat_padded: "n < 256 ^ PadLen \<Longrightarrow> be_nat (srp_pad (big_Bytes n)) = n"
  by (simp add: be_nat_srp_pad length_big_Bytes be_nat_big_Bytes)

lemma horner_less:
  fixes M :: nat
  assumes "\<forall>w \<in> set ws. w < M"
  shows "foldl (\<lambda>acc w. acc * M + w) a ws < (a + 1) * M ^ length ws"
  using assms
proof (induction ws arbitrary: a)
  case (Cons w ws)
  have "foldl (\<lambda>acc w. acc * M + w) a (w # ws) < (a * M + w + 1) * M ^ length ws" using Cons by simp
  also have "\<dots> \<le> ((a + 1) * M) * M ^ length ws" using Cons.prems by (intro mult_right_mono) simp_all
  finally show ?case by (simp add: algebra_simps)
qed simp

lemma horner_mod:
  fixes M :: nat
  assumes "M mod m = 1"
  shows "foldl (\<lambda>acc w. acc * M + w) a ws mod m = (a + sum_list ws) mod m"
proof (induction ws arbitrary: a)
  case (Cons w ws)
  have "(a * M + w + sum_list ws) mod m = ((a * (M mod m)) mod m + (w + sum_list ws)) mod m"
    by (simp only: mod_mult_right_eq mod_add_left_eq add.assoc)
  also have "\<dots> = (a + (w + sum_list ws)) mod m" by (simp only: assms mult_1_right mod_add_left_eq)
  finally show ?case using Cons by simp
qed simp

lemma primeHex_less: "\<forall>w \<in> set primeHex. w < 2 ^ 256"
  by (simp add: primeHex_def)

lemma srp_p_mod_3: "srp_p mod 3 = 2"
proof -
  have "(2 :: nat) ^ 256 mod 3 = 1" by simp
  from horner_mod [OF this, of 0 primeHex] have "srp_p mod 3 = sum_list primeHex mod 3" by (simp only: srp_p_def add_0)
  also have "sum_list primeHex mod 3 = 2" by (simp add: primeHex_def)
  finally show ?thesis .
qed

lemma srp_p_bounds: "0 < srp_p" "1 < srp_p" "srp_p < 256 ^ PadLen"
proof -
  show "1 < srp_p" using srp_p_mod_3 by (cases srp_p rule: nat.exhaust; cases "srp_p = 1") auto
  then show "0 < srp_p" by linarith
  have "srp_p < (0 + 1) * (2 ^ 256) ^ length primeHex"
    unfolding srp_p_def by (rule horner_less [OF primeHex_less])
  moreover have "length primeHex = 8" by (simp add: primeHex_def)
  moreover have "(2 ^ 256 :: nat) ^ 8 = (2 ^ 8) ^ 256" by (simp only: power_mult [symmetric] mult.commute)
  moreover have "(2 :: nat) ^ 8 = 256" by simp
  ultimately show "srp_p < 256 ^ PadLen" by (simp only: PadLen_def add_0 mult_1)
qed

lemma be_nat_residue: "n < srp_p \<Longrightarrow> be_nat (srp_pad (big_Bytes n)) = n"
  by (rule be_nat_padded) (use srp_p_bounds(3) in linarith)

lemma big_Exp_less: "big_Exp x y srp_p < srp_p"
  by (simp add: big_Exp_def srp_p_bounds)

lemma coprime_G: "coprime srp_G srp_p"
proof -
  have "gcd 3 srp_p = gcd 3 (srp_p mod 3)" by (simp add: gcd_red_nat [of srp_p 3] gcd.commute)
  also have "srp_p mod 3 = 2" by (rule srp_p_mod_3)
  finally show ?thesis by (simp add: srp_G_def coprime_iff_gcd_eq_1 gcd_non_0_nat)
qed

lemma generator_power_nonzero: "big_Exp srp_G a srp_p \<noteq> 0"
proof
  assume "big_Exp srp_G a srp_p = 0"
  then have "srp_p dvd srp_G ^ a" by (simp add: big_Exp_def mod_eq_0_iff_dvd)
  moreover have "coprime srp_p (srp_G ^ a)" using coprime_G by (simp add: coprime_commute)
  ultimately have "is_unit srp_p" using coprime_absorb_left by blast
  with srp_p_bounds(2) show False by simp
qed

section \<open>Both sides agree\<close>

lemma server_secret:
  "big_Exp (big_Exp g a n * big_Exp (big_Exp g x n) u n mod n) b n = g ^ (b * (a + u * x)) mod n"
proof -
  have "(g ^ a mod n) * ((g ^ x mod n) ^ u mod n) mod n = g ^ (a + u * x) mod n"
    by (simp add: power_mod mod_mult_eq power_add mult.commute flip: power_mult)
  then show ?thesis by (simp add: big_Exp_def power_mod mult.commute flip: power_mult)
qed

lemma client_base:
  assumes "0 < n" and "B = (k * v + gb) mod n" and "gb < n"
  shows "nat ((int B - int k * int v) mod int n) = gb"
proof -
  have "(int B - int k * int v) mod int n = ((int k * int v + int gb) mod int n - int k * int v) mod int n"
    by (simp add: assms(2) zmod_int)
  also have "\<dots> = (int k * int v + int gb - int k * int v) mod int n" by (rule mod_diff_left_eq)
  also have "\<dots> = int gb" using assms(3) by simp
  finally show ?thesis by simp
qed

lemma Challenge_parts:
  assumes "Challenge H (Some sec) verifier = Inr (bPub, bSecret)" and "length sec = PadLen"
  shows "length bPub = PadLen" and "be_nat bSecret = be_nat sec"
    and "be_nat bPub = (srp_k H * be_nat verifier + big_Exp srp_G (be_nat sec) srp_p) mod srp_p"
proof -
  have "be_nat sec < 256 ^ PadLen" using be_nat_lt [of sec] assms(2) by simp
  with assms(1) show "length bPub = PadLen" and "be_nat bSecret = be_nat sec"
    and "be_nat bPub = (srp_k H * be_nat verifier + big_Exp srp_G (be_nat sec) srp_p) mod srp_p"
    by (auto simp: Challenge_def Let_def be_nat_padded be_nat_residue srp_p_bounds(1) split: if_splits)
qed

text \<open>
  C8. The cloud password is checked exactly. For an account whose verifier was computed from the
  password exponent x, on any challenge the server issues and for any client secret a, the server
  accepts the proof a client computes from x by the published protocol and no other 32 bytes,
  whatever 32-byte hash is used, unless that hash makes u zero, which the protocol excludes. Whatever
  is sent, an A that is zero modulo p or not 256 bytes, and a proof that is not 32 bytes, is refused.
\<close>

theorem srp_accepts_exactly_the_password:
  assumes hash: "\<forall>m. length (H m) = 32" and sec: "length sec = PadLen"
    and ch: "Challenge H (Some sec) (client_verifier x) = Inr (bPub, bSecret)" and u: "client_u H a bPub \<noteq> 0"
  shows "(Verify H (client_verifier x) salt1 salt2 (client_A a) m1 bPub bSecret \<longleftrightarrow> m1 = client_M1 H x a salt1 salt2 bPub) \<and>
    (length aPub \<noteq> PadLen \<or> be_nat aPub mod srp_p = 0 \<or> length m2 \<noteq> 32 \<longrightarrow>
      \<not> Verify H verifier salt1 salt2 aPub m2 bPub bSecret)"
proof -
  let ?v = "big_Exp srp_G x srp_p" and ?A = "big_Exp srp_G a srp_p" and ?gb = "big_Exp srp_G (be_nat sec) srp_p"
  note parts = Challenge_parts [OF ch sec]
  have v: "be_nat (client_verifier x) = ?v" and A: "be_nat (client_A a) = ?A"
    by (simp_all add: client_verifier_def client_A_def be_nat_residue big_Exp_less)
  have pads: "srp_pad (client_A a) = client_A a" "srp_pad bPub = bPub" "length (client_A a) = PadLen"
    by (simp_all add: srp_pad_id client_A_def parts(1))
  have A0: "?A mod srp_p \<noteq> 0" using generator_power_nonzero [of a] big_Exp_less [of srp_G a] by simp
  let ?u = "client_u H a bPub"
  have uH: "be_nat (srp_hash H [client_A a, bPub]) = ?u" by (simp add: client_u_def)
  have S: "big_Exp (?A * big_Exp ?v ?u srp_p mod srp_p) (be_nat sec) srp_p = srp_G ^ (be_nat sec * (a + ?u * x)) mod srp_p"
    by (rule server_secret)
  have t: "nat ((int (be_nat bPub) - int (srp_k H) * int ?v) mod int srp_p) = ?gb"
    by (rule client_base [OF srp_p_bounds(1) _ big_Exp_less]) (simp add: parts(3) v)
  have S': "big_Exp ?gb (a + ?u * x) srp_p = srp_G ^ (be_nat sec * (a + ?u * x)) mod srp_p"
    by (simp add: big_Exp_def power_mod flip: power_mult)
  have len: "length (client_M1 H x a salt1 salt2 bPub) = 32"
    by (simp add: client_M1_def srp_hash_def hash Let_def)
  have "Verify H (client_verifier x) salt1 salt2 (client_A a) m1 bPub bSecret \<longleftrightarrow>
      length m1 = 32 \<and> client_M1 H x a salt1 salt2 bPub = m1"
    unfolding Verify_def client_M1_def Let_def pads v A uH parts(2) t S S' using A0 u by simp
  with len show ?thesis by (auto simp: Verify_def Let_def)
qed

text \<open>A hash that makes k and u one, a password exponent of one and small secrets.\<close>

definition demo_H :: "byte list \<Rightarrow> byte list" where
  "demo_H m = replicate 31 0 @ [1]"

definition demo_secret :: "byte list" where
  "demo_secret = replicate 255 0 @ [1]"

lemma srp_p_large: "1000 < srp_p"
  unfolding srp_p_def primeHex_def foldl_Cons foldl_Nil by (rule trans_less_add2) simp

lemma demo_numbers:
  "\<forall>m. length (demo_H m) = 32" "length demo_secret = PadLen" "be_nat demo_secret = 1" "be_nat (demo_H m) = 1"
  "srp_k demo_H = 1" "client_u demo_H a bPub = 1" "be_nat (client_verifier 1) = 3"
  using be_nat_zeros [of 255 "[1]"] be_nat_zeros [of 31 "[1]"] srp_p_large be_nat_residue [of 3]
  by (simp_all add: demo_H_def demo_secret_def PadLen_def srp_k_def srp_hash_def client_u_def client_verifier_def
      big_Exp_def srp_G_def be_nat_def)

lemma demo_challenge:
  "Challenge demo_H (Some demo_secret) (client_verifier 1) = Inr (srp_pad (big_Bytes 6), srp_pad (big_Bytes 1))"
  using srp_p_large by (simp add: Challenge_def demo_numbers big_Exp_def srp_G_def Let_def del: One_nat_def)

theorem srp_accepts_exactly_the_password_witness:
  "Verify demo_H (client_verifier 1) [] [] (client_A 2) (client_M1 demo_H 1 2 [] [] (srp_pad (big_Bytes 6)))
     (srp_pad (big_Bytes 6)) (srp_pad (big_Bytes 1)) \<and>
   \<not> Verify demo_H (client_verifier 1) [] [] (client_A 2) [] (srp_pad (big_Bytes 6)) (srp_pad (big_Bytes 1))"
proof -
  have u: "client_u demo_H 2 (srp_pad (big_Bytes 6)) \<noteq> 0" by (simp add: demo_numbers)
  from srp_accepts_exactly_the_password [OF demo_numbers(1,2) demo_challenge u, of "[]" "[]"
      "client_M1 demo_H 1 2 [] [] (srp_pad (big_Bytes 6))" "client_A 2" "[]" "client_verifier 1"]
  show ?thesis by simp
qed

end
