(* ===== verification/Challenge_Store.thy ===== *)
theory Challenge_Store
  imports Srp
begin

text \<open>
  The outstanding SRP challenges (internal/srp/challenge.go): issued for a user under an auth key,
  consumed once, expiring. Each operation holds the store's mutex and is one step. The order in which
  a sweep visits the map, the clock readings and the random draws are arguments.
\<close>

record srp_pending =
  pd_BSecret :: "byte list"
  pd_BPublic :: "byte list"
  pd_UserID :: int

record challenge_entry =
  ce_pending :: srp_pending
  ce_expiresAt :: gtime
  ce_authKeyID :: int

record challenge_store =
  cs_ttl :: gduration
  cs_entries :: "(int, challenge_entry) fmap"
  cs_byUser :: "(int, (int, int) fmap) fmap"

definition NewChallengeStore :: "gduration \<Rightarrow> challenge_store" where
  "NewChallengeStore ttl = \<lparr>cs_ttl = ttl, cs_entries = fmempty, cs_byUser = fmempty\<rparr>"

definition forgetUserLocked :: "int \<Rightarrow> int \<Rightarrow> int \<Rightarrow> challenge_store \<Rightarrow> challenge_store" where
  "forgetUserLocked authKeyID userID srpID s =
     (case fmlookup (cs_byUser s) authKeyID of
        None \<Rightarrow> s
      | Some keyMap \<Rightarrow>
          if mget keyMap userID = srpID
          then (let keyMap = fmdrop userID keyMap in
                s\<lparr>cs_byUser := (if msize keyMap = 0 then fmdrop authKeyID (cs_byUser s)
                                else fmupd authKeyID keyMap (cs_byUser s))\<rparr>)
          else s)"

text \<open>Remove the entry of an id with its back reference.\<close>

definition drop_entry :: "int \<Rightarrow> challenge_entry \<Rightarrow> challenge_store \<Rightarrow> challenge_store" where
  "drop_entry srpID e s =
     forgetUserLocked (ce_authKeyID e) (pd_UserID (ce_pending e)) srpID (s\<lparr>cs_entries := fmdrop srpID (cs_entries s)\<rparr>)"

definition sweep_one :: "gtime \<Rightarrow> int \<Rightarrow> challenge_store \<Rightarrow> challenge_store" where
  "sweep_one now srpID s =
     (case fmlookup (cs_entries s) srpID of
        None \<Rightarrow> s
      | Some e \<Rightarrow> if now > ce_expiresAt e then drop_entry srpID e s else s)"

definition sweepLocked :: "gtime \<Rightarrow> int list \<Rightarrow> challenge_store \<Rightarrow> challenge_store" where
  "sweepLocked now order s = fold (sweep_one now) order s"

datatype issue_error = ChallengeFailed srp_error | RandIDFailed | CouldNotAllocate

text \<open>The draws are numbered by the tries that remain.\<close>

fun freeIDLocked :: "(nat \<Rightarrow> int option) \<Rightarrow> (int, challenge_entry) fmap \<Rightarrow> nat \<Rightarrow> issue_error + int" where
  "freeIDLocked draw entries 0 = Inl CouldNotAllocate"
| "freeIDLocked draw entries (Suc n) =
     (case draw n of
        None \<Rightarrow> Inl RandIDFailed
      | Some sid \<Rightarrow>
          if sid = 0 then freeIDLocked draw entries n
          else if fmlookup entries sid = None then Inr sid
          else freeIDLocked draw entries n)"

text \<open>What one call of \<open>Issue\<close> draws and reads from outside the store.\<close>

record issue_env =
  ie_secret :: "byte list option"
  ie_sweepNow :: gtime
  ie_order :: "int list"
  ie_draw :: "nat \<Rightarrow> int option"
  ie_now :: gtime

definition evict_prior :: "int \<Rightarrow> int \<Rightarrow> challenge_store \<Rightarrow> challenge_store" where
  "evict_prior authKeyID userID s =
     (case fmlookup (cs_byUser s) authKeyID of
        None \<Rightarrow> s
      | Some keyMap \<Rightarrow>
          (case fmlookup keyMap userID of
             None \<Rightarrow> s
           | Some prev \<Rightarrow> s\<lparr>cs_entries := fmdrop prev (cs_entries s)\<rparr>))"

definition register_challenge :: "int \<Rightarrow> challenge_entry \<Rightarrow> challenge_store \<Rightarrow> challenge_store" where
  "register_challenge srpID e s =
     (let keyMap = (case fmlookup (cs_byUser s) (ce_authKeyID e) of None \<Rightarrow> fmempty | Some m \<Rightarrow> m) in
      s\<lparr>cs_entries := fmupd srpID e (cs_entries s),
        cs_byUser := fmupd (ce_authKeyID e) (fmupd (pd_UserID (ce_pending e)) srpID keyMap) (cs_byUser s)\<rparr>)"

definition Issue ::
  "(byte list \<Rightarrow> byte list) \<Rightarrow> issue_env \<Rightarrow> int \<Rightarrow> int \<Rightarrow> byte list \<Rightarrow> challenge_store \<Rightarrow>
   (issue_error + int \<times> srp_pending) \<times> challenge_store" where
  "Issue H env authKeyID userID verifier s =
     (case Challenge H (ie_secret env) verifier of
        Inl err \<Rightarrow> (Inl (ChallengeFailed err), s)
      | Inr (bPub, bSecret) \<Rightarrow>
          (let s = evict_prior authKeyID userID (sweepLocked (ie_sweepNow env) (ie_order env) s);
               p = \<lparr>pd_BSecret = bSecret, pd_BPublic = bPub, pd_UserID = userID\<rparr> in
           case freeIDLocked (ie_draw env) (cs_entries s) 100 of
             Inl err \<Rightarrow> (Inl err, s)
           | Inr sid \<Rightarrow>
               (Inr (sid, p),
                register_challenge sid \<lparr>ce_pending = p, ce_expiresAt = ie_now env + cs_ttl s, ce_authKeyID = authKeyID\<rparr> s)))"

definition Consume :: "gtime \<Rightarrow> int \<Rightarrow> int \<Rightarrow> challenge_store \<Rightarrow> srp_pending option \<times> challenge_store" where
  "Consume now srpID authKeyID s =
     (case fmlookup (cs_entries s) srpID of
        None \<Rightarrow> (None, s)
      | Some e \<Rightarrow>
          if ce_authKeyID e \<noteq> authKeyID then (None, s)
          else if now > ce_expiresAt e then (None, drop_entry srpID e s)
          else (Some (ce_pending e), drop_entry srpID e s))"

section \<open>Runs\<close>

datatype store_op = IssueOp issue_env int int "byte list" | ConsumeOp gtime int int

text \<open>What happened, newest first: challenges issued, with the time, and challenges consumed.\<close>

datatype store_event = Issued int int srp_pending gtime | Consumed int int srp_pending gtime

fun store_do ::
  "(byte list \<Rightarrow> byte list) \<Rightarrow> store_op \<Rightarrow> challenge_store \<times> store_event list \<Rightarrow> challenge_store \<times> store_event list" where
  "store_do H (IssueOp env key user verifier) (s, evs) =
     (case Issue H env key user verifier s of
        (Inl err, s) \<Rightarrow> (s, evs)
      | (Inr (sid, p), s) \<Rightarrow> (s, Issued sid key p (ie_now env) # evs))"
| "store_do H (ConsumeOp now sid key) (s, evs) =
     (case Consume now sid key s of
        (None, s) \<Rightarrow> (s, evs)
      | (Some p, s) \<Rightarrow> (s, Consumed sid key p now # evs))"

fun event_id :: "store_event \<Rightarrow> int" where
  "event_id (Issued sid key p t) = sid"
| "event_id (Consumed sid key p t) = sid"

fun issued_for :: "int \<Rightarrow> int \<Rightarrow> store_event \<Rightarrow> bool" where
  "issued_for key user (Issued sid k p t) = (k = key \<and> pd_UserID p = user)"
| "issued_for key user (Consumed sid k p t) = False"

text \<open>The challenge was issued, and since then neither its id nor its key and user had another event.\<close>

definition standing :: "gduration \<Rightarrow> int \<Rightarrow> challenge_entry \<Rightarrow> store_event list \<Rightarrow> bool" where
  "standing ttl sid e evs \<longleftrightarrow>
     (\<exists>mid t0 past. evs = mid @ Issued sid (ce_authKeyID e) (ce_pending e) t0 # past \<and> ce_expiresAt e = t0 + ttl \<and>
        list_all (\<lambda>ev. event_id ev \<noteq> sid \<and> \<not> issued_for (ce_authKeyID e) (pd_UserID (ce_pending e)) ev) mid)"

definition by_user :: "challenge_store \<Rightarrow> int \<Rightarrow> int \<Rightarrow> int option" where
  "by_user s key user = (case fmlookup (cs_byUser s) key of None \<Rightarrow> None | Some m \<Rightarrow> fmlookup m user)"

abbreviation referenced :: "challenge_store \<Rightarrow> bool" where
  "referenced s \<equiv> \<forall>sid e. fmlookup (cs_entries s) sid = Some e \<longrightarrow>
     by_user s (ce_authKeyID e) (pd_UserID (ce_pending e)) = Some sid"

definition store_inv :: "gduration \<Rightarrow> challenge_store \<times> store_event list \<Rightarrow> bool" where
  "store_inv ttl = (\<lambda>(s, evs).
     cs_ttl s = ttl \<and> referenced s \<and>
     (\<forall>sid e. fmlookup (cs_entries s) sid = Some e \<longrightarrow> standing ttl sid e evs))"

section \<open>Lemmas\<close>

lemma forget_fields [simp]:
  "cs_ttl (forgetUserLocked a u i s) = cs_ttl s" "cs_entries (forgetUserLocked a u i s) = cs_entries s"
  by (simp_all add: forgetUserLocked_def Let_def split: option.split)

lemma by_user_forget:
  "by_user (forgetUserLocked a u i s) a' u' = (if a' = a \<and> u' = u \<and> by_user s a u = Some i then None else by_user s a' u')"
proof (cases "fmlookup (cs_byUser s) a")
  case (Some m)
  have z: "fmlookup (fmdrop u m) x = None" if "msize (fmdrop u m) = 0" for x
    using that by (cases "fmlookup m x") (auto simp: msize_def dest: fmdomI)
  show ?thesis
  proof (cases "mget m u = i")
    case True
    show ?thesis
    proof (cases "msize (fmdrop u m) = 0")
      case True
      with z [OF True, of u'] Some \<open>mget m u = i\<close> show ?thesis
        by (auto simp: forgetUserLocked_def by_user_def mget_def Let_def split: option.splits if_splits)
    next
      case False
      with Some \<open>mget m u = i\<close> show ?thesis
        by (auto simp: forgetUserLocked_def by_user_def mget_def Let_def split: option.splits)
    qed
  next
    case False
    with Some show ?thesis by (auto simp: forgetUserLocked_def by_user_def mget_def)
  qed
qed (simp add: forgetUserLocked_def by_user_def)

lemma by_user_entries [simp]: "by_user (s\<lparr>cs_entries := m\<rparr>) a u = by_user s a u"
  by (simp add: by_user_def)

lemma drop_entry_fields [simp]:
  "cs_ttl (drop_entry i e s) = cs_ttl s" "cs_entries (drop_entry i e s) = fmdrop i (cs_entries s)"
  by (simp_all add: drop_entry_def)

lemma referenced_drop:
  assumes "referenced s" and "fmlookup (cs_entries s) i = Some e"
  shows "referenced (drop_entry i e s)"
proof (intro allI impI)
  fix j x assume "fmlookup (cs_entries (drop_entry i e s)) j = Some x"
  then have "j \<noteq> i" and x: "fmlookup (cs_entries s) j = Some x" by (auto split: if_splits)
  have "by_user s (ce_authKeyID x) (pd_UserID (ce_pending x)) = Some j"
    and "by_user s (ce_authKeyID e) (pd_UserID (ce_pending e)) = Some i" using assms x by blast+
  with \<open>j \<noteq> i\<close> show "by_user (drop_entry i e s) (ce_authKeyID x) (pd_UserID (ce_pending x)) = Some j"
    by (auto simp: drop_entry_def by_user_forget)
qed

lemma sweep_one_fields: "cs_ttl (sweep_one now i s) = cs_ttl s"
  "fmlookup (cs_entries (sweep_one now i s)) j = Some e \<Longrightarrow> fmlookup (cs_entries s) j = Some e"
  by (auto simp: sweep_one_def split: option.splits if_splits)

lemma referenced_sweep_one: "referenced s \<Longrightarrow> referenced (sweep_one now i s)"
  using referenced_drop by (simp add: sweep_one_def split: option.split)

lemma sweep_fields:
  "cs_ttl (sweepLocked now order s) = cs_ttl s"
  "fmlookup (cs_entries (sweepLocked now order s)) j = Some e \<Longrightarrow> fmlookup (cs_entries s) j = Some e"
  "referenced s \<Longrightarrow> referenced (sweepLocked now order s)"
proof (induction order arbitrary: s)
  case (Cons i order)
  { case 1 then show ?case using Cons.IH(1) [of "sweep_one now i s"] by (simp add: sweepLocked_def sweep_one_fields)
  next case 2 then show ?case
      using Cons.IH(2) [of "sweep_one now i s"] sweep_one_fields(2) [of now i s] by (simp add: sweepLocked_def)
  next case 3 then show ?case using Cons.IH(3) [OF referenced_sweep_one] by (simp add: sweepLocked_def) }
qed (simp_all add: sweepLocked_def)

lemma evict_fields:
  "cs_ttl (evict_prior a u s) = cs_ttl s" "by_user (evict_prior a u s) k x = by_user s k x"
  "fmlookup (cs_entries (evict_prior a u s)) j = Some e \<Longrightarrow> fmlookup (cs_entries s) j = Some e \<and> by_user s a u \<noteq> Some j"
  by (auto simp: evict_prior_def by_user_def split: option.splits if_splits)

lemma free_id_fresh: "freeIDLocked draw m n = Inr i \<Longrightarrow> i \<noteq> 0 \<and> fmlookup m i = None"
  by (induction n) (auto split: option.splits if_splits)

lemma by_user_register:
  "by_user (register_challenge i e s) a u =
     (if a = ce_authKeyID e \<and> u = pd_UserID (ce_pending e) then Some i else by_user s a u)"
  by (auto simp: register_challenge_def by_user_def Let_def split: option.split)

lemma register_fields [simp]:
  "cs_ttl (register_challenge i e s) = cs_ttl s" "cs_entries (register_challenge i e s) = fmupd i e (cs_entries s)"
  by (simp_all add: register_challenge_def Let_def)

lemma standing_older:
  assumes "standing ttl i e evs" and "event_id ev \<noteq> i" and "\<not> issued_for (ce_authKeyID e) (pd_UserID (ce_pending e)) ev"
  shows "standing ttl i e (ev # evs)"
proof -
  from assms(1) obtain mid t0 past where "evs = mid @ Issued i (ce_authKeyID e) (ce_pending e) t0 # past"
    "ce_expiresAt e = t0 + ttl"
    "list_all (\<lambda>ev. event_id ev \<noteq> i \<and> \<not> issued_for (ce_authKeyID e) (pd_UserID (ce_pending e)) ev) mid"
    unfolding standing_def by blast
  with assms(2,3) show ?thesis unfolding standing_def by (intro exI [of _ "ev # mid"] exI [of _ t0] exI [of _ past]) simp
qed

lemma standing_new: "standing ttl i e (Issued i (ce_authKeyID e) (ce_pending e) t0 # evs)" if "ce_expiresAt e = t0 + ttl"
  using that unfolding standing_def by (intro exI [of _ "[]"] exI [of _ t0] exI [of _ evs]) simp

lemma issue_inv:
  assumes inv: "store_inv ttl (s, evs)"
  shows "store_inv ttl (store_do H (IssueOp env key user verifier) (s, evs))"
proof (cases "Challenge H (ie_secret env) verifier")
  case (Inr bs)
  obtain bPub bSecret where bs: "bs = (bPub, bSecret)" by (cases bs)
  define s1 where "s1 = sweepLocked (ie_sweepNow env) (ie_order env) s"
  define s2 where "s2 = evict_prior key user s1"
  let ?p = "\<lparr>pd_BSecret = bSecret, pd_BPublic = bPub, pd_UserID = user\<rparr>"
  have base: "cs_ttl s = ttl" "referenced s" "\<And>i e. fmlookup (cs_entries s) i = Some e \<Longrightarrow> standing ttl i e evs"
    using inv by (simp_all add: store_inv_def)
  have ref1: "referenced s1" unfolding s1_def by (rule sweep_fields(3) [OF base(2)])
  have sub: "fmlookup (cs_entries s) i = Some e \<and> by_user s1 key user \<noteq> Some i" if "fmlookup (cs_entries s2) i = Some e" for i e
    using evict_fields(3) [OF that [unfolded s2_def]] sweep_fields(2) unfolding s1_def by blast
  have ref2: "referenced s2"
    using ref1 evict_fields(3) [of key user s1] by (auto simp: s2_def evict_fields(2))
  have ttl: "cs_ttl s2 = ttl" by (simp add: s2_def s1_def evict_fields sweep_fields base)
  have other: "\<not> (ce_authKeyID e = key \<and> pd_UserID (ce_pending e) = user)" if "fmlookup (cs_entries s2) i = Some e" for i e
    using sub [OF that] ref1 evict_fields(3) [OF that [unfolded s2_def]] by auto
  show ?thesis
  proof (cases "freeIDLocked (ie_draw env) (cs_entries s2) 100")
    case (Inl err)
    then have "store_do H (IssueOp env key user verifier) (s, evs) = (s2, evs)"
      using Inr bs by (simp add: Issue_def s2_def s1_def Let_def)
    with ttl ref2 sub base(3) show ?thesis by (auto simp: store_inv_def)
  next
    case (Inr i)
    define e where "e = \<lparr>ce_pending = ?p, ce_expiresAt = ie_now env + cs_ttl s2, ce_authKeyID = key\<rparr>"
    have run: "store_do H (IssueOp env key user verifier) (s, evs) = (register_challenge i e s2, Issued i key ?p (ie_now env) # evs)"
      using Inr \<open>Challenge H (ie_secret env) verifier = Inr bs\<close> bs by (simp add: Issue_def s2_def s1_def e_def Let_def)
    have fresh: "fmlookup (cs_entries s2) i = None" using free_id_fresh [OF Inr] by simp
    have "referenced (register_challenge i e s2)"
      using ref2 other by (auto simp: by_user_register e_def)
    moreover have "standing ttl j x (Issued i key ?p (ie_now env) # evs)"
      if "fmlookup (cs_entries (register_challenge i e s2)) j = Some x" for j x
    proof (cases "j = i")
      case True
      with that have "x = e" by simp
      then show ?thesis using True standing_new [of e "ie_now env" ttl i evs] ttl by (simp add: e_def)
    next
      case False
      with that have x: "fmlookup (cs_entries s2) j = Some x" by simp
      show ?thesis by (rule standing_older [OF base(3)]) (use sub [OF x] other [OF x] False in auto)
    qed
    ultimately show ?thesis unfolding run using ttl by (simp add: store_inv_def)
  qed
qed (use inv in \<open>simp add: Issue_def store_inv_def\<close>)

lemma consume_inv:
  assumes inv: "store_inv ttl (s, evs)"
  shows "store_inv ttl (store_do H (ConsumeOp now i key) (s, evs))"
proof (cases "fmlookup (cs_entries s) i")
  case (Some e)
  have base: "cs_ttl s = ttl" "referenced s" "\<And>i e. fmlookup (cs_entries s) i = Some e \<Longrightarrow> standing ttl i e evs"
    using inv by (simp_all add: store_inv_def)
  have ref: "referenced (drop_entry i e s)" by (rule referenced_drop [OF base(2) Some])
  have older: "standing ttl j x (Consumed i k p now # evs)" if "fmlookup (cs_entries s) j = Some x" "j \<noteq> i" for j x k p
    by (rule standing_older [OF base(3) [OF that(1)]]) (use that in auto)
  show ?thesis
    using inv base ref older Some by (auto simp: Consume_def store_inv_def split: if_splits)
qed (use inv in \<open>simp add: Consume_def store_inv_def\<close>)

lemma store_do_inv: "store_inv ttl x \<Longrightarrow> store_inv ttl (store_do H op x)"
  by (cases op; cases x) (simp_all only: issue_inv consume_inv)

lemma store_run_inv: "store_inv ttl (fold (store_do H) ops (NewChallengeStore ttl, []))"
proof -
  have "store_inv ttl (fold (store_do H) ops x)" if "store_inv ttl x" for x
    using that by (induction ops arbitrary: x) (simp_all add: store_do_inv)
  then show ?thesis by (simp add: store_inv_def NewChallengeStore_def)
qed

section \<open>A challenge is answered once\<close>

text \<open>The consumption at the head of a trace goes back to an issue nothing has touched since.\<close>

definition answers :: "gduration \<Rightarrow> int \<Rightarrow> int \<Rightarrow> srp_pending \<Rightarrow> gtime \<Rightarrow> store_event list \<Rightarrow> bool" where
  "answers ttl sid key p t earlier \<longleftrightarrow>
     (\<exists>mid t0 past. earlier = mid @ Issued sid key p t0 # past \<and> t \<le> t0 + ttl \<and>
        list_all (\<lambda>ev. event_id ev \<noteq> sid \<and> \<not> issued_for key (pd_UserID p) ev) mid)"

fun trace_ok :: "gduration \<Rightarrow> store_event list \<Rightarrow> bool" where
  "trace_ok ttl [] = True"
| "trace_ok ttl (Issued sid key p t # evs) = trace_ok ttl evs"
| "trace_ok ttl (Consumed sid key p t # evs) = (answers ttl sid key p t evs \<and> trace_ok ttl evs)"

lemma trace_ok_split: "trace_ok ttl (later @ Consumed sid key p t # earlier) \<Longrightarrow> answers ttl sid key p t earlier"
proof (induction later)
  case (Cons ev later)
  then show ?case by (cases ev) simp_all
qed simp

lemma standing_answers:
  assumes "standing ttl i e evs" and "now \<le> ce_expiresAt e"
  shows "answers ttl i (ce_authKeyID e) (ce_pending e) now evs"
  using assms unfolding standing_def answers_def by force

lemma trace_ok_do:
  assumes "store_inv ttl (s, evs)" and "trace_ok ttl evs"
  shows "trace_ok ttl (snd (store_do H op (s, evs)))"
proof (cases op)
  case (IssueOp env key user verifier)
  with assms(2) show ?thesis by (auto split: prod.split sum.split)
next
  case (ConsumeOp now i key)
  show ?thesis
  proof (cases "fmlookup (cs_entries s) i")
    case (Some e)
    with assms(1) have "standing ttl i e evs" by (simp add: store_inv_def)
    with standing_answers ConsumeOp Some assms(2) show ?thesis by (auto simp: Consume_def)
  qed (use ConsumeOp assms(2) in \<open>simp add: Consume_def\<close>)
qed

lemma trace_ok_run: "trace_ok ttl (snd (fold (store_do H) ops (NewChallengeStore ttl, [])))"
proof (induction ops rule: rev_induct)
  case (snoc op ops)
  then show ?case using store_run_inv [of ttl H ops] trace_ok_do
    by (metis fold_append fold_simps comp_apply prod.collapse)
qed simp

text \<open>
  C10. A password challenge is good for one answer. Over any sequence of issues and consumptions,
  whatever the clock, the random ids and the order of sweeps, a challenge is handed out only to the
  auth key it was issued under, with the secret and user it was issued with, no later than its
  lifetime after it was issued, and only if since then its id was not handed out and no newer
  challenge was issued to the same key and user.
\<close>

theorem challenge_answered_once:
  assumes "fold (store_do H) ops (NewChallengeStore ttl, []) = (s, later @ Consumed sid key p t # earlier)"
  shows "\<exists>mid t0 past. earlier = mid @ Issued sid key p t0 # past \<and> t \<le> t0 + ttl \<and>
    list_all (\<lambda>ev. event_id ev \<noteq> sid \<and> \<not> issued_for key (pd_UserID p) ev) mid"
proof -
  have "trace_ok ttl (later @ Consumed sid key p t # earlier)" using trace_ok_run [of ttl H ops] assms by simp
  then show ?thesis unfolding answers_def [symmetric] by (rule trace_ok_split)
qed

definition demo_issue :: issue_env where
  "demo_issue = \<lparr>ie_secret = Some demo_secret, ie_sweepNow = 1, ie_order = [], ie_draw = (\<lambda>n. Some 42), ie_now = 1\<rparr>"

definition demo_pending :: srp_pending where
  "demo_pending = \<lparr>pd_BSecret = srp_pad (big_Bytes 1), pd_BPublic = srp_pad (big_Bytes 6), pd_UserID = 7\<rparr>"

definition demo_entry :: challenge_entry where
  "demo_entry = \<lparr>ce_pending = demo_pending, ce_expiresAt = 11, ce_authKeyID = 5\<rparr>"

lemma demo_issue_step:
  "store_do demo_H (IssueOp demo_issue 5 7 (client_verifier 1)) (NewChallengeStore 10, []) =
     (register_challenge 42 demo_entry (NewChallengeStore 10), [Issued 42 5 demo_pending 1])"
proof -
  have f: "freeIDLocked (\<lambda>n. Some 42) fmempty 100 = Inr 42" using freeIDLocked.simps(2) [of "\<lambda>n. Some 42" fmempty 99] by simp
  have c: "Challenge demo_H (ie_secret demo_issue) (client_verifier 1) = Inr (srp_pad (big_Bytes 6), srp_pad (big_Bytes 1))"
    using demo_challenge by (simp add: demo_issue_def)
  have e: "\<lparr>pd_BSecret = srp_pad (big_Bytes 1), pd_BPublic = srp_pad (big_Bytes 6), pd_UserID = 7\<rparr> = demo_pending"
    by (simp only: demo_pending_def)
  have s: "evict_prior 5 7 (sweepLocked (ie_sweepNow demo_issue) (ie_order demo_issue) (NewChallengeStore 10)) = NewChallengeStore 10"
    by (simp add: demo_issue_def sweepLocked_def evict_prior_def NewChallengeStore_def)
  show ?thesis
    unfolding store_do.simps Issue_def c sum.case prod.case Let_def s e
    using f by (simp add: demo_issue_def demo_entry_def NewChallengeStore_def)
qed

lemma demo_store_run:
  "\<exists>s. fold (store_do demo_H) [IssueOp demo_issue 5 7 (client_verifier 1), ConsumeOp 3 42 5, ConsumeOp 4 42 5]
     (NewChallengeStore 10, []) = (s, [Consumed 42 5 demo_pending 3, Issued 42 5 demo_pending 1])"
  unfolding fold_simps demo_issue_step by (simp add: Consume_def) (simp add: demo_entry_def)

theorem challenge_answered_once_witness:
  "\<exists>mid t0 past. [Issued 42 5 demo_pending 1] = mid @ Issued 42 5 demo_pending t0 # past \<and> 3 \<le> t0 + 10 \<and>
    list_all (\<lambda>ev. event_id ev \<noteq> 42 \<and> \<not> issued_for 5 (pd_UserID demo_pending) ev) mid"
proof -
  obtain s where "fold (store_do demo_H) [IssueOp demo_issue 5 7 (client_verifier 1), ConsumeOp 3 42 5, ConsumeOp 4 42 5]
     (NewChallengeStore 10, []) = (s, [] @ Consumed 42 5 demo_pending 3 # [Issued 42 5 demo_pending 1])"
    using demo_store_run by auto
  from challenge_answered_once [OF this] show ?thesis .
qed

end
