(* ===== verification/Framing.thy ===== *)
theory Framing
  imports Discovery
begin

text \<open>
  What happens to the first bytes of an accepted connection: the discovery probe
  (\<open>probePreflight\<close>, internal/mtproto/preflight.go) and the framing sniff (\<open>sniffFraming\<close>,
  internal/mtproto/obfuscated.go), both of which read bytes off the socket and put them back
  through a \<open>replayConn\<close>.

  A socket is the bytes its peer has sent and what the next read reports once they are used up.
  The codec tags belong to the transport library and are a parameter.
\<close>

section \<open>Sockets and replay\<close>

datatype stream_end = AtEOF | AtError | AtNothing

record sock =
  sk_bytes :: "byte list"
  sk_end :: stream_end

text \<open>
  \<open>Read\<close> into a buffer of n > 0 bytes: the bytes read, what it reports and the socket after.
  \<open>AtNothing\<close> is a reader that returns no byte and no error.
\<close>

definition sock_read :: "nat \<Rightarrow> sock \<Rightarrow> byte list \<times> stream_end option \<times> sock" where
  "sock_read n s =
     (if sk_bytes s = [] then ([], Some (sk_end s), s)
      else (take n (sk_bytes s), None, s\<lparr>sk_bytes := drop n (sk_bytes s)\<rparr>))"

text \<open>\<open>io.ReadFull\<close>: what was read, whether it was all, and the socket after.\<close>

definition sock_read_full :: "nat \<Rightarrow> sock \<Rightarrow> byte list \<times> bool \<times> sock" where
  "sock_read_full n s =
     (take n (sk_bytes s), n \<le> length (sk_bytes s), s\<lparr>sk_bytes := drop n (sk_bytes s)\<rparr>)"

text \<open>\<open>replayConn\<close>: a \<open>MultiReader\<close> over the bytes put back and the socket.\<close>

record replay_conn =
  rc_head :: "byte list"
  rc_sock :: sock

definition replay_read :: "nat \<Rightarrow> replay_conn \<Rightarrow> byte list \<times> stream_end option \<times> replay_conn" where
  "replay_read n c =
     (if rc_head c \<noteq> [] then (take n (rc_head c), None, c\<lparr>rc_head := drop n (rc_head c)\<rparr>)
      else (let (bs, e, s) = sock_read n (rc_sock c) in (bs, e, c\<lparr>rc_sock := s\<rparr>)))"

text \<open>The socket a replay stands for.\<close>

definition as_sock :: "replay_conn \<Rightarrow> sock" where
  "as_sock c = (rc_sock c)\<lparr>sk_bytes := rc_head c @ sk_bytes (rc_sock c)\<rparr>"

text \<open>Draining a connection read by read, each into a buffer of n bytes.\<close>

fun drain_sock :: "nat \<Rightarrow> nat \<Rightarrow> sock \<Rightarrow> byte list" where
  "drain_sock 0 n s = []"
| "drain_sock (Suc k) n s = (let (bs, e, s') = sock_read n s in if bs = [] then [] else bs @ drain_sock k n s')"

fun drain_replay :: "nat \<Rightarrow> nat \<Rightarrow> replay_conn \<Rightarrow> byte list" where
  "drain_replay 0 n c = []"
| "drain_replay (Suc k) n c = (let (bs, e, c') = replay_read n c in if bs = [] then [] else bs @ drain_replay k n c')"

section \<open>The framing sniff\<close>

record codec_tags =
  ct_abridged :: byte
  ct_intermediate :: "byte list"
  ct_padded :: "byte list"

definition framingPrefixLen :: nat where
  "framingPrefixLen = 8"

definition le_nat :: "byte list \<Rightarrow> nat" where
  "le_nat bs = be_nat (rev bs)"

text \<open>\<open>fill\<close>: read up to the first n bytes into \<open>head\<close>.\<close>

definition fill :: "nat \<Rightarrow> byte list \<Rightarrow> sock \<Rightarrow> bool \<times> byte list \<times> sock" where
  "fill n head s = (let (got, ok, s') = sock_read_full (n - length head) s in (ok, head @ got, s'))"

datatype framing_error = ShortFraming nat

definition prefixed ::
  "bool \<Rightarrow> framing_error option \<Rightarrow> byte list \<Rightarrow> sock \<Rightarrow> bool \<times> replay_conn \<times> framing_error option" where
  "prefixed obfuscated err head s = (obfuscated, \<lparr>rc_head = head, rc_sock = s\<rparr>, err)"

definition sniffFraming :: "codec_tags \<Rightarrow> sock \<Rightarrow> bool \<times> replay_conn \<times> framing_error option" where
  "sniffFraming tags s0 =
     (let (ok, head, s) = fill 1 [] s0 in
      if \<not> ok then prefixed False (Some (ShortFraming 1)) head s
      else if head ! 0 = ct_abridged tags then prefixed False None head s
      else let (ok, head, s) = fill 4 head s in
      if \<not> ok then prefixed False (Some (ShortFraming 4)) head s
      else if take 4 head = ct_intermediate tags \<or> take 4 head = ct_padded tags
      then prefixed False None head s
      else let (ok, head, s) = fill framingPrefixLen head s in
      if \<not> ok then prefixed False (Some (ShortFraming framingPrefixLen)) head s
      else if le_nat (slice 4 framingPrefixLen head) = 0 then prefixed False None head s
      else prefixed True None head s)"

section \<open>The discovery probe\<close>

record probe =
  pr_matched :: bool
  pr_malformed :: bool
  pr_nonce :: "byte list"
  pr_stream :: "replay_conn option"

datatype probe_error = ProbeReadMagic stream_end | ProbeNoProgress | ProbeShortNonce | ProbeDeadline | ProbeWaitEOF stream_end

definition probe_none :: probe where
  "probe_none = \<lparr>pr_matched = False, pr_malformed = False, pr_nonce = replicate NonceSize 0, pr_stream = None\<rparr>"

definition probe_replay :: "byte list \<Rightarrow> sock \<Rightarrow> probe" where
  "probe_replay request s = probe_none\<lparr>pr_stream := Some \<lparr>rc_head = request, rc_sock = s\<rparr>\<rparr>"

definition probe_malformed :: "sock \<Rightarrow> probe" where
  "probe_malformed s = probe_none\<lparr>pr_malformed := True, pr_stream := Some \<lparr>rc_head = [], rc_sock = s\<rparr>\<rparr>"

text \<open>
  The loop that reads the magic a byte at a time. \<open>Inl\<close> is an early return of the probe, \<open>Inr\<close> the
  bytes read and the socket once the whole magic has matched. k counts the bytes still to read.
\<close>

fun read_magic :: "nat \<Rightarrow> byte list \<Rightarrow> sock \<Rightarrow> (probe \<times> probe_error option) + byte list \<times> sock" where
  "read_magic 0 request s = Inr (request, s)"
| "read_magic (Suc k) request s =
     (let (bs, e, s') = sock_read 1 s; request' = request @ bs in
      if request' \<noteq> [] \<and> request' \<noteq> take (length request') RequestMagic then Inl (probe_replay request' s', None)
      else case e of
             Some AtNothing \<Rightarrow> Inl (probe_none, Some ProbeNoProgress)
           | Some err \<Rightarrow> Inl (probe_replay request' s', Some (ProbeReadMagic err))
           | None \<Rightarrow> read_magic k request' s')"

text \<open>\<open>now\<close> is the clock when the complete request has been read.\<close>

definition probePreflight :: "sock \<Rightarrow> gtime \<Rightarrow> gtime \<Rightarrow> probe \<times> probe_error option" where
  "probePreflight s0 deadline now =
     (case read_magic RequestMagicSize [] s0 of
        Inl r \<Rightarrow> r
      | Inr (request, s) \<Rightarrow>
          (let (nonce, ok, s') = sock_read_full NonceSize s in
           if \<not> ok then (probe_malformed s', Some ProbeShortNonce)
           else if \<not> is_zero_time deadline \<and> \<not> now < deadline then (probe_malformed s', Some ProbeDeadline)
           else let (trailing, e, s'') = sock_read 1 s' in
           if trailing \<noteq> [] then (probe_malformed s'', None)
           else case e of
                  Some AtEOF \<Rightarrow>
                    (probe_none\<lparr>pr_matched := True, pr_nonce := nonce,
                                pr_stream := Some \<lparr>rc_head = [], rc_sock = s''\<rparr>\<rparr>, None)
                | Some AtError \<Rightarrow> (probe_malformed s'', Some (ProbeWaitEOF AtError))
                | _ \<Rightarrow> (probe_malformed s'', Some ProbeNoProgress)))"

section \<open>Lemmas\<close>

lemma as_sock_simps [simp]: "as_sock \<lparr>rc_head = [], rc_sock = s\<rparr> = s"
  by (simp add: as_sock_def)

text \<open>
  Reading a replay is reading the socket it stands for, up to how the bytes are cut into reads:
  each read returns a prefix of the same stream, non-empty until the stream is used up.
\<close>

lemma replay_read_refines:
  assumes "replay_read n c = (bs, e, c')"
  shows "sk_bytes (as_sock c) = bs @ sk_bytes (as_sock c') \<and> sk_end (as_sock c') = sk_end (as_sock c) \<and>
    length bs \<le> n \<and> (0 < n \<longrightarrow> (bs = [] \<longleftrightarrow> sk_bytes (as_sock c) = [])) \<and>
    (e \<noteq> None \<longrightarrow> e = Some (sk_end (as_sock c)) \<and> sk_bytes (as_sock c) = [])"
  using assms
  by (cases "rc_head c"; cases "sk_bytes (rc_sock c)"; cases n)
     (auto simp: replay_read_def sock_read_def as_sock_def)

lemma drain_replay_all:
  assumes "0 < n" and "length (sk_bytes (as_sock c)) \<le> k"
  shows "drain_replay k n c = sk_bytes (as_sock c)"
  using assms(2)
proof (induction k arbitrary: c)
  case (Suc k)
  obtain bs e c' where r: "replay_read n c = (bs, e, c')" by (metis prod_cases3)
  from replay_read_refines [OF r] assms(1)
  have b: "sk_bytes (as_sock c) = bs @ sk_bytes (as_sock c')"
    and e: "bs = [] \<longleftrightarrow> sk_bytes (as_sock c) = []" by blast+
  show ?case
  proof (cases "bs = []")
    case True
    with e r show ?thesis by simp
  next
    case False
    then have "length (sk_bytes (as_sock c')) \<le> k"
      using Suc.prems b(1) by (cases bs) auto
    with Suc.IH [of c'] b(1) False r show ?thesis by simp
  qed
qed simp

lemma fill_keeps:
  assumes "fill n head s = (ok, head', s')"
  shows "head' @ sk_bytes s' = head @ sk_bytes s \<and> sk_end s' = sk_end s \<and>
    (length head \<le> n \<longrightarrow> length head' \<le> n \<and> (ok \<longleftrightarrow> n \<le> length head + length (sk_bytes s)) \<and>
      head' = take n (head @ sk_bytes s))"
  using assms by (auto simp: fill_def sock_read_full_def)

text \<open>The header a stock client generates, as the transport's clients do: at least eight bytes that
  open with no codec tag and whose second little-endian word is not zero.\<close>

definition obfuscated_header :: "codec_tags \<Rightarrow> byte list \<Rightarrow> bool" where
  "obfuscated_header tags bs \<longleftrightarrow>
     8 \<le> length bs \<and> bs ! 0 \<noteq> ct_abridged tags \<and>
     take 4 bs \<noteq> ct_intermediate tags \<and> take 4 bs \<noteq> ct_padded tags \<and> le_nat (slice 4 8 bs) \<noteq> 0"

text \<open>The bytes that have to arrive before the framing is known.\<close>

definition framing_needs :: "codec_tags \<Rightarrow> byte list \<Rightarrow> nat" where
  "framing_needs tags bs =
     (if bs = [] \<or> bs ! 0 = ct_abridged tags then 1
      else if length bs < 4 \<or> take 4 bs = ct_intermediate tags \<or> take 4 bs = ct_padded tags then 4
      else 8)"

lemma sniff_head:
  "sniffFraming tags s =
     (let n = framing_needs tags (sk_bytes s); head = take n (sk_bytes s); s' = s\<lparr>sk_bytes := drop n (sk_bytes s)\<rparr> in
      if length (sk_bytes s) < n then prefixed False (Some (ShortFraming n)) head s'
      else prefixed (obfuscated_header tags (sk_bytes s)) None head s')"
proof -
  note One_nat_def [simp del]
  let ?bs = "sk_bytes s"
  have f1: "fill 1 [] s = (1 \<le> length ?bs, take 1 ?bs, s\<lparr>sk_bytes := drop 1 ?bs\<rparr>)"
    by (simp add: fill_def sock_read_full_def)
  have f4: "fill 4 (take 1 ?bs) (s\<lparr>sk_bytes := drop 1 ?bs\<rparr>) = (4 \<le> length ?bs, take 4 ?bs, s\<lparr>sk_bytes := drop 4 ?bs\<rparr>)"
    if "1 \<le> length ?bs"
    using that take_add [of 1 3 ?bs] by (auto simp: fill_def sock_read_full_def min_def)
  have f8: "fill 8 (take 4 ?bs) (s\<lparr>sk_bytes := drop 4 ?bs\<rparr>) = (8 \<le> length ?bs, take 8 ?bs, s\<lparr>sk_bytes := drop 8 ?bs\<rparr>)"
    if "4 \<le> length ?bs"
    using that take_add [of 4 4 ?bs] by (auto simp: fill_def sock_read_full_def min_def)
  have sl: "slice 4 8 (take 8 ?bs) = slice 4 8 ?bs" by (simp add: slice_def drop_take)
  consider (none) "?bs = []" | (ab) "1 \<le> length ?bs" "?bs ! 0 = ct_abridged tags"
    | (s4) "1 \<le> length ?bs" "length ?bs < 4" "?bs ! 0 \<noteq> ct_abridged tags"
    | (tag) "4 \<le> length ?bs" "?bs ! 0 \<noteq> ct_abridged tags" "take 4 ?bs = ct_intermediate tags \<or> take 4 ?bs = ct_padded tags"
    | (rest) "4 \<le> length ?bs" "?bs ! 0 \<noteq> ct_abridged tags" "\<not> (take 4 ?bs = ct_intermediate tags \<or> take 4 ?bs = ct_padded tags)"
    by (cases ?bs) force+
  then show ?thesis
  proof cases
    case none
    then show ?thesis by (simp add: sniffFraming_def f1 framing_needs_def)
  next
    case ab
    then have "?bs \<noteq> []" by auto
    with ab show ?thesis
      by (simp add: sniffFraming_def f1 framing_needs_def obfuscated_header_def)
  next
    case s4
    then have "?bs \<noteq> []" by auto
    with s4 show ?thesis by (simp add: sniffFraming_def f1 f4 framing_needs_def)
  next
    case tag
    then have "?bs \<noteq> []" by auto
    with tag show ?thesis
      by (auto simp: sniffFraming_def f1 f4 framing_needs_def obfuscated_header_def)
  next
    case rest
    then have "?bs \<noteq> []" by auto
    with rest show ?thesis
      by (auto simp: sniffFraming_def f1 f4 f8 framing_needs_def obfuscated_header_def framingPrefixLen_def sl)
  qed
qed

text \<open>The magic loop, from the point where the first bytes of the magic have matched.\<close>

lemma magic_take_Suc:
  assumes "i < 16" and "request = take i RequestMagic"
  shows "request @ [b] = take (Suc i) RequestMagic \<longleftrightarrow> b = RequestMagic ! i"
  using assms by (simp add: take_Suc_conv_app_nth)

lemma read_magic_Inr:
  assumes "request = take (16 - k) RequestMagic" and "k \<le> 16"
    and "read_magic k request s = Inr (request', s')"
  shows "request' = RequestMagic \<and> request @ sk_bytes s = RequestMagic @ sk_bytes s' \<and> sk_end s' = sk_end s"
  using assms
proof (induction k arbitrary: request s)
  case (Suc k)
  show ?case
  proof (cases "sk_bytes s")
    case Nil
    with Suc.prems(3) show ?thesis
      by (auto simp: sock_read_def split: stream_end.splits if_splits)
  next
    case (Cons b bs)
    have len: "length request = 16 - Suc k" using Suc.prems(1,2) by simp
    have l: "length (request @ [b]) = 16 - k" using len Suc.prems(2) by simp
    from Suc.prems(3) Cons l have eq: "request @ [b] = take (16 - k) RequestMagic"
      and r: "read_magic k (request @ [b]) (s\<lparr>sk_bytes := bs\<rparr>) = Inr (request', s')"
      by (auto simp: sock_read_def Let_def split: if_splits)
    from Suc.IH [OF eq _ r] Suc.prems(2) Cons show ?thesis by simp
  qed
qed simp

lemma read_magic_Inl:
  assumes "request = take (16 - k) RequestMagic" and "k \<le> 16"
    and "read_magic k request s = Inl (p, e)"
  shows "\<not> pr_matched p \<and> \<not> pr_malformed p \<and>
    (e = None \<longrightarrow> (\<exists>c. pr_stream p = Some c \<and> as_sock c = s\<lparr>sk_bytes := request @ sk_bytes s\<rparr>)) \<and>
    (e = None \<longleftrightarrow> take 16 (request @ sk_bytes s) \<noteq> take (length (request @ sk_bytes s)) RequestMagic) \<and>
    (e \<noteq> None \<longrightarrow> length (request @ sk_bytes s) < 16)"
  using assms
proof (induction k arbitrary: request s)
  case (Suc k)
  have len: "length request = 16 - Suc k" using Suc.prems(1,2) by simp
  show ?case
  proof (cases "sk_bytes s")
    case Nil
    have "take 16 request = request" "take (length request) RequestMagic = request"
      using len Suc.prems(1) by simp_all
    moreover have "take (length request) RequestMagic = request" using Suc.prems(1) len by simp
    moreover have "length request < 16" using len by simp
    ultimately show ?thesis using Suc.prems(3) Nil
      by (auto simp: sock_read_def Let_def probe_replay_def probe_none_def split: stream_end.splits if_splits)
  next
    case (Cons b bs)
    have l: "Suc (length request) = 16 - k" using len Suc.prems(2) by simp
    show ?thesis
    proof (cases "request @ [b] = take (16 - k) RequestMagic")
      case True
      then have r: "read_magic k (request @ [b]) (s\<lparr>sk_bytes := bs\<rparr>) = Inl (p, e)"
        using Suc.prems(3) Cons by (auto simp: sock_read_def Let_def l)
      have app: "(request @ [b]) @ sk_bytes (s\<lparr>sk_bytes := bs\<rparr>) = request @ sk_bytes s"
        and upd: "s\<lparr>sk_bytes := bs\<rparr>\<lparr>sk_bytes := x\<rparr> = s\<lparr>sk_bytes := x\<rparr>" for x
        using Cons by simp_all
      have "k \<le> 16" using Suc.prems(2) by simp
      from Suc.IH [OF True this r, unfolded app upd] show ?thesis .
    next
      case False
      then have p: "p = probe_replay (request @ [b]) (s\<lparr>sk_bytes := bs\<rparr>)" and e: "e = None"
        using Suc.prems(3) Cons by (auto simp: sock_read_def Let_def l)
      have "take (16 - k) (take 16 (request @ b # bs)) = request @ [b]"
        using len Suc.prems(2) by (simp add: l [symmetric] min_def)
      moreover have "take (16 - k) (take (length (request @ b # bs)) RequestMagic) = take (16 - k) RequestMagic"
        by (simp add: l [symmetric])
      ultimately have "take 16 (request @ b # bs) \<noteq> take (length (request @ b # bs)) RequestMagic"
        using False by metis
      with p e Cons show ?thesis
        by (simp add: probe_replay_def probe_none_def as_sock_def)
    qed
  qed
qed simp

section \<open>Properties\<close>

text \<open>
  The framing sniff gives every byte back and decides right: whatever the peer sent, the
  connection handed on reads as the whole original stream after at most eight bytes were examined;
  the sniff fails only when the peer stopped before its framing could be told, and otherwise takes
  the stream for obfuscated exactly when it opens like a header no plaintext client produces.
\<close>

theorem sniffFraming_exact:
  "case sniffFraming tags s of (obfuscated, c, err) \<Rightarrow>
     as_sock c = s \<and> length (rc_head c) \<le> framing_needs tags (sk_bytes s) \<and>
     framing_needs tags (sk_bytes s) \<le> framingPrefixLen \<and>
     (err \<noteq> None) = (length (sk_bytes s) < framing_needs tags (sk_bytes s)) \<and>
     obfuscated = obfuscated_header tags (sk_bytes s)"
  by (auto simp: sniff_head Let_def prefixed_def as_sock_def framingPrefixLen_def framing_needs_def
      obfuscated_header_def)

text \<open>
  C34. The discovery probe claims exactly the discovery requests: it matches if and only if the
  stream is one built request followed by the end of the client's writes before the deadline, and
  then yields that request's nonce; a stream that departs from the magic, as every transport
  client's does, is handed on without error as the stream it was; and nothing that matched the
  whole magic is ever handed on.
\<close>

theorem probePreflight_exact:
  "case probePreflight s deadline now of (p, e) \<Rightarrow>
     pr_matched p = (sk_end s = AtEOF \<and> (is_zero_time deadline \<or> now < deadline) \<and>
                     (\<exists>nonce. BuildPreflightRequest nonce = Inr (sk_bytes s))) \<and>
     (pr_matched p \<longrightarrow> e = None \<and> \<not> pr_malformed p \<and> BuildPreflightRequest (pr_nonce p) = Inr (sk_bytes s)) \<and>
     (\<not> pr_matched p \<and> \<not> pr_malformed p \<and> e = None) =
        (take 16 (sk_bytes s) \<noteq> take (length (sk_bytes s)) RequestMagic) \<and>
     (\<not> pr_matched p \<and> \<not> pr_malformed p \<and> e = None \<longrightarrow>
        (\<exists>c. pr_stream p = Some c \<and> as_sock c = s))"
proof (cases "read_magic 16 [] s")
  case (Inl r)
  obtain p e where r: "r = (p, e)" by fastforce
  with Inl have l: "read_magic 16 [] s = Inl (p, e)" by simp
  have eq: "probePreflight s deadline now = (p, e)"
    by (simp add: probePreflight_def RequestMagicSize_def l)
  from read_magic_Inl [of "[]" 16 s p e] l
  have f: "\<not> pr_matched p" "\<not> pr_malformed p"
      "e = None \<Longrightarrow> \<exists>c. pr_stream p = Some c \<and> as_sock c = s"
      "e = None \<longleftrightarrow> take 16 (sk_bytes s) \<noteq> take (length (sk_bytes s)) RequestMagic"
      "e \<noteq> None \<Longrightarrow> length (sk_bytes s) < 16"
    by simp_all
  have "BuildPreflightRequest nonce \<noteq> Inr (sk_bytes s)" for nonce
  proof
    assume "BuildPreflightRequest nonce = Inr (sk_bytes s)"
    then have "sk_bytes s = RequestMagic @ nonce"
      by (simp add: BuildPreflightRequest_def split: if_splits)
    with f(4,5) show False by (cases "e = None") simp_all
  qed
  with f show ?thesis unfolding eq by simp
next
  case (Inr r)
  obtain q s1 where l: "read_magic 16 [] s = Inr (q, s1)" using Inr by (metis surj_pair)
  from read_magic_Inr [of "[]" 16 s q s1] l
  have b: "sk_bytes s = RequestMagic @ sk_bytes s1" "sk_end s1 = sk_end s" by simp_all
  have eq: "probePreflight s deadline now =
      (let (nonce, ok, s') = sock_read_full NonceSize s1 in
           if \<not> ok then (probe_malformed s', Some ProbeShortNonce)
           else if \<not> is_zero_time deadline \<and> \<not> now < deadline then (probe_malformed s', Some ProbeDeadline)
           else let (trailing, e, s'') = sock_read 1 s' in
           if trailing \<noteq> [] then (probe_malformed s'', None)
           else case e of
                  Some AtEOF \<Rightarrow>
                    (probe_none\<lparr>pr_matched := True, pr_nonce := nonce,
                                pr_stream := Some \<lparr>rc_head = [], rc_sock = s''\<rparr>\<rparr>, None)
                | Some AtError \<Rightarrow> (probe_malformed s'', Some (ProbeWaitEOF AtError))
                | _ \<Rightarrow> (probe_malformed s'', Some ProbeNoProgress))"
    by (simp add: probePreflight_def RequestMagicSize_def l)
  have req: "BuildPreflightRequest nonce = Inr (sk_bytes s) \<longleftrightarrow> length (sk_bytes s1) = 32 \<and> nonce = sk_bytes s1" for nonce
    by (auto simp: BuildPreflightRequest_def NonceSize_def b)
  have pre: "take 16 (sk_bytes s) = take (length (sk_bytes s)) RequestMagic" by (simp add: b)
  show ?thesis
  proof (cases "32 \<le> length (sk_bytes s1) \<and> (is_zero_time deadline \<or> now < deadline)")
    case False
    then show ?thesis unfolding eq req using pre
      by (auto simp: sock_read_full_def NonceSize_def probe_malformed_def probe_none_def)
  next
    case True
    show ?thesis
    proof (cases "length (sk_bytes s1) = 32")
      case len: True
      with True show ?thesis unfolding eq req using pre b
        by (auto simp: sock_read_full_def sock_read_def NonceSize_def probe_malformed_def probe_none_def
            split: stream_end.split)
    next
      case False
      with True have "drop 32 (sk_bytes s1) \<noteq> []" by simp
      with True False show ?thesis unfolding eq req using pre
        by (auto simp: sock_read_full_def sock_read_def NonceSize_def probe_malformed_def probe_none_def)
    qed
  qed
qed

theorem probePreflight_exact_witness:
  "case probePreflight \<lparr>sk_bytes = RequestMagic @ replicate 32 7, sk_end = AtEOF\<rparr> 0 5 of
     (p, e) \<Rightarrow> pr_matched p \<and> e = None \<and> pr_nonce p = replicate 32 7"
proof -
  let ?s = "\<lparr>sk_bytes = RequestMagic @ replicate 32 7, sk_end = AtEOF\<rparr>"
  obtain p e where pe: "probePreflight ?s 0 5 = (p, e)" by fastforce
  have b: "BuildPreflightRequest nonce = Inr (RequestMagic @ replicate 32 7) \<longleftrightarrow> nonce = replicate 32 7" for nonce
    by (auto simp: BuildPreflightRequest_def NonceSize_def)
  from probePreflight_exact [of ?s 0 5] show ?thesis
    unfolding pe by (auto simp: b is_zero_time_def)
qed

end
