(* ===== verification/Discovery_Limit.thy ===== *)
theory Discovery_Limit
  imports Net_Addr Fixed_Window
begin

text \<open>
  The rate limit on discovery responses (internal/mtproto/preflight.go): a process-wide fixed
  window and one per client network, with a bound on how many networks are remembered.
\<close>

record discovery_limits =
  MaxRequests :: int
  MaxRequestsPerNet :: int
  Window :: gduration
  PerNetWindow :: gduration

definition DefaultDiscoveryLimits :: discovery_limits where
  "DefaultDiscoveryLimits =
     \<lparr>MaxRequests = 60, MaxRequestsPerNet = 10, Window = 60 * second, PerNetWindow = 60 * second\<rparr>"

record discovery_window =
  dw_start :: gtime
  dw_calls :: int

record discovery_limiter =
  dl_limits :: discovery_limits
  dl_global :: discovery_window
  dl_perNet :: "(prefix, discovery_window) fmap"
  dl_maxBuckets :: nat

definition maxDiscoveryBuckets :: nat where
  "maxDiscoveryBuckets = 4096"

definition no_window :: discovery_window where
  "no_window = \<lparr>dw_start = 0, dw_calls = 0\<rparr>"

definition newDiscoveryLimiter :: "discovery_limits \<Rightarrow> discovery_limiter" where
  "newDiscoveryLimiter limits =
     \<lparr>dl_limits = limits, dl_global = no_window, dl_perNet = fmempty, dl_maxBuckets = maxDiscoveryBuckets\<rparr>"

datatype discovery_limits_error =
    NegativeMaxRequests int
  | NegativeMaxRequestsPerNet int
  | NegativeWindows
  | WindowNotPositive
  | PerNetWindowNotPositive

definition SetDiscoveryLimits :: "discovery_limits \<Rightarrow> discovery_limits_error + discovery_limiter" where
  "SetDiscoveryLimits l =
     (if MaxRequests l < 0 then Inl (NegativeMaxRequests (MaxRequests l))
      else if MaxRequestsPerNet l < 0 then Inl (NegativeMaxRequestsPerNet (MaxRequestsPerNet l))
      else if Window l < 0 \<or> PerNetWindow l < 0 then Inl NegativeWindows
      else if MaxRequests l > 0 \<and> Window l \<le> 0 then Inl WindowNotPositive
      else if MaxRequestsPerNet l > 0 \<and> PerNetWindow l \<le> 0 then Inl PerNetWindowNotPositive
      else Inr (newDiscoveryLimiter l))"

text \<open>A window is over when it never started or its length has passed.\<close>

definition window_over :: "gduration \<Rightarrow> gtime \<Rightarrow> discovery_window \<Rightarrow> bool" where
  "window_over len now w \<longleftrightarrow> is_zero_time (dw_start w) \<or> \<not> now < dw_start w + len"

definition net_window :: "discovery_limiter \<Rightarrow> prefix \<Rightarrow> discovery_window" where
  "net_window l b = (case fmlookup (dl_perNet l) b of None \<Rightarrow> no_window | Some w \<Rightarrow> w)"

definition prune :: "gtime \<Rightarrow> discovery_limiter \<Rightarrow> discovery_limiter" where
  "prune now l =
     l\<lparr>dl_perNet := fmfilter (\<lambda>b. \<not> window_over (PerNetWindow (dl_limits l)) now (net_window l b)) (dl_perNet l)\<rparr>"

definition discovery_allow :: "addr \<Rightarrow> gtime \<Rightarrow> discovery_limiter \<Rightarrow> bool \<times> discovery_limiter" where
  "discovery_allow a now l =
     (let lim = dl_limits l;
          global = (if MaxRequests lim > 0 \<and> window_over (Window lim) now (dl_global l)
                    then \<lparr>dw_start = now, dw_calls = 0\<rparr> else dl_global l) in
      if MaxRequests lim > 0 \<and> dw_calls global \<ge> MaxRequests lim then (False, l)
      else
        let bucket = (if MaxRequestsPerNet lim > 0 then ip_bucket_key a else None);
            network = (case bucket of
                         None \<Rightarrow> no_window
                       | Some b \<Rightarrow> (if window_over (PerNetWindow lim) now (net_window l b)
                                    then \<lparr>dw_start = now, dw_calls = 0\<rparr> else net_window l b)) in
        if bucket \<noteq> None \<and> dw_calls network \<ge> MaxRequestsPerNet lim then (False, l)
        else
          let full = (\<lambda>l. bucket \<noteq> None \<and> msize (dl_perNet l) \<ge> dl_maxBuckets l);
              l1 = (if full l \<and> is_zero_time (dw_start (net_window l (the bucket))) then prune now l else l) in
          if full l \<and> is_zero_time (dw_start (net_window l (the bucket))) \<and> full l1 then (False, l1)
          else
            let l2 = (if MaxRequests lim > 0
                      then l1\<lparr>dl_global := global\<lparr>dw_calls := dw_calls global + 1\<rparr>\<rparr> else l1);
                l3 = (case bucket of
                        None \<Rightarrow> l2
                      | Some b \<Rightarrow> l2\<lparr>dl_perNet := fmupd b (network\<lparr>dw_calls := dw_calls network + 1\<rparr>) (dl_perNet l2)\<rparr>)
            in (True, l3))"

section \<open>Lemmas\<close>

lemma prune_fields [simp]:
  "dl_limits (prune now l) = dl_limits l" "dl_global (prune now l) = dl_global l"
  "dl_maxBuckets (prune now l) = dl_maxBuckets l"
  by (simp_all add: prune_def)

lemma net_window_prune:
  "net_window (prune now l) b =
     (if window_over (PerNetWindow (dl_limits l)) now (net_window l b) then no_window else net_window l b)"
  by (auto simp: net_window_def prune_def split: option.split)

lemma msize_prune: "msize (dl_perNet (prune now l)) \<le> msize (dl_perNet l)"
  by (simp add: prune_def msize_filter_le)

lemma window_over_iff: "window_over len now w \<longleftrightarrow> dw_start w = 0 \<or> dw_start w + len \<le> now"
  by (auto simp: window_over_def is_zero_time_def)

text \<open>The window a call is counted in: the current one, or a new one when that is over.\<close>

definition rolled :: "gduration \<Rightarrow> gtime \<Rightarrow> discovery_window \<Rightarrow> discovery_window" where
  "rolled len now w = (if window_over len now w then \<lparr>dw_start = now, dw_calls = 0\<rparr> else w)"

lemma allow_refused:
  assumes "discovery_allow a now l = (False, l')"
  shows "l' = l \<or> l' = prune now l"
  using assms by (auto simp: discovery_allow_def Let_def split: if_splits option.splits)

lemma net_window_None: "fmlookup (dl_perNet l) b = None \<Longrightarrow> dw_start (net_window l b) = 0"
  by (simp add: net_window_def no_window_def)

lemma allow_granted:
  assumes "discovery_allow a now l = (True, l')"
  obtains l1 where "l1 = l \<or> l1 = prune now l" and "dl_limits l' = dl_limits l" "dl_maxBuckets l' = dl_maxBuckets l"
    and "0 < MaxRequests (dl_limits l) \<Longrightarrow>
      dw_calls (rolled (Window (dl_limits l)) now (dl_global l)) < MaxRequests (dl_limits l) \<and>
      dl_global l' = (let w = rolled (Window (dl_limits l)) now (dl_global l) in w\<lparr>dw_calls := dw_calls w + 1\<rparr>)"
    and "\<And>b. ip_bucket_key a = Some b \<Longrightarrow> 0 < MaxRequestsPerNet (dl_limits l) \<Longrightarrow>
      dw_calls (rolled (PerNetWindow (dl_limits l)) now (net_window l b)) < MaxRequestsPerNet (dl_limits l) \<and>
      dl_perNet l' = fmupd b (let w = rolled (PerNetWindow (dl_limits l)) now (net_window l b) in
        w\<lparr>dw_calls := dw_calls w + 1\<rparr>) (dl_perNet l1) \<and>
      (fmlookup (dl_perNet l1) b = None \<longrightarrow> msize (dl_perNet l1) < dl_maxBuckets l)"
    and "ip_bucket_key a = None \<or> \<not> 0 < MaxRequestsPerNet (dl_limits l) \<Longrightarrow> dl_perNet l' = dl_perNet l1"
proof (cases "if 0 < MaxRequestsPerNet (dl_limits l) then ip_bucket_key a else None")
  case None
  then show ?thesis
    using assms that [of l]
    by (auto simp: discovery_allow_def Let_def rolled_def split: if_splits)
next
  case (Some b)
  then have p: "0 < MaxRequestsPerNet (dl_limits l)" "ip_bucket_key a = Some b" by (auto split: if_splits)
  define l1 where "l1 = (if msize (dl_perNet l) \<ge> dl_maxBuckets l \<and> is_zero_time (dw_start (net_window l b))
    then prune now l else l)"
  show ?thesis
    by (rule that [of l1]; use assms p in
      \<open>auto simp: discovery_allow_def Let_def rolled_def l1_def is_zero_time_def net_window_None split: if_splits\<close>)
qed

lemma allow_granted_other:
  assumes "discovery_allow a now l = (True, l')" and n: "ip_bucket_key a \<noteq> Some b"
  shows "net_window l' b = net_window l b \<or> net_window l' b = net_window (prune now l) b"
  using assms(1)
proof (rule allow_granted)
  fix l1
  assume l1: "l1 = l \<or> l1 = prune now l"
    and some: "\<And>c. ip_bucket_key a = Some c \<Longrightarrow> 0 < MaxRequestsPerNet (dl_limits l) \<Longrightarrow>
      dw_calls (rolled (PerNetWindow (dl_limits l)) now (net_window l c)) < MaxRequestsPerNet (dl_limits l) \<and>
      dl_perNet l' = fmupd c (let w = rolled (PerNetWindow (dl_limits l)) now (net_window l c) in
        w\<lparr>dw_calls := dw_calls w + 1\<rparr>) (dl_perNet l1) \<and>
      (fmlookup (dl_perNet l1) c = None \<longrightarrow> msize (dl_perNet l1) < dl_maxBuckets l)"
    and none: "ip_bucket_key a = None \<or> \<not> 0 < MaxRequestsPerNet (dl_limits l) \<Longrightarrow> dl_perNet l' = dl_perNet l1"
  have "fmlookup (dl_perNet l') b = fmlookup (dl_perNet l1) b"
  proof (cases "ip_bucket_key a = None \<or> \<not> 0 < MaxRequestsPerNet (dl_limits l)")
    case False
    then obtain c where "ip_bucket_key a = Some c" "0 < MaxRequestsPerNet (dl_limits l)" by auto
    with some n show ?thesis by auto
  qed (simp add: none)
  with l1 show ?thesis by (auto simp: net_window_def)
qed

lemma allow_limits: "dl_limits (snd (discovery_allow a now l)) = dl_limits l"
proof (cases "discovery_allow a now l")
  case (Pair ok l')
  then show ?thesis
    by (cases ok) (auto dest: allow_refused elim: allow_granted)
qed

lemma rolled_over:
  "window_over len now w \<Longrightarrow> rolled len now w = \<lparr>dw_start = now, dw_calls = 0\<rparr>"
  "\<not> window_over len now w \<Longrightarrow> rolled len now w = w"
  by (simp_all add: rolled_def)

text \<open>The process-wide window keeps the fixed-window contract.\<close>

lemma discovery_global_window:
  assumes "0 < MaxRequests lim" and "0 < Window lim"
  shows "fixed_window discovery_allow (\<lambda>_. True) (\<lambda>l. dl_limits l = lim)
    (\<lambda>l. dw_start (dl_global l)) (\<lambda>l. dw_calls (dl_global l)) (MaxRequests lim) (Window lim)"
proof
  fix l :: discovery_limiter and a now assume lim: "dl_limits l = lim"
  show "dl_limits (snd (discovery_allow a now l)) = lim" by (simp add: allow_limits lim)
  {
    assume "fst (discovery_allow a now l)"
    then obtain l' where l': "discovery_allow a now l = (True, l')" by (metis prod.collapse)
    obtain "dw_calls (rolled (Window lim) now (dl_global l)) < MaxRequests lim \<and>
        dl_global l' = (let w = rolled (Window lim) now (dl_global l) in w\<lparr>dw_calls := dw_calls w + 1\<rparr>)"
      using l' assms(1) lim by (elim allow_granted) simp
    then have "dw_calls (rolled (Window lim) now (dl_global l)) < MaxRequests lim \<and>
        dl_global (snd (discovery_allow a now l)) =
          (let w = rolled (Window lim) now (dl_global l) in w\<lparr>dw_calls := dw_calls w + 1\<rparr>)"
      by (simp add: l')
  } note granted = this
  show "dw_start (dl_global (snd (discovery_allow a now l))) = now \<and>
      dw_calls (dl_global (snd (discovery_allow a now l))) = 1"
    if "fst (discovery_allow a now l)" "dw_start (dl_global l) = 0 \<or> dw_start (dl_global l) + Window lim \<le> now"
    using granted [OF that(1)] that(2) by (simp add: rolled_over window_over_iff Let_def)
  show "dw_calls (dl_global l) < MaxRequests lim \<and>
      dw_start (dl_global (snd (discovery_allow a now l))) = dw_start (dl_global l) \<and>
      dw_calls (dl_global (snd (discovery_allow a now l))) = dw_calls (dl_global l) + 1"
    if "fst (discovery_allow a now l)" "dw_start (dl_global l) \<noteq> 0" "now < dw_start (dl_global l) + Window lim"
    using granted [OF that(1)] that(2,3) by (simp add: rolled_over window_over_iff Let_def)
  show "dw_start (dl_global (snd (discovery_allow a now l))) = dw_start (dl_global l) \<and>
      dw_calls (dl_global l) \<le> dw_calls (dl_global (snd (discovery_allow a now l))) \<or>
      dw_start (dl_global (snd (discovery_allow a now l))) = 0 \<and>
      (dw_start (dl_global l) = 0 \<or> dw_start (dl_global l) + Window lim \<le> now)"
    if "\<not> (True \<and> fst (discovery_allow a now l))"
    using that allow_refused [of a now l] by (cases "discovery_allow a now l") auto
qed (use assms in auto)

text \<open>So does the window of each client network, whatever the other networks do.\<close>

lemma discovery_net_window:
  assumes "0 < MaxRequestsPerNet lim" and "0 < PerNetWindow lim"
  shows "fixed_window discovery_allow (\<lambda>a. ip_bucket_key a = Some b) (\<lambda>l. dl_limits l = lim)
    (\<lambda>l. dw_start (net_window l b)) (\<lambda>l. dw_calls (net_window l b)) (MaxRequestsPerNet lim) (PerNetWindow lim)"
proof
  fix l :: discovery_limiter and a now assume lim: "dl_limits l = lim"
  let ?l' = "snd (discovery_allow a now l)"
  show "dl_limits ?l' = lim" by (simp add: allow_limits lim)
  have granted: "dw_calls (rolled (PerNetWindow lim) now (net_window l b)) < MaxRequestsPerNet lim \<and>
      net_window ?l' b = (let w = rolled (PerNetWindow lim) now (net_window l b) in w\<lparr>dw_calls := dw_calls w + 1\<rparr>)"
    if "fst (discovery_allow a now l)" "ip_bucket_key a = Some b"
  proof -
    from that(1) obtain l' where l': "discovery_allow a now l = (True, l')" by (metis prod.collapse)
    then have s: "?l' = l'" by simp
    from l' show ?thesis
      unfolding s using that(2) assms(1) lim by (elim allow_granted) (simp add: net_window_def)
  qed
  have idle: "net_window ?l' b = net_window l b \<or> net_window ?l' b = net_window (prune now l) b"
    if "\<not> (ip_bucket_key a = Some b \<and> fst (discovery_allow a now l))"
  proof (cases "discovery_allow a now l")
    case (Pair ok l')
    show ?thesis
    proof (cases ok)
      case False
      with Pair allow_refused [of a now l l'] show ?thesis by auto
    next
      case True
      with that Pair have n: "ip_bucket_key a \<noteq> Some b" by simp
      from Pair True have "discovery_allow a now l = (True, l')" by simp
      from allow_granted_other [OF this n] Pair show ?thesis by simp
    qed
  qed
  show "dw_start (net_window ?l' b) = now \<and> dw_calls (net_window ?l' b) = 1"
    if "ip_bucket_key a = Some b" "fst (discovery_allow a now l)"
      "dw_start (net_window l b) = 0 \<or> dw_start (net_window l b) + PerNetWindow lim \<le> now"
    using granted [OF that(2,1)] that(3) by (simp add: rolled_over window_over_iff Let_def)
  show "dw_calls (net_window l b) < MaxRequestsPerNet lim \<and>
      dw_start (net_window ?l' b) = dw_start (net_window l b) \<and>
      dw_calls (net_window ?l' b) = dw_calls (net_window l b) + 1"
    if "ip_bucket_key a = Some b" "fst (discovery_allow a now l)" "dw_start (net_window l b) \<noteq> 0"
      "now < dw_start (net_window l b) + PerNetWindow lim"
    using granted [OF that(2,1)] that(3,4) by (simp add: rolled_over window_over_iff Let_def)
  show "dw_start (net_window ?l' b) = dw_start (net_window l b) \<and>
      dw_calls (net_window l b) \<le> dw_calls (net_window ?l' b) \<or>
      dw_start (net_window ?l' b) = 0 \<and>
      (dw_start (net_window l b) = 0 \<or> dw_start (net_window l b) + PerNetWindow lim \<le> now)"
    if "\<not> (ip_bucket_key a = Some b \<and> fst (discovery_allow a now l))"
    using idle [OF that] lim
    by (auto simp: net_window_prune window_over_iff no_window_def split: if_splits)
qed (use assms in auto)

interpretation dgw: fixed_window discovery_allow "\<lambda>_. True" "\<lambda>l. dl_limits l = DefaultDiscoveryLimits"
  "\<lambda>l. dw_start (dl_global l)" "\<lambda>l. dw_calls (dl_global l)"
  "MaxRequests DefaultDiscoveryLimits" "Window DefaultDiscoveryLimits"
  by (rule discovery_global_window) (simp_all add: DefaultDiscoveryLimits_def)

text \<open>The map of client networks.\<close>

definition buckets_ok :: "discovery_limiter \<Rightarrow> bool" where
  "buckets_ok l \<longleftrightarrow> msize (dl_perNet l) \<le> dl_maxBuckets l \<and> fmpred (\<lambda>_ w. dw_start w \<noteq> 0) (dl_perNet l)"

lemma buckets_ok_prune: "buckets_ok l \<Longrightarrow> buckets_ok (prune now l)"
  using msize_prune [of now l] by (auto simp: buckets_ok_def fmpred_iff prune_def)

lemma rolled_start: "now \<noteq> 0 \<Longrightarrow> dw_start (rolled len now w) \<noteq> 0"
  by (auto simp: rolled_def window_over_iff)

lemma buckets_ok_allow:
  assumes ok: "buckets_ok l" and now: "now \<noteq> 0" and al: "discovery_allow a now l = (r, l')"
  shows "buckets_ok l' \<and> dl_maxBuckets l' = dl_maxBuckets l"
proof (cases r)
  case False
  with al allow_refused [of a now l l'] ok buckets_ok_prune [OF ok, of now] show ?thesis by auto
next
  case True
  with al have "discovery_allow a now l = (True, l')" by simp
  then show ?thesis
  proof (rule allow_granted)
    fix l1
    assume l1: "l1 = l \<or> l1 = prune now l" and mb: "dl_maxBuckets l' = dl_maxBuckets l"
      and some: "\<And>b. ip_bucket_key a = Some b \<Longrightarrow> 0 < MaxRequestsPerNet (dl_limits l) \<Longrightarrow>
        dw_calls (rolled (PerNetWindow (dl_limits l)) now (net_window l b)) < MaxRequestsPerNet (dl_limits l) \<and>
        dl_perNet l' = fmupd b (let w = rolled (PerNetWindow (dl_limits l)) now (net_window l b) in
          w\<lparr>dw_calls := dw_calls w + 1\<rparr>) (dl_perNet l1) \<and>
        (fmlookup (dl_perNet l1) b = None \<longrightarrow> msize (dl_perNet l1) < dl_maxBuckets l)"
      and none: "ip_bucket_key a = None \<or> \<not> 0 < MaxRequestsPerNet (dl_limits l) \<Longrightarrow> dl_perNet l' = dl_perNet l1"
    have ok1: "buckets_ok l1" and mb1: "dl_maxBuckets l1 = dl_maxBuckets l" using l1 ok buckets_ok_prune by auto
    show ?thesis
    proof (cases "ip_bucket_key a = None \<or> \<not> 0 < MaxRequestsPerNet (dl_limits l)")
      case True
      with none ok1 mb mb1 show ?thesis by (simp add: buckets_ok_def)
    next
      case False
      then obtain b where b: "ip_bucket_key a = Some b" and p: "0 < MaxRequestsPerNet (dl_limits l)" by auto
      from some [OF b p] have e: "dl_perNet l' = fmupd b (let w = rolled (PerNetWindow (dl_limits l)) now (net_window l b) in
          w\<lparr>dw_calls := dw_calls w + 1\<rparr>) (dl_perNet l1)"
        and room: "fmlookup (dl_perNet l1) b = None \<Longrightarrow> msize (dl_perNet l1) < dl_maxBuckets l" by auto
      then have "msize (dl_perNet l') \<le> dl_maxBuckets l'"
        using ok1 mb mb1 by (auto simp: e msize_upd buckets_ok_def)
      moreover have "fmpred (\<lambda>_ w. dw_start w \<noteq> 0) (dl_perNet l')"
        using ok1 rolled_start [OF now] by (auto simp: e Let_def buckets_ok_def fmpred_upd)
      ultimately show ?thesis using mb by (simp add: buckets_ok_def)
    qed
  qed
qed

section \<open>Properties\<close>

text \<open>
  Whatever addresses call and whenever, as long as the clock does not run backwards, no span of
  \<open>Window\<close> sees more than twice \<open>MaxRequests\<close> admitted discovery requests, and no span of
  \<open>PerNetWindow\<close> more than twice \<open>MaxRequestsPerNet\<close> from one client network, even though expired
  windows are forgotten under memory pressure.
\<close>

theorem discovery_rate_bound:
  assumes "SetDiscoveryLimits lim = Inr l0" and "sorted (map snd es)" and "\<forall>(a, t) \<in> set es. 0 < t"
  shows "(0 < MaxRequests lim \<longrightarrow>
      int (in_span t (Window lim) (fw_run discovery_allow (\<lambda>_. True) es l0)) \<le> 2 * MaxRequests lim) \<and>
    (0 < MaxRequestsPerNet lim \<longrightarrow>
      int (in_span t (PerNetWindow lim) (fw_run discovery_allow (\<lambda>a. ip_bucket_key a = Some b) es l0))
        \<le> 2 * MaxRequestsPerNet lim)"
proof -
  from assms(1) have l0: "dl_limits l0 = lim" "dw_start (dl_global l0) = 0" "dw_start (net_window l0 b) = 0"
    and w: "0 < MaxRequests lim \<longrightarrow> 0 < Window lim" "0 < MaxRequestsPerNet lim \<longrightarrow> 0 < PerNetWindow lim"
    by (auto simp: SetDiscoveryLimits_def newDiscoveryLimiter_def no_window_def net_window_def split: if_splits)
  have "int (in_span t (Window lim) (fw_run discovery_allow (\<lambda>_. True) es l0)) \<le> 2 * MaxRequests lim"
    if "0 < MaxRequests lim"
    by (rule fixed_window.fw_bound [OF discovery_global_window]) (use that w l0 assms(2,3) in simp_all)
  moreover have "int (in_span t (PerNetWindow lim) (fw_run discovery_allow (\<lambda>a. ip_bucket_key a = Some b) es l0))
      \<le> 2 * MaxRequestsPerNet lim" if "0 < MaxRequestsPerNet lim"
    by (rule fixed_window.fw_bound [OF discovery_net_window]) (use that w l0 assms(2,3) in simp_all)
  ultimately show ?thesis by blast
qed

theorem discovery_rate_bound_witness:
  "int (in_span 5 (60 * second)
      (fw_run discovery_allow (\<lambda>a. ip_bucket_key a = Some (P4 7 32)) (replicate 3 (V4 7, 5))
        (newDiscoveryLimiter \<lparr>MaxRequests = 60, MaxRequestsPerNet = 1, Window = 60 * second, PerNetWindow = 60 * second\<rparr>)))
    \<le> 2"
proof -
  let ?lim = "\<lparr>MaxRequests = 60, MaxRequestsPerNet = 1, Window = 60 * second, PerNetWindow = 60 * second\<rparr>"
  have "SetDiscoveryLimits ?lim = Inr (newDiscoveryLimiter ?lim)" by (simp add: SetDiscoveryLimits_def)
  from discovery_rate_bound [OF this, of "replicate 3 (V4 7, 5)" 5 "P4 7 32"]
  show ?thesis by (simp add: numeral_3_eq_3)
qed

text \<open>
  The limiter's memory is bounded whatever addresses call: it never remembers more client
  networks than its cap, and every remembered network has an open window.
\<close>

theorem discovery_memory_bound:
  assumes "SetDiscoveryLimits lim = Inr l0" and "\<forall>(a, t) \<in> set es. t \<noteq> 0"
  shows "msize (dl_perNet (foldl (\<lambda>l (a, t). snd (discovery_allow a t l)) l0 es)) \<le> maxDiscoveryBuckets"
proof -
  have "buckets_ok l0 \<and> dl_maxBuckets l0 = maxDiscoveryBuckets"
    using assms(1) by (auto simp: SetDiscoveryLimits_def newDiscoveryLimiter_def buckets_ok_def split: if_splits)
  then have "buckets_ok (foldl (\<lambda>l (a, t). snd (discovery_allow a t l)) l0 es) \<and>
      dl_maxBuckets (foldl (\<lambda>l (a, t). snd (discovery_allow a t l)) l0 es) = maxDiscoveryBuckets"
    using assms(2)
  proof (induction es arbitrary: l0)
    case (Cons e es)
    obtain a t where e: "e = (a, t)" by fastforce
    obtain r l' where al: "discovery_allow a t l0 = (r, l')" by fastforce
    from buckets_ok_allow [OF _ _ al] Cons.prems e
    have "buckets_ok l' \<and> dl_maxBuckets l' = maxDiscoveryBuckets" by auto
    from Cons.IH [OF this] Cons.prems(2) show ?case by (simp add: e al)
  qed simp
  then show ?thesis by (simp add: buckets_ok_def)
qed

theorem discovery_memory_bound_witness:
  "msize (dl_perNet (foldl (\<lambda>l (a, t). snd (discovery_allow a t l))
     (newDiscoveryLimiter DefaultDiscoveryLimits) [(V4 7, 5), (V4 8, 6)])) \<le> maxDiscoveryBuckets"
proof -
  have "SetDiscoveryLimits DefaultDiscoveryLimits = Inr (newDiscoveryLimiter DefaultDiscoveryLimits)"
    by (simp add: SetDiscoveryLimits_def DefaultDiscoveryLimits_def)
  from discovery_memory_bound [OF this, of "[(V4 7, 5), (V4 8, 6)]"] show ?thesis by simp
qed

end
