(* ===== verification/Sliding_Quota.thy ===== *)
theory Sliding_Quota
  imports Go_Prelude
begin

text \<open>
  The rolling-quota contract of the store: a caller may be granted a limited number of distinct
  items (phone numbers, usernames) in a rolling window, counted over the rows that remember them.
  \<open>sliding_quota\<close> states what a quota promises one caller and derives what it means over a whole
  sequence of events: unlike a fixed window, no span as long as the window ever holds more distinct
  granted items than the limit.
\<close>

fun sq_run :: "('e \<Rightarrow> gtime \<Rightarrow> 's \<Rightarrow> bool \<times> 's) \<Rightarrow> ('e \<Rightarrow> 'i option) \<Rightarrow> ('e \<times> gtime) list \<Rightarrow> 's \<Rightarrow> ('i \<times> gtime) list" where
  "sq_run charge item [] s = []"
| "sq_run charge item ((e, t) # es) s =
     (let (ok, s') = charge e t s in
      (case item e of Some i \<Rightarrow> if ok then [(i, t)] else [] | None \<Rightarrow> []) @ sq_run charge item es s')"

definition items_in :: "gtime \<Rightarrow> gduration \<Rightarrow> ('i \<times> gtime) list \<Rightarrow> 'i set" where
  "items_in a w lg = fst ` {x \<in> set lg. a \<le> snd x \<and> snd x < a + w}"

lemma items_in_simps [simp]:
  "items_in a w [] = {}"
  "items_in a w (xs @ ys) = items_in a w xs \<union> items_in a w ys"
  by (auto simp: items_in_def)

lemma items_in_single: "items_in a w [(i, t)] = (if a \<le> t \<and> t < a + w then {i} else {})"
  by (auto simp: items_in_def)

locale sliding_quota =
  fixes charge :: "'e \<Rightarrow> gtime \<Rightarrow> 's \<Rightarrow> bool \<times> 's"
    and item :: "'e \<Rightarrow> 'i option"
    and ok_state :: "'s \<Rightarrow> bool"
    and live :: "gtime \<Rightarrow> 's \<Rightarrow> 'i set"
    and limit :: nat
    and window :: gduration
  assumes keeps_ok: "ok_state s \<Longrightarrow> ok_state (snd (charge e now s))"
    and granted: "ok_state s \<Longrightarrow> item e = Some i \<Longrightarrow> fst (charge e now s) \<Longrightarrow>
        finite (live now (snd (charge e now s))) \<and> card (live now (snd (charge e now s))) \<le> limit"
    and remembered: "ok_state s \<Longrightarrow> item e = Some i \<Longrightarrow> fst (charge e now s) \<Longrightarrow> now \<le> t \<Longrightarrow> t < now + window \<Longrightarrow>
        i \<in> live t (snd (charge e now s))"
    and kept: "ok_state s \<Longrightarrow> now \<le> t \<Longrightarrow> i \<in> live t s \<Longrightarrow> i \<in> live t (snd (charge e now s))"
begin

definition log_live :: "'s \<Rightarrow> ('i \<times> gtime) list \<Rightarrow> gtime \<Rightarrow> bool" where
  "log_live s lg T \<longleftrightarrow> (\<forall>(i, u) \<in> set lg. \<forall>t. T \<le> t \<and> t < u + window \<longrightarrow> i \<in> live t s)"

lemma log_live_step:
  assumes ok: "ok_state s" and inv: "log_live s lg T" and T: "T \<le> now" and c: "charge e now s = (g, s')"
    and more: "more = (case item e of Some i \<Rightarrow> if g then [(i, now)] else [] | None \<Rightarrow> [])"
  shows "log_live s' (lg @ more) now"
proof -
  have "i \<in> live t s'" if "(i, u) \<in> set lg" "now \<le> t" "t < u + window" for i u t
    using inv that T kept [OF ok that(2), of i e] c by (force simp: log_live_def)
  moreover have "i \<in> live t s'" if "(i, u) \<in> set more" "now \<le> t" "t < u + window" for i u t
    using that remembered [OF ok, of e i now t] c by (auto simp: more split: option.splits if_splits)
  ultimately show ?thesis by (force simp: log_live_def)
qed

lemma items_step:
  assumes ok: "ok_state s" and inv: "log_live s' (lg @ more) now" and c: "charge e now s = (g, s')"
    and old: "card (items_in a window lg) \<le> limit"
    and more: "more = (case item e of Some i \<Rightarrow> if g then [(i, now)] else [] | None \<Rightarrow> [])"
  shows "card (items_in a window (lg @ more)) \<le> limit"
proof (cases "more \<noteq> [] \<and> a \<le> now \<and> now < a + window")
  case True
  then obtain i where i: "item e = Some i" "g" using more by (auto split: option.splits if_splits)
  have sub: "items_in a window (lg @ more) \<subseteq> live now s'"
  proof
    fix j assume "j \<in> items_in a window (lg @ more)"
    then obtain u where "(j, u) \<in> set (lg @ more)" "a \<le> u" by (fastforce simp: items_in_def simp del: items_in_simps)
    moreover then have "now < u + window" using True by simp
    ultimately show "j \<in> live now s'" using inv by (force simp: log_live_def)
  qed
  from granted [OF ok i(1), of now] c i(2) have "finite (live now s')" "card (live now s') \<le> limit" by simp_all
  with card_mono [OF _ sub] show ?thesis by simp
next
  case False
  then have "items_in a window (lg @ more) = items_in a window lg"
    using more by (auto simp: items_in_single split: option.splits if_splits)
  with old show ?thesis by simp
qed

lemma sq_run_inv:
  assumes "ok_state s" and "log_live s lg T" and "card (items_in a window lg) \<le> limit"
    and "sorted (map snd es)" and "\<forall>t \<in> set (map snd es). T \<le> t"
  shows "card (items_in a window (lg @ sq_run charge item es s)) \<le> limit"
  using assms
proof (induction es arbitrary: s lg T)
  case (Cons et es)
  obtain e t where et: "et = (e, t)" by fastforce
  obtain g s' where c: "charge e t s = (g, s')" by fastforce
  define more where "more = (case item e of Some i \<Rightarrow> if g then [(i, t)] else [] | None \<Rightarrow> [])"
  have "T \<le> t" using Cons.prems et by simp
  note l = log_live_step [OF Cons.prems(1,2) this c more_def]
  have "ok_state s'" using keeps_ok [OF Cons.prems(1), of e t] c by simp
  from Cons.IH [OF this l items_step [OF Cons.prems(1) l c Cons.prems(3) more_def]] Cons.prems(4)
  have "card (items_in a window ((lg @ more) @ sq_run charge item es s')) \<le> limit"
    by (simp add: et)
  moreover have "lg @ sq_run charge item (et # es) s = (lg @ more) @ sq_run charge item es s'"
    by (simp add: et c more_def)
  ultimately show ?case by (simp only:)
qed simp

lemma sq_bound:
  assumes "ok_state s" and "sorted (map snd es)"
  shows "card (items_in a window (sq_run charge item es s)) \<le> limit"
proof (cases es)
  case (Cons et es')
  have "\<forall>t \<in> set (map snd es). snd et \<le> t" using assms(2) Cons by auto
  with sq_run_inv [of s "[]" "snd et" a es] assms show ?thesis by (simp add: log_live_def)
qed simp

end

end
