(* ===== verification/Lookups.thy ===== *)
theory Lookups
  imports Sliding_Quota
begin

text \<open>
  The rolling quotas on resolving phone numbers and usernames (internal/store/phone_lookups.go and
  username_lookups.go over their queries). The table is the list of its rows; a check runs in one
  transaction under an advisory lock on the caller, so it is one step, and \<open>fault\<close> says which of its
  statements fail. A transaction that does not commit leaves the table as it was.
\<close>

record 'i lookup_row =
  lk_caller :: int
  lk_item :: 'i
  lk_at :: gtime

type_synonym 'i lookup_table = "'i lookup_row list"

datatype lookup_stmt = Begin | Lock | Prune | Insert | Count | CountBurst | Commit

datatype lookup_error = LookupQuotaExceeded | LookupStorage lookup_stmt

abbreviation hour :: gduration where "hour \<equiv> 3600 * second"

definition LookupWindow :: gduration where "LookupWindow = 24 * hour"
definition LookupLimit :: nat where "LookupLimit = 20"
definition UsernameLookupWindow :: gduration where "UsernameLookupWindow = 24 * hour"
definition UsernameLookupLimit :: nat where "UsernameLookupLimit = 100"
definition UsernameLookupBurstWindow :: gduration where "UsernameLookupBurstWindow = 60 * second"
definition UsernameLookupBurstLimit :: nat where "UsernameLookupBurstLimit = 20"

definition delete_expired :: "int \<Rightarrow> gtime \<Rightarrow> 'i lookup_table \<Rightarrow> 'i lookup_table" where
  "delete_expired caller cutoff t = filter (\<lambda>r. \<not> (lk_caller r = caller \<and> lk_at r < cutoff)) t"

definition count_distinct :: "int \<Rightarrow> gtime \<Rightarrow> 'i lookup_table \<Rightarrow> nat" where
  "count_distinct caller cutoff t = card (set (map lk_item (filter (\<lambda>r. lk_caller r = caller \<and> lk_at r \<ge> cutoff) t)))"

text \<open>
  The phone table stamps a row with the database's \<open>now()\<close>, the start of the transaction, while the
  cutoff is read off the process clock once the lock is held.
\<close>

definition CheckAndChargeLookup ::
  "(lookup_stmt \<Rightarrow> bool) \<Rightarrow> gtime \<Rightarrow> gtime \<Rightarrow> int \<Rightarrow> string \<Rightarrow> string lookup_table \<Rightarrow>
     lookup_error option \<times> string lookup_table" where
  "CheckAndChargeLookup fault dbnow gonow callerID phone t =
     (if fault Begin then (Some (LookupStorage Begin), t)
      else if fault Lock then (Some (LookupStorage Lock), t)
      else
        let cutoff = gonow - LookupWindow in
        if fault Prune then (Some (LookupStorage Prune), t)
        else let t1 = delete_expired callerID cutoff t in
        if fault Insert then (Some (LookupStorage Insert), t)
        else let t2 = t1 @ [\<lparr>lk_caller = callerID, lk_item = phone, lk_at = dbnow\<rparr>] in
        if fault Count then (Some (LookupStorage Count), t)
        else if count_distinct callerID cutoff t2 > LookupLimit then (Some LookupQuotaExceeded, t)
        else if fault Commit then (Some (LookupStorage Commit), t)
        else (None, t2))"

definition CheckAndChargeUsernameLookup ::
  "(lookup_stmt \<Rightarrow> bool) \<Rightarrow> gtime \<Rightarrow> int \<Rightarrow> string \<Rightarrow> string lookup_table \<Rightarrow>
     lookup_error option \<times> string lookup_table" where
  "CheckAndChargeUsernameLookup fault now callerID handle t =
     (if fault Begin then (Some (LookupStorage Begin), t)
      else if fault Lock then (Some (LookupStorage Lock), t)
      else
        let windowCutoff = now - UsernameLookupWindow;
            burstCutoff = now - UsernameLookupBurstWindow in
        if fault Prune then (Some (LookupStorage Prune), t)
        else let t1 = delete_expired callerID windowCutoff t in
        if fault Insert then (Some (LookupStorage Insert), t)
        else let t2 = t1 @ [\<lparr>lk_caller = callerID, lk_item = handle, lk_at = now\<rparr>] in
        if fault Count then (Some (LookupStorage Count), t)
        else if count_distinct callerID windowCutoff t2 > UsernameLookupLimit then (Some LookupQuotaExceeded, t)
        else if fault CountBurst then (Some (LookupStorage CountBurst), t)
        else if count_distinct callerID burstCutoff t2 > UsernameLookupBurstLimit then (Some LookupQuotaExceeded, t)
        else if fault Commit then (Some (LookupStorage Commit), t)
        else (None, t2))"

section \<open>The quotas as rolling windows\<close>

text \<open>An event is a check by some caller for some item, with the statements that fail in it.\<close>

record lookup_event =
  le_caller :: int
  le_item :: string
  le_fault :: "lookup_stmt \<Rightarrow> bool"

definition phone_charge :: "lookup_event \<Rightarrow> gtime \<Rightarrow> string lookup_table \<Rightarrow> bool \<times> string lookup_table" where
  "phone_charge e now t =
     (let (r, t') = CheckAndChargeLookup (le_fault e) now now (le_caller e) (le_item e) t in (r = None, t'))"

definition username_charge :: "lookup_event \<Rightarrow> gtime \<Rightarrow> string lookup_table \<Rightarrow> bool \<times> string lookup_table" where
  "username_charge e now t =
     (let (r, t') = CheckAndChargeUsernameLookup (le_fault e) now (le_caller e) (le_item e) t in (r = None, t'))"

definition item_of :: "int \<Rightarrow> lookup_event \<Rightarrow> string option" where
  "item_of caller e = (if le_caller e = caller then Some (le_item e) else None)"

definition items_since :: "int \<Rightarrow> gduration \<Rightarrow> gtime \<Rightarrow> 'i lookup_table \<Rightarrow> 'i set" where
  "items_since caller w t rows = {lk_item r | r. r \<in> set rows \<and> lk_caller r = caller \<and> lk_at r \<ge> t - w}"

lemma count_distinct_items: "count_distinct caller (t - w) rows = card (items_since caller w t rows)"
  unfolding count_distinct_def items_since_def by (rule arg_cong [where f = card]) auto

lemma items_since_finite [simp]: "finite (items_since caller w t rows)"
proof -
  have "items_since caller w t rows \<subseteq> lk_item ` set rows" by (auto simp: items_since_def)
  then show ?thesis by (rule finite_subset) simp
qed

lemma items_since_kept:
  assumes "i \<in> items_since caller w t rows" and "now \<le> t" and "w \<le> w'"
  shows "i \<in> items_since caller w t (delete_expired c (now - w') rows @ extra)"
  using assms by (force simp: items_since_def delete_expired_def)

lemma items_since_added:
  "lk_caller r = caller \<Longrightarrow> t \<le> lk_at r + w \<Longrightarrow> lk_item r \<in> items_since caller w t (rows @ [r])"
  by (auto simp: items_since_def)

text \<open>What a committed check did: the counts it read were within the limits.\<close>

lemma phone_charge_result:
  assumes "phone_charge e now t = (g, t')"
  shows "if g then t' = delete_expired (le_caller e) (now - LookupWindow) t @
             [\<lparr>lk_caller = le_caller e, lk_item = le_item e, lk_at = now\<rparr>] \<and>
           card (items_since (le_caller e) LookupWindow now t') \<le> LookupLimit
         else t' = t"
  using assms by (auto simp: phone_charge_def CheckAndChargeLookup_def Let_def count_distinct_items not_less split: if_splits)

lemma username_charge_result:
  assumes "username_charge e now t = (g, t')"
  shows "if g then t' = delete_expired (le_caller e) (now - UsernameLookupWindow) t @
             [\<lparr>lk_caller = le_caller e, lk_item = le_item e, lk_at = now\<rparr>] \<and>
           card (items_since (le_caller e) UsernameLookupWindow now t') \<le> UsernameLookupLimit \<and>
           card (items_since (le_caller e) UsernameLookupBurstWindow now t') \<le> UsernameLookupBurstLimit
         else t' = t"
  using assms
  by (auto simp: username_charge_def CheckAndChargeUsernameLookup_def Let_def count_distinct_items not_less split: if_splits)

lemma quota_from_rows:
  assumes res: "\<And>e now t. if fst (charge e now t)
      then snd (charge e now t) = delete_expired (le_caller e) (now - w') t @
             [\<lparr>lk_caller = le_caller e, lk_item = le_item e, lk_at = now\<rparr>] \<and>
           card (items_since (le_caller e) w now (snd (charge e now t))) \<le> limit
      else snd (charge e now t) = t"
    and w: "w \<le> w'"
  shows "sliding_quota charge (item_of caller) (\<lambda>_. True) (items_since caller w) limit (w + 1)"
proof
  fix s :: "string lookup_table" and e i now
  assume "item_of caller e = Some i" "fst (charge e now s)"
  with res [of e now s] show "finite (items_since caller w now (snd (charge e now s))) \<and>
      card (items_since caller w now (snd (charge e now s))) \<le> limit"
    by (auto simp: item_of_def split: if_splits)
next
  fix s :: "string lookup_table" and e i now t
  assume "item_of caller e = Some i" "fst (charge e now s)" "t < now + (w + 1)"
  with res [of e now s] items_since_added [of "\<lparr>lk_caller = le_caller e, lk_item = le_item e, lk_at = now\<rparr>" caller t w]
  show "i \<in> items_since caller w t (snd (charge e now s))"
    by (auto simp: item_of_def split: if_splits)
next
  fix s :: "string lookup_table" and now t i e
  assume "now \<le> t" "i \<in> items_since caller w t s"
  with res [of e now s] items_since_kept [OF _ _ w] show "i \<in> items_since caller w t (snd (charge e now s))"
    by (cases "fst (charge e now s)") auto
qed simp

lemma phone_res:
  "if fst (phone_charge e now t)
   then snd (phone_charge e now t) = delete_expired (le_caller e) (now - LookupWindow) t @
          [\<lparr>lk_caller = le_caller e, lk_item = le_item e, lk_at = now\<rparr>] \<and>
        card (items_since (le_caller e) LookupWindow now (snd (phone_charge e now t))) \<le> LookupLimit
   else snd (phone_charge e now t) = t"
  by (rule phone_charge_result) simp

lemma username_day:
  "if fst (username_charge e now t)
   then snd (username_charge e now t) = delete_expired (le_caller e) (now - UsernameLookupWindow) t @
          [\<lparr>lk_caller = le_caller e, lk_item = le_item e, lk_at = now\<rparr>] \<and>
        card (items_since (le_caller e) UsernameLookupWindow now (snd (username_charge e now t))) \<le> UsernameLookupLimit
   else snd (username_charge e now t) = t"
  using username_charge_result [OF surjective_pairing, of e now t] by argo

lemma username_burst:
  "if fst (username_charge e now t)
   then snd (username_charge e now t) = delete_expired (le_caller e) (now - UsernameLookupWindow) t @
          [\<lparr>lk_caller = le_caller e, lk_item = le_item e, lk_at = now\<rparr>] \<and>
        card (items_since (le_caller e) UsernameLookupBurstWindow now (snd (username_charge e now t))) \<le> UsernameLookupBurstLimit
   else snd (username_charge e now t) = t"
  using username_charge_result [OF surjective_pairing, of e now t] by argo

interpretation plq: sliding_quota phone_charge "item_of caller" "\<lambda>_. True" "items_since caller LookupWindow" LookupLimit
  "LookupWindow + 1" for caller
  by (rule quota_from_rows [OF phone_res]) simp

interpretation ulq: sliding_quota username_charge "item_of caller" "\<lambda>_. True" "items_since caller UsernameLookupWindow"
  UsernameLookupLimit "UsernameLookupWindow + 1" for caller
  by (rule quota_from_rows [OF username_day]) simp

interpretation ubq: sliding_quota username_charge "item_of caller" "\<lambda>_. True" "items_since caller UsernameLookupBurstWindow"
  UsernameLookupBurstLimit "UsernameLookupBurstWindow + 1" for caller
  by (rule quota_from_rows [OF username_burst]) (simp add: UsernameLookupBurstWindow_def UsernameLookupWindow_def)

text \<open>
  Directory scraping is bounded exactly. Whatever accounts look up, in any order, with any
  statement failing in any check, as long as the clock does not run backwards: no account resolves
  more than 20 distinct phone numbers in any 24 hours, ends included, and no more than 100 distinct
  usernames in any 24 hours nor 20 in any minute. A lookup that is refused or fails is not charged.
\<close>

theorem lookup_quotas:
  assumes "sorted (map snd es)"
  shows "card (items_in a (LookupWindow + 1) (sq_run phone_charge (item_of caller) es [])) \<le> 20 \<and>
    card (items_in a (UsernameLookupWindow + 1) (sq_run username_charge (item_of caller) es [])) \<le> 100 \<and>
    card (items_in a (UsernameLookupBurstWindow + 1) (sq_run username_charge (item_of caller) es [])) \<le> 20"
  using plq.sq_bound [OF TrueI assms] ulq.sq_bound [OF TrueI assms] ubq.sq_bound [OF TrueI assms]
  by (simp add: LookupLimit_def UsernameLookupLimit_def UsernameLookupBurstLimit_def)

definition two_lookups :: "(lookup_event \<times> gtime) list" where
  "two_lookups = [(\<lparr>le_caller = 3, le_item = ''a'', le_fault = \<lambda>_. False\<rparr>, 10),
     (\<lparr>le_caller = 3, le_item = ''b'', le_fault = \<lambda>_. False\<rparr>, 20)]"

theorem lookup_quotas_witness:
  "sorted (map snd two_lookups) \<and>
   card (items_in 5 (LookupWindow + 1) (sq_run phone_charge (item_of 3) two_lookups [])) \<le> 20"
proof -
  have s: "sorted (map snd two_lookups)" by (simp add: two_lookups_def)
  from lookup_quotas [OF s, of 5 3] s show ?thesis by simp
qed

end
