(* ===== verification/Rate_Limits.thy ===== *)
theory Rate_Limits
  imports Fixed_Window
begin

text \<open>
  The stored fixed-window limits (internal/store/rate_limits.go over queries/rate_limits.sql). The
  table is a finite map from (subject, surface) to its row. A statement is atomic and either runs or
  fails as a whole; \<open>fault\<close> arguments say which statements fail for reasons of the connection. The
  database clock \<open>dbnow\<close> and the process clock \<open>gonow\<close> are separate arguments, and what other
  sessions do to the table between the two statements of a denied check is the argument \<open>between\<close>.
\<close>

section \<open>Rows and statements\<close>

record rate_config =
  rl_limit :: int
  rl_window :: gduration

definition rl_enabled :: "rate_config \<Rightarrow> bool" where
  "rl_enabled c \<longleftrightarrow> rl_limit c > 0 \<and> rl_window c > 0"

text \<open>\<open>int32\<close> conversion, and an INTERVAL built from whole microseconds.\<close>

definition int32 :: "int \<Rightarrow> int" where
  "int32 n = sint (word_of_int n :: 32 word)"

definition interval_of :: "gduration \<Rightarrow> gduration" where
  "interval_of w = w div 1000 * 1000"

definition int4_ok :: "int \<Rightarrow> bool" where
  "int4_ok n \<longleftrightarrow> - (2 ^ 31) \<le> n \<and> n < 2 ^ 31"

lemma int32_id: "int4_ok n \<Longrightarrow> int32 n = n"
  by (simp add: int32_def int4_ok_def sint_sbintrunc' signed_take_bit_int_eq_self)

record rate_row =
  rr_tokens :: int
  rr_start :: gtime
  rr_expires :: gtime

datatype 'a pg_result = PgRow 'a | PgNoRows | PgError

type_synonym rate_key = "int \<times> string"
type_synonym 'k rate_table = "('k, rate_row) fmap"

text \<open>The row an upsert leaves: a fresh window when there is none or it has closed, else one more charge.\<close>

definition charged_row :: "int \<Rightarrow> gduration \<Rightarrow> gtime \<Rightarrow> rate_row option \<Rightarrow> rate_row" where
  "charged_row cost w now r =
     (case r of
        None \<Rightarrow> \<lparr>rr_tokens = cost, rr_start = now, rr_expires = now + w\<rparr>
      | Some r \<Rightarrow> if rr_expires r \<le> now then \<lparr>rr_tokens = cost, rr_start = now, rr_expires = now + w\<rparr>
                  else r\<lparr>rr_tokens := rr_tokens r + cost\<rparr>)"

definition TryConsumeRateLimit ::
  "'k \<Rightarrow> gduration \<Rightarrow> int \<Rightarrow> gtime \<Rightarrow> 'k rate_table \<Rightarrow> rate_row pg_result \<times> 'k rate_table" where
  "TryConsumeRateLimit k w limit now t =
     (let r' = charged_row 1 w now (fmlookup t k) in
      case fmlookup t k of
        None \<Rightarrow> (PgRow r', fmupd k r' t)
      | Some r \<Rightarrow>
          if rr_expires r \<le> now \<or> rr_tokens r < limit
          then if int4_ok (rr_tokens r') then (PgRow r', fmupd k r' t) else (PgError, t)
          else (PgNoRows, t))"

definition TryConsumeRateLimitCost ::
  "'k \<Rightarrow> int \<Rightarrow> gduration \<Rightarrow> int \<Rightarrow> gtime \<Rightarrow> 'k rate_table \<Rightarrow> rate_row pg_result \<times> 'k rate_table" where
  "TryConsumeRateLimitCost k cost w limit now t =
     (if \<not> cost \<le> limit then (PgNoRows, t)
      else
        let r' = charged_row cost w now (fmlookup t k) in
        case fmlookup t k of
          None \<Rightarrow> (PgRow r', fmupd k r' t)
        | Some r \<Rightarrow>
            if \<not> int4_ok (rr_tokens r') then (PgError, t)
            else if rr_expires r \<le> now \<or> rr_tokens r + cost \<le> limit then (PgRow r', fmupd k r' t)
            else (PgNoRows, t))"

definition GetRateLimitExpiresAt :: "'k \<Rightarrow> 'k rate_table \<Rightarrow> gtime pg_result" where
  "GetRateLimitExpiresAt k t = (case fmlookup t k of None \<Rightarrow> PgNoRows | Some r \<Rightarrow> PgRow (rr_expires r))"

definition ChargeRateLimit_q :: "'k \<Rightarrow> gduration \<Rightarrow> gtime \<Rightarrow> 'k rate_table \<Rightarrow> bool \<times> 'k rate_table" where
  "ChargeRateLimit_q k w now t =
     (let r' = charged_row 1 w now (fmlookup t k) in
      if int4_ok (rr_tokens r') then (True, fmupd k r' t) else (False, t))"

definition RefundRateLimit_q :: "'k \<Rightarrow> gtime \<Rightarrow> 'k rate_table \<Rightarrow> 'k rate_table" where
  "RefundRateLimit_q k start t =
     (case fmlookup t k of
        Some r \<Rightarrow> if rr_start r = start then fmupd k (r\<lparr>rr_tokens := max (rr_tokens r - 1) 0\<rparr>) t else t
      | None \<Rightarrow> t)"

section \<open>The store's operations\<close>

datatype result_surface = Unknown | SendCodeIPCalls | SendCodeIPDistinctNumbers

record rate_result =
  rs_wait :: gduration
  rs_surface :: result_surface

datatype rate_error = InvalidCost int | NoClientAddr | StorageError

datatype rate_outcome = Allowed | Denied rate_result | Failed rate_error

text \<open>
  The wait a client is told: whole seconds, rounded up, never below one. Go's division truncates
  towards zero and its remainder keeps the sign, which only a deadline in the past would show.
\<close>

definition go_quot :: "int \<Rightarrow> int \<Rightarrow> int" where
  "go_quot a b = sgn a * (\<bar>a\<bar> div b)"

definition waitUntil :: "gtime \<Rightarrow> gtime \<Rightarrow> gduration" where
  "waitUntil now deadline =
     (let wait = time_sub deadline now;
          secs = go_quot wait second;
          secs = (if wait - go_quot wait second * second > 0 then secs + 1 else secs)
      in max secs 1 * second)"

text \<open>
  A check in its two statements: the charge, answered at once unless the statement refused it
  (\<open>None\<close>), and for a refused request the later read of the deadline.
\<close>

definition check_charge ::
  "bool \<Rightarrow> gtime \<Rightarrow> 'k \<Rightarrow> rate_config \<Rightarrow> int \<Rightarrow> 'k rate_table \<Rightarrow> rate_outcome option \<times> 'k rate_table" where
  "check_charge fault dbnow k cfg cost t =
     (if \<not> rl_enabled cfg then (Some Allowed, t)
      else if cost \<le> 0 then (Some (Failed (InvalidCost cost)), t)
      else
        case (if fault then (PgError, t)
              else TryConsumeRateLimitCost k (int32 cost) (interval_of (rl_window cfg)) (int32 (rl_limit cfg)) dbnow t)
        of (PgRow r, t') \<Rightarrow> (Some Allowed, t')
         | (PgError, t') \<Rightarrow> (Some (Failed StorageError), t')
         | (PgNoRows, t') \<Rightarrow> (None, t'))"

definition check_denied :: "bool \<Rightarrow> gtime \<Rightarrow> 'k \<Rightarrow> rate_config \<Rightarrow> int \<Rightarrow> 'k rate_table \<Rightarrow> rate_outcome" where
  "check_denied fault gonow k cfg cost t =
     (case (if fault then PgError else GetRateLimitExpiresAt k t) of
        PgError \<Rightarrow> Failed StorageError
      | PgNoRows \<Rightarrow>
          if cost > rl_limit cfg
          then Denied \<lparr>rs_wait = waitUntil gonow (gonow + rl_window cfg), rs_surface = Unknown\<rparr>
          else Allowed
      | PgRow e \<Rightarrow> Denied \<lparr>rs_wait = waitUntil gonow e, rs_surface = Unknown\<rparr>)"

definition CheckRateLimitCost ::
  "bool \<Rightarrow> bool \<Rightarrow> ('k rate_table \<Rightarrow> 'k rate_table) \<Rightarrow> gtime \<Rightarrow> gtime \<Rightarrow> 'k \<Rightarrow> rate_config \<Rightarrow> int \<Rightarrow>
     'k rate_table \<Rightarrow> rate_outcome \<times> 'k rate_table" where
  "CheckRateLimitCost fault1 fault2 between dbnow gonow k cfg cost t =
     (case check_charge fault1 dbnow k cfg cost t of
        (Some out, t') \<Rightarrow> (out, t')
      | (None, t') \<Rightarrow> let t'' = between t' in (check_denied fault2 gonow k cfg cost t'', t''))"

definition CheckRateLimit ::
  "bool \<Rightarrow> bool \<Rightarrow> ('k rate_table \<Rightarrow> 'k rate_table) \<Rightarrow> gtime \<Rightarrow> gtime \<Rightarrow> 'k \<Rightarrow> rate_config \<Rightarrow>
     'k rate_table \<Rightarrow> rate_outcome \<times> 'k rate_table" where
  "CheckRateLimit fault1 fault2 between dbnow gonow k cfg t = CheckRateLimitCost fault1 fault2 between dbnow gonow k cfg 1 t"

definition SweepExpiredRateLimits :: "gtime \<Rightarrow> 'k rate_table \<Rightarrow> 'k rate_table" where
  "SweepExpiredRateLimits now t = fmfilter (\<lambda>k. \<not> rr_expires (the (fmlookup t k)) < now) t"

definition CheckRateLimitBudget ::
  "bool \<Rightarrow> gtime \<Rightarrow> 'k \<Rightarrow> rate_config \<Rightarrow> 'k rate_table \<Rightarrow> rate_outcome" where
  "CheckRateLimitBudget fault gonow k cfg t =
     (if \<not> rl_enabled cfg then Allowed
      else if fault then Failed StorageError
      else case fmlookup t k of
        None \<Rightarrow> Allowed
      | Some r \<Rightarrow>
          if rr_expires r > gonow \<and> rr_tokens r \<ge> int32 (rl_limit cfg)
          then Denied \<lparr>rs_wait = waitUntil gonow (rr_expires r), rs_surface = Unknown\<rparr>
          else Allowed)"

definition ChargeRateLimit ::
  "bool \<Rightarrow> gtime \<Rightarrow> 'k \<Rightarrow> rate_config \<Rightarrow> 'k rate_table \<Rightarrow> rate_error option \<times> 'k rate_table" where
  "ChargeRateLimit fault dbnow k cfg t =
     (if \<not> rl_enabled cfg then (None, t)
      else if fault then (Some StorageError, t)
      else let (ok, t') = ChargeRateLimit_q k (interval_of (rl_window cfg)) dbnow t
           in (if ok then None else Some StorageError, t'))"

record reservation =
  rv_windowStart :: gtime

datatype reserve_outcome = Reserved "reservation option" | ReserveDenied rate_result | ReserveFailed rate_error

definition ReserveRateLimit ::
  "bool \<Rightarrow> bool \<Rightarrow> ('k rate_table \<Rightarrow> 'k rate_table) \<Rightarrow> gtime \<Rightarrow> gtime \<Rightarrow> 'k \<Rightarrow> rate_config \<Rightarrow>
     'k rate_table \<Rightarrow> reserve_outcome \<times> 'k rate_table" where
  "ReserveRateLimit fault1 fault2 between dbnow gonow k cfg t =
     (if \<not> rl_enabled cfg then (Reserved None, t)
      else
        case (if fault1 then (PgError, t)
              else TryConsumeRateLimit k (interval_of (rl_window cfg)) (int32 (rl_limit cfg)) dbnow t)
        of (PgRow r, t') \<Rightarrow> (Reserved (Some \<lparr>rv_windowStart = rr_start r\<rparr>), t')
         | (PgError, t') \<Rightarrow> (ReserveFailed StorageError, t')
         | (PgNoRows, t') \<Rightarrow>
             let t'' = between t' in
             (case (if fault2 then PgError else GetRateLimitExpiresAt k t'') of
                PgError \<Rightarrow> ReserveFailed StorageError
              | PgNoRows \<Rightarrow> Reserved None
              | PgRow e \<Rightarrow> ReserveDenied \<lparr>rs_wait = waitUntil gonow e, rs_surface = Unknown\<rparr>, t''))"

definition RefundRateLimit :: "bool \<Rightarrow> 'k \<Rightarrow> reservation option \<Rightarrow> 'k rate_table \<Rightarrow> rate_error option \<times> 'k rate_table" where
  "RefundRateLimit fault k res t =
     (case res of
        None \<Rightarrow> (None, t)
      | Some rv \<Rightarrow> if fault then (Some StorageError, t) else (None, RefundRateLimit_q k (rv_windowStart rv) t))"


section \<open>The wait a denied caller is told\<close>

lemma go_quot_nonneg: "0 \<le> a \<Longrightarrow> go_quot a second = a div second"
  by (auto simp: go_quot_def sgn_if)

text \<open>Deadlines less than 146 years away, so that no \<open>Duration\<close> saturates or overflows.\<close>

definition near :: "gtime \<Rightarrow> gtime \<Rightarrow> bool" where
  "near now deadline \<longleftrightarrow> \<bar>deadline - now\<bar> \<le> 2 ^ 62"

lemma time_sub_near: "near now deadline \<Longrightarrow> time_sub deadline now = deadline - now"
  by (simp add: near_def time_sub_def)

lemma waitUntil_covers:
  assumes "near now deadline"
  shows "deadline \<le> now + waitUntil now deadline"
proof (cases "now \<le> deadline")
  case True
  define w where "w = deadline - now"
  then have "0 \<le> w" using True by simp
  then have q: "go_quot w second = w div second" by (rule go_quot_nonneg)
  have "w = w div second * second + w mod second" by simp
  moreover have "w mod second < second" "0 \<le> w mod second" by simp_all
  ultimately have "w \<le> max (if w - w div second * second > 0 then w div second + 1 else w div second) 1 * second"
    by (auto simp: max_def)
  then have "w \<le> waitUntil now deadline"
    by (simp only: waitUntil_def time_sub_near [OF assms] Let_def q flip: w_def)
  then show ?thesis by (simp add: w_def)
next
  case False
  moreover have "0 \<le> waitUntil now deadline" by (simp add: waitUntil_def Let_def max_def)
  ultimately show ?thesis by simp
qed

lemma waitUntil_tight:
  assumes "near now deadline" and l: "now < deadline"
  shows "waitUntil now deadline < deadline - now + second"
proof -
  define w where "w = deadline - now"
  with l have p: "0 < w" by simp
  then have q: "go_quot w second = w div second" by (intro go_quot_nonneg) simp
  have e: "w = w div second * second + w mod second" by simp
  moreover have "w mod second < second" "0 \<le> w mod second" by simp_all
  moreover have "0 \<le> w div second" using p by (simp add: pos_imp_zdiv_nonneg_iff)
  moreover have "w div second = 0 \<Longrightarrow> 0 < w mod second" using p e by linarith
  ultimately have "max (if w - w div second * second > 0 then w div second + 1 else w div second) 1 * second < w + second"
    using p by (auto simp: max_def)
  then show ?thesis by (simp only: waitUntil_def time_sub_near [OF assms(1)] Let_def q flip: w_def)
qed

text \<open>The limits the deployment configures fit their columns.\<close>

definition config_ok :: "rate_config \<Rightarrow> bool" where
  "config_ok cfg \<longleftrightarrow> 0 < rl_limit cfg \<and> rl_limit cfg < 2 ^ 31 - 1 \<and> 1000 \<le> rl_window cfg"

lemma config_ok_simps:
  assumes "config_ok cfg"
  shows "rl_enabled cfg" "int32 (rl_limit cfg) = rl_limit cfg" "0 < interval_of (rl_window cfg)"
proof -
  show "rl_enabled cfg" using assms by (simp add: config_ok_def rl_enabled_def)
  show "int32 (rl_limit cfg) = rl_limit cfg" using assms by (intro int32_id) (simp add: config_ok_def int4_ok_def)
  show "0 < interval_of (rl_window cfg)"
    using assms by (simp add: config_ok_def interval_of_def pos_imp_zdiv_pos_iff)
qed

lemma CheckRateLimitCost_run:
  assumes "config_ok cfg" and "0 < cost" and "cost \<le> rl_limit cfg"
  shows "CheckRateLimitCost False False between dbnow gonow k cfg cost t =
    (case TryConsumeRateLimitCost k cost (interval_of (rl_window cfg)) (rl_limit cfg) dbnow t of
       (PgRow r, t') \<Rightarrow> (Allowed, t')
     | (PgError, t') \<Rightarrow> (Failed StorageError, t')
     | (PgNoRows, t') \<Rightarrow>
         (case GetRateLimitExpiresAt k (between t') of
            PgRow e \<Rightarrow> Denied \<lparr>rs_wait = waitUntil gonow e, rs_surface = Unknown\<rparr>
          | PgNoRows \<Rightarrow> Allowed | PgError \<Rightarrow> Failed StorageError, between t'))"
proof -
  have "int32 cost = cost" using assms by (intro int32_id) (simp add: config_ok_def int4_ok_def)
  with assms config_ok_simps [OF assms(1)] show ?thesis
    unfolding CheckRateLimitCost_def check_charge_def check_denied_def
    by (simp add: Let_def not_less split: prod.splits pg_result.splits)
qed

text \<open>
  C38. A caller that waits as it was told gets through. Let a check whose cost fits the limit be
  denied, no statement failing, the row unchanged between its two statements, the process clock not
  ahead of the database's and the deadline less than 146 years away. Then nothing is charged, the
  deadline is the one of the window that is full, the wait is a whole number of seconds that from the
  process clock reaches the deadline and by less than one second more, and the same request made when
  that wait has passed on the database clock, with no other request in between, is allowed.
\<close>

theorem denied_wait_reopens:
  assumes cfg: "config_ok cfg" and cost: "0 < cost" "cost \<le> rl_limit cfg"
    and denied: "CheckRateLimitCost False False (\<lambda>t. t) dbnow gonow k cfg cost t = (Denied r, t')"
    and clocks: "gonow \<le> dbnow"
    and near: "\<forall>row. fmlookup t k = Some row \<longrightarrow> near gonow (rr_expires row)"
    and later: "dbnow + rs_wait r \<le> dblater"
  shows "t' = t \<and> second dvd rs_wait r \<and>
    (\<exists>row. fmlookup t k = Some row \<and> dbnow < rr_expires row \<and> rl_limit cfg < rr_tokens row + cost \<and>
      rr_expires row \<le> gonow + rs_wait r \<and> gonow + rs_wait r < rr_expires row + second) \<and>
    fst (CheckRateLimitCost False False (\<lambda>t. t) dblater golater k cfg cost t') = Allowed"
proof -
  have "int4_ok cost" using cfg cost by (simp add: config_ok_def int4_ok_def)
  from denied obtain row where row: "fmlookup t k = Some row" "dbnow < rr_expires row"
    "rl_limit cfg < rr_tokens row + cost" and t': "t' = t"
    and w: "rs_wait r = waitUntil gonow (rr_expires row)"
    unfolding CheckRateLimitCost_run [OF cfg cost]
    by (auto simp: TryConsumeRateLimitCost_def GetRateLimitExpiresAt_def Let_def cost split: option.splits if_splits)
  have c: "rr_expires row \<le> gonow + rs_wait r" using waitUntil_covers near row w by simp
  have "fst (CheckRateLimitCost False False (\<lambda>t. t) dblater golater k cfg cost t) = Allowed"
    unfolding CheckRateLimitCost_run [OF cfg cost]
    using row c later clocks \<open>int4_ok cost\<close> cost
    by (simp add: TryConsumeRateLimitCost_def charged_row_def Let_def)
  moreover have "second dvd rs_wait r" by (simp add: w waitUntil_def Let_def)
  moreover have "gonow < rr_expires row" using clocks row(2) by simp
  ultimately show ?thesis using row t' c waitUntil_tight [of gonow "rr_expires row"] near w by auto
qed

definition spent_table :: "rate_key rate_table" where
  "spent_table = fmupd (7, ''x'') \<lparr>rr_tokens = 2, rr_start = 1000, rr_expires = 1000 + 3 * second\<rparr> fmempty"

definition small_config :: rate_config where
  "small_config = \<lparr>rl_limit = 2, rl_window = 3 * second\<rparr>"

theorem denied_wait_reopens_witness:
  "fst (CheckRateLimitCost False False (\<lambda>t. t) (second + 2000 + 2 * second) 0 (7, ''x'') small_config 1 spent_table) = Allowed"
proof -
  have "CheckRateLimitCost False False (\<lambda>t. t) (second + 2000) (second + 1500) (7, ''x'') small_config 1 spent_table =
      (Denied \<lparr>rs_wait = 2 * second, rs_surface = Unknown\<rparr>, spent_table)"
    by (simp add: CheckRateLimitCost_def check_charge_def check_denied_def TryConsumeRateLimitCost_def GetRateLimitExpiresAt_def charged_row_def
        small_config_def rl_enabled_def spent_table_def int32_def int4_ok_def waitUntil_def time_sub_def go_quot_def Let_def)
  from denied_wait_reopens [OF _ _ _ this, of "second + 2000 + 2 * second" 0]
  show ?thesis by (simp add: config_ok_def small_config_def spent_table_def near_def)
qed

section \<open>What a window grants\<close>

text \<open>
  Checks of one token as they interleave: a request charges, and if that was refused it reads the
  deadline in a later statement, with anything in between. \<open>rn_denied\<close> holds the refused requests
  that still have to read, each with its subject and the deadline of the window that refused it.
\<close>

datatype 'k rate_event = Charge nat 'k bool | Answer nat 'k bool gtime | Sweep

record 'k rate_run =
  rn_table :: "'k rate_table"
  rn_denied :: "(nat, 'k \<times> gtime) fmap"

definition deadline_of :: "'k \<Rightarrow> 'k rate_table \<Rightarrow> gtime" where
  "deadline_of k t = (case fmlookup t k of None \<Rightarrow> 0 | Some r \<Rightarrow> rr_expires r)"

text \<open>The flag of a step says whether it lets a request through.\<close>

fun rate_do :: "rate_config \<Rightarrow> 'k rate_event \<Rightarrow> gtime \<Rightarrow> 'k rate_run \<Rightarrow> bool \<times> 'k rate_run" where
  "rate_do cfg (Charge i k fault) now s =
     (case check_charge fault now k cfg 1 (rn_table s) of
        (Some out, t) \<Rightarrow> (out = Allowed, s\<lparr>rn_table := t\<rparr>)
      | (None, t) \<Rightarrow> (False, s\<lparr>rn_table := t, rn_denied := fmupd i (k, deadline_of k t) (rn_denied s)\<rparr>))"
| "rate_do cfg (Answer i k fault gonow) now s =
     (case fmlookup (rn_denied s) i of
        None \<Rightarrow> (False, s)
      | Some (k', e) \<Rightarrow>
          if k' = k then (check_denied fault gonow k cfg 1 (rn_table s) = Allowed, s\<lparr>rn_denied := fmdrop i (rn_denied s)\<rparr>)
          else (False, s))"
| "rate_do cfg Sweep now s = (False, s\<lparr>rn_table := SweepExpiredRateLimits now (rn_table s)\<rparr>)"

fun charges_for :: "'k \<Rightarrow> 'k rate_event \<Rightarrow> bool" where
  "charges_for k (Charge i k' fault) \<longleftrightarrow> k' = k"
| "charges_for k _ \<longleftrightarrow> False"

definition no_requests :: "'k rate_run" where
  "no_requests = \<lparr>rn_table = fmempty, rn_denied = fmempty\<rparr>"

definition rate_after :: "rate_config \<Rightarrow> ('k rate_event \<times> gtime) list \<Rightarrow> 'k rate_run \<Rightarrow> 'k rate_run" where
  "rate_after cfg es s = fold (\<lambda>(e, t) s. snd (rate_do cfg e t s)) es s"

definition row_start :: "'k \<Rightarrow> 'k rate_table \<Rightarrow> gtime" where
  "row_start k t = (case fmlookup t k of None \<Rightarrow> 0 | Some r \<Rightarrow> rr_start r)"

definition row_tokens :: "'k \<Rightarrow> 'k rate_table \<Rightarrow> int" where
  "row_tokens k t = (case fmlookup t k of None \<Rightarrow> 0 | Some r \<Rightarrow> rr_tokens r)"

definition rows_ok :: "rate_config \<Rightarrow> 'k rate_table \<Rightarrow> bool" where
  "rows_ok cfg t \<longleftrightarrow> (\<forall>k r. fmlookup t k = Some r \<longrightarrow>
     rr_start r \<noteq> 0 \<and> rr_expires r = rr_start r + interval_of (rl_window cfg) \<and>
     0 < rr_tokens r \<and> rr_tokens r \<le> rl_limit cfg)"

lemma check_charge_run:
  assumes cfg: "config_ok cfg" and t: "rows_ok cfg t"
  shows "check_charge fault now k cfg 1 t =
    (if fault then (Some (Failed StorageError), t)
     else let r' = charged_row 1 (interval_of (rl_window cfg)) now (fmlookup t k) in
     case fmlookup t k of
       None \<Rightarrow> (Some Allowed, fmupd k r' t)
     | Some r \<Rightarrow>
         if rr_expires r \<le> now \<or> rr_tokens r < rl_limit cfg then (Some Allowed, fmupd k r' t) else (None, t))"
proof -
  have l: "1 \<le> rl_limit cfg" using cfg by (simp add: config_ok_def)
  have one: "int32 1 = 1" by (intro int32_id) (simp add: int4_ok_def)
  show ?thesis
  proof (cases "fmlookup t k")
    case None
    with l one config_ok_simps [OF cfg] show ?thesis
      by (simp add: check_charge_def TryConsumeRateLimitCost_def Let_def)
  next
    case (Some r)
    with t have "0 < rr_tokens r" "rr_tokens r \<le> rl_limit cfg" by (auto simp: rows_ok_def)
    with cfg have "int4_ok (rr_tokens r + 1)" "int4_ok 1"
      by (auto simp: config_ok_def int4_ok_def)
    then have "int4_ok (rr_tokens (charged_row 1 (interval_of (rl_window cfg)) now (Some r)))"
      by (simp add: charged_row_def)
    with l one Some config_ok_simps [OF cfg] show ?thesis
      by (simp add: check_charge_def TryConsumeRateLimitCost_def Let_def add1_zle_eq)
  qed
qed

text \<open>
  A component whose counted events charge one row and whose other events leave that row alone, or
  drop it once its window has closed, is a fixed window. Times are positive.
\<close>

lemma window_from_rows:
  fixes allow :: "'e \<Rightarrow> gtime \<Rightarrow> 's \<Rightarrow> bool \<times> 's" and k :: 'k and tab :: "'s \<Rightarrow> 'k rate_table"
  assumes cfg: "config_ok cfg"
    and keeps: "\<And>s e now. now \<noteq> 0 \<Longrightarrow> rows_ok cfg (tab s) \<Longrightarrow> rows_ok cfg (tab (snd (allow e now s)))"
    and charged: "\<And>s e now. rows_ok cfg (tab s) \<Longrightarrow> mine e \<Longrightarrow> fst (allow e now s) \<Longrightarrow>
        fmlookup (tab (snd (allow e now s))) k = Some (charged_row 1 (interval_of (rl_window cfg)) now (fmlookup (tab s) k)) \<and>
        (\<forall>r. fmlookup (tab s) k = Some r \<longrightarrow> rr_expires r \<le> now \<or> rr_tokens r < rl_limit cfg)"
    and other: "\<And>s e now. rows_ok cfg (tab s) \<Longrightarrow> \<not> (mine e \<and> fst (allow e now s)) \<Longrightarrow>
        fmlookup (tab (snd (allow e now s))) k = fmlookup (tab s) k \<or>
        fmlookup (tab (snd (allow e now s))) k = None \<and> (\<forall>r. fmlookup (tab s) k = Some r \<longrightarrow> rr_expires r \<le> now)"
  shows "fixed_window (\<lambda>e now s. if now = 0 then (False, s) else allow e now s) mine (\<lambda>s. rows_ok cfg (tab s))
    (\<lambda>s. row_start k (tab s)) (\<lambda>s. row_tokens k (tab s)) (rl_limit cfg) (interval_of (rl_window cfg))"
proof
  show "0 < rl_limit cfg" using cfg by (simp add: config_ok_def)
  show "0 < interval_of (rl_window cfg)" by (rule config_ok_simps(3) [OF cfg])
next
  fix s e now assume "rows_ok cfg (tab s)"
  then show "rows_ok cfg (tab (snd (if now = 0 then (False, s) else allow e now s)))"
    using keeps by simp
next
  fix s e now
  assume t: "rows_ok cfg (tab s)" and e: "mine e"
    and ok: "fst (if now = 0 then (False, s) else allow e now s)"
    and over: "row_start k (tab s) = 0 \<or> row_start k (tab s) + interval_of (rl_window cfg) \<le> now"
  have n: "now \<noteq> 0" using ok by (auto split: if_splits)
  have "fmlookup (tab s) k = None \<or> (\<exists>r. fmlookup (tab s) k = Some r \<and> rr_expires r \<le> now)"
    using t over by (auto simp: row_start_def rows_ok_def split: option.splits)
  with charged [OF t e, of now] ok n
  show "row_start k (tab (snd (if now = 0 then (False, s) else allow e now s))) = now \<and>
      row_tokens k (tab (snd (if now = 0 then (False, s) else allow e now s))) = 1"
    by (auto simp: charged_row_def row_start_def row_tokens_def)
next
  fix s e now
  assume t: "rows_ok cfg (tab s)" and e: "mine e"
    and ok: "fst (if now = 0 then (False, s) else allow e now s)"
    and st: "row_start k (tab s) \<noteq> 0" and op: "now < row_start k (tab s) + interval_of (rl_window cfg)"
  have n: "now \<noteq> 0" using ok by (auto split: if_splits)
  obtain r where r: "fmlookup (tab s) k = Some r" using st by (auto simp: row_start_def split: option.splits)
  then have "rr_expires r = rr_start r + interval_of (rl_window cfg)" using t by (auto simp: rows_ok_def)
  then have "\<not> rr_expires r \<le> now" using op r by (simp add: row_start_def)
  with charged [OF t e, of now] ok n r
  show "row_tokens k (tab s) < rl_limit cfg \<and>
      row_start k (tab (snd (if now = 0 then (False, s) else allow e now s))) = row_start k (tab s) \<and>
      row_tokens k (tab (snd (if now = 0 then (False, s) else allow e now s))) = row_tokens k (tab s) + 1"
    by (auto simp: charged_row_def row_start_def row_tokens_def)
next
  fix s e now
  assume t: "rows_ok cfg (tab s)" and not: "\<not> (mine e \<and> fst (if now = 0 then (False, s) else allow e now s))"
  let ?s' = "snd (if now = 0 then (False, s) else allow e now s)"
  have exp: "rr_expires r = rr_start r + interval_of (rl_window cfg)" if "fmlookup (tab s) k = Some r" for r
    using t that by (auto simp: rows_ok_def)
  show "row_start k (tab ?s') = row_start k (tab s) \<and> row_tokens k (tab s) \<le> row_tokens k (tab ?s') \<or>
      row_start k (tab ?s') = 0 \<and> (row_start k (tab s) = 0 \<or> row_start k (tab s) + interval_of (rl_window cfg) \<le> now)"
  proof (cases "now = 0")
    case False
    with other [OF t, of e now] not exp show ?thesis
      by (cases "fmlookup (tab s) k") (auto simp: row_start_def row_tokens_def)
  qed simp
qed

lemma charged_row_ok:
  assumes cfg: "config_ok cfg" and t: "rows_ok cfg t" and now: "now \<noteq> 0"
    and room: "\<forall>r. fmlookup t k = Some r \<longrightarrow> rr_expires r \<le> now \<or> rr_tokens r < rl_limit cfg"
  shows "rows_ok cfg (fmupd k (charged_row 1 (interval_of (rl_window cfg)) now (fmlookup t k)) t)"
proof -
  have l: "1 \<le> rl_limit cfg" using cfg by (simp add: config_ok_def)
  have "0 \<le> rr_tokens r" if "fmlookup t k = Some r" for r
    using t that by (auto simp: rows_ok_def intro: less_imp_le)
  with t now l room show ?thesis by (auto simp: rows_ok_def charged_row_def split: option.splits)
qed

lemma rows_ok_filter: "rows_ok cfg t \<Longrightarrow> rows_ok cfg (fmfilter P t)"
  by (simp add: rows_ok_def)

lemma rate_do_table:
  assumes cfg: "config_ok cfg" and t: "rows_ok cfg (rn_table s)"
  shows "rn_table (snd (rate_do cfg (Charge i k fault) now s)) =
      (if fst (rate_do cfg (Charge i k fault) now s)
       then fmupd k (charged_row 1 (interval_of (rl_window cfg)) now (fmlookup (rn_table s) k)) (rn_table s) else rn_table s)"
    and "fst (rate_do cfg (Charge i k fault) now s) \<Longrightarrow> fmlookup (rn_table s) k = Some r \<Longrightarrow>
      rr_expires r \<le> now \<or> rr_tokens r < rl_limit cfg"
    and "rn_table (snd (rate_do cfg (Answer i k fault gonow) now s)) = rn_table s"
    and "rn_table (snd (rate_do cfg Sweep now s)) = SweepExpiredRateLimits now (rn_table s)"
  by (auto simp: check_charge_run [OF cfg t] Let_def split: option.splits if_splits)

lemma rate_do_rows_ok:
  assumes cfg: "config_ok cfg" and t: "rows_ok cfg (rn_table s)" and now: "now \<noteq> 0"
  shows "rows_ok cfg (rn_table (snd (rate_do cfg e now s)))"
proof (cases e)
  case (Charge i k fault)
  show ?thesis
    unfolding Charge rate_do_table(1) [OF cfg t] using t charged_row_ok [OF cfg t now, of k] rate_do_table(2) [OF cfg t] by auto
next
  case (Answer i k fault gonow)
  show ?thesis unfolding Answer rate_do_table(3) [OF cfg t] by (rule t)
next
  case Sweep
  show ?thesis unfolding Sweep rate_do_table(4) [OF cfg t] using t by (simp add: SweepExpiredRateLimits_def rows_ok_filter)
qed

lemma rate_fixed_window:
  fixes k :: 'k
  assumes cfg: "config_ok cfg"
  shows "fixed_window (\<lambda>e now s. if now = 0 then (False, s) else rate_do cfg e now s) (charges_for k) (\<lambda>s. rows_ok cfg (rn_table s))
    (\<lambda>s. row_start k (rn_table s)) (\<lambda>s. row_tokens k (rn_table s)) (rl_limit cfg) (interval_of (rl_window cfg))"
proof (rule window_from_rows [where tab = rn_table, OF cfg])
  fix s :: "'k rate_run" and e now
  show "rows_ok cfg (rn_table (snd (rate_do cfg e now s)))" if "now \<noteq> 0" "rows_ok cfg (rn_table s)"
    using rate_do_rows_ok [OF cfg that(2,1)] .
  assume t: "rows_ok cfg (rn_table s)"
  show "fmlookup (rn_table (snd (rate_do cfg e now s))) k =
        Some (charged_row 1 (interval_of (rl_window cfg)) now (fmlookup (rn_table s) k)) \<and>
      (\<forall>r. fmlookup (rn_table s) k = Some r \<longrightarrow> rr_expires r \<le> now \<or> rr_tokens r < rl_limit cfg)"
    if m: "charges_for k e" "fst (rate_do cfg e now s)"
  proof -
    from m(1) obtain i fault where e: "e = Charge i k fault" by (cases e) auto
    show ?thesis using m(2) rate_do_table(2) [OF cfg t] unfolding e rate_do_table(1) [OF cfg t] by auto
  qed
  show "fmlookup (rn_table (snd (rate_do cfg e now s))) k = fmlookup (rn_table s) k \<or>
      fmlookup (rn_table (snd (rate_do cfg e now s))) k = None \<and> (\<forall>r. fmlookup (rn_table s) k = Some r \<longrightarrow> rr_expires r \<le> now)"
    if m: "\<not> (charges_for k e \<and> fst (rate_do cfg e now s))"
  proof (cases e)
    case (Charge i k' fault)
    show ?thesis using m unfolding Charge rate_do_table(1) [OF cfg t] by auto
  next
    case (Answer i k' fault gonow)
    show ?thesis unfolding Answer rate_do_table(3) [OF cfg t] by simp
  next
    case Sweep
    show ?thesis unfolding Sweep rate_do_table(4) [OF cfg t] by (auto simp: SweepExpiredRateLimits_def)
  qed
qed

text \<open>The window that refused a waiting request is still the row's or an earlier one, or it has ended.\<close>

definition refusals_ok :: "gtime \<Rightarrow> 'k rate_run \<Rightarrow> bool" where
  "refusals_ok T s \<longleftrightarrow> (\<forall>i k e. fmlookup (rn_denied s) i = Some (k, e) \<longrightarrow>
     e < T \<or> (\<exists>r. fmlookup (rn_table s) k = Some r \<and> e \<le> rr_expires r))"

lemma refusals_step:
  assumes cfg: "config_ok cfg" and t: "rows_ok cfg (rn_table s)" and ok: "refusals_ok T s" and T: "T \<le> now"
  shows "refusals_ok now (snd (rate_do cfg e now s))"
proof -
  have old: "x < now \<or> (\<exists>r. fmlookup (rn_table s) k = Some r \<and> x \<le> rr_expires r)"
    if "fmlookup (rn_denied s) i = Some (k, x)" for i k x using ok that T unfolding refusals_ok_def by fastforce
  show ?thesis
  proof (cases e)
    case (Charge i k fault)
    let ?s = "snd (rate_do cfg e now s)"
    have w: "0 < interval_of (rl_window cfg)" by (rule config_ok_simps(3) [OF cfg])
    have grows: "\<exists>r'. fmlookup (rn_table ?s) k' = Some r' \<and> rr_expires r \<le> rr_expires r'" if "fmlookup (rn_table s) k' = Some r" for k' r
      using that w unfolding Charge rate_do_table(1) [OF cfg t] by (auto simp: charged_row_def)
    have new: "fmlookup (rn_denied ?s) j = Some (k', x) \<Longrightarrow> fmlookup (rn_denied s) j = Some (k', x) \<or>
        (\<exists>r. fmlookup (rn_table s) k' = Some r \<and> x = rr_expires r)" for j k' x
      unfolding Charge by (auto simp: check_charge_run [OF cfg t] Let_def deadline_of_def split: option.splits if_splits)
    have "x < now \<or> (\<exists>r. fmlookup (rn_table ?s) k' = Some r \<and> x \<le> rr_expires r)"
      if j: "fmlookup (rn_denied ?s) j = Some (k', x)" for j k' x
    proof -
      from new [OF j] old have "x < now \<or> (\<exists>r. fmlookup (rn_table s) k' = Some r \<and> x \<le> rr_expires r)" by auto
      with grows [of k'] show ?thesis by (meson order_trans)
    qed
    then show ?thesis unfolding refusals_ok_def by blast
  next
    case (Answer i k fault gonow)
    have "fmlookup (rn_denied (snd (rate_do cfg e now s))) j = Some y \<Longrightarrow> fmlookup (rn_denied s) j = Some y" for j y
      unfolding Answer by (auto split: option.splits if_splits)
    then show ?thesis using old unfolding refusals_ok_def Answer rate_do_table(3) [OF cfg t] by blast
  next
    case Sweep
    then show ?thesis using old by (force simp: refusals_ok_def SweepExpiredRateLimits_def)
  qed
qed

lemma refusals_after:
  assumes cfg: "config_ok cfg"
  shows "rows_ok cfg (rn_table s) \<Longrightarrow> refusals_ok T s \<Longrightarrow> sorted (map snd es) \<Longrightarrow> \<forall>(e, t) \<in> set es. T \<le> t \<and> 0 < t \<and> t \<le> now \<Longrightarrow> T \<le> now \<Longrightarrow>
    refusals_ok now (rate_after cfg es s)"
proof (induction es arbitrary: s T)
  case Nil
  then show ?case by (fastforce simp: rate_after_def refusals_ok_def)
next
  case (Cons et es)
  obtain e t where et: "et = (e, t)" by fastforce
  have t: "T \<le> t" "0 < t" "t \<le> now" using Cons.prems(4) et by auto
  have "refusals_ok now (rate_after cfg es (snd (rate_do cfg e t s)))"
  proof (rule Cons.IH [OF rate_do_rows_ok [OF cfg Cons.prems(1)] refusals_step [OF cfg Cons.prems(1,2) t(1)]])
    show "\<forall>(e', x) \<in> set es. t \<le> x \<and> 0 < x \<and> x \<le> now" using Cons.prems(3,4) et by fastforce
  qed (use t Cons.prems(3) et in simp_all)
  then show ?case by (simp add: rate_after_def et)
qed

lemma fw_run_cong:
  assumes "\<And>e t s. (e, t) \<in> set es \<Longrightarrow> f e t s = g e t s"
  shows "fw_run f mine es s = fw_run g mine es s"
  using assms by (induction es arbitrary: s) (auto simp: case_prod_unfold Let_def)

lemma late_answer:
  assumes ok: "refusals_ok T s" and through: "fst (rate_do cfg ev now s)"
  shows "(\<exists>i k fault. ev = Charge i k fault) \<or>
    (\<exists>i k fault gonow deadline. ev = Answer i k fault gonow \<and> fmlookup (rn_denied s) i = Some (k, deadline) \<and> deadline < T)"
proof (cases ev)
  case (Answer i k fault gonow)
  with through obtain e where e: "fmlookup (rn_denied s) i = Some (k, e)" and "check_denied fault gonow k cfg 1 (rn_table s) = Allowed"
    by (auto split: option.splits if_splits)
  then have "fmlookup (rn_table s) k = None"
    by (auto simp: check_denied_def GetRateLimitExpiresAt_def split: option.splits if_splits)
  with ok e have "e < T" unfolding refusals_ok_def by fastforce
  with Answer e show ?thesis by blast
qed (use through in simp_all)

text \<open>
  C16. The stored limit holds over every mix of callers. Starting from an empty table, let subjects
  be checked on their surfaces, one token each under one configuration, the two statements of every
  check and the expiry sweeps interleaving in any order and any of them failing, as long as the
  database clock does not run backwards. No subject is let through by a charge more than twice its
  limit of times in any span as long as the window. The only other way through is a request that the
  charge refused and that found the row swept when it came back to read the deadline: it is let
  through without being charged, and then the window that had refused it is over.
\<close>

theorem rate_limit_window_bound:
  fixes k :: rate_key
  assumes "config_ok cfg" and "sorted (map snd es)" and "\<forall>(e, t) \<in> set es. 0 < t \<and> t \<le> now" and "0 < now"
  shows "int (in_span a (interval_of (rl_window cfg)) (fw_run (rate_do cfg) (charges_for k) es no_requests)) \<le> 2 * rl_limit cfg \<and>
    (fst (rate_do cfg ev now (rate_after cfg es no_requests)) \<longrightarrow>
      (\<exists>i k' fault. ev = Charge i k' fault) \<or>
      (\<exists>i k' fault gonow deadline. ev = Answer i k' fault gonow \<and>
         fmlookup (rn_denied (rate_after cfg es no_requests)) i = Some (k', deadline) \<and> deadline < now))"
proof -
  have ok: "rows_ok cfg (rn_table (no_requests :: rate_key rate_run))" and none: "refusals_ok 0 (no_requests :: rate_key rate_run)"
    by (simp_all add: no_requests_def rows_ok_def refusals_ok_def)
  have "fw_run (rate_do cfg) (charges_for k) es no_requests =
      fw_run (\<lambda>e now s. if now = 0 then (False, s) else rate_do cfg e now s) (charges_for k) es no_requests"
    using assms(3) by (intro fw_run_cong) auto
  moreover have "\<forall>(e, t) \<in> set es. 0 < t" using assms(3) by auto
  ultimately have "int (in_span a (interval_of (rl_window cfg)) (fw_run (rate_do cfg) (charges_for k) es no_requests)) \<le> 2 * rl_limit cfg"
    using fixed_window.fw_bound [OF rate_fixed_window [OF assms(1), of k] ok, of es a] assms(2)
    by (simp add: no_requests_def row_start_def)
  moreover have "refusals_ok now (rate_after cfg es no_requests)"
    by (rule refusals_after [OF assms(1) ok none assms(2)]) (use assms(3,4) in auto)
  ultimately show ?thesis using late_answer [of now "rate_after cfg es no_requests" cfg ev now] by blast
qed

text \<open>Two requests use up the window, a third is refused at 40, the row is swept when its window is over, and the third comes back.\<close>

definition swept_run :: "(rate_key rate_event \<times> gtime) list" where
  "swept_run = [(Charge 1 (7, ''x'') False, 10), (Charge 2 (7, ''x'') False, 20), (Charge 3 (7, ''x'') False, 40), (Sweep, 4 * second)]"

theorem rate_limit_window_bound_witness:
  "fst (rate_do small_config (Answer 3 (7, ''x'') False 0) (4 * second) (rate_after small_config swept_run no_requests)) \<and>
   int (in_span 5 (interval_of (rl_window small_config)) (fw_run (rate_do small_config) (charges_for (7, ''x'')) swept_run no_requests)) \<le> 4 \<and>
   (\<exists>deadline. fmlookup (rn_denied (rate_after small_config swept_run no_requests)) 3 = Some ((7, ''x''), deadline) \<and> deadline < 4 * second)"
proof -
  have "fst (rate_do small_config (Answer 3 (7, ''x'') False 0) (4 * second) (rate_after small_config swept_run no_requests))"
    by (simp add: swept_run_def rate_after_def no_requests_def check_charge_def check_denied_def TryConsumeRateLimitCost_def GetRateLimitExpiresAt_def
        charged_row_def small_config_def rl_enabled_def int32_def int4_ok_def interval_of_def SweepExpiredRateLimits_def deadline_of_def Let_def)
  with rate_limit_window_bound [of small_config swept_run "4 * second" 5 "(7, ''x'')" "Answer 3 (7, ''x'') False 0"] show ?thesis
    by (auto simp: config_ok_def small_config_def swept_run_def)
qed

text \<open>The shipped limit on sends: 60 in 60 seconds, for each account.\<close>

definition MessageSend :: rate_config where
  "MessageSend = \<lparr>rl_limit = 60, rl_window = 60 * second\<rparr>"

interpretation rlw: fixed_window "\<lambda>e now s. if now = 0 then (False, s) else rate_do MessageSend e now s"
  "charges_for (account :: int, ''message_send'')" "\<lambda>s. rows_ok MessageSend (rn_table s)" "\<lambda>s. row_start (account, ''message_send'') (rn_table s)"
  "\<lambda>s. row_tokens (account, ''message_send'') (rn_table s)" "rl_limit MessageSend" "interval_of (rl_window MessageSend)" for account
  by (rule rate_fixed_window) (simp add: config_ok_def MessageSend_def)

section \<open>Reservations and refunds\<close>

text \<open>
  Callers of one limited surface: each reserves a token before it does its work and refunds it,
  at most once, when the work succeeded. \<open>rp_held\<close> lists the reservations not refunded, in any
  window; the clock never runs backwards.
\<close>

record reserve_pop =
  rp_table :: "rate_key rate_table"
  rp_held :: "gtime list"
  rp_clock :: gtime

inductive reserve_step :: "rate_config \<Rightarrow> rate_key \<Rightarrow> reserve_pop \<Rightarrow> reserve_pop \<Rightarrow> bool" for cfg k where
  reserve: "\<lbrakk>rp_clock p \<le> now; ReserveRateLimit False False (\<lambda>t. t) now gonow k cfg (rp_table p) = (Reserved (Some rv), t)\<rbrakk>
    \<Longrightarrow> reserve_step cfg k p \<lparr>rp_table = t, rp_held = rv_windowStart rv # rp_held p, rp_clock = now\<rparr>"
| refused: "\<lbrakk>rp_clock p \<le> now; ReserveRateLimit False False (\<lambda>t. t) now gonow k cfg (rp_table p) = (ReserveDenied r, t)\<rbrakk>
    \<Longrightarrow> reserve_step cfg k p (p\<lparr>rp_table := t, rp_clock := now\<rparr>)"
| refund: "\<lbrakk>w \<in> set (rp_held p); RefundRateLimit False k (Some \<lparr>rv_windowStart = w\<rparr>) (rp_table p) = (e, t)\<rbrakk>
    \<Longrightarrow> reserve_step cfg k p (p\<lparr>rp_table := t, rp_held := remove1 w (rp_held p)\<rparr>)"
| sweep: "rp_clock p \<le> now
    \<Longrightarrow> reserve_step cfg k p (p\<lparr>rp_table := SweepExpiredRateLimits now (rp_table p), rp_clock := now\<rparr>)"

definition empty_pop :: reserve_pop where
  "empty_pop = \<lparr>rp_table = fmempty, rp_held = [], rp_clock = 0\<rparr>"

definition pop_inv :: "rate_config \<Rightarrow> rate_key \<Rightarrow> reserve_pop \<Rightarrow> bool" where
  "pop_inv cfg k p \<longleftrightarrow>
     (case fmlookup (rp_table p) k of
        None \<Rightarrow> \<forall>w \<in> set (rp_held p). w < rp_clock p
      | Some r \<Rightarrow> rr_expires r = rr_start r + interval_of (rl_window cfg) \<and> rr_start r \<le> rp_clock p \<and>
          rr_tokens r = int (count_list (rp_held p) (rr_start r)) \<and> rr_tokens r \<le> rl_limit cfg \<and>
          (\<forall>w \<in> set (rp_held p). w \<le> rr_start r))"

lemma reserve_run:
  assumes "config_ok cfg"
  shows "ReserveRateLimit False False (\<lambda>t. t) now gonow k cfg t =
    (case TryConsumeRateLimit k (interval_of (rl_window cfg)) (rl_limit cfg) now t of
       (PgRow r, t') \<Rightarrow> (Reserved (Some \<lparr>rv_windowStart = rr_start r\<rparr>), t')
     | (PgError, t') \<Rightarrow> (ReserveFailed StorageError, t')
     | (PgNoRows, t') \<Rightarrow>
         (case GetRateLimitExpiresAt k t' of
            PgRow e \<Rightarrow> ReserveDenied \<lparr>rs_wait = waitUntil gonow e, rs_surface = Unknown\<rparr>
          | PgNoRows \<Rightarrow> Reserved None | PgError \<Rightarrow> ReserveFailed StorageError, t'))"
  unfolding ReserveRateLimit_def
  by (simp add: config_ok_simps [OF assms] Let_def split: prod.splits pg_result.splits)

lemma reserve_granted:
  assumes cfg: "config_ok cfg"
    and r: "ReserveRateLimit False False (\<lambda>t. t) now gonow k cfg t = (Reserved (Some rv), t')"
  shows "t' = fmupd k (charged_row 1 (interval_of (rl_window cfg)) now (fmlookup t k)) t \<and>
    rv_windowStart rv = rr_start (charged_row 1 (interval_of (rl_window cfg)) now (fmlookup t k)) \<and>
    (\<forall>row. fmlookup t k = Some row \<longrightarrow> rr_expires row \<le> now \<or> rr_tokens row < rl_limit cfg)"
  using r unfolding reserve_run [OF cfg]
  by (auto simp: TryConsumeRateLimit_def GetRateLimitExpiresAt_def Let_def split: option.splits if_splits)

lemma reserve_denied:
  assumes cfg: "config_ok cfg"
    and r: "ReserveRateLimit False False (\<lambda>t. t) now gonow k cfg t = (ReserveDenied e, t')"
  shows "t' = t"
  using r unfolding reserve_run [OF cfg]
  by (auto simp: TryConsumeRateLimit_def GetRateLimitExpiresAt_def Let_def split: option.splits if_splits)

lemma pop_inv_reserve:
  assumes cfg: "config_ok cfg" and inv: "pop_inv cfg k p" and now: "rp_clock p \<le> now"
    and r: "ReserveRateLimit False False (\<lambda>t. t) now gonow k cfg (rp_table p) = (Reserved (Some rv), t)"
  shows "pop_inv cfg k \<lparr>rp_table = t, rp_held = rv_windowStart rv # rp_held p, rp_clock = now\<rparr>"
proof -
  note g = reserve_granted [OF cfg r]
  have l: "1 \<le> rl_limit cfg" and w: "0 < interval_of (rl_window cfg)"
    using cfg config_ok_simps by (auto simp: config_ok_def)
  show ?thesis
  proof (cases "fmlookup (rp_table p) k")
    case None
    with inv now have old: "\<forall>x \<in> set (rp_held p). x < now" by (auto simp: pop_inv_def)
    then have "count_list (rp_held p) now = 0" by (auto simp: count_list_0_iff)
    with g None old l show ?thesis by (auto simp: pop_inv_def charged_row_def)
  next
    case (Some row)
    note i = inv [unfolded pop_inv_def Some option.case]
    show ?thesis
    proof (cases "rr_expires row \<le> now")
      case True
      with i w have old: "\<forall>x \<in> set (rp_held p). x < now" by force
      then have "count_list (rp_held p) now = 0" by (auto simp: count_list_0_iff)
      with g Some True old l show ?thesis by (auto simp: pop_inv_def charged_row_def)
    next
      case False
      with g Some i now show ?thesis by (auto simp: pop_inv_def charged_row_def)
    qed
  qed
qed

lemma pop_inv_refund:
  assumes inv: "pop_inv cfg k p" and w: "w \<in> set (rp_held p)"
    and r: "RefundRateLimit False k (Some \<lparr>rv_windowStart = w\<rparr>) (rp_table p) = (e, t)"
  shows "pop_inv cfg k (p\<lparr>rp_table := t, rp_held := remove1 w (rp_held p)\<rparr>)"
proof (cases "fmlookup (rp_table p) k")
  case None
  with r inv show ?thesis
    by (auto simp: RefundRateLimit_def RefundRateLimit_q_def pop_inv_def dest: in_set_remove1 notin_set_remove1)
next
  case (Some row)
  note i = inv [unfolded pop_inv_def Some option.case]
  have c: "count_list (remove1 w (rp_held p)) (rr_start row) =
      (if w = rr_start row then count_list (rp_held p) (rr_start row) - 1 else count_list (rp_held p) (rr_start row))"
    by (induction "rp_held p" arbitrary: p) (auto simp: count_list_remove1)
  have s: "\<forall>x \<in> set (remove1 w (rp_held p)). x \<le> rr_start row"
    using i by (meson notin_set_remove1)
  show ?thesis
  proof (cases "w = rr_start row")
    case True
    then have "count_list (rp_held p) (rr_start row) \<noteq> 0" using w by (simp add: count_list_0_iff)
    with r Some True i c s show ?thesis
      by (auto simp: RefundRateLimit_def RefundRateLimit_q_def pop_inv_def)
  next
    case False
    with r Some i c s show ?thesis
      by (auto simp: RefundRateLimit_def RefundRateLimit_q_def pop_inv_def)
  qed
qed

lemma pop_inv_clock:
  assumes "pop_inv cfg k p" and "rp_clock p \<le> now"
  shows "pop_inv cfg k (p\<lparr>rp_clock := now\<rparr>)"
  using assms by (force simp: pop_inv_def split: option.splits)

lemma pop_inv_sweep:
  assumes cfg: "config_ok cfg" and inv: "pop_inv cfg k p" and now: "rp_clock p \<le> now"
  shows "pop_inv cfg k (p\<lparr>rp_table := SweepExpiredRateLimits now (rp_table p), rp_clock := now\<rparr>)"
proof (cases "\<exists>r. fmlookup (rp_table p) k = Some r \<and> rr_expires r < now")
  case True
  then obtain r where r: "fmlookup (rp_table p) k = Some r" "rr_expires r < now" by blast
  with inv config_ok_simps(3) [OF cfg] have "\<forall>w \<in> set (rp_held p). w < now"
    by (force simp: pop_inv_def)
  with r show ?thesis by (simp add: pop_inv_def SweepExpiredRateLimits_def)
next
  case False
  then have "fmlookup (SweepExpiredRateLimits now (rp_table p)) k = fmlookup (rp_table p) k"
    by (cases "fmlookup (rp_table p) k") (auto simp: SweepExpiredRateLimits_def)
  with pop_inv_clock [OF inv now] show ?thesis by (simp add: pop_inv_def split: option.splits)
qed

lemma reserve_step_inv:
  assumes "reserve_step cfg k p q" and cfg: "config_ok cfg" and inv: "pop_inv cfg k p"
  shows "pop_inv cfg k q"
  using assms(1)
proof cases
  case (reserve now gonow rv t)
  with pop_inv_reserve [OF cfg inv] show ?thesis by simp
next
  case (refused now gonow r t)
  with reserve_denied [OF cfg] pop_inv_clock [OF inv] show ?thesis by (metis reserve_pop.surjective reserve_pop.update_convs(1))
next
  case (refund w e t)
  with pop_inv_refund [OF inv] show ?thesis by simp
next
  case (sweep now)
  with pop_inv_sweep [OF cfg inv] show ?thesis by simp
qed

lemma reserve_machine:
  "config_ok cfg \<Longrightarrow> invariant_machine (\<lambda>p. p = empty_pop) (reserve_step cfg k) (pop_inv cfg k)"
  by unfold_locales (simp add: pop_inv_def empty_pop_def, rule reserve_step_inv)

lemma MessageSend_ok: "config_ok MessageSend"
  by (simp add: config_ok_def MessageSend_def)

interpretation rsm: invariant_machine "\<lambda>p. p = empty_pop" "reserve_step MessageSend k" "pop_inv MessageSend k" for k
  by (rule reserve_machine [OF MessageSend_ok])

lemma reserve_reach_inv:
  assumes "config_ok cfg" and "reach (reserve_step cfg k) empty_pop p"
  shows "pop_inv cfg k p"
  by (rule invariant_machine.reachable_inv [OF reserve_machine [OF assms(1)] refl assms(2)])

text \<open>
  C37. Refunds are exact. However reservations, denials, refunds and sweeps interleave, the stored
  count of the current window is the number of reservations of that window that have not been
  refunded, so it never passes the limit, never clips at zero, and a refund of a reservation from
  an earlier window leaves the current one untouched.
\<close>

theorem refunds_exact:
  assumes "config_ok cfg" and "reach (reserve_step cfg k) empty_pop p" and "fmlookup (rp_table p) k = Some row"
  shows "rr_tokens row = int (count_list (rp_held p) (rr_start row)) \<and> rr_tokens row \<le> rl_limit cfg \<and>
    (\<forall>w \<in> set (rp_held p). w \<noteq> rr_start row \<longrightarrow>
       snd (RefundRateLimit False k (Some \<lparr>rv_windowStart = w\<rparr>) (rp_table p)) = rp_table p)"
  using reserve_reach_inv [OF assms(1,2)] assms(3)
  by (auto simp: pop_inv_def RefundRateLimit_def RefundRateLimit_q_def)

definition one_reserved :: reserve_pop where
  "one_reserved = \<lparr>rp_table = fmupd (7, ''x'') \<lparr>rr_tokens = 1, rr_start = 50, rr_expires = 50 + 3 * second\<rparr> fmempty,
     rp_held = [50], rp_clock = 50\<rparr>"

theorem refunds_exact_witness:
  "reach (reserve_step small_config (7, ''x'')) empty_pop one_reserved \<and>
   (\<exists>row. fmlookup (rp_table one_reserved) (7, ''x'') = Some row \<and>
     rr_tokens row = int (count_list (rp_held one_reserved) (rr_start row)) \<and> rr_tokens row \<le> rl_limit small_config)"
proof -
  have cfg: "config_ok small_config" by (simp add: config_ok_def small_config_def)
  have s: "ReserveRateLimit False False (\<lambda>t. t) 50 50 (7, ''x'') small_config (rp_table empty_pop) =
      (Reserved (Some \<lparr>rv_windowStart = 50\<rparr>), rp_table one_reserved)"
    unfolding reserve_run [OF cfg]
    by (simp add: TryConsumeRateLimit_def charged_row_def empty_pop_def one_reserved_def
        small_config_def interval_of_def Let_def)
  have r: "reach (reserve_step small_config (7, ''x'')) empty_pop one_reserved"
    using reserve_step.reserve [OF _ s] by (intro reach_one) (simp add: empty_pop_def one_reserved_def)
  have "fmlookup (rp_table one_reserved) (7, ''x'') = Some \<lparr>rr_tokens = 1, rr_start = 50, rr_expires = 50 + 3 * second\<rparr>"
    by (simp add: one_reserved_def)
  with r refunds_exact [OF cfg r] show ?thesis by blast
qed

end
