(* ===== verification/Send_Code_IP.thy ===== *)
theory Send_Code_IP
  imports Rate_Limits Sliding_Quota Net_Addr
begin

text \<open>
  The two per-network limits on asking for login codes (internal/store/send_code_ip.go over
  queries/send_code_ip.sql): a fixed-window count of calls and a rolling quota of distinct phone
  numbers, charged together in one transaction under an advisory lock on the network, hence one
  step. \<open>fault\<close> says which statements fail; a transaction that does not commit changes nothing.
\<close>

record phone_row =
  pr_key :: prefix
  pr_phone :: string
  pr_expires :: gtime

record send_code_tables =
  sc_calls :: "prefix rate_table"
  sc_phones :: "phone_row list"

record send_code_limits =
  sl_calls :: rate_config
  sl_phones :: rate_config

datatype send_code_stmt = ScBegin | ScLock | ConsumeCall | CallExpiry | PrunePhones | PhoneUsage | NextExpiry | InsertPhone | ScCommit

definition send_code_enabled :: "send_code_limits \<Rightarrow> bool" where
  "send_code_enabled l \<longleftrightarrow> rl_enabled (sl_calls l) \<or> rl_enabled (sl_phones l)"

definition NormalizePhone :: "string \<Rightarrow> string" where
  "NormalizePhone phone = (case phone of c # rest \<Rightarrow> if c = CHR ''+'' then rest else phone | [] \<Rightarrow> [])"

text \<open>The statements. The call counter's upsert has the text of the shared limiter's, on its own table.\<close>

definition TryConsumeSendCodeIPCall ::
  "prefix \<Rightarrow> gduration \<Rightarrow> int \<Rightarrow> gtime \<Rightarrow> prefix rate_table \<Rightarrow> rate_row pg_result \<times> prefix rate_table" where
  "TryConsumeSendCodeIPCall key w limit now t =
     (let r' = charged_row 1 w now (fmlookup t key) in
      case fmlookup t key of
        None \<Rightarrow> (PgRow r', fmupd key r' t)
      | Some r \<Rightarrow>
          if rr_expires r \<le> now \<or> rr_tokens r < limit
          then if int4_ok (rr_tokens r') then (PgRow r', fmupd key r' t) else (PgError, t)
          else (PgNoRows, t))"

definition DeleteExpiredSendCodeIPPhones :: "prefix \<Rightarrow> gtime \<Rightarrow> phone_row list \<Rightarrow> phone_row list" where
  "DeleteExpiredSendCodeIPPhones key now ps = filter (\<lambda>r. \<not> (pr_key r = key \<and> pr_expires r \<le> now)) ps"

definition GetSendCodeIPPhoneUsage :: "prefix \<Rightarrow> string \<Rightarrow> phone_row list \<Rightarrow> int \<times> bool" where
  "GetSendCodeIPPhoneUsage key phone ps =
     (let mine = filter (\<lambda>r. pr_key r = key) ps in (int (length mine), list_ex (\<lambda>r. pr_phone r = phone) mine))"

definition GetSendCodeIPPhoneNextExpiry :: "prefix \<Rightarrow> phone_row list \<Rightarrow> gtime pg_result" where
  "GetSendCodeIPPhoneNextExpiry key ps =
     (case map pr_expires (filter (\<lambda>r. pr_key r = key) ps) of [] \<Rightarrow> PgNoRows | e # es \<Rightarrow> PgRow (fold min es e))"

definition InsertSendCodeIPPhone :: "prefix \<Rightarrow> string \<Rightarrow> gduration \<Rightarrow> gtime \<Rightarrow> phone_row list \<Rightarrow> phone_row list" where
  "InsertSendCodeIPPhone key phone w now ps =
     (if list_ex (\<lambda>r. pr_key r = key \<and> pr_phone r = phone) ps then ps
      else ps @ [\<lparr>pr_key = key, pr_phone = phone, pr_expires = now + w\<rparr>])"

definition chargeSendCodeIPCall ::
  "(send_code_stmt \<Rightarrow> bool) \<Rightarrow> gtime \<Rightarrow> gtime \<Rightarrow> prefix \<Rightarrow> rate_config \<Rightarrow> prefix rate_table \<Rightarrow>
     rate_outcome \<times> prefix rate_table" where
  "chargeSendCodeIPCall fault dbnow gonow key cfg t =
     (if \<not> rl_enabled cfg then (Allowed, t)
      else case (if fault ConsumeCall then (PgError, t)
                 else TryConsumeSendCodeIPCall key (interval_of (rl_window cfg)) (int32 (rl_limit cfg)) dbnow t)
        of (PgRow r, t') \<Rightarrow> (Allowed, t')
         | (PgError, t') \<Rightarrow> (Failed StorageError, t')
         | (PgNoRows, t') \<Rightarrow>
             (case (if fault CallExpiry then PgError else GetRateLimitExpiresAt key t') of
                PgRow e \<Rightarrow> Denied \<lparr>rs_wait = waitUntil gonow e, rs_surface = Unknown\<rparr>
              | _ \<Rightarrow> Failed StorageError, t'))"

definition chargeSendCodeIPPhone ::
  "(send_code_stmt \<Rightarrow> bool) \<Rightarrow> gtime \<Rightarrow> gtime \<Rightarrow> prefix \<Rightarrow> string \<Rightarrow> rate_config \<Rightarrow> phone_row list \<Rightarrow>
     rate_outcome \<times> phone_row list" where
  "chargeSendCodeIPPhone fault dbnow gonow key phone cfg ps =
     (if \<not> rl_enabled cfg then (Allowed, ps)
      else if fault PrunePhones then (Failed StorageError, ps)
      else
        let ps = DeleteExpiredSendCodeIPPhones key dbnow ps in
        if fault PhoneUsage then (Failed StorageError, ps)
        else
          let (used, counted) = GetSendCodeIPPhoneUsage key phone ps in
          if counted then (Allowed, ps)
          else if used \<ge> rl_limit cfg then
            (case (if fault NextExpiry then PgError else GetSendCodeIPPhoneNextExpiry key ps) of
               PgRow e \<Rightarrow> Denied \<lparr>rs_wait = waitUntil gonow e, rs_surface = Unknown\<rparr>
             | _ \<Rightarrow> Failed StorageError, ps)
          else if fault InsertPhone then (Failed StorageError, ps)
          else (Allowed, InsertSendCodeIPPhone key phone (interval_of (rl_window cfg)) dbnow ps))"

definition CheckAndChargeSendCodeIP ::
  "(send_code_stmt \<Rightarrow> bool) \<Rightarrow> gtime \<Rightarrow> gtime \<Rightarrow> addr \<Rightarrow> string \<Rightarrow> send_code_limits \<Rightarrow> send_code_tables \<Rightarrow>
     rate_outcome \<times> send_code_tables" where
  "CheckAndChargeSendCodeIP fault dbnow gonow address phone cfg t =
     (if \<not> send_code_enabled cfg then (Allowed, t)
      else case ip_bucket_key address of
        None \<Rightarrow> (Failed NoClientAddr, t)
      | Some key \<Rightarrow>
          let phone = NormalizePhone phone in
          if fault ScBegin \<or> fault ScLock then (Failed StorageError, t)
          else case chargeSendCodeIPCall fault dbnow gonow key (sl_calls cfg) (sc_calls t)
            of (Failed e, calls) \<Rightarrow> (Failed e, t)
             | (Denied r, calls) \<Rightarrow> (Denied (r\<lparr>rs_surface := SendCodeIPCalls\<rparr>), t)
             | (Allowed, calls) \<Rightarrow>
                 (case chargeSendCodeIPPhone fault dbnow gonow key phone (sl_phones cfg) (sc_phones t)
                    of (Failed e, phones) \<Rightarrow> (Failed e, t)
                     | (Denied r, phones) \<Rightarrow> (Denied (r\<lparr>rs_surface := SendCodeIPDistinctNumbers\<rparr>), t)
                     | (Allowed, phones) \<Rightarrow>
                         if fault ScCommit then (Failed StorageError, t)
                         else (Allowed, \<lparr>sc_calls = calls, sc_phones = phones\<rparr>)))"

definition SweepExpiredSendCodeIPLimits :: "gtime \<Rightarrow> send_code_tables \<Rightarrow> send_code_tables" where
  "SweepExpiredSendCodeIPLimits now t =
     \<lparr>sc_calls = fmfilter (\<lambda>k. \<not> rr_expires (the (fmlookup (sc_calls t) k)) \<le> now) (sc_calls t),
      sc_phones = filter (\<lambda>r. \<not> pr_expires r \<le> now) (sc_phones t)\<rparr>"

section \<open>What a call does\<close>

lemma chargeCall_allowed:
  assumes "chargeSendCodeIPCall fault dbnow gonow key cfg t = (Allowed, t')" and "rl_enabled cfg"
  shows "t' = fmupd key (charged_row 1 (interval_of (rl_window cfg)) dbnow (fmlookup t key)) t \<and>
    (\<forall>r. fmlookup t key = Some r \<longrightarrow> rr_expires r \<le> dbnow \<or> rr_tokens r < int32 (rl_limit cfg))"
  using assms
  by (auto simp: chargeSendCodeIPCall_def TryConsumeSendCodeIPCall_def GetRateLimitExpiresAt_def Let_def
      split: if_splits option.splits pg_result.splits)

text \<open>The rows that count against a network at a time, and the numbers in them.\<close>

definition live_phones :: "prefix \<Rightarrow> gtime \<Rightarrow> phone_row list \<Rightarrow> string set" where
  "live_phones key now ps = {pr_phone r | r. r \<in> set ps \<and> pr_key r = key \<and> now < pr_expires r}"

definition phones_distinct :: "phone_row list \<Rightarrow> bool" where
  "phones_distinct ps \<longleftrightarrow> distinct (map (\<lambda>r. (pr_key r, pr_phone r)) ps)"

lemma phones_distinct_filter: "phones_distinct ps \<Longrightarrow> phones_distinct (filter P ps)"
  by (simp add: phones_distinct_def distinct_map_filter)

lemma live_phones_finite [simp]: "finite (live_phones key now ps)"
proof -
  have "live_phones key now ps \<subseteq> pr_phone ` set ps" by (auto simp: live_phones_def)
  then show ?thesis by (rule finite_subset) simp
qed

lemma usage_live:
  assumes "phones_distinct ps"
  shows "GetSendCodeIPPhoneUsage key phone (DeleteExpiredSendCodeIPPhones key now ps) =
    (int (card (live_phones key now ps)), phone \<in> live_phones key now ps)"
proof -
  define mine where "mine = filter (\<lambda>r. pr_key r = key) (DeleteExpiredSendCodeIPPhones key now ps)"
  have m: "mine = filter (\<lambda>r. pr_key r = key \<and> now < pr_expires r) ps"
    by (auto simp: mine_def DeleteExpiredSendCodeIPPhones_def not_le intro!: filter_cong)
  have l: "pr_phone ` set mine = live_phones key now ps" by (auto simp: m live_phones_def)
  have "phones_distinct mine" unfolding m by (rule phones_distinct_filter [OF assms])
  then have "distinct (map pr_phone mine)"
    unfolding phones_distinct_def m distinct_map inj_on_def by (auto simp: inj_on_def)
  then have "length mine = card (live_phones key now ps)"
    by (metis distinct_card l length_map list.set_map)
  moreover have "(\<exists>r \<in> set mine. pr_phone r = phone) \<longleftrightarrow> phone \<in> live_phones key now ps"
    unfolding l [symmetric] by auto
  ultimately show ?thesis
    by (simp add: GetSendCodeIPPhoneUsage_def Let_def list_ex_iff flip: mine_def)
qed

lemma chargePhone_allowed:
  assumes "chargeSendCodeIPPhone fault dbnow gonow key phone cfg ps = (Allowed, ps')"
    and "rl_enabled cfg" and "phones_distinct ps"
  shows "if phone \<in> live_phones key dbnow ps then ps' = DeleteExpiredSendCodeIPPhones key dbnow ps
    else int (card (live_phones key dbnow ps)) < rl_limit cfg \<and>
      ps' = InsertSendCodeIPPhone key phone (interval_of (rl_window cfg)) dbnow (DeleteExpiredSendCodeIPPhones key dbnow ps)"
  using assms by (auto simp: chargeSendCodeIPPhone_def usage_live Let_def split: if_splits pg_result.splits)


lemma delete_live:
  "now \<le> t \<Longrightarrow> live_phones key t (DeleteExpiredSendCodeIPPhones key' now ps) = live_phones key t ps"
  by (force simp: live_phones_def DeleteExpiredSendCodeIPPhones_def)

lemma insert_live:
  assumes "phone \<notin> live_phones key now ps"
  shows "InsertSendCodeIPPhone key phone w now (DeleteExpiredSendCodeIPPhones key now ps) =
    DeleteExpiredSendCodeIPPhones key now ps @ [\<lparr>pr_key = key, pr_phone = phone, pr_expires = now + w\<rparr>]"
  using assms by (auto simp: InsertSendCodeIPPhone_def DeleteExpiredSendCodeIPPhones_def live_phones_def list_ex_iff)

lemma live_phones_append:
  "live_phones key t (ps @ [r]) =
     live_phones key t ps \<union> (if pr_key r = key \<and> t < pr_expires r then {pr_phone r} else {})"
  by (auto simp: live_phones_def)

text \<open>The phone rows a step leaves, when the quota on distinct numbers is on.\<close>

lemma allowed_phones:
  assumes "CheckAndChargeSendCodeIP fault dbnow gonow address phone cfg t = (Allowed, t')"
    and on: "rl_enabled (sl_phones cfg)" and d: "phones_distinct (sc_phones t)"
  obtains key where "ip_bucket_key address = Some key"
    and "NormalizePhone phone \<in> live_phones key dbnow (sc_phones t) \<Longrightarrow>
      sc_phones t' = DeleteExpiredSendCodeIPPhones key dbnow (sc_phones t)"
    and "NormalizePhone phone \<notin> live_phones key dbnow (sc_phones t) \<Longrightarrow>
      int (card (live_phones key dbnow (sc_phones t))) < rl_limit (sl_phones cfg) \<and>
      sc_phones t' = DeleteExpiredSendCodeIPPhones key dbnow (sc_phones t) @
        [\<lparr>pr_key = key, pr_phone = NormalizePhone phone, pr_expires = dbnow + interval_of (rl_window (sl_phones cfg))\<rparr>]"
proof -
  from assms(1) on obtain key phones where k: "ip_bucket_key address = Some key"
    and c: "chargeSendCodeIPPhone fault dbnow gonow key (NormalizePhone phone) (sl_phones cfg) (sc_phones t) = (Allowed, phones)"
    and t': "sc_phones t' = phones"
    by (auto simp: CheckAndChargeSendCodeIP_def send_code_enabled_def Let_def
        split: if_splits option.splits rate_outcome.splits prod.splits)
  from chargePhone_allowed [OF c on d] show thesis
    by (intro that [OF k]) (simp_all add: t' insert_live split: if_splits)
qed

lemma denied_unchanged:
  assumes "CheckAndChargeSendCodeIP fault dbnow gonow address phone cfg t = (r, t')" and "r \<noteq> Allowed"
  shows "t' = t"
  using assms by (auto simp: CheckAndChargeSendCodeIP_def Let_def
      split: if_splits option.splits rate_outcome.splits prod.splits)

section \<open>A spray across many numbers\<close>

datatype send_code_event = SendCode addr string "send_code_stmt \<Rightarrow> bool" | SweepTick

text \<open>An event counts for a network when it charges it a number that it held no slot for.\<close>

fun send_code_do ::
  "send_code_limits \<Rightarrow> prefix \<Rightarrow> send_code_event \<Rightarrow> gtime \<Rightarrow> send_code_tables \<Rightarrow> bool \<times> send_code_tables" where
  "send_code_do cfg key (SendCode address phone fault) now t =
     (let (r, t') = CheckAndChargeSendCodeIP fault now now address phone cfg t
      in (r = Allowed \<and> NormalizePhone phone \<notin> live_phones key now (sc_phones t), t'))"
| "send_code_do cfg key SweepTick now t = (True, SweepExpiredSendCodeIPLimits now t)"

fun phone_of :: "prefix \<Rightarrow> send_code_event \<Rightarrow> string option" where
  "phone_of key (SendCode address phone fault) =
     (if ip_bucket_key address = Some key then Some (NormalizePhone phone) else None)"
| "phone_of key SweepTick = None"

lemma send_code_keeps_distinct:
  assumes on: "rl_enabled (sl_phones cfg)" and d: "phones_distinct (sc_phones t)"
  shows "phones_distinct (sc_phones (snd (send_code_do cfg key e now t)))"
proof (cases e)
  case (SendCode address phone fault)
  obtain r t' where c: "CheckAndChargeSendCodeIP fault now now address phone cfg t = (r, t')" by fastforce
  show ?thesis
  proof (cases "r = Allowed")
    case True
    with c obtain k where
      "NormalizePhone phone \<in> live_phones k now (sc_phones t) \<Longrightarrow>
        sc_phones t' = DeleteExpiredSendCodeIPPhones k now (sc_phones t)"
      "NormalizePhone phone \<notin> live_phones k now (sc_phones t) \<Longrightarrow>
        sc_phones t' = DeleteExpiredSendCodeIPPhones k now (sc_phones t) @
          [\<lparr>pr_key = k, pr_phone = NormalizePhone phone, pr_expires = now + interval_of (rl_window (sl_phones cfg))\<rparr>]"
      by (metis allowed_phones on d)
    moreover have "phones_distinct (DeleteExpiredSendCodeIPPhones k now (sc_phones t))"
      unfolding DeleteExpiredSendCodeIPPhones_def by (rule phones_distinct_filter [OF d])
    ultimately show ?thesis
      by (cases "NormalizePhone phone \<in> live_phones k now (sc_phones t)")
        (auto simp: SendCode c phones_distinct_def DeleteExpiredSendCodeIPPhones_def live_phones_def)
  next
    case False
    with denied_unchanged [OF c] d show ?thesis by (simp add: SendCode c)
  qed
next
  case SweepTick
  with d show ?thesis by (simp add: SweepExpiredSendCodeIPLimits_def phones_distinct_filter)
qed

lemma send_code_granted:
  assumes "phone_of key e = Some i" and "fst (send_code_do cfg key e now t)"
    and on: "rl_enabled (sl_phones cfg)" and d: "phones_distinct (sc_phones t)"
  shows "i \<notin> live_phones key now (sc_phones t) \<and>
    int (card (live_phones key now (sc_phones t))) < rl_limit (sl_phones cfg) \<and>
    sc_phones (snd (send_code_do cfg key e now t)) = DeleteExpiredSendCodeIPPhones key now (sc_phones t) @
      [\<lparr>pr_key = key, pr_phone = i, pr_expires = now + interval_of (rl_window (sl_phones cfg))\<rparr>]"
proof (cases e)
  case (SendCode address phone fault)
  obtain r t' where c: "CheckAndChargeSendCodeIP fault now now address phone cfg t = (r, t')" by fastforce
  with assms SendCode have k: "ip_bucket_key address = Some key" and i: "i = NormalizePhone phone"
    and r: "r = Allowed" and n: "NormalizePhone phone \<notin> live_phones key now (sc_phones t)"
    by (auto split: if_splits)
  from c r obtain k' where "ip_bucket_key address = Some k'"
    "NormalizePhone phone \<notin> live_phones k' now (sc_phones t) \<Longrightarrow>
      int (card (live_phones k' now (sc_phones t))) < rl_limit (sl_phones cfg) \<and>
      sc_phones t' = DeleteExpiredSendCodeIPPhones k' now (sc_phones t) @
        [\<lparr>pr_key = k', pr_phone = NormalizePhone phone, pr_expires = now + interval_of (rl_window (sl_phones cfg))\<rparr>]"
    by (metis allowed_phones on d)
  with k n i show ?thesis by (simp add: SendCode c)
qed (use assms in simp)

lemma send_code_kept:
  assumes on: "rl_enabled (sl_phones cfg)" and d: "phones_distinct (sc_phones t)" and now: "now \<le> u"
    and i: "i \<in> live_phones key u (sc_phones t)"
  shows "i \<in> live_phones key u (sc_phones (snd (send_code_do cfg key e now t)))"
proof (cases e)
  case (SendCode address phone fault)
  obtain r t' where c: "CheckAndChargeSendCodeIP fault now now address phone cfg t = (r, t')" by fastforce
  show ?thesis
  proof (cases "r = Allowed")
    case True
    with c obtain k where
      "NormalizePhone phone \<in> live_phones k now (sc_phones t) \<Longrightarrow>
        sc_phones t' = DeleteExpiredSendCodeIPPhones k now (sc_phones t)"
      "NormalizePhone phone \<notin> live_phones k now (sc_phones t) \<Longrightarrow>
        sc_phones t' = DeleteExpiredSendCodeIPPhones k now (sc_phones t) @
          [\<lparr>pr_key = k, pr_phone = NormalizePhone phone, pr_expires = now + interval_of (rl_window (sl_phones cfg))\<rparr>]"
      by (metis allowed_phones on d)
    with i show ?thesis
      by (cases "NormalizePhone phone \<in> live_phones k now (sc_phones t)")
        (simp_all add: SendCode c live_phones_append delete_live [OF now])
  next
    case False
    with denied_unchanged [OF c] i show ?thesis by (simp add: SendCode c)
  qed
next
  case SweepTick
  with i now show ?thesis by (force simp: SweepExpiredSendCodeIPLimits_def live_phones_def)
qed

lemma send_code_quota:
  assumes "config_ok (sl_phones cfg)"
  shows "sliding_quota (send_code_do cfg key) (phone_of key) (\<lambda>t. phones_distinct (sc_phones t))
    (\<lambda>now t. live_phones key now (sc_phones t)) (nat (rl_limit (sl_phones cfg))) (interval_of (rl_window (sl_phones cfg)))"
proof
  note on = config_ok_simps(1) [OF assms]
  fix t :: send_code_tables and e now assume d: "phones_distinct (sc_phones t)"
  then show "phones_distinct (sc_phones (snd (send_code_do cfg key e now t)))"
    by (rule send_code_keeps_distinct [OF on])
  show "i \<in> live_phones key u (sc_phones (snd (send_code_do cfg key e now t)))"
    if "now \<le> u" "i \<in> live_phones key u (sc_phones t)" for i u
    by (rule send_code_kept [OF on d that])
  fix i assume g: "phone_of key e = Some i" "fst (send_code_do cfg key e now t)"
  note r = send_code_granted [OF g on d]
  show "finite (live_phones key now (sc_phones (snd (send_code_do cfg key e now t)))) \<and>
      card (live_phones key now (sc_phones (snd (send_code_do cfg key e now t)))) \<le> nat (rl_limit (sl_phones cfg))"
    using r by (auto simp: live_phones_append delete_live card_insert_if nat_le_iff)
  show "i \<in> live_phones key u (sc_phones (snd (send_code_do cfg key e now t)))"
    if "now \<le> u" "u < now + interval_of (rl_window (sl_phones cfg))" for u
    using r that by (simp add: live_phones_append)
qed

text \<open>The shipped limits: 10 calls an hour and 20 distinct numbers a day for each network.\<close>

definition SendCodeIP :: send_code_limits where
  "SendCodeIP = \<lparr>sl_calls = \<lparr>rl_limit = 10, rl_window = 3600 * second\<rparr>,
     sl_phones = \<lparr>rl_limit = 20, rl_window = 24 * 3600 * second\<rparr>\<rparr>"

interpretation scq: sliding_quota "send_code_do SendCodeIP key" "phone_of key" "\<lambda>t. phones_distinct (sc_phones t)"
  "\<lambda>now t. live_phones key now (sc_phones t)" "nat (rl_limit (sl_phones SendCodeIP))"
  "interval_of (rl_window (sl_phones SendCodeIP))" for key
  by (rule send_code_quota) (simp add: config_ok_def SendCodeIP_def)

text \<open>
  C29. Spraying login codes across many numbers is bounded exactly. Whatever addresses ask for codes
  for whatever numbers, with sweeps and storage failures at any point, as long as the clock does not
  run backwards, one client network, an IPv4 host or an IPv6 /64, is charged at most the quota of
  new distinct numbers in any span as long as the quota's window; every other number it is allowed
  is one it still holds a slot for.
\<close>

theorem send_code_spray_bound:
  assumes "config_ok (sl_phones cfg)" and "sorted (map snd es)"
  shows "int (card (items_in a (interval_of (rl_window (sl_phones cfg)))
      (sq_run (send_code_do cfg key) (phone_of key) es \<lparr>sc_calls = fmempty, sc_phones = []\<rparr>))) \<le> rl_limit (sl_phones cfg)"
proof -
  have "0 \<le> rl_limit (sl_phones cfg)" using assms(1) by (simp add: config_ok_def)
  with sliding_quota.sq_bound [OF send_code_quota [OF assms(1), of key], of "\<lparr>sc_calls = fmempty, sc_phones = []\<rparr>" es a] assms(2)
  show ?thesis by (simp add: phones_distinct_def)
qed

theorem send_code_spray_bound_witness:
  "int (card (items_in 5 (interval_of (rl_window (sl_phones SendCodeIP)))
      (sq_run (send_code_do SendCodeIP (P4 7 32)) (phone_of (P4 7 32))
         [(SendCode (V4 7) ''+1555'' (\<lambda>_. False), 10), (SweepTick, 12), (SendCode (V4 7) ''1556'' (\<lambda>_. False), 20)]
         \<lparr>sc_calls = fmempty, sc_phones = []\<rparr>))) \<le> rl_limit (sl_phones SendCodeIP)"
  by (rule send_code_spray_bound) (simp_all add: config_ok_def SendCodeIP_def)

section \<open>Which limit answers\<close>

definition calls_full :: "send_code_limits \<Rightarrow> prefix \<Rightarrow> gtime \<Rightarrow> send_code_tables \<Rightarrow> bool" where
  "calls_full cfg key now t \<longleftrightarrow>
     (case fmlookup (sc_calls t) key of None \<Rightarrow> False
      | Some r \<Rightarrow> now < rr_expires r \<and> rl_limit (sl_calls cfg) \<le> rr_tokens r)"

definition phones_full :: "send_code_limits \<Rightarrow> prefix \<Rightarrow> string \<Rightarrow> gtime \<Rightarrow> send_code_tables \<Rightarrow> bool" where
  "phones_full cfg key phone now t \<longleftrightarrow>
     phone \<notin> live_phones key now (sc_phones t) \<and>
     rl_limit (sl_phones cfg) \<le> int (card (live_phones key now (sc_phones t)))"

lemma chargeCall_decides:
  assumes cfg: "config_ok cfg" and room: "\<And>r. fmlookup t key = Some r \<Longrightarrow> int4_ok (rr_tokens r + 1)"
  shows "(\<exists>t'. chargeSendCodeIPCall (\<lambda>_. False) now gonow key cfg t = (Allowed, t')) \<and>
      (\<forall>r. fmlookup t key = Some r \<longrightarrow> rr_expires r \<le> now \<or> rr_tokens r < rl_limit cfg) \<or>
    (\<exists>w r. chargeSendCodeIPCall (\<lambda>_. False) now gonow key cfg t = (Denied \<lparr>rs_wait = w, rs_surface = Unknown\<rparr>, t) \<and>
      fmlookup t key = Some r \<and> now < rr_expires r \<and> rl_limit cfg \<le> rr_tokens r)"
proof (cases "fmlookup t key")
  case None
  then show ?thesis
    by (simp add: chargeSendCodeIPCall_def TryConsumeSendCodeIPCall_def config_ok_simps [OF cfg] Let_def)
next
  case (Some r)
  have "int4_ok (rr_tokens (charged_row 1 (interval_of (rl_window cfg)) now (Some r)))"
    using room [OF Some] by (simp add: charged_row_def int4_ok_def)
  with Some show ?thesis
    by (auto simp: chargeSendCodeIPCall_def TryConsumeSendCodeIPCall_def GetRateLimitExpiresAt_def
        config_ok_simps [OF cfg] Let_def)
qed

lemma nextExpiry_some:
  assumes "phones_distinct ps" and "0 < card (live_phones key now ps)"
  shows "\<exists>e. GetSendCodeIPPhoneNextExpiry key (DeleteExpiredSendCodeIPPhones key now ps) = PgRow e"
proof -
  have "live_phones key now ps \<noteq> {}" using assms(2) by auto
  then obtain r where "r \<in> set ps" "pr_key r = key" "now < pr_expires r" by (auto simp: live_phones_def)
  then have "r \<in> set (filter (\<lambda>r. pr_key r = key) (DeleteExpiredSendCodeIPPhones key now ps))"
    by (simp add: DeleteExpiredSendCodeIPPhones_def)
  then have "map pr_expires (filter (\<lambda>r. pr_key r = key) (DeleteExpiredSendCodeIPPhones key now ps)) \<noteq> []" by force
  then show ?thesis unfolding GetSendCodeIPPhoneNextExpiry_def by (auto split: list.splits)
qed

lemma chargePhone_decides:
  assumes cfg: "config_ok cfg" and d: "phones_distinct ps"
  shows "(\<exists>ps'. chargeSendCodeIPPhone (\<lambda>_. False) now gonow key phone cfg ps = (Allowed, ps')) \<and>
      (phone \<in> live_phones key now ps \<or> int (card (live_phones key now ps)) < rl_limit cfg) \<or>
    (\<exists>w ps'. chargeSendCodeIPPhone (\<lambda>_. False) now gonow key phone cfg ps = (Denied \<lparr>rs_wait = w, rs_surface = Unknown\<rparr>, ps') \<and>
      phone \<notin> live_phones key now ps \<and> rl_limit cfg \<le> int (card (live_phones key now ps)))"
proof (cases "phone \<notin> live_phones key now ps \<and> rl_limit cfg \<le> int (card (live_phones key now ps))")
  case True
  moreover have "0 < card (live_phones key now ps)" using True cfg by (auto simp: config_ok_def)
  from nextExpiry_some [OF d this] obtain e where
    "GetSendCodeIPPhoneNextExpiry key (DeleteExpiredSendCodeIPPhones key now ps) = PgRow e" by blast
  ultimately show ?thesis
    by (simp add: chargeSendCodeIPPhone_def config_ok_simps [OF cfg] usage_live [OF d] Let_def)
next
  case False
  then show ?thesis
    by (auto simp: chargeSendCodeIPPhone_def config_ok_simps [OF cfg] usage_live [OF d] Let_def)
qed

text \<open>
  C36. A call for a login code is decided by its network's two counters and by nothing about the
  number beyond whether the network already holds a slot for it. When storage works: the call is
  refused on the call counter exactly when that window is full, else on the number quota exactly
  when the number is new and every slot is taken, else allowed, and the number then holds a slot.
  A refused call writes nothing, not even the token of the counter that would have let it pass.
\<close>

theorem send_code_decision:
  assumes cfg: "config_ok (sl_calls cfg)" "config_ok (sl_phones cfg)" and key: "ip_bucket_key address = Some key"
    and d: "phones_distinct (sc_phones t)" and room: "\<And>r. fmlookup (sc_calls t) key = Some r \<Longrightarrow> int4_ok (rr_tokens r + 1)"
    and run: "CheckAndChargeSendCodeIP (\<lambda>_. False) now gonow address phone cfg t = (res, t')"
  shows "(if calls_full cfg key now t then (\<exists>w. res = Denied \<lparr>rs_wait = w, rs_surface = SendCodeIPCalls\<rparr>) \<and> t' = t
    else if phones_full cfg key (NormalizePhone phone) now t
      then (\<exists>w. res = Denied \<lparr>rs_wait = w, rs_surface = SendCodeIPDistinctNumbers\<rparr>) \<and> t' = t
    else res = Allowed \<and> NormalizePhone phone \<in> live_phones key now (sc_phones t'))"
proof -
  have en: "send_code_enabled cfg" using config_ok_simps(1) cfg by (simp add: send_code_enabled_def)
  note def = CheckAndChargeSendCodeIP_def [of "\<lambda>_. False" now gonow address phone cfg t]
  consider (full) w where "chargeSendCodeIPCall (\<lambda>_. False) now gonow key (sl_calls cfg) (sc_calls t) =
        (Denied \<lparr>rs_wait = w, rs_surface = Unknown\<rparr>, sc_calls t)" "calls_full cfg key now t"
    | (ok) calls where "chargeSendCodeIPCall (\<lambda>_. False) now gonow key (sl_calls cfg) (sc_calls t) = (Allowed, calls)"
        "\<not> calls_full cfg key now t"
    using chargeCall_decides [OF cfg(1) room, where now = now and gonow = gonow]
    by (fastforce simp: calls_full_def split: option.splits)
  then show ?thesis
  proof cases
    case full
    with run en key show ?thesis unfolding def by (auto simp: Let_def)
  next
    case ok
    show ?thesis
    proof (cases "phones_full cfg key (NormalizePhone phone) now t")
      case True
      with chargePhone_decides [OF cfg(2) d, where now = now and gonow = gonow and key = key and phone = "NormalizePhone phone"] obtain w ps' where
        "chargeSendCodeIPPhone (\<lambda>_. False) now gonow key (NormalizePhone phone) (sl_phones cfg) (sc_phones t) =
          (Denied \<lparr>rs_wait = w, rs_surface = Unknown\<rparr>, ps')" by (auto simp: phones_full_def)
      with True ok run en key show ?thesis unfolding def by (auto simp: Let_def)
    next
      case False
      with chargePhone_decides [OF cfg(2) d, where now = now and gonow = gonow and key = key and phone = "NormalizePhone phone"] obtain ps' where
        "chargeSendCodeIPPhone (\<lambda>_. False) now gonow key (NormalizePhone phone) (sl_phones cfg) (sc_phones t) = (Allowed, ps')"
        by (auto simp: phones_full_def)
      with ok run en key have res: "res = Allowed" unfolding def by (auto simp: Let_def)
      with run obtain k' where k': "ip_bucket_key address = Some k'"
        "NormalizePhone phone \<in> live_phones k' now (sc_phones t) \<Longrightarrow>
          sc_phones t' = DeleteExpiredSendCodeIPPhones k' now (sc_phones t)"
        "NormalizePhone phone \<notin> live_phones k' now (sc_phones t) \<Longrightarrow>
          sc_phones t' = DeleteExpiredSendCodeIPPhones k' now (sc_phones t) @
            [\<lparr>pr_key = k', pr_phone = NormalizePhone phone, pr_expires = now + interval_of (rl_window (sl_phones cfg))\<rparr>]"
        by (metis allowed_phones config_ok_simps(1) cfg(2) d)
      then have "NormalizePhone phone \<in> live_phones key now (sc_phones t')"
        using key config_ok_simps(3) [OF cfg(2)]
        by (cases "NormalizePhone phone \<in> live_phones k' now (sc_phones t)") (simp_all add: delete_live live_phones_append)
      with False ok res show ?thesis by simp
    qed
  qed
qed

theorem send_code_decision_witness:
  "let (res, t') = CheckAndChargeSendCodeIP (\<lambda>_. False) 10 10 (V4 7) ''+1555'' SendCodeIP \<lparr>sc_calls = fmempty, sc_phones = []\<rparr>
   in res = Allowed \<and> ''1555'' \<in> live_phones (P4 7 32) 10 (sc_phones t')"
proof -
  obtain res t' where r:
    "CheckAndChargeSendCodeIP (\<lambda>_. False) 10 10 (V4 7) ''+1555'' SendCodeIP \<lparr>sc_calls = fmempty, sc_phones = []\<rparr> = (res, t')"
    by fastforce
  have key: "ip_bucket_key (V4 7) = Some (P4 7 32)" by code_simp
  have c: "config_ok (sl_calls SendCodeIP)" "config_ok (sl_phones SendCodeIP)"
    by (simp_all add: config_ok_def SendCodeIP_def)
  have "\<not> calls_full SendCodeIP (P4 7 32) 10 \<lparr>sc_calls = fmempty, sc_phones = []\<rparr>"
    "\<not> phones_full SendCodeIP (P4 7 32) (NormalizePhone ''+1555'') 10 \<lparr>sc_calls = fmempty, sc_phones = []\<rparr>"
    by (simp_all add: calls_full_def phones_full_def live_phones_def SendCodeIP_def)
  with send_code_decision [OF c key _ _ r] have "res = Allowed \<and> ''1555'' \<in> live_phones (P4 7 32) 10 (sc_phones t')"
    by (simp add: phones_distinct_def NormalizePhone_def)
  then show ?thesis by (simp only: r Let_def prod.case)
qed

end
