(* ===== verification/Login_Codes.thy ===== *)
theory Login_Codes
  imports Send_Code_IP
begin

text \<open>
  Login codes (internal/store/codes.go over queries/codes.sql): issuing with a resend cooldown,
  verifying with an attempt cap and single use, and the hash-only path of username sign-in. The
  table is the list of its rows in insertion order, unique by \<open>code_hash\<close>. Verification is a read
  followed by a conditional write, and other sessions run between the two: \<open>verify_read\<close> and
  \<open>verify_write\<close> are its halves, and \<open>code_step\<close> lets any number of verifications be in flight.
  Random bytes are arguments; \<open>fault\<close> says which statements fail.
\<close>

definition codeTTL :: gduration where "codeTTL = 300 * second"
definition maxAttempts :: int where "maxAttempts = 3"
definition resendCooldown :: gduration where "resendCooldown = 60 * second"

record code_row =
  co_phone :: string
  co_hash :: string
  co_code :: string
  co_expires :: gtime
  co_created :: gtime
  co_consumed :: "gtime option"
  co_attempts :: int

type_synonym code_table = "code_row list"

datatype code_error = ErrCodeInvalid | ErrCodeExpired | ErrCodeExhausted | ErrResendTooSoon | ErrCodeStorage

datatype code_stmt = CoBegin | CoLock | GetLatestCode_s | InsertCode_s | CoCommit | GetCodeByHash_s
  | IncrementCodeAttempts_s | ConsumeCode_s | GetCodeByHashAndPhone_s | SetCode_s | DeleteExpired_s

section \<open>Random codes and hashes\<close>

definition digit_char :: "byte \<Rightarrow> char" where
  "digit_char b = char_of (48 + unat b mod 10)"

definition hex_char :: "nat \<Rightarrow> char" where
  "hex_char n = (if n < 10 then char_of (48 + n) else char_of (87 + n))"

definition randDigits5 :: "byte list option \<Rightarrow> string option" where
  "randDigits5 r = map_option (map digit_char) r"

definition randHex :: "byte list option \<Rightarrow> string option" where
  "randHex r = map_option (\<lambda>bs. concat (map (\<lambda>b. [hex_char (unat b div 16), hex_char (unat b mod 16)]) bs)) r"

section \<open>Statements\<close>

definition GetLatestCode :: "string \<Rightarrow> code_table \<Rightarrow> code_row option" where
  "GetLatestCode phone t =
     (case filter (\<lambda>r. co_phone r = phone) t of
        [] \<Rightarrow> None
      | r # rs \<Rightarrow> Some (fold (\<lambda>x best. if co_created best < co_created x then x else best) rs r))"

definition GetCodeByHash :: "string \<Rightarrow> code_table \<Rightarrow> code_row option" where
  "GetCodeByHash h t = find (\<lambda>r. co_hash r = h) t"

definition GetCodeByHashAndPhone :: "string \<Rightarrow> string \<Rightarrow> code_table \<Rightarrow> code_row option" where
  "GetCodeByHashAndPhone h phone t = find (\<lambda>r. co_hash r = h \<and> co_phone r = phone) t"

text \<open>The insert fails when the hash is already taken.\<close>

definition InsertCode :: "string \<Rightarrow> string \<Rightarrow> string \<Rightarrow> gtime \<Rightarrow> gtime \<Rightarrow> code_table \<Rightarrow> code_table option" where
  "InsertCode phone h code expires dbnow t =
     (if list_ex (\<lambda>r. co_hash r = h) t then None
      else Some (t @ [\<lparr>co_phone = phone, co_hash = h, co_code = code, co_expires = expires, co_created = dbnow,
                       co_consumed = None, co_attempts = 0\<rparr>]))"

definition IncrementCodeAttempts :: "string \<Rightarrow> code_table \<Rightarrow> code_table" where
  "IncrementCodeAttempts h t = map (\<lambda>r. if co_hash r = h then r\<lparr>co_attempts := co_attempts r + 1\<rparr> else r) t"

definition consumable :: "string \<Rightarrow> string \<Rightarrow> string \<Rightarrow> gtime \<Rightarrow> code_row \<Rightarrow> bool" where
  "consumable phone h code dbnow r \<longleftrightarrow>
     co_phone r = phone \<and> co_hash r = h \<and> co_code r = code \<and> co_consumed r = None \<and>
     co_expires r \<ge> dbnow \<and> co_attempts r < maxAttempts"

definition ConsumeCode :: "string \<Rightarrow> string \<Rightarrow> string \<Rightarrow> gtime \<Rightarrow> code_table \<Rightarrow> nat \<times> code_table" where
  "ConsumeCode phone h code dbnow t =
     (length (filter (consumable phone h code dbnow) t),
      map (\<lambda>r. if consumable phone h code dbnow r then r\<lparr>co_consumed := Some dbnow\<rparr> else r) t)"

definition five_digits :: "string \<Rightarrow> bool" where
  "five_digits s \<longleftrightarrow> length s = 5 \<and> list_all (\<lambda>c. 48 \<le> (of_char c :: nat) \<and> (of_char c :: nat) \<le> 57) s"

definition settable :: "string \<Rightarrow> string \<Rightarrow> string \<Rightarrow> gtime \<Rightarrow> code_row \<Rightarrow> bool" where
  "settable h phone code dbnow r \<longleftrightarrow>
     co_hash r = h \<and> co_phone r = phone \<and> co_consumed r = None \<and> co_expires r \<ge> dbnow \<and> co_attempts r < 3 \<and>
     five_digits (co_code r) \<and> \<not> five_digits code"

definition SetCodeByHashAndPhone :: "string \<Rightarrow> string \<Rightarrow> string \<Rightarrow> gtime \<Rightarrow> code_table \<Rightarrow> nat \<times> code_table" where
  "SetCodeByHashAndPhone h phone code dbnow t =
     (length (filter (settable h phone code dbnow) t),
      map (\<lambda>r. if settable h phone code dbnow r then r\<lparr>co_code := code\<rparr> else r) t)"

section \<open>Operations\<close>

definition IssueCode ::
  "(code_stmt \<Rightarrow> bool) \<Rightarrow> gtime \<Rightarrow> gtime \<Rightarrow> byte list option \<Rightarrow> byte list option \<Rightarrow> string \<Rightarrow> code_table \<Rightarrow>
     (code_error + string \<times> string) \<times> code_table" where
  "IssueCode fault dbnow gonow rand5 rand16 phone t =
     (let phone = NormalizePhone phone in
      if fault CoBegin \<or> fault CoLock \<or> fault GetLatestCode_s then (Inl ErrCodeStorage, t)
      else if (case GetLatestCode phone t of
                 None \<Rightarrow> False
               | Some existing \<Rightarrow> co_consumed existing = None \<and> time_sub gonow (co_created existing) < resendCooldown)
      then (Inl ErrResendTooSoon, t)
      else case (randDigits5 rand5, randHex rand16) of
        (Some code, Some h) \<Rightarrow>
          if fault InsertCode_s then (Inl ErrCodeStorage, t)
          else (case InsertCode phone h code (gonow + codeTTL) dbnow t of
                  None \<Rightarrow> (Inl ErrCodeStorage, t)
                | Some t' \<Rightarrow> if fault CoCommit then (Inl ErrCodeStorage, t) else (Inr (h, code), t'))
      | _ \<Rightarrow> (Inl ErrCodeStorage, t))"

definition IssueCodeForUsername ::
  "(code_stmt \<Rightarrow> bool) \<Rightarrow> gtime \<Rightarrow> gtime \<Rightarrow> byte list option \<Rightarrow> byte list option \<Rightarrow> string \<Rightarrow> code_table \<Rightarrow>
     (code_error + string \<times> string) \<times> code_table" where
  "IssueCodeForUsername fault dbnow gonow rand5 rand16 username t =
     (case (randDigits5 rand5, randHex rand16) of
        (Some code, Some h) \<Rightarrow>
          if fault InsertCode_s then (Inl ErrCodeStorage, t)
          else (case InsertCode username h code (gonow + codeTTL) dbnow t of
                  None \<Rightarrow> (Inl ErrCodeStorage, t)
                | Some t' \<Rightarrow> (Inr (h, code), t'))
      | _ \<Rightarrow> (Inl ErrCodeStorage, t))"

text \<open>What verification decides from the row it read, and the write it then makes.\<close>

datatype verify_plan = Refuse code_error | Increment | Swap

definition verify_read :: "(code_stmt \<Rightarrow> bool) \<Rightarrow> gtime \<Rightarrow> string \<Rightarrow> string \<Rightarrow> string \<Rightarrow> code_table \<Rightarrow> verify_plan" where
  "verify_read fault gonow phone h code t =
     (if fault GetCodeByHash_s then Refuse ErrCodeStorage
      else case GetCodeByHash h t of
        None \<Rightarrow> Refuse ErrCodeInvalid
      | Some row \<Rightarrow>
          let phone = NormalizePhone phone in
          if phone \<noteq> co_phone row then Refuse ErrCodeInvalid
          else if co_consumed row \<noteq> None then Refuse ErrCodeInvalid
          else if gonow > co_expires row then Refuse ErrCodeExpired
          else if co_attempts row \<ge> maxAttempts then Refuse ErrCodeExhausted
          else if h \<noteq> co_hash row \<or> code \<noteq> co_code row then Increment
          else Swap)"

definition verify_write ::
  "(code_stmt \<Rightarrow> bool) \<Rightarrow> gtime \<Rightarrow> string \<Rightarrow> string \<Rightarrow> string \<Rightarrow> verify_plan \<Rightarrow> code_table \<Rightarrow> code_error option \<times> code_table" where
  "verify_write fault dbnow phone h code plan t =
     (case plan of
        Refuse e \<Rightarrow> (Some e, t)
      | Increment \<Rightarrow>
          if fault IncrementCodeAttempts_s then (Some ErrCodeStorage, t)
          else (Some ErrCodeInvalid, IncrementCodeAttempts h t)
      | Swap \<Rightarrow>
          if fault ConsumeCode_s then (Some ErrCodeStorage, t)
          else let (rows, t') = ConsumeCode (NormalizePhone phone) h code dbnow t
               in (if rows = 0 then Some ErrCodeInvalid else None, t'))"

definition verifyCodeWith ::
  "(code_stmt \<Rightarrow> bool) \<Rightarrow> gtime \<Rightarrow> gtime \<Rightarrow> string \<Rightarrow> string \<Rightarrow> string \<Rightarrow> code_table \<Rightarrow> code_error option \<times> code_table" where
  "verifyCodeWith fault dbnow gonow phone h code t =
     verify_write fault dbnow phone h code (verify_read fault gonow phone h code t) t"

definition VerifyCode ::
  "(code_stmt \<Rightarrow> bool) \<Rightarrow> gtime \<Rightarrow> gtime \<Rightarrow> string \<Rightarrow> string \<Rightarrow> string \<Rightarrow> code_table \<Rightarrow> code_error option \<times> code_table" where
  "VerifyCode fault dbnow gonow phone h code t = verifyCodeWith fault dbnow gonow phone h code t"

definition validateCodeHash :: "gtime \<Rightarrow> code_row \<Rightarrow> code_error option" where
  "validateCodeHash gonow row =
     (if co_consumed row \<noteq> None then Some ErrCodeInvalid
      else if co_code row = [] then Some ErrCodeInvalid
      else if gonow > co_expires row then Some ErrCodeExpired
      else if co_attempts row \<ge> maxAttempts then Some ErrCodeExhausted
      else None)"

definition CheckCodeHash :: "(code_stmt \<Rightarrow> bool) \<Rightarrow> gtime \<Rightarrow> string \<Rightarrow> string \<Rightarrow> code_table \<Rightarrow> code_error option" where
  "CheckCodeHash fault gonow phone h t =
     (if fault GetCodeByHashAndPhone_s then Some ErrCodeStorage
      else case GetCodeByHashAndPhone h (NormalizePhone phone) t of
        None \<Rightarrow> Some ErrCodeInvalid
      | Some row \<Rightarrow> validateCodeHash gonow row)"

definition SetCodeForUsername ::
  "(code_stmt \<Rightarrow> bool) \<Rightarrow> gtime \<Rightarrow> string \<Rightarrow> string \<Rightarrow> string \<Rightarrow> code_table \<Rightarrow> code_error option \<times> code_table" where
  "SetCodeForUsername fault dbnow username h code t =
     (if fault SetCode_s then (Some ErrCodeStorage, t)
      else let (rows, t') = SetCodeByHashAndPhone h (NormalizePhone username) code dbnow t
           in (if rows \<noteq> 1 then Some ErrCodeInvalid else None, t'))"

definition DeleteExpiredCodes :: "(code_stmt \<Rightarrow> bool) \<Rightarrow> gtime \<Rightarrow> code_table \<Rightarrow> (code_error + nat) \<times> code_table" where
  "DeleteExpiredCodes fault dbnow t =
     (if fault DeleteExpired_s then (Inl ErrCodeStorage, t)
      else (Inr (length (filter (\<lambda>r. co_expires r < dbnow) t)), filter (\<lambda>r. \<not> co_expires r < dbnow) t))"

section \<open>Concurrent verification\<close>

record code_flight =
  cf_phone :: string
  cf_hash :: string
  cf_code :: string
  cf_plan :: verify_plan

text \<open>
  \<open>cs_charged\<close> records every wrong guess charged to a code, \<open>cs_wins\<close> every verification that
  succeeded, with the number of wrong guesses charged to that code before it, and \<open>cs_issued\<close> every
  hash handed out. A fresh code takes a hash never handed out before, as 128 random bits do.
\<close>

record code_sys =
  cs_rows :: code_table
  cs_flights :: "code_flight list"
  cs_charged :: "string list"
  cs_wins :: "(string \<times> nat) list"
  cs_issued :: "string list"

definition no_codes :: code_sys where
  "no_codes = \<lparr>cs_rows = [], cs_flights = [], cs_charged = [], cs_wins = [], cs_issued = []\<rparr>"

inductive code_step :: "code_sys \<Rightarrow> code_sys \<Rightarrow> bool" where
  issue: "\<lbrakk>IssueCode fault dbnow gonow r5 r16 phone (cs_rows s) = (Inr (h, code), t); h \<notin> set (cs_issued s)\<rbrakk>
    \<Longrightarrow> code_step s (s\<lparr>cs_rows := t, cs_issued := h # cs_issued s\<rparr>)"
| issue_username: "\<lbrakk>IssueCodeForUsername fault dbnow gonow r5 r16 phone (cs_rows s) = (Inr (h, code), t); h \<notin> set (cs_issued s)\<rbrakk>
    \<Longrightarrow> code_step s (s\<lparr>cs_rows := t, cs_issued := h # cs_issued s\<rparr>)"
| begin_verify: "verify_read fault gonow phone h code (cs_rows s) = plan
    \<Longrightarrow> code_step s (s\<lparr>cs_flights := \<lparr>cf_phone = phone, cf_hash = h, cf_code = code, cf_plan = plan\<rparr> # cs_flights s\<rparr>)"
| finish_verify: "\<lbrakk>f \<in> set (cs_flights s);
      verify_write fault dbnow (cf_phone f) (cf_hash f) (cf_code f) (cf_plan f) (cs_rows s) = (e, t);
      charged = (if cf_plan f = Increment \<and> e = Some ErrCodeInvalid then [cf_hash f] else []);
      won = (if e = None then [(cf_hash f, count_list (cs_charged s) (cf_hash f))] else [])\<rbrakk>
    \<Longrightarrow> code_step s (s\<lparr>cs_rows := t, cs_flights := remove1 f (cs_flights s),
          cs_charged := charged @ cs_charged s, cs_wins := won @ cs_wins s\<rparr>)"
| set_username: "SetCodeForUsername fault dbnow username h code (cs_rows s) = (e, t)
    \<Longrightarrow> code_step s (s\<lparr>cs_rows := t\<rparr>)"
| purge: "DeleteExpiredCodes fault dbnow (cs_rows s) = (n, t)
    \<Longrightarrow> code_step s (s\<lparr>cs_rows := t\<rparr>)"

definition code_inv :: "code_sys \<Rightarrow> bool" where
  "code_inv s \<longleftrightarrow>
     distinct (map co_hash (cs_rows s)) \<and>
     set (map co_hash (cs_rows s)) \<subseteq> set (cs_issued s) \<and>
     set (cs_charged s) \<subseteq> set (cs_issued s) \<and>
     set (map fst (cs_wins s)) \<subseteq> set (cs_issued s) \<and>
     (\<forall>f \<in> set (cs_flights s). cf_plan f = Increment \<longrightarrow> cf_hash f \<in> set (cs_issued s)) \<and>
     distinct (map fst (cs_wins s)) \<and>
     (\<forall>(h, n) \<in> set (cs_wins s). int n < maxAttempts) \<and>
     (\<forall>r \<in> set (cs_rows s). co_attempts r = int (count_list (cs_charged s) (co_hash r)) \<and>
        (\<forall>n. (co_hash r, n) \<in> set (cs_wins s) \<longrightarrow> co_consumed r \<noteq> None))"


lemma InsertCode_some:
  "InsertCode phone h code e now t = Some t' \<longleftrightarrow>
     h \<notin> co_hash ` set t \<and> t' = t @ [\<lparr>co_phone = phone, co_hash = h, co_code = code, co_expires = e, co_created = now,
                       co_consumed = None, co_attempts = 0\<rparr>]"
  by (auto simp: InsertCode_def list_ex_iff)

lemma issue_inserts:
  assumes "IssueCode fault dbnow gonow r5 r16 phone t = (Inr (h, code), t')"
  shows "\<exists>r. t' = t @ [r] \<and> co_hash r = h \<and> co_attempts r = 0"
  using assms
  by (auto simp: IssueCode_def Let_def InsertCode_some split: if_splits option.splits)

lemma issue_username_inserts:
  assumes "IssueCodeForUsername fault dbnow gonow r5 r16 phone t = (Inr (h, code), t')"
  shows "\<exists>r. t' = t @ [r] \<and> co_hash r = h \<and> co_attempts r = 0"
  using assms
  by (auto simp: IssueCodeForUsername_def Let_def InsertCode_some split: if_splits option.splits)

lemma code_inv_inserted:
  assumes inv: "code_inv s" and h: "h \<notin> set (cs_issued s)" and r: "co_hash r = h" "co_attempts r = 0"
  shows "code_inv (s\<lparr>cs_rows := cs_rows s @ [r], cs_issued := h # cs_issued s\<rparr>)"
proof -
  from inv h have c: "h \<notin> set (cs_charged s)" "h \<notin> set (map fst (cs_wins s))" "h \<notin> set (map co_hash (cs_rows s))"
    unfolding code_inv_def by blast+
  then have "\<forall>n. (h, n) \<notin> set (cs_wins s)" by force
  with c inv r show ?thesis by (auto simp: code_inv_def count_list_0_iff)
qed

text \<open>A rewrite of rows that keeps hash, attempts and consumption keeps the invariant.\<close>

lemma code_inv_map:
  assumes inv: "code_inv s"
    and f: "\<And>r. co_hash (f r) = co_hash r \<and> co_attempts (f r) = co_attempts r \<and>
      (co_consumed r \<noteq> None \<longrightarrow> co_consumed (f r) \<noteq> None)"
  shows "code_inv (s\<lparr>cs_rows := map f (cs_rows s)\<rparr>)"
proof -
  have "map co_hash (map f (cs_rows s)) = map co_hash (cs_rows s)" using f by simp
  with inv f show ?thesis by (auto simp: code_inv_def simp del: map_map)
qed


lemma code_inv_purge: "code_inv s \<Longrightarrow> code_inv (s\<lparr>cs_rows := filter P (cs_rows s)\<rparr>)"
  by (auto simp: code_inv_def distinct_map_filter)

lemma verify_read_increment:
  "verify_read fault now phone h code t = Increment \<Longrightarrow> h \<in> co_hash ` set t"
  by (auto simp: verify_read_def GetCodeByHash_def Let_def find_Some_iff image_iff
      split: if_splits option.splits)

lemma code_inv_increment:
  assumes inv: "code_inv s" and h: "h \<in> set (cs_issued s)"
  shows "code_inv (s\<lparr>cs_rows := IncrementCodeAttempts h (cs_rows s), cs_charged := h # cs_charged s\<rparr>)"
proof -
  have "map co_hash (IncrementCodeAttempts h (cs_rows s)) = map co_hash (cs_rows s)"
    by (simp add: IncrementCodeAttempts_def)
  then show ?thesis
    using inv h unfolding code_inv_def by (auto simp: IncrementCodeAttempts_def simp del: map_map)
qed

lemma ConsumeCode_wins:
  assumes "distinct (map co_hash t)" and "ConsumeCode phone h code now t = (n, t')"
  shows "if n = 0 then t' = t else \<exists>r \<in> set t. consumable phone h code now r \<and>
    t' = map (\<lambda>x. if co_hash x = h then x\<lparr>co_consumed := Some now\<rparr> else x) t"
proof (cases "n = 0")
  case True
  with assms have "\<forall>r \<in> set t. \<not> consumable phone h code now r"
    by (auto simp: ConsumeCode_def filter_empty_conv)
  with assms True show ?thesis by (auto simp: ConsumeCode_def intro!: map_idI)
next
  case False
  with assms obtain r where r: "r \<in> set t" "consumable phone h code now r"
    by (auto simp: ConsumeCode_def filter_empty_conv)
  have "consumable phone h code now x \<longleftrightarrow> co_hash x = h" if "x \<in> set t" for x
    using r that assms(1) by (auto simp: consumable_def distinct_map inj_on_def)
  then have "t' = map (\<lambda>x. if co_hash x = h then x\<lparr>co_consumed := Some now\<rparr> else x) t"
    using assms(2) by (auto simp: ConsumeCode_def)
  with r False show ?thesis by auto
qed

lemma code_inv_swap:
  assumes inv: "code_inv s" and c: "ConsumeCode phone h code now (cs_rows s) = (n, t)"
  shows "code_inv (s\<lparr>cs_rows := t,
    cs_wins := (if n = 0 then [] else [(h, count_list (cs_charged s) h)]) @ cs_wins s\<rparr>)"
proof (cases "n = 0")
  case True
  with ConsumeCode_wins [OF _ c] inv show ?thesis by (simp add: code_inv_def)
next
  case False
  from inv have d: "distinct (map co_hash (cs_rows s))" by (simp add: code_inv_def)
  from ConsumeCode_wins [OF d c] False obtain r where r: "r \<in> set (cs_rows s)" "consumable phone h code now r"
    and t: "t = map (\<lambda>x. if co_hash x = h then x\<lparr>co_consumed := Some now\<rparr> else x) (cs_rows s)" by auto
  from r have e: "co_hash r = h" "co_consumed r = None" "co_attempts r < maxAttempts"
    by (auto simp: consumable_def)
  have n: "int (count_list (cs_charged s) h) < maxAttempts" and i: "h \<in> set (cs_issued s)"
    and w: "h \<notin> set (map fst (cs_wins s))"
    using inv r e by (auto simp: code_inv_def)
  have m: "map co_hash t = map co_hash (cs_rows s)" by (simp add: t)
  show ?thesis
    using inv n i w False unfolding code_inv_def by (auto simp: t m [unfolded t] simp del: map_map)
qed


lemma code_inv_flights:
  "code_inv s \<Longrightarrow> \<forall>f \<in> set fs. cf_plan f = Increment \<longrightarrow> cf_hash f \<in> set (cs_issued s) \<Longrightarrow> code_inv (s\<lparr>cs_flights := fs\<rparr>)"
  by (simp add: code_inv_def)

lemma code_inv_finish:
  assumes inv: "code_inv s" and f: "f \<in> set (cs_flights s)"
    and w: "verify_write fault now (cf_phone f) (cf_hash f) (cf_code f) (cf_plan f) (cs_rows s) = (e, t)"
  shows "code_inv (s\<lparr>cs_rows := t,
    cs_charged := (if cf_plan f = Increment \<and> e = Some ErrCodeInvalid then [cf_hash f] else []) @ cs_charged s,
    cs_wins := (if e = None then [(cf_hash f, count_list (cs_charged s) (cf_hash f))] else []) @ cs_wins s\<rparr>)"
proof (cases "cf_plan f")
  case (Refuse x)
  with w inv show ?thesis by (auto simp: verify_write_def)
next
  case Increment
  then have i: "cf_hash f \<in> set (cs_issued s)" using inv f by (simp add: code_inv_def)
  from code_inv_increment [OF inv i] w inv Increment show ?thesis
    by (cases "fault IncrementCodeAttempts_s") (auto simp: verify_write_def)
next
  case Swap
  obtain n t1 where c: "ConsumeCode (NormalizePhone (cf_phone f)) (cf_hash f) (cf_code f) now (cs_rows s) = (n, t1)"
    by fastforce
  from code_inv_swap [OF inv c] w inv Swap c show ?thesis
    by (cases "fault ConsumeCode_s"; cases "n = 0") (auto simp: verify_write_def)
qed

lemma code_step_inv:
  assumes "code_step s s'" and inv: "code_inv s"
  shows "code_inv s'"
  using assms(1)
proof cases
  case issue
  then show ?thesis using issue_inserts [OF issue(2)] code_inv_inserted [OF inv] by auto
next
  case issue_username
  then show ?thesis using issue_username_inserts [OF issue_username(2)] code_inv_inserted [OF inv] by auto
next
  case (begin_verify fault gonow phone h code plan)
  have "h \<in> set (cs_issued s)" if "plan = Increment"
    using verify_read_increment [of fault gonow phone h code "cs_rows s"] begin_verify that inv
    by (auto simp: code_inv_def)
  with inv begin_verify show ?thesis by (auto intro!: code_inv_flights simp: code_inv_def)
next
  case (finish_verify f fault dbnow e t charged won)
  from code_inv_finish [OF inv finish_verify(2,3)] finish_verify(1,4,5)
  show ?thesis by (auto simp: code_inv_def dest: notin_set_remove1)
next
  case (set_username fault dbnow username h code e t)
  let ?f = "\<lambda>r. if settable h (NormalizePhone username) code dbnow r then r\<lparr>co_code := code\<rparr> else r"
  have "t = cs_rows s \<or> t = map ?f (cs_rows s)"
    using set_username(2) by (auto simp: SetCodeForUsername_def SetCodeByHashAndPhone_def Let_def split: if_splits)
  moreover have "code_inv (s\<lparr>cs_rows := map ?f (cs_rows s)\<rparr>)" by (rule code_inv_map [OF inv]) auto
  ultimately show ?thesis using set_username(1) inv by auto
next
  case (purge fault dbnow n t)
  then have "t = cs_rows s \<or> t = filter (\<lambda>r. \<not> co_expires r < dbnow) (cs_rows s)"
    by (auto simp: DeleteExpiredCodes_def split: if_splits)
  then show ?thesis using purge(1) inv code_inv_purge by auto
qed

interpretation lcm: invariant_machine "\<lambda>s. s = no_codes" code_step code_inv
proof
  show "code_inv s" if "s = no_codes" for s using that by (simp add: code_inv_def no_codes_def)
  show "code_inv t" if "code_step s t" "code_inv s" for s t using that by (rule code_step_inv)
qed

text \<open>
  C7. A login code is single use and cannot be brute-forced by racing. In every interleaving of any
  number of concurrent verifications from any clients, with codes issued, replaced and purged in
  between and any statement failing, each issued hash is verified successfully at most once, and
  only while fewer than three wrong guesses had been charged to it; a code's stored attempt count is
  exactly the number of wrong guesses charged, and a row that has verified stays consumed.
\<close>

theorem code_single_use:
  assumes "reach code_step no_codes s"
  shows "distinct (map fst (cs_wins s)) \<and>
    (\<forall>(h, n) \<in> set (cs_wins s). n < 3) \<and>
    (\<forall>r \<in> set (cs_rows s). co_attempts r = int (count_list (cs_charged s) (co_hash r)) \<and>
      (co_hash r \<in> fst ` set (cs_wins s) \<longrightarrow> co_consumed r \<noteq> None))"
proof -
  have "code_inv s" by (rule lcm.reachable_inv [OF refl assms])
  then show ?thesis by (fastforce simp: code_inv_def maxAttempts_def)
qed

definition demo_row :: code_row where
  "demo_row = \<lparr>co_phone = ''1555'', co_hash = ''07'', co_code = ''3'', co_expires = 10 + codeTTL, co_created = 10,
     co_consumed = None, co_attempts = 0\<rparr>"

definition demo_flight :: code_flight where
  "demo_flight = \<lparr>cf_phone = ''+1555'', cf_hash = ''07'', cf_code = ''3'', cf_plan = Swap\<rparr>"

definition demo_won :: code_sys where
  "demo_won = \<lparr>cs_rows = [demo_row\<lparr>co_consumed := Some 20\<rparr>], cs_flights = [], cs_charged = [],
     cs_wins = [(''07'', 0)], cs_issued = [''07'']\<rparr>"

lemma demo_won_reach: "reach code_step no_codes demo_won"
proof -
  have i: "IssueCode (\<lambda>_. False) 10 10 (Some [3]) (Some [7]) ''+1555'' (cs_rows no_codes) = (Inr (''07'', ''3''), [demo_row])"
    by (simp add: IssueCode_def no_codes_def GetLatestCode_def randDigits5_def randHex_def InsertCode_def
        NormalizePhone_def digit_char_def hex_char_def demo_row_def char_of_def bit_0 Let_def)
  have v: "verify_read (\<lambda>_. False) 15 ''+1555'' ''07'' ''3'' [demo_row] = Swap"
    by (simp add: verify_read_def GetCodeByHash_def demo_row_def NormalizePhone_def codeTTL_def maxAttempts_def)
  have w: "verify_write (\<lambda>_. False) 20 ''+1555'' ''07'' ''3'' Swap [demo_row] = (None, [demo_row\<lparr>co_consumed := Some 20\<rparr>])"
    by (simp add: verify_write_def ConsumeCode_def consumable_def demo_row_def NormalizePhone_def codeTTL_def maxAttempts_def)
  let ?s1 = "no_codes\<lparr>cs_rows := [demo_row], cs_issued := [''07'']\<rparr>"
  have "code_step no_codes ?s1" using code_step.issue [OF i] by (simp add: no_codes_def)
  moreover have "code_step ?s1 (?s1\<lparr>cs_flights := [demo_flight]\<rparr>)"
    using code_step.begin_verify [of "\<lambda>_. False" 15 "''+1555''" "''07''" "''3''" ?s1, OF refl] v
    by (simp add: no_codes_def demo_flight_def)
  moreover have "code_step (?s1\<lparr>cs_flights := [demo_flight]\<rparr>) demo_won"
    using code_step.finish_verify [of demo_flight "?s1\<lparr>cs_flights := [demo_flight]\<rparr>" "\<lambda>_. False" 20 None
        "[demo_row\<lparr>co_consumed := Some 20\<rparr>]", OF _ _ refl refl] w
    by (simp add: no_codes_def demo_flight_def demo_won_def)
  ultimately show ?thesis by (meson reach.intros)
qed

theorem code_single_use_witness:
  "reach code_step no_codes demo_won \<and> cs_wins demo_won = [(''07'', 0)] \<and>
   distinct (map fst (cs_wins demo_won)) \<and> list_all (\<lambda>(h, n). n < 3) (cs_wins demo_won)"
  using code_single_use [OF demo_won_reach] demo_won_reach by (simp add: demo_won_def)

end
