(* ===== verification/Sign_In.thy ===== *)
theory Sign_In
  imports Login_Codes
begin

text \<open>
  The guarded sign-in attempt (internal/store/sign_in_fail.go over queries/sign_in_fail.sql): a
  per-network failure budget, the code verification of \<open>Login_Codes\<close>, and the account lookup, in
  one transaction under an advisory lock on the network. The lock serializes the attempts of one
  network, so an attempt is one step on its counter; what other networks do to the code rows in the
  meantime is the subject of \<open>Login_Codes\<close>. \<open>fault\<close> says which statements fail.
\<close>

record sign_in_state =
  si_codes :: code_table
  si_fails :: "prefix rate_table"
  si_users :: "string set"

datatype sign_in_stmt = SiBegin | SiLock | CheckBudget | SiCode code_stmt | UserByPhone | ChargeCall | SiCommit

datatype sign_in_outcome = SignedIn | FloodWait rate_result | SignInRefused code_error | SignInStorage

definition CheckSignInFailBudget :: "prefix \<Rightarrow> prefix rate_table \<Rightarrow> rate_row option" where
  "CheckSignInFailBudget key t = fmlookup t key"

definition ChargeSignInFailCall ::
  "prefix \<Rightarrow> gduration \<Rightarrow> int \<Rightarrow> gtime \<Rightarrow> prefix rate_table \<Rightarrow> nat option \<times> prefix rate_table" where
  "ChargeSignInFailCall key w limit now t =
     (let r' = charged_row 1 w now (fmlookup t key) in
      case fmlookup t key of
        None \<Rightarrow> (Some 1, fmupd key r' t)
      | Some r \<Rightarrow>
          if rr_expires r \<le> now \<or> rr_tokens r < limit
          then if int4_ok (rr_tokens r') then (Some 1, fmupd key r' t) else (None, t)
          else (Some 0, t))"

text \<open>True when the charge was made; a charge that touches no row is an error too.\<close>

definition chargeSignInFailure ::
  "(sign_in_stmt \<Rightarrow> bool) \<Rightarrow> gtime \<Rightarrow> prefix \<Rightarrow> rate_config \<Rightarrow> prefix rate_table \<Rightarrow> bool \<times> prefix rate_table" where
  "chargeSignInFailure fault dbnow key cfg t =
     (if fault ChargeCall then (False, t)
      else case ChargeSignInFailCall key (interval_of (rl_window cfg)) (int32 (rl_limit cfg)) dbnow t of
        (None, t') \<Rightarrow> (False, t')
      | (Some n, t') \<Rightarrow> (n \<noteq> 0, t'))"

definition phoneUserExists :: "(sign_in_stmt \<Rightarrow> bool) \<Rightarrow> string \<Rightarrow> string set \<Rightarrow> bool option" where
  "phoneUserExists fault phone users =
     (let phone = NormalizePhone phone in if fault UserByPhone then None else Some (phone \<in> users))"

definition code_failure :: "code_error \<Rightarrow> bool" where
  "code_failure e \<longleftrightarrow> e = ErrCodeInvalid \<or> e = ErrCodeExpired \<or> e = ErrCodeExhausted"

text \<open>The rest of the transaction once the budget has let the attempt through.\<close>

definition verify_and_charge ::
  "(sign_in_stmt \<Rightarrow> bool) \<Rightarrow> gtime \<Rightarrow> gtime \<Rightarrow> prefix \<Rightarrow> string \<Rightarrow> string \<Rightarrow> string \<Rightarrow> rate_config \<Rightarrow>
     sign_in_state \<Rightarrow> sign_in_outcome \<times> sign_in_state" where
  "verify_and_charge fault dbnow gonow key phone h code cfg s =
     (case verifyCodeWith (\<lambda>x. fault (SiCode x)) dbnow gonow phone h code (si_codes s) of
        (Some e, t) \<Rightarrow>
          if code_failure e then
            (let (charged, fails) = chargeSignInFailure fault dbnow key cfg (si_fails s) in
             if \<not> charged then (SignInStorage, s)
             else if fault SiCommit then (SignInStorage, s)
             else (SignInRefused e, s\<lparr>si_codes := t, si_fails := fails\<rparr>))
          else if fault SiCommit then (SignInStorage, s)
          else (SignInRefused e, s\<lparr>si_codes := t\<rparr>)
      | (None, t) \<Rightarrow>
          case phoneUserExists fault phone (si_users s) of
            None \<Rightarrow> (SignInStorage, s)
          | Some registered \<Rightarrow>
              if \<not> registered then
                (let (charged, fails) = chargeSignInFailure fault dbnow key cfg (si_fails s) in
                 if \<not> charged then (SignInStorage, s)
                 else if fault SiCommit then (SignInStorage, s)
                 else (SignInRefused ErrCodeInvalid, s\<lparr>si_codes := t, si_fails := fails\<rparr>))
              else if fault SiCommit then (SignInStorage, s)
              else (SignedIn, s\<lparr>si_codes := t\<rparr>))"

definition AttemptSignIn ::
  "(sign_in_stmt \<Rightarrow> bool) \<Rightarrow> gtime \<Rightarrow> gtime \<Rightarrow> addr \<Rightarrow> string \<Rightarrow> string \<Rightarrow> string \<Rightarrow> rate_config \<Rightarrow>
     sign_in_state \<Rightarrow> sign_in_outcome \<times> sign_in_state" where
  "AttemptSignIn fault dbnow gonow address phone h code cfg s =
     (if \<not> rl_enabled cfg then
        (case verifyCodeWith (\<lambda>x. fault (SiCode x)) dbnow gonow phone h code (si_codes s) of
           (Some e, t) \<Rightarrow> (SignInRefused e, s\<lparr>si_codes := t\<rparr>)
         | (None, t) \<Rightarrow>
             (case phoneUserExists fault phone (si_users s) of
                None \<Rightarrow> SignInStorage
              | Some registered \<Rightarrow> if registered then SignedIn else SignInRefused ErrCodeInvalid, s\<lparr>si_codes := t\<rparr>))
      else case ip_bucket_key address of
        None \<Rightarrow> (FloodWait \<lparr>rs_wait = second, rs_surface = Unknown\<rparr>, s)
      | Some key \<Rightarrow>
          if fault SiBegin \<or> fault SiLock \<or> fault CheckBudget then (SignInStorage, s)
          else
            case CheckSignInFailBudget key (si_fails s) of
              Some row \<Rightarrow>
                if rr_expires row > gonow \<and> rr_tokens row \<ge> int32 (rl_limit cfg)
                then (FloodWait \<lparr>rs_wait = waitUntil gonow (rr_expires row), rs_surface = Unknown\<rparr>, s)
                else verify_and_charge fault dbnow gonow key phone h code cfg s
            | None \<Rightarrow> verify_and_charge fault dbnow gonow key phone h code cfg s)"


definition SweepExpiredSignInFailCalls :: "gtime \<Rightarrow> prefix rate_table \<Rightarrow> prefix rate_table" where
  "SweepExpiredSignInFailCalls now t = fmfilter (\<lambda>k. \<not> rr_expires (the (fmlookup t k)) \<le> now) t"

section \<open>Every refusal is charged\<close>

lemma chargeSignInFailure_charged:
  assumes "chargeSignInFailure fault now key cfg t = (True, t')"
  shows "t' = fmupd key (charged_row 1 (interval_of (rl_window cfg)) now (fmlookup t key)) t \<and>
    (\<forall>r. fmlookup t key = Some r \<longrightarrow> rr_expires r \<le> now \<or> rr_tokens r < int32 (rl_limit cfg))"
  using assms
  by (auto simp: chargeSignInFailure_def ChargeSignInFailCall_def Let_def split: if_splits option.splits)

text \<open>What an attempt does to the counters, by outcome.\<close>

lemma verify_and_charge_fails:
  assumes "verify_and_charge fault now gonow key phone h code cfg s = (r, s')"
  shows "if \<exists>e. r = SignInRefused e \<and> code_failure e
    then chargeSignInFailure fault now key cfg (si_fails s) = (True, si_fails s')
    else si_fails s' = si_fails s"
  using assms
  by (auto simp: verify_and_charge_def code_failure_def Let_def split: prod.splits option.splits if_splits)

lemma AttemptSignIn_fails:
  assumes on: "rl_enabled cfg" and a: "AttemptSignIn fault now gonow address phone h code cfg s = (r, s')"
  shows "if \<exists>e. r = SignInRefused e \<and> code_failure e
    then \<exists>key. ip_bucket_key address = Some key \<and> chargeSignInFailure fault now key cfg (si_fails s) = (True, si_fails s')
    else si_fails s' = si_fails s"
proof (cases "\<exists>key. ip_bucket_key address = Some key \<and>
    verify_and_charge fault now gonow key phone h code cfg s = (r, s')")
  case True
  then show ?thesis using verify_and_charge_fails by (metis (no_types, lifting))
next
  case False
  with on a have "s' = s \<and> (\<forall>e. r \<noteq> SignInRefused e)"
    by (auto simp: AttemptSignIn_def split: option.splits if_splits)
  then show ?thesis by auto
qed


section \<open>Guessing from one network\<close>

record attempt =
  at_addr :: addr
  at_phone :: string
  at_hash :: string
  at_code :: string
  at_fault :: "sign_in_stmt \<Rightarrow> bool"
  at_gonow :: gtime

text \<open>
  Besides attempts and sweeps, anything may happen to the codes and the accounts: new codes are
  issued, other networks guess, accounts appear.
\<close>

datatype sign_in_event = Attempt attempt | FailSweep | Outside "code_table \<Rightarrow> code_table" "string set \<Rightarrow> string set"

fun sign_in_do :: "rate_config \<Rightarrow> sign_in_event \<Rightarrow> gtime \<Rightarrow> sign_in_state \<Rightarrow> bool \<times> sign_in_state" where
  "sign_in_do cfg (Attempt a) now s =
     (let (r, s') = AttemptSignIn (at_fault a) now (at_gonow a) (at_addr a) (at_phone a) (at_hash a) (at_code a) cfg s
      in (case r of SignInRefused e \<Rightarrow> code_failure e | _ \<Rightarrow> False, s'))"
| "sign_in_do cfg FailSweep now s = (True, s\<lparr>si_fails := SweepExpiredSignInFailCalls now (si_fails s)\<rparr>)"
| "sign_in_do cfg (Outside f g) now s = (True, s\<lparr>si_codes := f (si_codes s), si_users := g (si_users s)\<rparr>)"

definition from_network :: "prefix \<Rightarrow> sign_in_event \<Rightarrow> bool" where
  "from_network key e \<longleftrightarrow> (case e of Attempt a \<Rightarrow> ip_bucket_key (at_addr a) = Some key | _ \<Rightarrow> False)"

lemma sign_in_do_attempt:
  assumes cfg: "config_ok cfg" and d: "sign_in_do cfg (Attempt a) now s = (g, s')"
  shows "if g then \<exists>key. ip_bucket_key (at_addr a) = Some key \<and>
      si_fails s' = fmupd key (charged_row 1 (interval_of (rl_window cfg)) now (fmlookup (si_fails s) key)) (si_fails s) \<and>
      (\<forall>r. fmlookup (si_fails s) key = Some r \<longrightarrow> rr_expires r \<le> now \<or> rr_tokens r < rl_limit cfg)
    else si_fails s' = si_fails s"
proof -
  obtain r t where a: "AttemptSignIn (at_fault a) now (at_gonow a) (at_addr a) (at_phone a) (at_hash a) (at_code a) cfg s = (r, t)"
    by fastforce
  have t: "t = s'" and g: "g \<longleftrightarrow> (\<exists>e. r = SignInRefused e \<and> code_failure e)"
    using d a by (auto split: sign_in_outcome.splits)
  note f = AttemptSignIn_fails [OF config_ok_simps(1) [OF cfg] a]
  show ?thesis
  proof (cases g)
    case True
    with f g t obtain key where "ip_bucket_key (at_addr a) = Some key"
      and c: "chargeSignInFailure (at_fault a) now key cfg (si_fails s) = (True, si_fails s')" by auto
    with chargeSignInFailure_charged [OF c] True show ?thesis by (simp add: config_ok_simps(2) [OF cfg])
  next
    case False
    with f g t show ?thesis by auto
  qed
qed

lemma sign_in_window:
  assumes cfg: "config_ok cfg"
  shows "fixed_window (\<lambda>e now s. if now = 0 then (False, s) else sign_in_do cfg e now s) (from_network key)
    (\<lambda>s. rows_ok cfg (si_fails s)) (\<lambda>s. row_start key (si_fails s)) (\<lambda>s. row_tokens key (si_fails s))
    (rl_limit cfg) (interval_of (rl_window cfg))"
proof (rule window_from_rows [where tab = si_fails, OF cfg])
  fix s :: sign_in_state and e now
  show "rows_ok cfg (si_fails (snd (sign_in_do cfg e now s)))" if n: "now \<noteq> 0" and t: "rows_ok cfg (si_fails s)"
  proof (cases e)
    case (Attempt a)
    from sign_in_do_attempt [OF cfg surjective_pairing, of a now s] charged_row_ok [OF cfg t n] t show ?thesis
      unfolding Attempt by (auto simp del: sign_in_do.simps split: if_splits)
  qed (use t in \<open>simp_all add: SweepExpiredSignInFailCalls_def rows_ok_filter\<close>)
  show "fmlookup (si_fails (snd (sign_in_do cfg e now s))) key =
        Some (charged_row 1 (interval_of (rl_window cfg)) now (fmlookup (si_fails s) key)) \<and>
      (\<forall>r. fmlookup (si_fails s) key = Some r \<longrightarrow> rr_expires r \<le> now \<or> rr_tokens r < rl_limit cfg)"
    if "from_network key e" "fst (sign_in_do cfg e now s)"
  proof -
    from that obtain a where e: "e = Attempt a" and k: "ip_bucket_key (at_addr a) = Some key"
      by (auto simp: from_network_def split: sign_in_event.splits)
    from sign_in_do_attempt [OF cfg surjective_pairing, of a now s] that(2) k show ?thesis
      unfolding e by (auto simp del: sign_in_do.simps)
  qed
  show "fmlookup (si_fails (snd (sign_in_do cfg e now s))) key = fmlookup (si_fails s) key \<or>
      fmlookup (si_fails (snd (sign_in_do cfg e now s))) key = None \<and>
      (\<forall>r. fmlookup (si_fails s) key = Some r \<longrightarrow> rr_expires r \<le> now)"
    if "\<not> (from_network key e \<and> fst (sign_in_do cfg e now s))"
  proof (cases e)
    case (Attempt a)
    from sign_in_do_attempt [OF cfg surjective_pairing, of a now s] that show ?thesis
      unfolding Attempt by (auto simp: from_network_def simp del: sign_in_do.simps split: if_splits)
  qed (auto simp: SweepExpiredSignInFailCalls_def)
qed

text \<open>The shipped budget: 10 failed attempts an hour for each network.\<close>

definition SignInFailIP :: rate_config where
  "SignInFailIP = \<lparr>rl_limit = 10, rl_window = 3600 * second\<rparr>"

interpretation sfw: fixed_window "\<lambda>e now s. if now = 0 then (False, s) else sign_in_do SignInFailIP e now s"
  "from_network key" "\<lambda>s. rows_ok SignInFailIP (si_fails s)" "\<lambda>s. row_start key (si_fails s)"
  "\<lambda>s. row_tokens key (si_fails s)" "rl_limit SignInFailIP" "interval_of (rl_window SignInFailIP)" for key
  by (rule sign_in_window) (simp add: config_ok_def SignInFailIP_def)

text \<open>
  C15. A network cannot guess codes faster than its budget. Whatever it tries, against any phones,
  hashes and codes, with any statement failing, any process clock, sweeps running and codes and
  accounts changing in between, as long as the database clock does not run backwards, no span as
  long as the window holds more than twice the limit of attempts that were told their code was
  wrong, expired or exhausted: every such answer has been charged.
\<close>

theorem sign_in_guess_bound:
  assumes "config_ok cfg" and "si_fails s = fmempty" and "sorted (map snd es)" and "\<forall>(e, t) \<in> set es. 0 < t"
  shows "int (in_span a (interval_of (rl_window cfg)) (fw_run (sign_in_do cfg) (from_network key) es s)) \<le> 2 * rl_limit cfg"
proof -
  have "fw_run (sign_in_do cfg) (from_network key) es s =
      fw_run (\<lambda>e now s. if now = 0 then (False, s) else sign_in_do cfg e now s) (from_network key) es s"
    using assms(4) by (intro fw_run_cong) auto
  with fixed_window.fw_bound [OF sign_in_window [OF assms(1), of key], of s es a] assms(2-4)
  show ?thesis by (simp add: rows_ok_def row_start_def)
qed

definition demo_attempt :: attempt where
  "demo_attempt = \<lparr>at_addr = V4 7, at_phone = ''1555'', at_hash = ''07'', at_code = ''3'', at_fault = \<lambda>_. False, at_gonow = 10\<rparr>"

theorem sign_in_guess_bound_witness:
  "int (in_span 5 (interval_of (rl_window SignInFailIP)) (fw_run (sign_in_do SignInFailIP) (from_network (P4 7 32))
     [(Attempt demo_attempt, 10), (FailSweep, 11), (Attempt demo_attempt, 12)]
     \<lparr>si_codes = [], si_fails = fmempty, si_users = {}\<rparr>)) \<le> 2 * rl_limit SignInFailIP"
  by (rule sign_in_guess_bound) (simp_all add: config_ok_def SignInFailIP_def)

section \<open>Unknown accounts look like wrong codes\<close>

text \<open>An attempt fails when its code does not verify as wrong, or verifies for a phone without an account.\<close>

definition wrong_or_unknown :: "gtime \<Rightarrow> attempt \<Rightarrow> sign_in_state \<Rightarrow> bool" where
  "wrong_or_unknown now a s \<longleftrightarrow>
     (case fst (verifyCodeWith (\<lambda>_. False) now (at_gonow a) (at_phone a) (at_hash a) (at_code a) (si_codes s)) of
        Some e \<Rightarrow> e = ErrCodeInvalid
      | None \<Rightarrow> NormalizePhone (at_phone a) \<notin> si_users s)"

lemma verify_and_charge_refused:
  assumes "wrong_or_unknown now a s"
  shows "verify_and_charge (\<lambda>_. False) now (at_gonow a) key (at_phone a) (at_hash a) (at_code a) cfg s =
    (let (charged, fails) = chargeSignInFailure (\<lambda>_. False) now key cfg (si_fails s);
         t = snd (verifyCodeWith (\<lambda>_. False) now (at_gonow a) (at_phone a) (at_hash a) (at_code a) (si_codes s))
     in if charged then (SignInRefused ErrCodeInvalid, s\<lparr>si_codes := t, si_fails := fails\<rparr>) else (SignInStorage, s))"
  using assms
  by (auto simp: verify_and_charge_def wrong_or_unknown_def code_failure_def phoneUserExists_def Let_def
      split: prod.splits option.splits)

lemma wrong_or_unknown_unlimited:
  assumes "\<not> rl_enabled cfg" and "wrong_or_unknown now a s"
  shows "AttemptSignIn (\<lambda>_. False) now (at_gonow a) address (at_phone a) (at_hash a) (at_code a) cfg s =
    (SignInRefused ErrCodeInvalid, s\<lparr>si_codes := snd (verifyCodeWith (\<lambda>_. False) now (at_gonow a) (at_phone a) (at_hash a) (at_code a) (si_codes s))\<rparr>)"
  using assms by (auto simp: AttemptSignIn_def wrong_or_unknown_def phoneUserExists_def split: prod.splits option.splits)

text \<open>An attempt whose code does not verify never reaches the accounts.\<close>

lemma unverified_ignores_accounts:
  assumes "fst (verifyCodeWith (\<lambda>x. fault (SiCode x)) dbnow gonow phone h code (si_codes s)) \<noteq> None"
  shows "AttemptSignIn fault dbnow gonow address phone h code cfg (s\<lparr>si_users := users\<rparr>) =
    map_prod id (\<lambda>s'. s'\<lparr>si_users := users\<rparr>) (AttemptSignIn fault dbnow gonow address phone h code cfg s)"
  using assms
  by (auto simp: AttemptSignIn_def verify_and_charge_def Let_def split: prod.splits option.splits if_splits)

text \<open>
  C35. Sign-in does not reveal which phones have accounts. An attempt whose code does not verify, for
  whatever reason, even a storage fault, has the same outcome whichever accounts exist. And where no
  statement fails, an attempt with the right code for a phone nobody registered is answered as a
  wrong code is: any two attempts from the same network at the same time, each refused for a code
  that is wrong (expired and exhausted codes have answers of their own) or for a missing account,
  whatever the phones, hashes, stored codes and accounts, get the same answer and leave the same
  failure counters, if the counters agreed before.
\<close>

theorem unknown_account_looks_wrong:
  "(wrong_or_unknown now a s \<and> wrong_or_unknown now b t \<and>
     at_addr a = at_addr b \<and> at_gonow a = at_gonow b \<and> si_fails s = si_fails t \<and>
     AttemptSignIn (\<lambda>_. False) now (at_gonow a) (at_addr a) (at_phone a) (at_hash a) (at_code a) cfg s = (r, s') \<and>
     AttemptSignIn (\<lambda>_. False) now (at_gonow b) (at_addr b) (at_phone b) (at_hash b) (at_code b) cfg t = (r', t') \<longrightarrow>
       r = r' \<and> si_fails s' = si_fails t') \<and>
   (fst (verifyCodeWith (\<lambda>x. fault (SiCode x)) now gonow phone h code (si_codes s)) \<noteq> None \<longrightarrow>
     AttemptSignIn fault now gonow address phone h code cfg (s\<lparr>si_users := users\<rparr>) =
       map_prod id (\<lambda>s'. s'\<lparr>si_users := users\<rparr>) (AttemptSignIn fault now gonow address phone h code cfg s))"
proof (intro conjI impI)
  assume h: "wrong_or_unknown now a s \<and> wrong_or_unknown now b t \<and>
     at_addr a = at_addr b \<and> at_gonow a = at_gonow b \<and> si_fails s = si_fails t \<and>
     AttemptSignIn (\<lambda>_. False) now (at_gonow a) (at_addr a) (at_phone a) (at_hash a) (at_code a) cfg s = (r, s') \<and>
     AttemptSignIn (\<lambda>_. False) now (at_gonow b) (at_addr b) (at_phone b) (at_hash b) (at_code b) cfg t = (r', t')"
  then have w: "wrong_or_unknown now a s" "wrong_or_unknown now b t" by simp_all
  have "r = r' \<and> si_fails s' = si_fails t'"
  proof (cases "rl_enabled cfg")
    case True
    with h show ?thesis
      unfolding AttemptSignIn_def verify_and_charge_refused [OF w(1)] verify_and_charge_refused [OF w(2)] Let_def
      by (auto split: option.splits prod.splits if_splits)
  next
    case False
    with h wrong_or_unknown_unlimited [OF False w(1)] wrong_or_unknown_unlimited [OF False w(2)] show ?thesis by auto
  qed
  then show "r = r'" "si_fails s' = si_fails t'" by simp_all
qed (rule unverified_ignores_accounts)

definition valid_unknown :: sign_in_state where
  "valid_unknown = \<lparr>si_codes = [demo_row], si_fails = fmempty, si_users = {}\<rparr>"

theorem unknown_account_looks_wrong_witness:
  "wrong_or_unknown 12 demo_attempt valid_unknown \<and>
   (let (r, s') = AttemptSignIn (\<lambda>_. False) 12 10 (V4 7) ''1555'' ''07'' ''3'' SignInFailIP valid_unknown;
        (r', t') = AttemptSignIn (\<lambda>_. False) 12 10 (V4 7) ''1555'' ''07'' ''9'' SignInFailIP (valid_unknown\<lparr>si_users := {''1555''}\<rparr>)
    in r = r' \<and> si_fails s' = si_fails t')"
proof -
  let ?b = "demo_attempt\<lparr>at_code := ''9''\<rparr>" and ?t = "valid_unknown\<lparr>si_users := {''1555''}\<rparr>"
  have a: "wrong_or_unknown 12 demo_attempt valid_unknown" and b: "wrong_or_unknown 12 ?b ?t"
    by (simp_all add: wrong_or_unknown_def verifyCodeWith_def verify_read_def verify_write_def ConsumeCode_def
        consumable_def GetCodeByHash_def demo_attempt_def valid_unknown_def demo_row_def NormalizePhone_def codeTTL_def maxAttempts_def)
  obtain r s' where r: "AttemptSignIn (\<lambda>_. False) 12 10 (V4 7) ''1555'' ''07'' ''3'' SignInFailIP valid_unknown = (r, s')"
    by fastforce
  obtain r' t' where r': "AttemptSignIn (\<lambda>_. False) 12 10 (V4 7) ''1555'' ''07'' ''9'' SignInFailIP ?t = (r', t')"
    by fastforce
  have "r = r' \<and> si_fails s' = si_fails t'"
    using conjunct1 [OF unknown_account_looks_wrong [of 12 demo_attempt valid_unknown ?b ?t SignInFailIP r s' r' t']] a b r r'
    by (simp add: demo_attempt_def valid_unknown_def)
  with a r r' show ?thesis by simp
qed

end
