(* ===== verification/Spec2Isabelle.thy ===== *)
theory Spec2Isabelle
  imports Difference_Loop Serve Challenge_Store Discovery Framing Discovery_Limit Barrier_Inv Rpc_Outcomes Method_Budget Lookups Sign_In Filter_Recovery
begin

text \<open>
  A verification development of the server. Clients connect over TCP, are limited while nobody has
  signed in on them, exchange a key, and send encrypted frames; a frame is unwrapped and dispatched to
  a handler; handlers work on a PostgreSQL store that keeps, per account, an ordered log of updates;
  a client that was away asks for the difference since its last position. File names below are under
  \<open>src/internal\<close>.

  \<^bold>\<open>Shared vocabulary.\<close> \<open>Go_Prelude\<close> has the clock (an \<open>int\<close> of nanoseconds), Go maps (\<open>fmap\<close>), slices,
  byte streams, reachability \<open>reach\<close> and the locale \<open>invariant_machine\<close> (extended in \<open>Serve\<close> by
  \<open>stuttering_refinement\<close>: a machine whose steps are steps of another or change nothing of it).
  The interface locales are \<open>slot_pool\<close> (\<open>Slot_Pool\<close>: a limiter of live connections), \<open>fixed_window\<close>
  (\<open>Fixed_Window\<close>) and \<open>sliding_quota\<close> (\<open>Sliding_Quota\<close>). Each is interpreted on the limiters below, in
  the theory that defines them, and the bounds come from its lemmas.

  \<^bold>\<open>Connections\<close> (\<open>mtproto\<close>).
  \<^item> \<open>Net_Addr\<close>: \<open>store/send_code_ip.go\<close> (buckets), \<open>proxyproto.go\<close>, \<open>accept.go\<close>. The PROXY v2 reader
    inverts the header a balancer writes, and an address is never taken from an unlisted peer.
  \<^item> \<open>Pre_Auth\<close>, \<open>Unbound_Key\<close>, \<open>Pending_Login\<close>: the limiters of \<open>preauth.go\<close>, \<open>unboundkey.go\<close> and
    \<open>pendinglogin.go\<close>. Counters equal what live connections hold and stay below their caps.
  \<^item> \<open>Framing\<close>, \<open>Discovery\<close>, \<open>Discovery_Limit\<close>: the first bytes (\<open>obfuscated.go\<close>, \<open>preflight.go\<close>), the
    discovery messages (\<open>discovery/discovery.go\<close>) and their rate limit.
  \<^item> \<open>Sessions\<close>: the registry of \<open>sessions.go\<close>; its lists and counters agree, and its recovery ring lists
    what no removal naming another user has hit.
  \<^item> \<open>Rpc_Barrier\<close>, \<open>Barrier_Spec\<close>, \<open>Barrier_Inv\<close>, \<open>Rpc_Outcomes\<close>, \<open>Filter_Recovery\<close>, \<open>Conn\<close>: the state
    of one connection (\<open>send.go\<close>). The three slices of the sender-result barriers refine an abstract
    barrier; the push watermark moves only by the operations that may move it, a result by one step;
    a dependency is only found under the binding that produced it.
  \<^item> \<open>Dispatch\<close>, \<open>Frames\<close>, \<open>Rpc_Trace\<close>, \<open>Method_Budget\<close>: \<open>dispatch.go\<close>, \<open>handle.go\<close>, \<open>rpc_trace.go\<close>,
    \<open>unimplemented.go\<close> and \<open>api/unhandled.go\<close>. Unwrapping and frame handling return, handlers run after
    their dependencies, recorded spans are redacted and accounted for.
  \<^item> \<open>Serve\<close>: \<open>server.go\<close> and \<open>accept.go\<close> as one machine \<open>serve_step\<close> of all connections, the registry
    and the limiters, with the removal that a delivery makes after a failed push (\<open>api/notify.go\<close>); who
    receives deliveries and how much is held are invariants of every interleaving.

  \<^bold>\<open>Accounts\<close> (\<open>store\<close>, \<open>srp\<close>).
  \<^item> \<open>Login_Codes\<close>, \<open>Sign_In\<close>, \<open>Send_Code_IP\<close>, \<open>Lookups\<close>, \<open>Rate_Limits\<close>: \<open>codes.go\<close>, \<open>sign_in_fail.go\<close>,
    \<open>send_code_ip.go\<close>, \<open>phone_lookups.go\<close>, \<open>username_lookups.go\<close>, \<open>rate_limits.go\<close> and their statements.
    A code signs in once under any interleaving of verifications; guesses, sprays and windows are
    bounded, the two statements of a check interleaving with everything else; refunds are exact.
  \<^item> \<open>Srp\<close>, \<open>Challenge_Store\<close>: \<open>srp.go\<close> accepts a proof exactly when it was made from the password's
    verifier, and \<open>challenge.go\<close> lets a challenge be answered once.

  \<^bold>\<open>Messages\<close> (\<open>store\<close>, \<open>api\<close>).
  \<^item> \<open>Store_Db\<close>: the tables (one record \<open>database\<close>), the transactions \<open>tx\<close> and the statements of
    \<open>db/updatestate.sql.go\<close>, \<open>db/messages.sql.go\<close>, \<open>db/dialogs.sql.go\<close>, \<open>db/chats.sql.go\<close>. \<open>wp\<close> with the
    rules \<open>tx_wp\<close> is the calculus in which the transactions are verified.
  \<^item> \<open>Fan_Out\<close>: \<open>fanout.go\<close>, \<open>chats.go\<close>, \<open>chat_permissions.go\<close>. \<open>Messages\<close>: \<open>messages.go\<close>, \<open>dialogs.go\<close>,
    \<open>chat_read_history.go\<close>. \<open>Secret_Chats\<close>: \<open>secretchats.go\<close>, \<open>encrypted.go\<close>, \<open>api/encryption.go\<close>,
    \<open>api/encrypted.go\<close>. \<open>Peer_Hash\<close>: \<open>peerhash/peerhash.go\<close>, \<open>api/peers.go\<close>.
  \<^item> \<open>Update_Log\<close>, \<open>Log_Inv\<close>, \<open>Log_Ops\<close>, \<open>Log_Rewrites\<close>, \<open>Log_Chats\<close>, \<open>Secret_Inv\<close>: the invariants \<open>db_ok\<close>
    and \<open>secret_ok\<close>, the relation \<open>evolves\<close> between a database and a later one, and that every
    transaction keeps them.
  \<^item> \<open>Message_Store\<close>: the machine \<open>store_step\<close> over the list of committed databases. \<open>Resend\<close>,
    \<open>Store_Theorems\<close>, \<open>Secret_Theorems\<close>: what holds of every history: a resend answers with the original
    at its own pts, logs have no gap, both sides of a message agree, the pts of a stored message is
    always known, key exchanges only move forward, encrypted queues have no gap.
  \<^item> \<open>Wire_Messages\<close>, \<open>Difference\<close>, \<open>Difference_Loop\<close>: \<open>api/updates.go\<close>. The replies to a client that
    repeats getDifference carry every new message, edit and deletion above its position once and in
    order while the store goes on; one reply per \<open>maxDiffEvents\<close> (500) events leaves nothing to deliver.

  \<^bold>\<open>Steps, locks and faults.\<close> What runs under a mutex, in one statement or in one transaction that
  holds its advisory locks is one step. What a transaction reads before it holds them is an argument,
  and the store machine draws it from any database committed before; so is the order in which a Go map
  is visited (\<open>visits\<close>: some permutation). \<open>fault\<close> arguments stand for a failing statement, foreign key
  or commit; a read that fails outside a transaction answers with the error and writes nothing, and is
  not a branch of its own. A sequence number drawn in a transaction that rolls back is given out again
  in the model and skipped by PostgreSQL; no lemma rests on there being no gaps in chat, fan-out or
  secret chat ids.

  \<^bold>\<open>Bounds and hypotheses.\<close> There is no fuel. The loops that read client input (unwrapping in
  \<open>Dispatch\<close>, containers in \<open>Frames\<close>) are partial functions whose value None is not returning; that they
  return is proved, for decoders of gotd, which are parameters (\<open>tl_codec\<close>, \<open>frame_codec\<close>), that consume
  input (\<open>consuming\<close>, \<open>framed\<close>). \<open>ReadChatHistory\<close> is one round of its retry loop. Everything else is
  total. Fixed windows bound a span by twice their limit. Clocks do not run backwards; stored limits fit
  their columns (\<open>config_ok\<close>); deadlines are less than 146 years away (\<open>near\<close>), so no duration saturates;
  a connection starts fewer than \<open>2^64 - 1\<close> sends (\<open>id_left\<close>). Issuing a challenge draws at most 100 ids, as
  the code does; the SRP theorem needs a hash of 32 bytes. In the difference theorems, \<open>within\<close> and
  \<open>timely\<close> say that a request reads its state first and that no request starts before the one before it;
  \<open>reads_newest\<close>, that nothing is written any more.

  \<^bold>\<open>Not modelled.\<close>
  \<^item> Libraries: gotd's exchange, transports, ciphers and generated TL coding; pgx; HMAC, HKDF, SHA and
    the random source. Where modelled code calls them they are parameters.
  \<^item> \<open>exchange.go\<close>, \<open>websocket.go\<close>, \<open>pgkeystore.go\<close>: bindings of these libraries.
  \<^item> The other tables of the store (channels, polls, reactions, folders, uploads, contacts, accounts,
    the NOTIFY scheduler), \<open>SetChatAdmin\<close> with its state markers, and the row locks on polls in a delete.
  \<^item> Handlers that decode a request, call one store operation and render its result, and the hydration
    of users, chats and channels; a batch carries the ids they are loaded by.
  \<^item> Log lines and metrics, the admin pages, blob storage, the catalogue, configuration and start-up.
\<close>

end
